(* ===== verification/Prelude.thy ===== *)
theory Prelude
  imports Main "HOL-Library.AList"
begin

text \<open>
  Shared vocabulary of the development: fallible results, the sliding windows that the
  request governor, the throttle monitor and the rate limiter all keep, JavaScript object
  spread on association lists, and the two generic interfaces (a step system with an
  invariant, and a pruned window of timestamps) whose consequences the components reuse.
\<close>

named_theorems table_simps \<open>how the table operations of the store rewrite\<close>
named_theorems step_invariants \<open>every operation keeps its component's invariant\<close>

section \<open>Fallible results\<close>

text \<open>
  A source function that may throw returns \<open>Inl e\<close> for the error and \<open>Inr v\<close> for a value;
  a transaction that throws leaves no trace, so the state is part of the \<open>Inr\<close> value only.
\<close>

type_synonym ('e, 'a) result = "'e + 'a"

fun and_then :: "('e, 'a) result \<Rightarrow> ('a \<Rightarrow> ('e, 'b) result) \<Rightarrow> ('e, 'b) result" where
  "and_then (Inl e) f = Inl e"
| "and_then (Inr x) f = f x"

fun succeeded :: "('e, 'a) result \<Rightarrow> bool" where
  "succeeded (Inl e) = False"
| "succeeded (Inr x) = True"

lemma and_then_Inr_iff [simp]:
  "and_then r f = Inr y \<longleftrightarrow> (\<exists>x. r = Inr x \<and> f x = Inr y)"
  by (cases r) auto

lemma and_then_Inl_iff:
  "and_then r f = Inl e \<longleftrightarrow> r = Inl e \<or> (\<exists>x. r = Inr x \<and> f x = Inl e)"
  by (cases r) auto

lemma succeeded_iff: "succeeded r \<longleftrightarrow> (\<exists>x. r = Inr x)"
  by (cases r) auto

lemma and_then_split:
  "P (and_then r f) \<longleftrightarrow> (\<forall>e. r = Inl e \<longrightarrow> P (Inl e)) \<and> (\<forall>x. r = Inr x \<longrightarrow> P (f x))"
  by (cases r) auto

text \<open>A left fold that stops at the first error, as a loop whose body may throw does.\<close>

fun fold_result :: "('a \<Rightarrow> 's \<Rightarrow> ('e, 's) result) \<Rightarrow> 'a list \<Rightarrow> 's \<Rightarrow> ('e, 's) result" where
  "fold_result f [] s = Inr s"
| "fold_result f (x # xs) s = and_then (f x s) (fold_result f xs)"

lemma fold_result_invariant:
  assumes "\<And>x s s'. x \<in> set xs \<Longrightarrow> P s \<Longrightarrow> f x s = Inr s' \<Longrightarrow> P s'"
    and "P s" and "fold_result f xs s = Inr s'"
  shows "P s'"
  using assms
proof (induction xs arbitrary: s)
  case Nil
  then show ?case by simp
next
  case (Cons x xs)
  from Cons.prems(3) obtain t where t: "f x s = Inr t" "fold_result f xs t = Inr s'"
    by auto
  from Cons.prems(1) [of x s t] Cons.prems(2) t(1) have "P t" by simp
  have "\<And>y u u'. y \<in> set xs \<Longrightarrow> P u \<Longrightarrow> f y u = Inr u' \<Longrightarrow> P u'"
    using Cons.prems(1) by (meson list.set_intros(2))
  from Cons.IH [OF this \<open>P t\<close> t(2)] show ?case .
qed

section \<open>Numbers\<close>

text \<open>
  A JavaScript number that the code tests with \<open>Number.isSafeInteger\<close>: a safe integer, or something
  else (a fraction, \<open>NaN\<close>, an infinity, an integer beyond 2^53).
\<close>

datatype js_number = Safe_integer int | Other_number

text \<open>The ceiling on host calls that the request governor exports and the journal reads.\<close>

definition HOST_CALL_BUDGET_MAXIMUM :: int where
  "HOST_CALL_BUDGET_MAXIMUM = 60"

section \<open>Object spread\<close>

text \<open>
  \<open>{...base, ...patch}\<close> on association lists with the keys in insertion order: a key of the
  patch overwrites in place, a new key is appended.
\<close>

definition spread :: "('k \<times> 'v) list \<Rightarrow> ('k \<times> 'v) list \<Rightarrow> ('k \<times> 'v) list" where
  "spread base patch = fold (\<lambda>(k, v). AList.update k v) patch base"

lemma map_of_spread: "map_of (spread base patch) = map_of base ++ map_of (rev patch)"
proof (induction patch arbitrary: base)
  case Nil
  then show ?case by (simp add: spread_def)
next
  case (Cons p patch)
  obtain k v where p: "p = (k, v)" by (cases p)
  have "map_of (spread base (p # patch)) = map_of (AList.update k v base) ++ map_of (rev patch)"
    using Cons.IH [of "AList.update k v base"] by (simp add: spread_def p)
  then show ?case by (simp add: p update_conv' map_add_def fun_eq_iff split: option.split)
qed

lemma keys_spread: "fst ` set (spread base patch) = fst ` set base \<union> fst ` set patch"
proof (induction patch arbitrary: base)
  case Nil
  then show ?case by (simp add: spread_def)
next
  case (Cons p patch)
  obtain k v where p: "p = (k, v)" by (cases p)
  have "fst ` set (spread base (p # patch))
      = fst ` set (AList.update k v base) \<union> fst ` set patch"
    using Cons.IH [of "AList.update k v base"] by (simp add: spread_def p)
  also have "fst ` set (AList.update k v base) = insert k (fst ` set base)"
    by (induction base) auto
  finally show ?case by (simp add: p)
qed

section \<open>Tables\<close>

text \<open>
  A table is the list of its rows in rowid order. \<open>sel\<close> is a lookup by primary key,
  \<open>upd_where\<close> the effect of an \<open>UPDATE ... WHERE\<close> on the rows.
\<close>

definition sel :: "('r \<Rightarrow> 'k) \<Rightarrow> 'k \<Rightarrow> 'r list \<Rightarrow> 'r option" where
  "sel key k rows = find (\<lambda>r. key r = k) rows"

definition upd_where :: "('r \<Rightarrow> bool) \<Rightarrow> ('r \<Rightarrow> 'r) \<Rightarrow> 'r list \<Rightarrow> 'r list" where
  "upd_where P f rows = map (\<lambda>r. if P r then f r else r) rows"

lemma sel_Nil [simp]: "sel key k [] = None"
  by (simp add: sel_def)

lemma sel_Cons: "sel key k (r # rows) = (if key r = k then Some r else sel key k rows)"
  by (simp add: sel_def)

lemma sel_SomeD: "sel key k rows = Some r \<Longrightarrow> r \<in> set rows \<and> key r = k"
  by (auto simp: sel_def find_Some_iff)

lemma sel_None_iff: "sel key k rows = None \<longleftrightarrow> k \<notin> key ` set rows"
  by (auto simp: sel_def find_None_iff)

lemma sel_distinct: "distinct (map key rows) \<Longrightarrow> r \<in> set rows \<Longrightarrow> sel key (key r) rows = Some r"
  by (induction rows) (auto simp: sel_Cons)

lemma sel_append:
  "sel key k (xs @ ys) = (case sel key k xs of None \<Rightarrow> sel key k ys | Some r \<Rightarrow> Some r)"
  by (induction xs) (auto simp: sel_Cons)

lemma set_upd_where: "set (upd_where P f rows) = {f r | r. r \<in> set rows \<and> P r} \<union> {r \<in> set rows. \<not> P r}"
  by (auto simp: upd_where_def)

lemma in_upd_whereE:
  assumes "r \<in> set (upd_where P f rows)"
  obtains r' where "r' \<in> set rows" "P r'" "r = f r'" | "r \<in> set rows" "\<not> P r"
  using assms by (auto simp: upd_where_def split: if_splits)

lemma map_key_upd_where [table_simps]:
  "(\<And>r. key (f r) = key r) \<Longrightarrow> map key (upd_where P f rows) = map key rows"
  by (auto simp: upd_where_def)

lemma sel_upd_where [table_simps]:
  "(\<And>r. key (f r) = key r) \<Longrightarrow>
   sel key k (upd_where P f rows) = map_option (\<lambda>r. if P r then f r else r) (sel key k rows)"
  by (induction rows) (auto simp: upd_where_def sel_Cons)

lemma sel_upd_where_other:
  "(\<And>r. P r \<Longrightarrow> key r \<noteq> j \<and> key (f r) \<noteq> j) \<Longrightarrow> sel key j (upd_where P f rows) = sel key j rows"
  by (induction rows) (auto simp: upd_where_def sel_Cons)

lemma upd_where_none: "(\<And>r. r \<in> set rows \<Longrightarrow> \<not> P r) \<Longrightarrow> upd_where P f rows = rows"
  by (simp add: upd_where_def map_idI)

section \<open>Row lifecycles\<close>

text \<open>
  Rows of the durable tables are updated in place and appended, never reordered: row \<open>i\<close> of
  the old table has become row \<open>i\<close> of the new one, by a permitted move.
\<close>

definition follows :: "('r \<Rightarrow> 'r \<Rightarrow> bool) \<Rightarrow> 'r list \<Rightarrow> 'r list \<Rightarrow> bool" where
  "follows move xs ys \<longleftrightarrow> length xs \<le> length ys \<and> (\<forall>i<length xs. move (xs ! i) (ys ! i))"

text \<open>
  The interface of a lifecycle: the moves a row may make, closed under doing nothing and under
  composition, and keeping the primary key. The table operations then all yield \<open>follows\<close>.
\<close>

locale lifecycle =
  fixes key :: "'r \<Rightarrow> 'k"
    and move :: "'r \<Rightarrow> 'r \<Rightarrow> bool"
  assumes move_refl: "move r r"
    and move_trans: "move r s \<Longrightarrow> move s t \<Longrightarrow> move r t"
    and move_key: "move r s \<Longrightarrow> key s = key r"
begin

lemma follows_refl: "follows move xs xs"
  by (simp add: follows_def move_refl)

lemma follows_trans: "follows move xs ys \<Longrightarrow> follows move ys zs \<Longrightarrow> follows move xs zs"
  unfolding follows_def by (meson move_trans order_less_le_trans order_trans)

lemma follows_upd:
  "(\<And>r. r \<in> set xs \<Longrightarrow> P r \<Longrightarrow> move r (f r)) \<Longrightarrow> follows move xs (upd_where P f xs)"
  by (auto simp: follows_def upd_where_def move_refl)

lemma follows_append: "follows move xs (xs @ ys)"
  by (simp add: follows_def nth_append move_refl)

lemma follows_upd_append:
  "follows move xs ys \<Longrightarrow> follows move xs (ys @ zs)"
  by (rule follows_trans [OF _ follows_append])

lemma follows_keys: "follows move xs ys \<Longrightarrow> map key xs = map key (take (length xs) ys)"
  by (auto simp: follows_def list_eq_iff_nth_eq move_key min_def)

lemma follows_sel:
  assumes f: "follows move xs ys" and r: "sel key k xs = Some r"
  shows "\<exists>s. sel key k ys = Some s \<and> move r s"
  using assms
proof (induction xs arbitrary: ys)
  case Nil
  then show ?case by simp
next
  case (Cons x xs)
  from Cons.prems(1) obtain y ys' where ys: "ys = y # ys'"
    by (cases ys) (auto simp: follows_def)
  have m: "move x y" and f': "follows move xs ys'"
    using Cons.prems(1) by (auto simp: follows_def ys dest: spec [of _ 0] spec [of _ "Suc _"])
  show ?case
  proof (cases "key x = k")
    case True
    with Cons.prems(2) have "r = x" by (simp add: sel_Cons)
    with m True show ?thesis by (simp add: ys sel_Cons move_key)
  next
    case False
    with m have "key y \<noteq> k" by (simp add: move_key)
    with False Cons.IH [OF f'] Cons.prems(2) show ?thesis by (simp add: ys sel_Cons)
  qed
qed

lemma follows_in:
  "follows move xs ys \<Longrightarrow> r \<in> set xs \<Longrightarrow> \<exists>s\<in>set ys. move r s"
  unfolding follows_def by (metis in_set_conv_nth nth_mem order_less_le_trans)

end

section \<open>Windows of timestamps\<close>

text \<open>
  \<open>while (xs.length > 0 && xs[0] <= cutoff) xs.shift()\<close>: the front of the list is dropped
  while it is at or before the cut-off.
\<close>

fun shift_while_le :: "int \<Rightarrow> int list \<Rightarrow> int list" where
  "shift_while_le cutoff [] = []"
| "shift_while_le cutoff (t # ts) = (if t \<le> cutoff then shift_while_le cutoff ts else t # ts)"

lemma shift_while_le_dropWhile: "shift_while_le c ts = dropWhile (\<lambda>t. t \<le> c) ts"
  by (induction ts) auto

lemma set_shift_while_le: "set (shift_while_le c ts) \<subseteq> set ts"
  by (induction ts) auto

lemma length_shift_while_le: "length (shift_while_le c ts) \<le> length ts"
  by (induction ts) auto

lemma sorted_shift_while_le: "sorted ts \<Longrightarrow> sorted (shift_while_le c ts)"
  by (induction ts) auto

text \<open>On a sorted window the pruning loop keeps exactly the entries inside the window.\<close>

lemma shift_while_le_sorted_filter:
  "sorted ts \<Longrightarrow> shift_while_le c ts = filter (\<lambda>t. c < t) ts"
proof (induction ts)
  case Nil
  then show ?case by simp
next
  case (Cons t ts)
  show ?case
  proof (cases "t \<le> c")
    case True
    with Cons show ?thesis by simp
  next
    case False
    with Cons.prems have "\<forall>u\<in>set ts. c < u" by fastforce
    with False show ?thesis by simp
  qed
qed

lemma shift_while_le_append_newest:
  "c < t \<Longrightarrow> shift_while_le c (ts @ [t]) = shift_while_le c ts @ [t]"
  by (induction ts) auto

lemma shift_while_le_Nil_iff: "shift_while_le c ts = [] \<longleftrightarrow> (\<forall>t\<in>set ts. t \<le> c)"
  by (induction ts) auto

section \<open>Step systems with an invariant\<close>

text \<open>
  The interface of every stateful component: which states are initial, which steps the code
  can take, and an invariant that holds initially and is kept by every step.
\<close>

locale step_system =
  fixes init :: "'s \<Rightarrow> bool"
    and step :: "'s \<Rightarrow> 's \<Rightarrow> bool"
    and inv :: "'s \<Rightarrow> bool"
  assumes init_inv: "init s \<Longrightarrow> inv s"
    and step_inv: "inv s \<Longrightarrow> step s t \<Longrightarrow> inv t"
begin

lemma steps_inv: "step\<^sup>*\<^sup>* s t \<Longrightarrow> inv s \<Longrightarrow> inv t"
  by (induction rule: rtranclp_induct) (auto intro: step_inv)

lemma reachable_inv: "init s \<Longrightarrow> step\<^sup>*\<^sup>* s t \<Longrightarrow> inv t"
  by (blast intro: init_inv steps_inv)

end


section \<open>One-use claims\<close>

text \<open>
  The interface of a claim that may succeed once: a successful claim spends the key, no later
  state of the store un-spends it, and a spent key refuses every further claim.
\<close>

locale one_use =
  fixes ok :: "'s \<Rightarrow> bool"
    and later :: "'s \<Rightarrow> 's \<Rightarrow> bool"
    and claim :: "'k \<Rightarrow> 's \<Rightarrow> 's \<Rightarrow> bool"
    and spent :: "'k \<Rightarrow> 's \<Rightarrow> bool"
  assumes claim_later: "ok d \<Longrightarrow> claim k d d' \<Longrightarrow> later d d'"
    and claim_spends: "ok d \<Longrightarrow> claim k d d' \<Longrightarrow> spent k d'"
    and later_spent: "ok d \<Longrightarrow> later d d' \<Longrightarrow> spent k d \<Longrightarrow> spent k d'"
    and later_ok: "later d d' \<Longrightarrow> ok d'"
    and spent_refuses: "ok d \<Longrightarrow> spent k d \<Longrightarrow> \<not> claim k d d'"
begin

lemma spent_forever: "later\<^sup>*\<^sup>* d d' \<Longrightarrow> ok d \<Longrightarrow> spent k d \<Longrightarrow> ok d' \<and> spent k d'"
  by (induction rule: rtranclp_induct) (auto intro: later_spent later_ok)

lemma at_most_once:
  assumes "ok d" and "claim k d d1" and "later\<^sup>*\<^sup>* d1 d2"
  shows "\<not> claim k d2 d3"
  using assms claim_later claim_spends later_ok spent_forever spent_refuses by metis

end

end
