(* ===== verification/Policy.thy ===== *)
theory Policy
  imports Prelude
begin

text \<open>
  The permission policy (\<open>src/src/harness/permissions.ts\<close>) and the risk classes
  (\<open>src/src/harness/risk.ts\<close>): which feature groups an admin may read and write, how a patch
  of a policy is merged and validated, and which risk labels force a button confirmation.
  A policy object is an association list in insertion order, so that a group or a level the
  schema does not know is representable and the strict validation has something to refuse.
\<close>

section \<open>Feature groups and policies\<close>

definition FEATURE_GROUPS :: "string list" where
  "FEATURE_GROUPS =
     [''time_tracking'', ''work_structure'', ''reports'', ''invoices'', ''expenses'',
      ''users_groups'', ''time_off_approvals'', ''scheduling'', ''webhooks'',
      ''workspace_settings'', ''custom_fields'', ''approvals'', ''audit_log'']"

definition permissionLevelSchema :: "string \<Rightarrow> bool" where
  "permissionLevelSchema l \<longleftrightarrow> l \<in> {''off'', ''read'', ''read_write''}"

record AdminPolicy =
  version :: int
  groups :: "(string \<times> string) list"

definition CURRENT_POLICY_VERSION :: int where
  "CURRENT_POLICY_VERSION = 2"

text \<open>
  The strict schema: a positive integer version, every group present with a known level, and
  no other key.
\<close>

definition adminPolicySchema :: "AdminPolicy \<Rightarrow> bool" where
  "adminPolicySchema p \<longleftrightarrow>
     0 < version p
     \<and> list_all (\<lambda>g. case map_of (groups p) g of None \<Rightarrow> False
                      | Some l \<Rightarrow> permissionLevelSchema l) FEATURE_GROUPS
     \<and> list_all (\<lambda>(g, l). g \<in> set FEATURE_GROUPS) (groups p)"

datatype policy_error = ZodError

definition parse_policy :: "AdminPolicy \<Rightarrow> (policy_error, AdminPolicy) result" where
  "parse_policy p = (if adminPolicySchema p then Inr p else Inl ZodError)"

definition defaultAdminPolicy :: AdminPolicy where
  "defaultAdminPolicy =
     \<lparr>version = CURRENT_POLICY_VERSION, groups = map (\<lambda>g. (g, ''read_write'')) FEATURE_GROUPS\<rparr>"

definition canRead :: "AdminPolicy \<Rightarrow> string \<Rightarrow> bool" where
  "canRead p g =
     (case map_of (groups p) g of None \<Rightarrow> False
      | Some level \<Rightarrow> level = ''read'' \<or> level = ''read_write'')"

definition canWrite :: "AdminPolicy \<Rightarrow> string \<Rightarrow> bool" where
  "canWrite p g = (map_of (groups p) g = Some ''read_write'')"

definition applyPolicyPatch ::
  "AdminPolicy \<Rightarrow> (string \<times> string) list \<Rightarrow> (policy_error, AdminPolicy) result" where
  "applyPolicyPatch p patch =
     parse_policy \<lparr>version = version p, groups = spread (groups p) patch\<rparr>"

section \<open>Risk labels\<close>

datatype RiskLabel =
    Risk_read
  | Risk_safe_write
  | Risk_high_risk_write
  | Risk_destructive
  | Risk_billing
  | Risk_payment
  | Risk_permission_change
  | Risk_external_side_effect
  | Risk_bulk

definition CONFIRMATION_REQUIRED :: "RiskLabel list" where
  "CONFIRMATION_REQUIRED =
     [Risk_high_risk_write, Risk_destructive, Risk_billing, Risk_payment,
      Risk_permission_change, Risk_external_side_effect, Risk_bulk]"

definition requiresConfirmation :: "RiskLabel list \<Rightarrow> bool" where
  "requiresConfirmation risks = list_ex (\<lambda>r. r \<in> set CONFIRMATION_REQUIRED) risks"

definition isSafeWrite :: "RiskLabel list \<Rightarrow> bool" where
  "isSafeWrite risks \<longleftrightarrow> Risk_safe_write \<in> set risks \<and> \<not> requiresConfirmation risks"

section \<open>Lemmas\<close>

lemma canWrite_canRead: "canWrite p g \<Longrightarrow> canRead p g"
  by (simp add: canWrite_def canRead_def)

lemma applyPolicyPatch_Inr:
  "applyPolicyPatch p patch = Inr q \<longleftrightarrow>
     q = \<lparr>version = version p, groups = spread (groups p) patch\<rparr> \<and> adminPolicySchema q"
  by (auto simp: applyPolicyPatch_def parse_policy_def)

lemma adminPolicySchema_level:
  assumes "adminPolicySchema p" and "g \<in> set FEATURE_GROUPS"
  shows "\<exists>l. map_of (groups p) g = Some l \<and> permissionLevelSchema l"
  using assms by (auto simp: adminPolicySchema_def list_all_iff split: option.splits)

lemma map_of_default_groups:
  "map_of (map (\<lambda>g. (g, v)) gs) g = (if g \<in> set gs then Some v else None)"
  by (induction gs) auto

lemma defaultAdminPolicy_valid: "adminPolicySchema defaultAdminPolicy"
  by (auto simp: adminPolicySchema_def defaultAdminPolicy_def CURRENT_POLICY_VERSION_def
      map_of_default_groups permissionLevelSchema_def list_all_iff)

text \<open>
  What a patch does to a policy it is accepted for: the result is valid, a group named in the
  patch takes the patch's (last) level, every other group keeps its level, and the version is
  untouched; and a patch is accepted exactly when it names only known groups and levels.
\<close>

lemma spread_lookup:
  "map_of (spread base patch) k =
     (case map_of (rev patch) k of None \<Rightarrow> map_of base k | Some v \<Rightarrow> Some v)"
  by (simp add: map_of_spread map_add_def)

lemma map_of_rev_distinct: "distinct (map fst ps) \<Longrightarrow> map_of (rev ps) = map_of ps"
proof
  fix k
  assume d: "distinct (map fst ps)"
  then have d': "distinct (map fst (rev ps))" by (simp add: rev_map [symmetric])
  show "map_of (rev ps) k = map_of ps k"
    using map_of_eq_Some_iff [OF d, of k] map_of_eq_Some_iff [OF d', of k]
    by (metis option.exhaust set_rev)
qed

definition patch_well_formed :: "(string \<times> string) list \<Rightarrow> bool" where
  "patch_well_formed patch \<longleftrightarrow>
     distinct (map fst patch)
     \<and> list_all (\<lambda>(g, l). g \<in> set FEATURE_GROUPS \<and> permissionLevelSchema l) patch"

lemma valid_patch_accepted:
  assumes "adminPolicySchema p" and "patch_well_formed patch"
  shows "adminPolicySchema \<lparr>version = version p, groups = spread (groups p) patch\<rparr>"
proof -
  let ?m = "spread (groups p) patch"
  have lookup: "map_of ?m g = (case map_of patch g of None \<Rightarrow> map_of (groups p) g | Some l \<Rightarrow> Some l)" for g
    using assms(2) by (simp add: spread_lookup patch_well_formed_def map_of_rev_distinct)
  have "\<exists>l. map_of ?m g = Some l \<and> permissionLevelSchema l" if "g \<in> set FEATURE_GROUPS" for g
  proof (cases "map_of patch g")
    case None
    with lookup adminPolicySchema_level [OF assms(1) that] show ?thesis by simp
  next
    case (Some l)
    then have "(g, l) \<in> set patch" by (rule map_of_SomeD)
    with assms(2) lookup Some show ?thesis by (auto simp: patch_well_formed_def list_all_iff)
  qed
  moreover have "fst ` set ?m \<subseteq> set FEATURE_GROUPS"
    using assms by (auto simp: keys_spread adminPolicySchema_def patch_well_formed_def list_all_iff)
  ultimately show ?thesis
    using assms(1) by (fastforce simp: adminPolicySchema_def list_all_iff)
qed

end
