(* ===== verification/JsValue.thy ===== *)
theory JsValue
  imports Prelude "HOL-Library.Char_ord" "HOL-Library.List_Lexorder"
begin

text \<open>
  The JavaScript values that cross the store boundary, and the part of the standard library
  the store uses on them: property lookup, \<open>JSON.stringify\<close> and its UTF-8 byte length.

  A string is the list of its UTF-8 bytes, so \<open>length\<close> is the byte count that
  \<open>Buffer.byteLength\<close> returns; \<open>slice\<close> and \<open>.length\<close>, which count UTF-16 code units, agree
  with \<open>take\<close> and \<open>length\<close> on ASCII text, which is the text the model is exact for. Numbers
  are the integers and one non-finite value; fractional numbers, cyclic values and instances of classes
  such as \<open>Date\<close> and \<open>Map\<close> are not represented. An object is its entries in insertion order with distinct
  keys; JavaScript enumerates keys that are array indices before the others, which is not represented either.
\<close>

datatype jsv =
    JUndef
  | JNull
  | JBool bool
  | JNum int
  | JNonFinite
  | JStr string
  | JBytes "nat list"
  | JOther
  | JArr "jsv list"
  | JObj "(string \<times> jsv) list"

section \<open>Type tests and property access\<close>

text \<open>\<open>x && typeof x === "object"\<close>: an array or binary value is an object too.\<close>

fun is_object_like :: "jsv \<Rightarrow> bool" where
  "is_object_like (JArr _) = True"
| "is_object_like (JObj _) = True"
| "is_object_like (JBytes _) = True"
| "is_object_like _ = False"

text \<open>\<open>x && typeof x === "object" && !Array.isArray(x)\<close>.\<close>

fun is_record :: "jsv \<Rightarrow> bool" where
  "is_record (JObj _) = True"
| "is_record (JBytes _) = True"
| "is_record _ = False"

fun entries_of :: "jsv \<Rightarrow> (string \<times> jsv) list" where
  "entries_of (JObj es) = es"
| "entries_of _ = []"

text \<open>\<open>v.key\<close>, \<open>undefined\<close> when there is no such own property.\<close>

definition getp :: "string \<Rightarrow> jsv \<Rightarrow> jsv" where
  "getp k v = (case map_of (entries_of v) k of None \<Rightarrow> JUndef | Some x \<Rightarrow> x)"

definition has_own :: "string \<Rightarrow> jsv \<Rightarrow> bool" where
  "has_own k v = (map_of (entries_of v) k \<noteq> None)"

fun as_string :: "jsv \<Rightarrow> string option" where
  "as_string (JStr s) = Some s"
| "as_string _ = None"

fun as_array :: "jsv \<Rightarrow> jsv list option" where
  "as_array (JArr xs) = Some xs"
| "as_array _ = None"

fun as_int :: "jsv \<Rightarrow> int option" where
  "as_int (JNum n) = Some n"
| "as_int _ = None"

lemma getp_simps [simp]:
  "getp k (JObj es) = (case map_of es k of None \<Rightarrow> JUndef | Some x \<Rightarrow> x)"
  "getp k JUndef = JUndef" "getp k JNull = JUndef" "getp k (JArr xs) = JUndef"
  "getp k (JStr s) = JUndef" "getp k (JNum n) = JUndef" "getp k (JBool b) = JUndef"
  by (simp_all add: getp_def)

section \<open>Decimal numbers and JSON text\<close>

fun nat_digits :: "nat \<Rightarrow> string" where
  "nat_digits n =
     (if n < 10 then [char_of (48 + n)] else nat_digits (n div 10) @ [char_of (48 + n mod 10)])"

declare nat_digits.simps [simp del]

definition int_text :: "int \<Rightarrow> string" where
  "int_text n = (if n < 0 then CHR ''-'' # nat_digits (nat (- n)) else nat_digits (nat n))"

definition hex_digit :: "nat \<Rightarrow> char" where
  "hex_digit n = char_of (if n < 10 then 48 + n else 87 + n)"

text \<open>The escapes of \<open>JSON.stringify\<close> for one character.\<close>

text \<open>The characters copied as they are: not a control character, a quote or a backslash.\<close>

fun plain_char :: "char \<Rightarrow> bool" where
  "plain_char (Char b0 b1 b2 b3 b4 b5 b6 b7) \<longleftrightarrow>
     (b5 \<or> b6 \<or> b7)
     \<and> \<not> (\<not> b0 \<and> b1 \<and> \<not> b2 \<and> \<not> b3 \<and> \<not> b4 \<and> b5 \<and> \<not> b6 \<and> \<not> b7)
     \<and> \<not> (\<not> b0 \<and> \<not> b1 \<and> b2 \<and> b3 \<and> b4 \<and> \<not> b5 \<and> b6 \<and> \<not> b7)"

definition json_escape :: "char \<Rightarrow> string" where
  "json_escape c =
     (let n = (of_char c :: nat) in
      if n = 34 then [char_of (92::nat), c]
      else if n = 92 then [char_of (92::nat), c]
      else if n = 8 then [char_of (92::nat), CHR ''b'']
      else if n = 9 then [char_of (92::nat), CHR ''t'']
      else if n = 10 then [char_of (92::nat), CHR ''n'']
      else if n = 12 then [char_of (92::nat), CHR ''f'']
      else if n = 13 then [char_of (92::nat), CHR ''r'']
      else if n < 32 then [char_of (92::nat), CHR ''u'', CHR ''0'', CHR ''0'', hex_digit (n div 16), hex_digit (n mod 16)]
      else [c])"

definition json_char :: "char \<Rightarrow> string" where
  "json_char c = (if plain_char c then [c] else json_escape c)"

lemma plain_char_iff: "plain_char c \<longleftrightarrow> (of_char c :: nat) \<ge> 32 \<and> of_char c \<noteq> (34::nat) \<and> of_char c \<noteq> (92::nat)"
  by (cases c) (auto simp: of_char_def)

lemma json_char_escape: "json_char c = json_escape c"
  by (auto simp: json_char_def json_escape_def plain_char_iff Let_def)

definition json_string :: "string \<Rightarrow> string" where
  "json_string s = [char_of (34::nat)] @ concat (map json_char s) @ [char_of (34::nat)]"

fun join :: "string \<Rightarrow> string list \<Rightarrow> string" where
  "join sep [] = []"
| "join sep [x] = x"
| "join sep (x # y # xs) = x @ sep @ join sep (y # xs)"

text \<open>
  \<open>JSON.stringify\<close>: \<open>None\<close> is the result \<open>undefined\<close>. An undefined member of an object is
  left out, an undefined element of an array is \<open>null\<close>, a non-finite number is \<open>null\<close>.
\<close>

fun stringify :: "jsv \<Rightarrow> string option"
  and stringify_elements :: "jsv list \<Rightarrow> string list"
  and stringify_members :: "(string \<times> jsv) list \<Rightarrow> string list"
where
  "stringify JUndef = None"
| "stringify JOther = None"
| "stringify JNull = Some ''null''"
| "stringify (JBool b) = Some (if b then ''true'' else ''false'')"
| "stringify (JNum n) = Some (int_text n)"
| "stringify JNonFinite = Some ''null''"
| "stringify (JStr s) = Some (json_string s)"
| "stringify (JBytes bs) =
     Some (''{'' @ join '','' (map (\<lambda>(i, b). json_string (nat_digits i) @ '':'' @ nat_digits b)
                              (List.enumerate 0 bs)) @ ''}'')"
| "stringify (JArr xs) = Some (''['' @ join '','' (stringify_elements xs) @ '']'')"
| "stringify (JObj es) = Some (''{'' @ join '','' (stringify_members es) @ ''}'')"
| "stringify_elements [] = []"
| "stringify_elements (x # xs) =
     (case stringify x of None \<Rightarrow> ''null'' | Some t \<Rightarrow> t) # stringify_elements xs"
| "stringify_members [] = []"
| "stringify_members ((k, v) # es) =
     (case stringify v of None \<Rightarrow> stringify_members es
      | Some t \<Rightarrow> (json_string k @ '':'' @ t) # stringify_members es)"

text \<open>A value that \<open>JSON.parse\<close> can return.\<close>

fun is_json :: "jsv \<Rightarrow> bool"
where
  "is_json JUndef = False"
| "is_json JOther = False"
| "is_json JNonFinite = False"
| "is_json (JBytes _) = False"
| "is_json (JArr xs) = list_all is_json xs"
| "is_json (JObj es) = list_all (\<lambda>(k, v). is_json v) es"
| "is_json _ = True"

text \<open>\<open>JSON.parse(JSON.stringify(v))\<close> on a value that has a text.\<close>

fun json_clone :: "jsv \<Rightarrow> jsv option"
  and json_clone_elements :: "jsv list \<Rightarrow> jsv list"
  and json_clone_members :: "(string \<times> jsv) list \<Rightarrow> (string \<times> jsv) list"
where
  "json_clone JUndef = None"
| "json_clone JOther = None"
| "json_clone JNull = Some JNull"
| "json_clone (JBool b) = Some (JBool b)"
| "json_clone (JNum n) = Some (JNum n)"
| "json_clone JNonFinite = Some JNull"
| "json_clone (JStr s) = Some (JStr s)"
| "json_clone (JBytes bs) =
     Some (JObj (map (\<lambda>(i, b). (nat_digits i, JNum (int b))) (List.enumerate 0 bs)))"
| "json_clone (JArr xs) = Some (JArr (json_clone_elements xs))"
| "json_clone (JObj es) = Some (JObj (json_clone_members es))"
| "json_clone_elements [] = []"
| "json_clone_elements (x # xs) =
     (case json_clone x of None \<Rightarrow> JNull | Some y \<Rightarrow> y) # json_clone_elements xs"
| "json_clone_members [] = []"
| "json_clone_members ((k, v) # es) =
     (case json_clone v of None \<Rightarrow> json_clone_members es
      | Some y \<Rightarrow> (k, y) # json_clone_members es)"

lemma stringify_None_iff [simp]: "stringify v = None \<longleftrightarrow> v = JUndef \<or> v = JOther"
  by (cases v) auto

lemma json_clone_None_iff [simp]: "json_clone v = None \<longleftrightarrow> v = JUndef \<or> v = JOther"
  by (cases v) auto

lemma json_clone_is_json_aux:
  "(\<forall>y. json_clone v = Some y \<longrightarrow> is_json y)"
  "list_all is_json (json_clone_elements xs)"
  "list_all (\<lambda>(k, v). is_json v) (json_clone_members es)"
  by (induction v and xs and es rule: json_clone_json_clone_elements_json_clone_members.induct)
    (auto simp: list_all_iff split: option.splits)

lemma json_clone_is_json: "json_clone v = Some y \<Longrightarrow> is_json y"
  using json_clone_is_json_aux(1) by blast

text \<open>Cloning a value that is JSON already is the identity.\<close>

lemma json_clone_id_aux:
  "is_json v \<longrightarrow> json_clone v = Some v"
  "list_all is_json xs \<longrightarrow> json_clone_elements xs = xs"
  "list_all (\<lambda>(k, v). is_json v) es \<longrightarrow> json_clone_members es = es"
  by (induction v and xs and es rule: json_clone_json_clone_elements_json_clone_members.induct)
    (auto split: option.splits)

lemma json_clone_id: "is_json v \<Longrightarrow> json_clone v = Some v"
  using json_clone_id_aux(1) by blast

lemma length_join:
  "length (join sep xs) = sum_list (map length xs) + (length xs - 1) * length sep"
  by (induction sep xs rule: join.induct) auto

end
