(* ===== verification/RunLedger.thy ===== *)
theory RunLedger
  imports JsValue
begin

text \<open>
  The budgets of an assistant run: the ceilings and the token preflight of
  \<open>src/src/assistant-v2/budgets.ts\<close>, the budget record of \<open>src/src/assistant-v2/state.ts\<close>, the rows
  of \<open>assistant_runs\<close> and the three conditional updates of \<open>src/src/db/store.ts\<close> that charge, refund
  and convert physical host calls. Counters are JavaScript numbers, kept as integers.
\<close>

section \<open>Run budgets\<close>

record RunBudget =
  modelCallsUsed :: int
  discoveryCallsUsed :: int
  apiCallsUsed :: int
  hostCallsUsed :: int
  hostCallsReserved :: int
  promptTokensUsed :: int
  completionTokensUsed :: int
  estimatedTokensUsed :: int
  activeWallMsUsed :: int

definition createEmptyRunBudget :: RunBudget where
  "createEmptyRunBudget = \<lparr>modelCallsUsed = 0, discoveryCallsUsed = 0, apiCallsUsed = 0,
     hostCallsUsed = 0, hostCallsReserved = 0, promptTokensUsed = 0, completionTokensUsed = 0,
     estimatedTokensUsed = 0, activeWallMsUsed = 0\<rparr>"

definition totalChargedTokens :: "RunBudget \<Rightarrow> int" where
  "totalChargedTokens b = promptTokensUsed b + completionTokensUsed b + estimatedTokensUsed b"

record limits =
  maxModelCalls :: int
  maxDiscoveryCalls :: int
  maxLoadedApiTools :: int
  maxApiCalls :: int
  maxConcurrentReads :: int
  maxActiveWriteBatches :: int
  maxHostCalls :: int
  maxWallClockMs :: int
  maxTotalTokens :: int
  maxOutputTokensPerCall :: int

definition V2_LIMITS :: limits where
  "V2_LIMITS = \<lparr>maxModelCalls = 6, maxDiscoveryCalls = 4, maxLoadedApiTools = 12, maxApiCalls = 12,
     maxConcurrentReads = 4, maxActiveWriteBatches = 1, maxHostCalls = 60, maxWallClockMs = 300000,
     maxTotalTokens = 64000, maxOutputTokensPerCall = 8192\<rparr>"

text \<open>The override of the host-call ceiling.\<close>

fun resolveHostCallCeiling :: "js_number option \<Rightarrow> (string, int) result" where
  "resolveHostCallCeiling None = Inr (maxHostCalls V2_LIMITS)"
| "resolveHostCallCeiling (Some Other_number) = Inl ''invalid_budget_override''"
| "resolveHostCallCeiling (Some (Safe_integer c)) =
     (if c < 0 \<or> maxHostCalls V2_LIMITS < c then Inl ''invalid_budget_override'' else Inr c)"

section \<open>Tokens\<close>

datatype ModelPreflightResult =
    Preflight_ok (maxOutputTokens: int) (inputReserve: int) (perAttemptAllowance: int)
  | Preflight_exhausted

definition preflightModelRequest :: "RunBudget \<Rightarrow> int \<Rightarrow> ModelPreflightResult" where
  "preflightModelRequest b serializedRequestUtf8Bytes =
     (let remainingTokens = maxTotalTokens V2_LIMITS - totalChargedTokens b;
          reserve = serializedRequestUtf8Bytes;
          allowance = remainingTokens div 2 in
      if allowance \<le> reserve then Preflight_exhausted
      else Preflight_ok (min (maxOutputTokensPerCall V2_LIMITS) (allowance - reserve)) reserve allowance)"

record ProviderUsageCharge =
  promptTokens :: int
  completionTokens :: int

fun chargeSuccessfulModelAttempt ::
  "RunBudget \<Rightarrow> ProviderUsageCharge option \<Rightarrow> int \<Rightarrow> int \<Rightarrow> RunBudget" where
  "chargeSuccessfulModelAttempt b (Some u) requestBytes responseBytes =
     b\<lparr>promptTokensUsed := promptTokensUsed b + promptTokens u,
       completionTokensUsed := completionTokensUsed b + completionTokens u\<rparr>"
| "chargeSuccessfulModelAttempt b None requestBytes responseBytes =
     b\<lparr>estimatedTokensUsed := estimatedTokensUsed b + (requestBytes + responseBytes)\<rparr>"

definition chargeFailedModelAttempt :: "RunBudget \<Rightarrow> int \<Rightarrow> int \<Rightarrow> RunBudget" where
  "chargeFailedModelAttempt b reserve output =
     b\<lparr>estimatedTokensUsed := estimatedTokensUsed b + reserve + output\<rparr>"

definition canReserveModelCall :: "RunBudget \<Rightarrow> bool" where
  "canReserveModelCall b \<longleftrightarrow> modelCallsUsed b < maxModelCalls V2_LIMITS"

definition canReserveDiscoveryCall :: "RunBudget \<Rightarrow> bool" where
  "canReserveDiscoveryCall b \<longleftrightarrow> discoveryCallsUsed b < maxDiscoveryCalls V2_LIMITS"

definition canReserveHostCalls :: "RunBudget \<Rightarrow> int \<Rightarrow> bool" where
  "canReserveHostCalls b count \<longleftrightarrow> hostCallsUsed b + hostCallsReserved b + count \<le> maxHostCalls V2_LIMITS"

definition reserveHostCalls :: "RunBudget \<Rightarrow> int \<Rightarrow> RunBudget" where
  "reserveHostCalls b count = b\<lparr>hostCallsReserved := hostCallsReserved b + count\<rparr>"

definition releaseHostCallReservation :: "RunBudget \<Rightarrow> int \<Rightarrow> RunBudget" where
  "releaseHostCallReservation b count = b\<lparr>hostCallsReserved := max 0 (hostCallsReserved b - count)\<rparr>"

definition isActiveWallBudgetExceeded :: "RunBudget \<Rightarrow> bool" where
  "isActiveWallBudgetExceeded b \<longleftrightarrow> maxWallClockMs V2_LIMITS \<le> activeWallMsUsed b"

definition isTokenBudgetExceeded :: "RunBudget \<Rightarrow> bool" where
  "isTokenBudgetExceeded b \<longleftrightarrow> maxTotalTokens V2_LIMITS \<le> totalChargedTokens b"

text \<open>Two attempts of one logical call, each charged at most its reservation, stay in the budget.\<close>

lemma preflight_ok_iff:
  "preflightModelRequest b n = Preflight_ok out reserve allowance \<longleftrightarrow>
     reserve = n \<and> allowance = (maxTotalTokens V2_LIMITS - totalChargedTokens b) div 2 \<and> n < allowance
     \<and> out = min (maxOutputTokensPerCall V2_LIMITS) (allowance - n)"
  by (auto simp: preflightModelRequest_def Let_def)

lemma preflight_reserves_two_attempts:
  assumes "preflightModelRequest b n = Preflight_ok out reserve allowance"
  shows "0 < out \<and> out \<le> maxOutputTokensPerCall V2_LIMITS
    \<and> totalChargedTokens b + 2 * (reserve + out) \<le> maxTotalTokens V2_LIMITS"
proof -
  have "out \<le> allowance - reserve" "0 < out" "out \<le> maxOutputTokensPerCall V2_LIMITS"
    "2 * allowance \<le> maxTotalTokens V2_LIMITS - totalChargedTokens b"
    using assms by (auto simp: preflight_ok_iff V2_LIMITS_def)
  then show ?thesis by auto
qed

lemma failed_attempt_tokens:
  "totalChargedTokens (chargeFailedModelAttempt b reserve out) = totalChargedTokens b + reserve + out"
  by (simp add: totalChargedTokens_def chargeFailedModelAttempt_def)

lemma successful_attempt_tokens:
  "totalChargedTokens (chargeSuccessfulModelAttempt b usage requestBytes responseBytes)
   = totalChargedTokens b + (case usage of Some u \<Rightarrow> promptTokens u + completionTokens u
                                        | None \<Rightarrow> requestBytes + responseBytes)"
  by (cases usage) (simp_all add: totalChargedTokens_def)

lemma two_attempts_within_budget:
  assumes pre: "preflightModelRequest b n = Preflight_ok out reserve allowance"
    and first: "b1 = b \<or> b1 = chargeFailedModelAttempt b reserve out"
    and n: "0 \<le> n"
    and usage: "promptTokens u + completionTokens u \<le> reserve + out"
  shows "totalChargedTokens (chargeSuccessfulModelAttempt b1 (Some u) n responseBytes) \<le> maxTotalTokens V2_LIMITS"
proof -
  have r: "totalChargedTokens b + 2 * (reserve + out) \<le> maxTotalTokens V2_LIMITS" "0 \<le> reserve + out"
    using pre n preflight_reserves_two_attempts [OF pre] by (simp_all add: preflight_ok_iff)
  from first show ?thesis
    using r usage successful_attempt_tokens [of b1 "Some u" n responseBytes] failed_attempt_tokens [of b reserve out]
    by auto
qed

section \<open>The durable ledger of host calls\<close>

datatype RunContinuation =
    Cont_none
  | Awaiting_operations (operationIds: "string list") (contBatchId: "string option")
  | Cont_awaiting_clarification (clarificationId: string)

datatype UnfinishedReason =
  U_pending_confirmation | U_dependency | U_budget | U_definitive_failure | U_outcome_unknown

record UnfinishedOperation =
  u_id :: string
  u_operationId :: "string option"
  u_actionName :: string
  u_reason :: UnfinishedReason

datatype Phase =
  Ph_model | Ph_discovering | Ph_executing_reads | Ph_preparing_writes | Ph_awaiting_confirmation
  | Ph_awaiting_clarification | Ph_completed | Ph_failed

definition isTerminalPhase :: "Phase \<Rightarrow> bool" where
  "isTerminalPhase p \<longleftrightarrow> p \<in> {Ph_completed, Ph_failed}"

definition isActivePhase :: "Phase \<Rightarrow> bool" where
  "isActivePhase p \<longleftrightarrow> p \<in> {Ph_model, Ph_discovering, Ph_executing_reads, Ph_preparing_writes}"

record AssistantRunScope =
  sc_session :: string
  sc_run :: string
  sc_workspace :: string
  sc_admin :: string
  sc_generation :: int
  sc_authClass :: string

record AssistantRun =
  ar_scope :: AssistantRunScope
  ar_original_request :: string
  ar_request_hash :: string
  ar_phase :: Phase
  ar_registry_id :: string
  ar_catalog_hash :: string
  ar_loaded_tool_names :: "string list"
  ar_used_tool_names :: "string list"
  ar_continuation :: RunContinuation
  ar_budget :: RunBudget
  ar_unfinished :: "UnfinishedOperation list"
  ar_created_at :: int
  ar_updated_at :: int

text \<open>
  The six columns of the scope identify the row: every statement below names all of them in its
  \<open>WHERE\<close> clause, and \<open>(session_id, run_id)\<close> is the primary key, so at most one row is changed.
\<close>

definition charge_row :: "int \<Rightarrow> AssistantRun \<Rightarrow> AssistantRun" where
  "charge_row t r = r\<lparr>ar_budget := (ar_budget r)\<lparr>hostCallsUsed := hostCallsUsed (ar_budget r) + 1\<rparr>, ar_updated_at := t\<rparr>"

definition refund_row :: "int \<Rightarrow> AssistantRun \<Rightarrow> AssistantRun" where
  "refund_row t r = r\<lparr>ar_budget := (ar_budget r)\<lparr>hostCallsUsed := max 0 (hostCallsUsed (ar_budget r) - 1)\<rparr>, ar_updated_at := t\<rparr>"

definition convert_row :: "int \<Rightarrow> AssistantRun \<Rightarrow> AssistantRun" where
  "convert_row t r = r\<lparr>ar_budget := (ar_budget r)\<lparr>hostCallsUsed := hostCallsUsed (ar_budget r) + 1,
     hostCallsReserved := max 0 (hostCallsReserved (ar_budget r) - 1)\<rparr>, ar_updated_at := t\<rparr>"

definition ledger_total :: "AssistantRun \<Rightarrow> int" where
  "ledger_total r = hostCallsUsed (ar_budget r) + hostCallsReserved (ar_budget r)"

definition chargeRunHostCall :: "int \<Rightarrow> AssistantRunScope \<Rightarrow> AssistantRun list \<Rightarrow> AssistantRun list \<times> bool" where
  "chargeRunHostCall t sc rows =
     (let P = (\<lambda>r. ar_scope r = sc \<and> ledger_total r < 60) in
      (upd_where P (charge_row t) rows, length (filter P rows) = 1))"

definition refundRunHostCall :: "int \<Rightarrow> AssistantRunScope \<Rightarrow> AssistantRun list \<Rightarrow> AssistantRun list" where
  "refundRunHostCall t sc rows = upd_where (\<lambda>r. ar_scope r = sc) (refund_row t) rows"

definition convertReservedRunHostCall ::
  "int \<Rightarrow> AssistantRunScope \<Rightarrow> AssistantRun list \<Rightarrow> AssistantRun list \<times> bool" where
  "convertReservedRunHostCall t sc rows =
     (let P = (\<lambda>r. ar_scope r = sc \<and> (0 < hostCallsReserved (ar_budget r) \<or> ledger_total r < 60)) in
      (upd_where P (convert_row t) rows, length (filter P rows) = 1))"

text \<open>The invariant of a row: counters are not negative and their sum is within the ceiling.\<close>

definition within_ceiling :: "AssistantRun \<Rightarrow> bool" where
  "within_ceiling r \<longleftrightarrow> 0 \<le> hostCallsUsed (ar_budget r) \<and> 0 \<le> hostCallsReserved (ar_budget r) \<and> ledger_total r \<le> 60"

definition run_key :: "AssistantRun \<Rightarrow> string \<times> string" where
  "run_key r = (sc_session (ar_scope r), sc_run (ar_scope r))"

definition run_ledger_ok :: "AssistantRun list \<Rightarrow> bool" where
  "run_ledger_ok rows \<longleftrightarrow> distinct (map run_key rows) \<and> (\<forall>r\<in>set rows. within_ceiling r)"

lemmas ledger_row_defs = charge_row_def refund_row_def convert_row_def ledger_total_def within_ceiling_def

lemma ledger_ok_upd [step_invariants]:
  assumes "run_ledger_ok rows" "\<And>r. ar_scope (f r) = ar_scope r"
    and "\<And>r. r \<in> set rows \<Longrightarrow> within_ceiling r \<Longrightarrow> P r \<Longrightarrow> within_ceiling (f r)"
  shows "run_ledger_ok (upd_where P f rows)"
  using assms map_key_upd_where [of run_key f P rows]
  by (auto simp: run_ledger_ok_def run_key_def set_upd_where)

lemma chargeRunHostCall_ok: "run_ledger_ok rows \<Longrightarrow> run_ledger_ok (fst (chargeRunHostCall t sc rows))"
  by (auto simp: chargeRunHostCall_def Let_def ledger_row_defs intro!: ledger_ok_upd)

lemma refundRunHostCall_ok: "run_ledger_ok rows \<Longrightarrow> run_ledger_ok (refundRunHostCall t sc rows)"
  by (auto simp: refundRunHostCall_def ledger_row_defs intro!: ledger_ok_upd)

lemma convertReservedRunHostCall_ok: "run_ledger_ok rows \<Longrightarrow> run_ledger_ok (fst (convertReservedRunHostCall t sc rows))"
  by (auto simp: convertReservedRunHostCall_def Let_def ledger_row_defs intro!: ledger_ok_upd)

text \<open>The row of a scope, and what a charge, a refund and a conversion make of it.\<close>

definition run_row :: "AssistantRunScope \<Rightarrow> AssistantRun list \<Rightarrow> AssistantRun option" where
  "run_row sc rows = sel ar_scope sc rows"

lemma run_row_unique:
  assumes "run_ledger_ok rows" "r \<in> set rows" "ar_scope r = sc"
  shows "run_row sc rows = Some r"
proof -
  have "distinct (map ar_scope rows)"
    using assms(1) distinct_map [of run_key rows]
    by (auto simp: run_ledger_ok_def distinct_map run_key_def inj_on_def)
  from sel_distinct [OF this assms(2)] assms(3) show ?thesis by (simp add: run_row_def)
qed

lemma run_row_SomeD: "run_row sc rows = Some r \<Longrightarrow> r \<in> set rows \<and> ar_scope r = sc"
  by (auto simp: run_row_def dest: sel_SomeD)

lemma one_match:
  assumes "distinct (map ar_scope rows)"
  shows "length (filter (\<lambda>r. ar_scope r = sc \<and> Q r) rows) = Suc 0
    \<longleftrightarrow> (\<exists>r. run_row sc rows = Some r \<and> Q r)"
  using assms
proof (induction rows)
  case Nil
  then show ?case by (simp add: run_row_def)
next
  case (Cons r rows)
  show ?case
  proof (cases "ar_scope r = sc")
    case True
    have "sc \<notin> ar_scope ` set rows" using Cons.prems True by simp
    then have "filter (\<lambda>r. ar_scope r = sc \<and> Q r) rows = []"
      unfolding filter_empty_conv by (metis imageI)
    with True show ?thesis by (simp add: run_row_def sel_Cons)
  next
    case False
    with Cons show ?thesis by (simp add: run_row_def sel_Cons)
  qed
qed

lemma ledger_distinct: "run_ledger_ok rows \<Longrightarrow> distinct (map ar_scope rows)"
  by (auto simp: run_ledger_ok_def distinct_map run_key_def inj_on_def)

lemma charge_granted_iff:
  "run_ledger_ok rows \<Longrightarrow>
   snd (chargeRunHostCall t sc rows) \<longleftrightarrow> (\<exists>r. run_row sc rows = Some r \<and> ledger_total r < 60)"
  by (simp add: chargeRunHostCall_def Let_def one_match [OF ledger_distinct])

lemma convert_granted_iff:
  "run_ledger_ok rows \<Longrightarrow>
   snd (convertReservedRunHostCall t sc rows) \<longleftrightarrow>
     (\<exists>r. run_row sc rows = Some r \<and> (0 < hostCallsReserved (ar_budget r) \<or> ledger_total r < 60))"
  by (simp add: convertReservedRunHostCall_def Let_def one_match [OF ledger_distinct])

lemma run_row_upd:
  "(\<And>r. ar_scope (f r) = ar_scope r) \<Longrightarrow>
   run_row sc (upd_where P f rows) = map_option (\<lambda>r. if P r then f r else r) (run_row sc rows)"
  by (simp add: run_row_def sel_upd_where)

lemma charge_row_total [simp]: "ledger_total (charge_row t r) = ledger_total r + 1"
  by (simp add: ledger_row_defs)

lemma ledger_rows_scope [simp]:
  "ar_scope (charge_row t r) = ar_scope r" "ar_scope (refund_row t r) = ar_scope r"
  "ar_scope (convert_row t r) = ar_scope r"
  by (simp_all add: ledger_row_defs)

text \<open>A refused charge changes nothing.\<close>

lemma charge_refused_same:
  assumes "run_ledger_ok rows" "\<not> snd (chargeRunHostCall t sc rows)"
  shows "fst (chargeRunHostCall t sc rows) = rows"
  using assms charge_granted_iff [OF assms(1)] run_row_unique [OF assms(1)]
  by (auto simp: chargeRunHostCall_def Let_def intro!: upd_where_none)

end
