(* ===== verification/HostBudget.thy ===== *)
theory HostBudget
  imports RunLedger
begin

text \<open>
  The host-call budgets of a request and the reservations of an operation
  (\<open>src/src/clockify/request-governor.ts\<close>, the part before the governor). The two
  \<open>AsyncLocalStorage\<close> cells of the source are a call context that names a budget and a reservation
  of the process; the charge and refund hooks of a run-scoped budget are the conditional updates
  of the run ledger.
\<close>

section \<open>Budgets and contexts\<close>

text \<open>
  The hooks the source installs: reads and previews charge the run (\<open>routes/v2-chat-pipeline.ts\<close>),
  a confirmed write converts reserved calls (\<open>services/confirmation-service.ts\<close>). Both refund
  with \<open>refundRunHostCall\<close>.
\<close>

datatype ledger_hooks = Charge_run AssistantRunScope | Convert_reserved AssistantRunScope

record HostCallBudget =
  used :: int
  maximum :: int
  hooks :: "ledger_hooks option"

record call_state =
  budgets :: "HostCallBudget list"
  reservations :: "int list"
  run_rows :: "AssistantRun list"

record call_context =
  ctx_budget :: "nat option"
  ctx_reservation :: "nat option"

datatype host_error = Budget_exceeded (exceededMaximum: int) | Request_cancelled | Operation_failed

definition install_budget :: "HostCallBudget \<Rightarrow> call_context \<Rightarrow> call_state \<Rightarrow> call_context \<times> call_state" where
  "install_budget b c st = (c\<lparr>ctx_budget := Some (length (budgets st))\<rparr>, st\<lparr>budgets := budgets st @ [b]\<rparr>)"

definition withRunScopedHostCallBudget ::
  "ledger_hooks \<Rightarrow> int \<Rightarrow> call_context \<Rightarrow> call_state \<Rightarrow> call_context \<times> call_state" where
  "withRunScopedHostCallBudget h m c st = install_budget \<lparr>used = 0, maximum = m, hooks = Some h\<rparr> c st"

definition withHostCallBudgetFromUsed ::
  "int \<Rightarrow> int \<Rightarrow> call_context \<Rightarrow> call_state \<Rightarrow> call_context \<times> call_state" where
  "withHostCallBudgetFromUsed alreadyUsed m c st =
     (if ctx_budget c \<noteq> None then (c, st)
      else install_budget \<lparr>used = max 0 (min m alreadyUsed), maximum = m, hooks = None\<rparr> c st)"

definition withHostCallBudget :: "int \<Rightarrow> call_context \<Rightarrow> call_state \<Rightarrow> call_context \<times> call_state" where
  "withHostCallBudget m c st = withHostCallBudgetFromUsed 0 m c st"

definition put_budget :: "nat \<Rightarrow> HostCallBudget \<Rightarrow> call_state \<Rightarrow> call_state" where
  "put_budget i b st = st\<lparr>budgets := (budgets st)[i := b]\<rparr>"

fun reserveHostCallBudget :: "js_number \<Rightarrow> call_context \<Rightarrow> call_state \<Rightarrow> (host_error, call_state) result" where
  "reserveHostCallBudget count c st =
     (case ctx_budget c of
        None \<Rightarrow> Inr st
      | Some i \<Rightarrow>
          (let b = budgets st ! i in
           case count of
             Other_number \<Rightarrow> Inl (Budget_exceeded (maximum b))
           | Safe_integer n \<Rightarrow>
               if n < 0 \<or> maximum b < used b + n then Inl (Budget_exceeded (maximum b))
               else Inr (put_budget i (b\<lparr>used := used b + n\<rparr>) st)))"

text \<open>The reservation cell of the operation is new, whatever the context held before.\<close>

definition withReservedHostCallBudget ::
  "int \<Rightarrow> call_context \<Rightarrow> call_state \<Rightarrow> (host_error, call_context \<times> call_state) result" where
  "withReservedHostCallBudget n c st =
     and_then (reserveHostCallBudget (Safe_integer n) c st)
       (\<lambda>st. Inr (c\<lparr>ctx_reservation := Some (length (reservations st))\<rparr>, st\<lparr>reservations := reservations st @ [n]\<rparr>))"

section \<open>Charging one call\<close>

datatype charged = Charged_reservation nat | Charged_turn nat | Charged_nothing

fun on_charge :: "int \<Rightarrow> ledger_hooks \<Rightarrow> AssistantRun list \<Rightarrow> AssistantRun list \<times> bool" where
  "on_charge t (Charge_run sc) rows = chargeRunHostCall t sc rows"
| "on_charge t (Convert_reserved sc) rows = convertReservedRunHostCall t sc rows"

fun on_refund :: "int \<Rightarrow> ledger_hooks \<Rightarrow> AssistantRun list \<Rightarrow> AssistantRun list" where
  "on_refund t (Charge_run sc) rows = refundRunHostCall t sc rows"
| "on_refund t (Convert_reserved sc) rows = refundRunHostCall t sc rows"

definition ctx_maximum :: "call_context \<Rightarrow> call_state \<Rightarrow> int" where
  "ctx_maximum c st = (case ctx_budget c of None \<Rightarrow> HOST_CALL_BUDGET_MAXIMUM | Some i \<Rightarrow> maximum (budgets st ! i))"

definition spend :: "nat \<Rightarrow> call_state \<Rightarrow> call_state" where
  "spend i st = put_budget i ((budgets st ! i)\<lparr>used := used (budgets st ! i) + 1\<rparr>) st"

definition chargeHostCallBudget ::
  "int \<Rightarrow> call_context \<Rightarrow> call_state \<Rightarrow> (host_error, call_state \<times> charged) result" where
  "chargeHostCallBudget t c st =
     (case ctx_reservation c of
        Some j \<Rightarrow>
          if reservations st ! j \<le> 0 then Inl (Budget_exceeded (ctx_maximum c st))
          else Inr (st\<lparr>reservations := (reservations st)[j := reservations st ! j - 1]\<rparr>, Charged_reservation j)
      | None \<Rightarrow>
          (case ctx_budget c of
             None \<Rightarrow> Inr (st, Charged_nothing)
           | Some i \<Rightarrow>
               (let b = budgets st ! i in
                case hooks b of
                  Some h \<Rightarrow>
                    (case on_charge t h (run_rows st) of
                       (rows, granted) \<Rightarrow>
                         if \<not> granted then Inl (Budget_exceeded (maximum b))
                         else Inr (spend i (st\<lparr>run_rows := rows\<rparr>), Charged_turn i))
                | None \<Rightarrow>
                    if maximum b < used b + 1 then Inl (Budget_exceeded (maximum b))
                    else Inr (spend i st, Charged_turn i))))"

text \<open>The closure the charge returns. Its caller runs it at most once, and only before dispatch.\<close>

fun refund_charge :: "int \<Rightarrow> charged \<Rightarrow> call_state \<Rightarrow> call_state" where
  "refund_charge t (Charged_reservation j) st =
     st\<lparr>reservations := (reservations st)[j := reservations st ! j + 1]\<rparr>"
| "refund_charge t (Charged_turn i) st =
     (let b = budgets st ! i;
          st' = put_budget i (b\<lparr>used := used b - 1\<rparr>) st in
      case hooks b of
        None \<Rightarrow> st'
      | Some h \<Rightarrow> st'\<lparr>run_rows := on_refund t h (run_rows st')\<rparr>)"
| "refund_charge t Charged_nothing st = st"

section \<open>Budgets are never overdrawn\<close>

definition plain_ok :: "HostCallBudget \<Rightarrow> bool" where
  "plain_ok b \<longleftrightarrow> hooks b = None \<longrightarrow> used b \<le> maximum b"

definition budgets_ok :: "call_state \<Rightarrow> bool" where
  "budgets_ok st \<longleftrightarrow> list_all plain_ok (budgets st) \<and> list_all (\<lambda>n. 0 \<le> n) (reservations st) \<and> run_ledger_ok (run_rows st)"

definition context_ok :: "call_state \<Rightarrow> call_context \<Rightarrow> bool" where
  "context_ok st c \<longleftrightarrow>
     (case ctx_budget c of None \<Rightarrow> True | Some i \<Rightarrow> i < length (budgets st))
     \<and> (case ctx_reservation c of None \<Rightarrow> True | Some j \<Rightarrow> j < length (reservations st))"

fun charge_ok :: "call_state \<Rightarrow> charged \<Rightarrow> bool" where
  "charge_ok st (Charged_reservation j) = (j < length (reservations st))"
| "charge_ok st (Charged_turn i) = (i < length (budgets st))"
| "charge_ok st Charged_nothing = True"

lemma list_all_update: "list_all P xs \<Longrightarrow> P x \<Longrightarrow> list_all P (xs[i := x])"
  by (auto simp: list_all_iff dest!: set_update_subset_insert [THEN subsetD])

lemma list_all_at: "list_all P xs \<Longrightarrow> i < length xs \<Longrightarrow> P (xs ! i)"
  by (simp add: list_all_iff)

lemma on_charge_ok: "on_charge t h rows = (rows', granted) \<Longrightarrow> run_ledger_ok rows \<Longrightarrow> run_ledger_ok rows'"
  by (cases h) (metis chargeRunHostCall_ok convertReservedRunHostCall_ok on_charge.simps fst_conv)+

lemma on_refund_ok: "run_ledger_ok rows \<Longrightarrow> run_ledger_ok (on_refund t h rows)"
  by (cases h) (simp_all add: refundRunHostCall_ok)

lemma install_budget_ok:
  "budgets_ok st \<Longrightarrow> plain_ok b \<Longrightarrow> install_budget b c st = (c', st') \<Longrightarrow> budgets_ok st'"
  by (auto simp: install_budget_def budgets_ok_def)

lemma reserve_ok:
  assumes "budgets_ok st" "context_ok st c" "reserveHostCallBudget count c st = Inr st'"
  shows "budgets_ok st'"
  using assms
  by (auto simp: budgets_ok_def context_ok_def put_budget_def plain_ok_def Let_def
      intro!: list_all_update dest: list_all_at split: option.splits js_number.splits if_splits)

lemma charge_keeps_ok:
  assumes ok: "budgets_ok st" "context_ok st c" and ch: "chargeHostCallBudget t c st = Inr (st', g)"
  shows "budgets_ok st' \<and> charge_ok st' g"
  using assms
  by (auto simp: chargeHostCallBudget_def budgets_ok_def context_ok_def put_budget_def spend_def plain_ok_def Let_def
      intro!: list_all_update dest: list_all_at on_charge_ok split: option.splits if_splits prod.splits)

lemma refund_keeps_ok:
  assumes "budgets_ok st" "charge_ok st g"
  shows "budgets_ok (refund_charge t g st)"
  using assms on_refund_ok [of "run_rows st" t]
  by (cases g) (force simp: budgets_ok_def put_budget_def plain_ok_def Let_def
      intro!: list_all_update dest: list_all_at split: option.splits)+

lemma charge_keeps_shape:
  assumes "chargeHostCallBudget t c st = Inr (st', g)"
  shows "length (budgets st') = length (budgets st)" "length (reservations st') = length (reservations st)"
  using assms
  by (auto simp: chargeHostCallBudget_def spend_def put_budget_def Let_def split: option.splits if_splits prod.splits)

lemma refund_keeps_shape:
  "length (budgets (refund_charge t g st)) = length (budgets st)"
  "length (reservations (refund_charge t g st)) = length (reservations st)"
  by (cases g; simp add: put_budget_def Let_def split: option.splits)+

text \<open>
  A refund undoes its charge: on a plain budget and on a reservation exactly, and on the ledger in
  what the run has used.
\<close>

lemma refund_undoes_plain_charge:
  assumes ch: "chargeHostCallBudget t c st = Inr (st', g)" and ok: "context_ok st c"
    and plain: "\<And>i. ctx_budget c = Some i \<Longrightarrow> hooks (budgets st ! i) = None"
  shows "refund_charge t' g st' = st"
  using assms
  by (auto simp: chargeHostCallBudget_def spend_def put_budget_def context_ok_def Let_def
      split: option.splits if_splits prod.splits)

text \<open>
  Inside a reservation the charge hooks of the budget are not called: the ledger of the run does not
  see the calls of an operation that reserved them.
\<close>

lemma reserved_call_bypasses_hooks:
  assumes "ctx_reservation c = Some j" "chargeHostCallBudget t c st = Inr (st', g)"
  shows "run_rows st' = run_rows st \<and> budgets st' = budgets st"
  using assms by (auto simp: chargeHostCallBudget_def split: if_splits)

end
