(* ===== verification/RateLimit.thy ===== *)
theory RateLimit
  imports Prelude
begin

text \<open>
  The sliding-window limiter of the paid model loops (\<open>src/src/routes/rate-limit.ts\<close>). The map
  from keys to hit times is a list of entries; the sweep that forgets dead keys every 512 checks
  is part of the step, and is shown not to change any decision.
\<close>

section \<open>The limiter\<close>

definition DEFAULT_CHAT_RATE_LIMIT_MAX :: nat where
  "DEFAULT_CHAT_RATE_LIMIT_MAX = 30"

definition DEFAULT_CHAT_RATE_LIMIT_WINDOW_MS :: int where
  "DEFAULT_CHAT_RATE_LIMIT_WINDOW_MS = 5 * 60 * 1000"

definition SWEEP_EVERY_CHECKS :: nat where
  "SWEEP_EVERY_CHECKS = 512"

datatype RateLimitDecision = Hit_allowed | Hit_denied (retryAfterMs: int)

record limiter =
  hits :: "string \<Rightarrow> int list option"
  checks :: nat

definition new_limiter :: limiter where
  "new_limiter = \<lparr>hits = (\<lambda>k. None), checks = 0\<rparr>"

text \<open>The entries the sweep deletes: no stamp, or the newest one has left the window.\<close>

definition dead :: "int \<Rightarrow> int \<Rightarrow> int list \<Rightarrow> bool" where
  "dead windowMs nowMs stamps \<longleftrightarrow> stamps = [] \<or> last stamps \<le> nowMs - windowMs"

definition sweep :: "int \<Rightarrow> int \<Rightarrow> (string \<Rightarrow> int list option) \<Rightarrow> string \<Rightarrow> int list option" where
  "sweep windowMs nowMs m =
     (\<lambda>k. case m k of None \<Rightarrow> None | Some stamps \<Rightarrow> if dead windowMs nowMs stamps then None else Some stamps)"

definition recent :: "int \<Rightarrow> int \<Rightarrow> int list option \<Rightarrow> int list" where
  "recent windowMs nowMs stamps =
     filter (\<lambda>t. nowMs - windowMs < t) (case stamps of None \<Rightarrow> [] | Some ts \<Rightarrow> ts)"

definition check :: "nat \<Rightarrow> int \<Rightarrow> string \<Rightarrow> int \<Rightarrow> limiter \<Rightarrow> limiter \<times> RateLimitDecision" where
  "check limit windowMs key nowMs l =
     (let n = checks l + 1;
          m = (if n mod SWEEP_EVERY_CHECKS = 0 then sweep windowMs nowMs (hits l) else hits l);
          r = recent windowMs nowMs (m key) in
      if limit \<le> length r
      then (\<lparr>hits = m(key := Some r), checks = n\<rparr>, Hit_denied (hd r + windowMs - nowMs))
      else (\<lparr>hits = m(key := Some (r @ [nowMs])), checks = n\<rparr>, Hit_allowed))"

section \<open>The reference: every allowed hit is remembered\<close>

text \<open>
  The reference keeps the times of all allowed hits of each key, oldest first, and allows a hit
  when fewer than the limit lie in the window. It never forgets, and it has no sweep.
\<close>

type_synonym reference = "string \<Rightarrow> int list"

definition in_window :: "int \<Rightarrow> int \<Rightarrow> int list \<Rightarrow> int list" where
  "in_window windowMs nowMs ts = filter (\<lambda>t. nowMs - windowMs < t) ts"

definition reference_check ::
  "nat \<Rightarrow> int \<Rightarrow> string \<Rightarrow> int \<Rightarrow> reference \<Rightarrow> reference \<times> RateLimitDecision" where
  "reference_check limit windowMs key nowMs h =
     (let r = in_window windowMs nowMs (h key) in
      if limit \<le> length r then (h, Hit_denied (hd r + windowMs - nowMs))
      else (h(key := h key @ [nowMs]), Hit_allowed))"

text \<open>A run of checks, each with its key and its time.\<close>

fun run_checks ::
  "nat \<Rightarrow> int \<Rightarrow> (string \<times> int) list \<Rightarrow> limiter \<Rightarrow> RateLimitDecision list" where
  "run_checks limit w [] l = []"
| "run_checks limit w ((k, t) # cs) l =
     (case check limit w k t l of (l', d) \<Rightarrow> d # run_checks limit w cs l')"

fun run_reference ::
  "nat \<Rightarrow> int \<Rightarrow> (string \<times> int) list \<Rightarrow> reference \<Rightarrow> RateLimitDecision list" where
  "run_reference limit w [] h = []"
| "run_reference limit w ((k, t) # cs) h =
     (case reference_check limit w k t h of (h', d) \<Rightarrow> d # run_reference limit w cs h')"

section \<open>The limiter implements the reference\<close>

definition stamps :: "limiter \<Rightarrow> string \<Rightarrow> int list" where
  "stamps l k = (case hits l k of None \<Rightarrow> [] | Some ts \<Rightarrow> ts)"

text \<open>
  At time \<open>t\<close> the limiter knows of a key exactly what the reference has in the window; stamps are
  in order, and none lies in the future.
\<close>

definition timely :: "int \<Rightarrow> int list \<Rightarrow> bool" where
  "timely t ts \<longleftrightarrow> sorted ts \<and> (\<forall>x\<in>set ts. x \<le> t)"

definition simulates :: "int \<Rightarrow> int \<Rightarrow> limiter \<Rightarrow> reference \<Rightarrow> bool" where
  "simulates w t l h \<longleftrightarrow>
     (\<forall>k. timely t (h k) \<and> timely t (stamps l k) \<and> in_window w t (stamps l k) = in_window w t (h k))"

lemma recent_stamps: "recent w t (hits l k) = in_window w t (stamps l k)"
  by (simp add: recent_def in_window_def stamps_def)

lemma in_window_later: "t \<le> t' \<Longrightarrow> in_window w t' ts = in_window w t' (in_window w t ts)"
  by (auto simp: in_window_def intro!: filter_cong)

lemma in_window_idem [simp]: "in_window w t (in_window w t ts) = in_window w t ts"
  by (simp add: in_window_def)

lemma timely_later: "timely t ts \<Longrightarrow> t \<le> t' \<Longrightarrow> timely t' ts"
  by (fastforce simp: timely_def)

lemma timely_window: "timely t ts \<Longrightarrow> timely t (in_window w t ts)"
  by (auto simp: timely_def in_window_def sorted_wrt_filter)

lemma timely_snoc: "timely t ts \<Longrightarrow> timely t (ts @ [t])"
  by (auto simp: timely_def sorted_append)

lemma simulates_later: "simulates w t l h \<Longrightarrow> t \<le> t' \<Longrightarrow> simulates w t' l h"
  unfolding simulates_def by (metis timely_later in_window_later)

lemma dead_window:
  assumes "dead w t ts" "timely t ts"
  shows "in_window w t ts = []"
proof -
  have "x \<le> t - w" if "x \<in> set ts" for x
    using assms that by (cases ts rule: rev_cases) (auto simp: dead_def timely_def sorted_append)
  then show ?thesis by (fastforce simp: in_window_def filter_empty_conv)
qed

lemma sweep_simulates:
  assumes "simulates w t l h"
  shows "simulates w t (l\<lparr>hits := sweep w t (hits l)\<rparr>) h"
proof -
  have "stamps (l\<lparr>hits := sweep w t (hits l)\<rparr>) k = (if dead w t (stamps l k) then [] else stamps l k)" for k
    by (simp add: stamps_def sweep_def dead_def split: option.splits)
  moreover have "in_window w t (if dead w t (stamps l k) then [] else stamps l k) = in_window w t (h k)" for k
    using assms dead_window [of w t "stamps l k"] by (auto simp: simulates_def in_window_def)
  moreover have "timely t (if dead w t (stamps l k) then [] else stamps l k)" for k
    using assms by (simp add: simulates_def timely_def)
  ultimately show ?thesis using assms by (simp add: simulates_def)
qed

text \<open>One check of the limiter, after the optional sweep, and one of the reference.\<close>

lemma check_simulates:
  assumes s: "simulates w t l h" and c: "check limit w k t l = (l', d)"
  shows "\<exists>h'. reference_check limit w k t h = (h', d) \<and> simulates w t l' h'"
proof -
  define m where "m = (if (checks l + 1) mod SWEEP_EVERY_CHECKS = 0 then l\<lparr>hits := sweep w t (hits l)\<rparr> else l)"
  have m: "simulates w t m h" using s sweep_simulates [OF s] by (simp add: m_def)
  let ?r = "in_window w t (stamps m k)"
  have l': "(l', d) = (if limit \<le> length ?r
      then (\<lparr>hits = (hits m)(k := Some ?r), checks = checks l + 1\<rparr>, Hit_denied (hd ?r + w - t))
      else (\<lparr>hits = (hits m)(k := Some (?r @ [t])), checks = checks l + 1\<rparr>, Hit_allowed))"
    using c by (auto simp: check_def m_def recent_stamps [symmetric] Let_def split: if_splits)
  have r: "?r = in_window w t (h k)" using m by (simp add: simulates_def)
  show ?thesis
  proof (cases "limit \<le> length ?r")
    case True
    then have "reference_check limit w k t h = (h, d)"
      using l' by (simp add: reference_check_def r Let_def)
    moreover have "simulates w t l' h"
      using m l' True timely_window [of t "stamps m k" w] by (auto simp: simulates_def stamps_def)
    ultimately show ?thesis by blast
  next
    case False
    then have "reference_check limit w k t h = (h(k := h k @ [t]), d)"
      using l' by (simp add: reference_check_def r Let_def)
    moreover have "simulates w t l' (h(k := h k @ [t]))"
      using m l' False timely_snoc [of t] timely_window [of t "stamps m k" w]
      by (auto simp: simulates_def stamps_def in_window_def)
    ultimately show ?thesis by blast
  qed
qed

lemma run_simulates:
  "simulates w t l h \<Longrightarrow> sorted (t # map snd cs) \<Longrightarrow>
   run_checks limit w cs l = run_reference limit w cs h"
proof (induction cs arbitrary: t l h)
  case Nil
  then show ?case by simp
next
  case (Cons c cs)
  obtain k u where c: "c = (k, u)" by (cases c)
  obtain l' d where l': "check limit w k u l = (l', d)" by fastforce
  have "simulates w u l h" by (rule simulates_later [OF Cons.prems(1)]) (use Cons.prems(2) c in simp)
  from check_simulates [OF this l'] obtain h' where
    h': "reference_check limit w k u h = (h', d)" "simulates w u l' h'" by blast
  have "run_checks limit w cs l' = run_reference limit w cs h'"
    by (rule Cons.IH [OF h'(2)]) (use Cons.prems(2) c in simp)
  with l' h'(1) c show ?case by simp
qed

lemma new_limiter_simulates: "simulates w t new_limiter (\<lambda>k. [])"
  by (simp add: simulates_def new_limiter_def stamps_def timely_def in_window_def)

section \<open>At most the limit in any window\<close>

text \<open>The allowed hits of a key in a run of the reference.\<close>

fun allowed_times :: "string \<Rightarrow> (string \<times> int) list \<Rightarrow> RateLimitDecision list \<Rightarrow> int list" where
  "allowed_times k ((k', t) # cs) (d # ds) =
     (if k' = k \<and> d = Hit_allowed then t # allowed_times k cs ds else allowed_times k cs ds)"
| "allowed_times k cs ds = []"

text \<open>Every hit of the history was within the limit when it was allowed.\<close>

definition spaced :: "nat \<Rightarrow> int \<Rightarrow> int list \<Rightarrow> bool" where
  "spaced limit w ts \<longleftrightarrow> (\<forall>t. length (filter (\<lambda>x. t - w < x \<and> x \<le> t) ts) \<le> limit)"

lemma spaced_Nil: "spaced limit w []"
  by (simp add: spaced_def)

lemma spaced_snoc:
  assumes s: "spaced limit w ts" and t: "timely t ts" and w: "0 < w"
    and few: "length (in_window w t ts) < limit"
  shows "spaced limit w (ts @ [t])"
  unfolding spaced_def
proof
  fix u
  show "length (filter (\<lambda>x. u - w < x \<and> x \<le> u) (ts @ [t])) \<le> limit"
  proof (cases "u - w < t \<and> t \<le> u")
    case True
    have "length (filter (\<lambda>x. u - w < x \<and> x \<le> u) ts) \<le> length (in_window w t ts)"
    proof -
      have "filter (\<lambda>x. u - w < x \<and> x \<le> u) ts = filter (\<lambda>x. u - w < x \<and> x \<le> u) (in_window w t ts)"
        using True by (auto simp: in_window_def intro!: filter_cong)
      then show ?thesis by (simp add: length_filter_le)
    qed
    with few True show ?thesis by simp
  next
    case False
    with s show ?thesis by (auto simp: spaced_def)
  qed
qed

lemma run_reference_spaced:
  assumes "spaced limit w (h k)" "timely t (h k)" "sorted (t # map snd cs)" "0 < w"
  shows "spaced limit w (h k @ allowed_times k cs (run_reference limit w cs h))"
  using assms
proof (induction cs arbitrary: t h)
  case Nil
  then show ?case by simp
next
  case (Cons c cs)
  obtain k' u where c: "c = (k', u)" by (cases c)
  have t: "timely u (h k)" by (rule timely_later [OF Cons.prems(2)]) (use Cons.prems(3) c in simp)
  have u: "sorted (u # map snd cs)" using Cons.prems(3) c by simp
  obtain h' d where h': "reference_check limit w k' u h = (h', d)" by fastforce
  show ?case
  proof (cases "k' = k \<and> d = Hit_allowed")
    case True
    then have "h' k = h k @ [u]" "length (in_window w u (h k)) < limit"
      using h' by (auto simp: reference_check_def Let_def split: if_splits)
    with Cons.IH [of h' u] spaced_snoc [OF Cons.prems(1) t Cons.prems(4)] timely_snoc [OF t] u Cons.prems(4) h' c True
    show ?thesis by simp
  next
    case False
    then have "h' k = h k" using h' by (auto simp: reference_check_def Let_def split: if_splits)
    with Cons.IH [of h' u] Cons.prems(1,4) t u h' c False show ?thesis by auto
  qed
qed

lemma run_checks_spaced:
  assumes "sorted (map snd cs)" "0 < w"
  shows "spaced limit w (allowed_times k cs (run_checks limit w cs new_limiter))"
proof (cases cs)
  case Nil
  then show ?thesis by (simp add: spaced_def)
next
  case (Cons c cs')
  have "run_checks limit w cs new_limiter = run_reference limit w cs (\<lambda>k. [])"
    by (rule run_simulates [OF new_limiter_simulates, of "snd c"]) (use assms Cons in simp)
  moreover have "spaced limit w ([] @ allowed_times k cs (run_reference limit w cs (\<lambda>k. [])))"
    by (rule run_reference_spaced [where t = "snd c"]) (use assms Cons in \<open>auto simp: spaced_def timely_def\<close>)
  ultimately show ?thesis by simp
qed

section \<open>A denied client recovers\<close>

lemma denied_then_allowed:
  assumes s: "simulates w t l h" and c: "check limit w k t l = (l', Hit_denied r)"
    and limit: "0 < limit" and w: "0 < w"
    and full: "length (in_window w t (h k)) = limit"
  shows "0 < r \<and> r \<le> w \<and> snd (check limit w k (t + r) l') = Hit_allowed"
proof -
  obtain h' where h': "reference_check limit w k t h = (h', Hit_denied r)" "simulates w t l' h'"
    using check_simulates [OF s c] by blast
  let ?ts = "in_window w t (h k)"
  have r: "r = hd ?ts + w - t" and same: "h' = h"
    using h'(1) by (auto simp: reference_check_def Let_def split: if_splits)
  have ne: "?ts \<noteq> []" using full limit by auto
  then obtain x xs where xs: "?ts = x # xs" by (cases ?ts) auto
  have "x \<in> set ?ts" by (simp add: xs)
  with s have x: "t - w < x" "x \<le> t" by (auto simp: in_window_def simulates_def timely_def)
  then have pos: "0 < r" "r \<le> w" using r xs by simp_all
  have "in_window w (t + r) (h k) = in_window w (t + r) ?ts" by (rule in_window_later) (use pos in simp)
  also have "length \<dots> < limit"
  proof -
    have "in_window w (t + r) ?ts = in_window w (t + r) xs"
      using xs r by (simp add: in_window_def)
    then have "length (in_window w (t + r) ?ts) \<le> length xs" by (simp add: in_window_def)
    also have "\<dots> < limit" using full xs by simp
    finally show ?thesis .
  qed
  finally have few: "length (in_window w (t + r) (h k)) < limit" .
  have s': "simulates w (t + r) l' h" using simulates_later [OF h'(2), of "t + r"] pos same by simp
  obtain l'' d where l'': "check limit w k (t + r) l' = (l'', d)" by fastforce
  from check_simulates [OF s' l''] obtain h'' where "reference_check limit w k (t + r) h = (h'', d)" by blast
  with few have "d = Hit_allowed" by (auto simp: reference_check_def Let_def split: if_splits)
  with l'' pos show ?thesis by simp
qed

fun after_checks :: "nat \<Rightarrow> int \<Rightarrow> (string \<times> int) list \<Rightarrow> limiter \<Rightarrow> limiter" where
  "after_checks limit w [] l = l"
| "after_checks limit w ((k, t) # cs) l = after_checks limit w cs (fst (check limit w k t l))"

lemma reachable_simulates:
  assumes "simulates w t l h" "\<And>k. spaced limit w (h k)" "sorted (t # map snd cs)" "0 < w"
    "\<forall>c\<in>set cs. snd c \<le> u" "t \<le> u"
  shows "\<exists>h'. simulates w u (after_checks limit w cs l) h' \<and> (\<forall>k. spaced limit w (h' k))"
  using assms
proof (induction cs arbitrary: t l h)
  case Nil
  then show ?case using simulates_later [OF Nil.prems(1,6)] by auto
next
  case (Cons c cs)
  obtain k v where c: "c = (k, v)" by (cases c)
  have v: "t \<le> v" "sorted (v # map snd cs)" using Cons.prems(3) c by simp_all
  obtain l' d where l': "check limit w k v l = (l', d)" by fastforce
  from check_simulates [OF simulates_later [OF Cons.prems(1) v(1)] l'] obtain h' where
    h': "reference_check limit w k v h = (h', d)" "simulates w v l' h'" by blast
  have "spaced limit w (h' j)" for j
    using h'(1) Cons.prems(2) spaced_snoc [OF Cons.prems(2) _ Cons.prems(4), of v k]
      simulates_later [OF Cons.prems(1) v(1)]
    by (auto simp: reference_check_def Let_def simulates_def split: if_splits)
  from Cons.IH [OF h'(2) this v(2) Cons.prems(4)] Cons.prems(5) c l' show ?case by simp
qed

lemma denied_client_recovers:
  assumes cs: "sorted (map snd cs)" "\<forall>c\<in>set cs. snd c \<le> t" and pos: "0 < limit" "0 < w"
    and c: "check limit w k t (after_checks limit w cs new_limiter) = (l', Hit_denied r)"
  shows "0 < r \<and> r \<le> w \<and> snd (check limit w k (t + r) l') = Hit_allowed"
proof -
  define t0 where "t0 = (case cs of [] \<Rightarrow> t | c # _ \<Rightarrow> snd c)"
  have t0: "sorted (t0 # map snd cs)" "t0 \<le> t" using cs by (cases cs; force simp: t0_def)+
  obtain h where h: "simulates w t (after_checks limit w cs new_limiter) h" "\<And>k. spaced limit w (h k)"
    using reachable_simulates [OF new_limiter_simulates [of w t0] _ t0(1) pos(2) cs(2) t0(2), of limit] spaced_Nil
    by blast
  have "length (in_window w t (h k)) \<le> limit"
  proof -
    have "in_window w t (h k) = filter (\<lambda>x. t - w < x \<and> x \<le> t) (h k)"
      using h(1) by (auto simp: in_window_def simulates_def timely_def intro!: filter_cong)
    with h(2) [of k] show ?thesis by (simp add: spaced_def)
  qed
  moreover have "limit \<le> length (in_window w t (h k))"
    using check_simulates [OF h(1) c] by (auto simp: reference_check_def Let_def split: if_splits)
  ultimately show ?thesis by (intro denied_then_allowed [OF h(1) c pos]) simp
qed

end
