(* ===== verification/Governor.thy ===== *)
theory Governor
  imports HostBudget RateLimit
begin

text \<open>
  The per-workspace request governor (\<open>createWorkspaceRequestGovernor\<close> in
  \<open>src/src/clockify/request-governor.ts\<close>): a first-in first-out queue with a rate cap, a limit on
  concurrent requests, single-flight mutations, a cool-down after a 429, cancellation before
  dispatch and the refund of a charge that was never used.

  Every entry of the JavaScript event loop into the governor is one event: a call of \<open>run\<close> or
  \<open>noteRateLimited\<close>, an abort of a signal, the settlement of a pre-dispatch hook or of an operation,
  the timer. The code of an entry runs to its end without interleaving, with one reading of the clock.
  The closures of one \<open>run\<close> are the fields of a \<open>request\<close>; hooks and operations are external and
  are described by how they answer. They do not call the governor synchronously.
\<close>

section \<open>State\<close>

datatype HostRequestKind = Read_request | Mutation_request

datatype request_state = Rq_queued | Rq_pre_dispatch | Rq_cancelled | Rq_dispatched | Rq_settled

datatype outcome = Resolved | Rejected host_error

text \<open>How the external code of a request behaves, and which callback it still owes.\<close>

datatype hook_answer = Hook_throws | Hook_returns | Hook_promises

datatype operation_answer = Operation_throws | Operation_promises

datatype awaited = Awaits_nothing | Awaits_hook | Awaits_operation | Awaits_finally

record request =
  q_kind :: HostRequestKind
  q_hook :: hook_answer
  q_hook_aborts :: bool
  q_operation :: operation_answer
  q_charged :: charged
  q_state :: request_state
  q_aborted :: bool
  q_activeReleased :: bool
  q_budgetRefunded :: bool
  q_outcome :: "outcome option"
  q_awaits :: awaited
  q_started :: bool
  q_calls :: nat

text \<open>
  \<open>q_started\<close> and \<open>q_calls\<close> record that the request left the queue and how often its operation was
  invoked; \<open>start_log\<close> records every start. The code does not read them.
\<close>

record governor =
  queue :: "nat list"
  starts :: "int list"
  active :: int
  mutationActive :: bool
  cooldownUntil :: int
  timer :: "int option"
  requests :: "request list"
  calls :: call_state
  start_log :: "int list"

record governor_options =
  requestsPerSecond :: int
  burst :: int
  concurrency :: int

definition default_options :: governor_options where
  "default_options = \<lparr>requestsPerSecond = 10, burst = 10, concurrency = 4\<rparr>"

definition valid_options :: "governor_options \<Rightarrow> bool" where
  "valid_options opt \<longleftrightarrow> \<not> (requestsPerSecond opt \<le> 0 \<or> burst opt \<le> 0 \<or> concurrency opt \<le> 0)"

definition rateCap :: "governor_options \<Rightarrow> int" where
  "rateCap opt = min (requestsPerSecond opt) (burst opt)"

definition new_governor :: "call_state \<Rightarrow> governor" where
  "new_governor st = \<lparr>queue = [], starts = [], active = 0, mutationActive = False, cooldownUntil = 0,
     timer = None, requests = [], calls = st, start_log = []\<rparr>"

definition rq :: "governor \<Rightarrow> nat \<Rightarrow> request" where
  "rq g i = requests g ! i"

definition set_rq :: "nat \<Rightarrow> request \<Rightarrow> governor \<Rightarrow> governor" where
  "set_rq i r g = g\<lparr>requests := (requests g)[i := r]\<rparr>"

definition schedule :: "int \<Rightarrow> int \<Rightarrow> governor \<Rightarrow> governor" where
  "schedule t delayMs g = (if timer g \<noteq> None then g else g\<lparr>timer := Some (t + max 1 delayMs)\<rparr>)"

definition pruneStarts :: "int \<Rightarrow> governor \<Rightarrow> governor" where
  "pruneStarts t g = g\<lparr>starts := shift_while_le (t - 1000) (starts g)\<rparr>"

section \<open>The closures of one request\<close>

text \<open>\<open>drain\<close> is called from several of them; it is their argument \<open>D\<close>.\<close>

definition refundBeforeDispatch :: "int \<Rightarrow> nat \<Rightarrow> governor \<Rightarrow> governor" where
  "refundBeforeDispatch t i g =
     (if q_budgetRefunded (rq g i) then g
      else (set_rq i ((rq g i)\<lparr>q_budgetRefunded := True\<rparr>) g)
             \<lparr>calls := refund_charge t (q_charged (rq g i)) (calls g)\<rparr>)"

definition rejectOnce :: "host_error \<Rightarrow> nat \<Rightarrow> governor \<Rightarrow> governor" where
  "rejectOnce e i g =
     (if q_outcome (rq g i) \<noteq> None then g
      else set_rq i ((rq g i)\<lparr>q_outcome := Some (Rejected e)\<rparr>) g)"

definition free_slot :: "nat \<Rightarrow> governor \<Rightarrow> governor" where
  "free_slot i g = (set_rq i ((rq g i)\<lparr>q_activeReleased := True\<rparr>) g)
     \<lparr>active := active g - 1,
      mutationActive := (if q_kind (rq g i) = Mutation_request then False else mutationActive g)\<rparr>"

definition releaseActive :: "(governor \<Rightarrow> governor) \<Rightarrow> nat \<Rightarrow> governor \<Rightarrow> governor" where
  "releaseActive D i g = (if q_activeReleased (rq g i) then g else D (free_slot i g))"

definition cancelBeforeDispatch :: "(governor \<Rightarrow> governor) \<Rightarrow> int \<Rightarrow> nat \<Rightarrow> governor \<Rightarrow> governor" where
  "cancelBeforeDispatch D t i g =
     (if q_state (rq g i) \<noteq> Rq_queued \<and> q_state (rq g i) \<noteq> Rq_pre_dispatch then g
      else let wasQueued = (q_state (rq g i) = Rq_queued);
               g1 = set_rq i ((rq g i)\<lparr>q_state := Rq_cancelled\<rparr>) g;
               g2 = (if wasQueued then g1\<lparr>queue := remove1 i (queue g1)\<rparr> else g1);
               g3 = rejectOnce Request_cancelled i (refundBeforeDispatch t i g2) in
           if wasQueued then D g3 else releaseActive D i g3)"

definition failBeforeDispatch :: "(governor \<Rightarrow> governor) \<Rightarrow> int \<Rightarrow> nat \<Rightarrow> governor \<Rightarrow> governor" where
  "failBeforeDispatch D t i g =
     (if q_state (rq g i) = Rq_cancelled then releaseActive D i g
      else let g1 = set_rq i ((rq g i)\<lparr>q_state := Rq_settled\<rparr>) g in
           releaseActive D i (rejectOnce Operation_failed i (refundBeforeDispatch t i g1)))"

text \<open>
  The external operation is invoked synchronously. It may throw; otherwise its promise settles in
  later events.
\<close>

definition startExternalOperation :: "(governor \<Rightarrow> governor) \<Rightarrow> int \<Rightarrow> nat \<Rightarrow> governor \<Rightarrow> governor" where
  "startExternalOperation D t i g =
     (if q_state (rq g i) = Rq_cancelled then releaseActive D i g
      else if q_aborted (rq g i) then releaseActive D i (cancelBeforeDispatch D t i g)
      else let g1 = set_rq i ((rq g i)\<lparr>q_state := Rq_dispatched, q_calls := q_calls (rq g i) + 1\<rparr>) g in
           (case q_operation (rq g i) of
              Operation_throws \<Rightarrow>
                releaseActive D i (rejectOnce Operation_failed i
                  (set_rq i ((rq g1 i)\<lparr>q_state := Rq_settled\<rparr>) g1))
            | Operation_promises \<Rightarrow> set_rq i ((rq g1 i)\<lparr>q_awaits := Awaits_operation\<rparr>) g1))"

definition onAbort :: "(governor \<Rightarrow> governor) \<Rightarrow> int \<Rightarrow> nat \<Rightarrow> governor \<Rightarrow> governor" where
  "onAbort D t i g = cancelBeforeDispatch D t i (set_rq i ((rq g i)\<lparr>q_aborted := True\<rparr>) g)"

definition dispatch :: "(governor \<Rightarrow> governor) \<Rightarrow> int \<Rightarrow> nat \<Rightarrow> governor \<Rightarrow> governor" where
  "dispatch D t i g =
     (let g1 = set_rq i ((rq g i)\<lparr>q_state := Rq_pre_dispatch\<rparr>) g;
          g2 = (if q_hook_aborts (rq g i) then onAbort D t i g1 else g1) in
      case q_hook (rq g i) of
        Hook_throws \<Rightarrow> failBeforeDispatch D t i g2
      | Hook_promises \<Rightarrow> set_rq i ((rq g2 i)\<lparr>q_awaits := Awaits_hook\<rparr>) g2
      | Hook_returns \<Rightarrow> startExternalOperation D t i g2)"

section \<open>Draining the queue\<close>

text \<open>The bookkeeping of a start, up to the call of \<open>dispatch\<close>.\<close>

definition take_next :: "int \<Rightarrow> nat \<Rightarrow> governor \<Rightarrow> governor" where
  "take_next t i g = (set_rq i ((rq g i)\<lparr>q_started := True\<rparr>) g)
     \<lparr>queue := tl (queue g), active := active g + 1,
      mutationActive := (mutationActive g \<or> q_kind (rq g i) = Mutation_request),
      starts := starts g @ [t], start_log := start_log g @ [t]\<rparr>"

text \<open>
  \<open>drain\<close> calls itself, and through \<open>dispatch\<close> the closures that call it again. Each call that
  starts a request shortens the queue, so the length of the queue is enough fuel
  (\<open>drain_fuel_enough\<close>).
\<close>

fun drain_fuel :: "governor_options \<Rightarrow> int \<Rightarrow> nat \<Rightarrow> governor \<Rightarrow> governor" where
  "drain_fuel opt t 0 g = g"
| "drain_fuel opt t (Suc n) g =
     (if queue g = [] \<or> concurrency opt \<le> active g then g
      else if t < cooldownUntil g then schedule t (cooldownUntil g - t) g
      else let g1 = pruneStarts t g in
           if rateCap opt \<le> int (length (starts g1)) then schedule t (hd (starts g1) + 1000 - t) g1
           else let i = hd (queue g1) in
                if q_kind (rq g1 i) = Mutation_request \<and> mutationActive g1 then g1
                else drain_fuel opt t n (dispatch (drain_fuel opt t n) t i (take_next t i g1)))"

definition drain :: "governor_options \<Rightarrow> int \<Rightarrow> governor \<Rightarrow> governor" where
  "drain opt t g = drain_fuel opt t (length (queue g)) g"

section \<open>The entries of the event loop\<close>

definition new_request ::
  "HostRequestKind \<Rightarrow> hook_answer \<Rightarrow> bool \<Rightarrow> operation_answer \<Rightarrow> charged \<Rightarrow> request" where
  "new_request k h ha op ch = \<lparr>q_kind = k, q_hook = h, q_hook_aborts = ha, q_operation = op, q_charged = ch,
     q_state = Rq_queued, q_aborted = False, q_activeReleased = False, q_budgetRefunded = False,
     q_outcome = None, q_awaits = Awaits_nothing, q_started = False, q_calls = 0\<rparr>"

text \<open>
  A call of \<open>run\<close>. An aborted signal and a refused charge reject at once. The second test of the
  signal cannot succeed: nothing runs between the two tests.
\<close>

definition run_request ::
  "governor_options \<Rightarrow> int \<Rightarrow> call_context \<Rightarrow> bool \<Rightarrow> (charged \<Rightarrow> request) \<Rightarrow> governor
   \<Rightarrow> governor \<times> (host_error, nat) result" where
  "run_request opt t c aborted mk g =
     (if aborted then (g, Inl Request_cancelled)
      else case chargeHostCallBudget t c (calls g) of
             Inl e \<Rightarrow> (g, Inl e)
           | Inr (st, ch) \<Rightarrow>
               (let i = length (requests g) in
                (drain opt t (g\<lparr>calls := st, requests := requests g @ [mk ch], queue := queue g @ [i]\<rparr>), Inr i)))"

definition noteRateLimited :: "int \<Rightarrow> int \<Rightarrow> governor \<Rightarrow> governor" where
  "noteRateLimited t delayMs g =
     (let until = max (cooldownUntil g) (t + max 0 delayMs);
          g1 = g\<lparr>cooldownUntil := until\<rparr> in
      if queue g \<noteq> [] then schedule t (until - t) g1 else g1)"

datatype entry =
    Run_called call_context bool HostRequestKind hook_answer bool operation_answer
  | Signal_aborts nat
  | Hook_resolves nat
  | Hook_rejects nat
  | Operation_resolves nat
  | Operation_rejects nat
  | Operation_finally nat
  | Timer_fires
  | Rate_limited int
  | Run_budget_installed ledger_hooks int call_context
  | Budget_installed int int call_context
  | Calls_reserved int call_context

fun handle :: "governor_options \<Rightarrow> int \<Rightarrow> entry \<Rightarrow> governor \<Rightarrow> governor" where
  "handle opt t (Run_called c aborted k h ha op) g = fst (run_request opt t c aborted (new_request k h ha op) g)"
| "handle opt t (Signal_aborts i) g = onAbort (drain opt t) t i g"
| "handle opt t (Hook_resolves i) g =
     startExternalOperation (drain opt t) t i (set_rq i ((rq g i)\<lparr>q_awaits := Awaits_nothing\<rparr>) g)"
| "handle opt t (Hook_rejects i) g =
     failBeforeDispatch (drain opt t) t i (set_rq i ((rq g i)\<lparr>q_awaits := Awaits_nothing\<rparr>) g)"
| "handle opt t (Operation_resolves i) g =
     set_rq i ((rq g i)\<lparr>q_state := Rq_settled, q_awaits := Awaits_finally,
       q_outcome := (if q_outcome (rq g i) = None then Some Resolved else q_outcome (rq g i))\<rparr>) g"
| "handle opt t (Operation_rejects i) g =
     rejectOnce Operation_failed i (set_rq i ((rq g i)\<lparr>q_state := Rq_settled, q_awaits := Awaits_finally\<rparr>) g)"
| "handle opt t (Operation_finally i) g =
     releaseActive (drain opt t) i (set_rq i ((rq g i)\<lparr>q_awaits := Awaits_nothing\<rparr>) g)"
| "handle opt t Timer_fires g = drain opt t (g\<lparr>timer := None\<rparr>)"
| "handle opt t (Rate_limited delayMs) g = noteRateLimited t delayMs g"
| "handle opt t (Run_budget_installed h m c) g = g\<lparr>calls := snd (withRunScopedHostCallBudget h m c (calls g))\<rparr>"
| "handle opt t (Budget_installed u m c) g = g\<lparr>calls := snd (withHostCallBudgetFromUsed u m c (calls g))\<rparr>"
| "handle opt t (Calls_reserved n c) g =
     (case withReservedHostCallBudget n c (calls g) of Inl e \<Rightarrow> g | Inr (c', st) \<Rightarrow> g\<lparr>calls := st\<rparr>)"

text \<open>An entry is possible when the callback is owed, the timer is due, the context exists.\<close>

fun possible :: "int \<Rightarrow> governor \<Rightarrow> entry \<Rightarrow> bool" where
  "possible t g (Run_called c aborted k h ha op) = context_ok (calls g) c"
| "possible t g (Signal_aborts i) = (i < length (requests g))"
| "possible t g (Hook_resolves i) = (i < length (requests g) \<and> q_awaits (rq g i) = Awaits_hook)"
| "possible t g (Hook_rejects i) = (i < length (requests g) \<and> q_awaits (rq g i) = Awaits_hook)"
| "possible t g (Operation_resolves i) = (i < length (requests g) \<and> q_awaits (rq g i) = Awaits_operation)"
| "possible t g (Operation_rejects i) = (i < length (requests g) \<and> q_awaits (rq g i) = Awaits_operation)"
| "possible t g (Operation_finally i) = (i < length (requests g) \<and> q_awaits (rq g i) = Awaits_finally)"
| "possible t g Timer_fires = (case timer g of None \<Rightarrow> False | Some due \<Rightarrow> due \<le> t)"
| "possible t g (Rate_limited delayMs) = True"
| "possible t g (Run_budget_installed h m c) = context_ok (calls g) c"
| "possible t g (Budget_installed u m c) = (context_ok (calls g) c \<and> 0 \<le> m)"
| "possible t g (Calls_reserved n c) = (context_ok (calls g) c \<and> 0 \<le> n)"

text \<open>The governor together with the time of the last entry: the clock does not run backwards.\<close>

inductive governor_step :: "governor_options \<Rightarrow> int \<times> governor \<Rightarrow> int \<times> governor \<Rightarrow> bool" for opt where
  entry: "t \<le> t' \<Longrightarrow> possible t' g e \<Longrightarrow> governor_step opt (t, g) (t', handle opt t' e g)"

inductive_cases governor_stepE: "governor_step opt s s'"

end
