(* ===== verification/GovernorInvariant.thy ===== *)
theory GovernorInvariant
  imports Governor
begin

text \<open>
  The invariant of the request governor and its preservation: slots and single-flight mutations,
  the queue, the life of each request, the accounting of charges, and the rate cap. The closures
  that call \<open>drain\<close> are verified once for any \<open>drain\<close> that keeps the invariant (the locale
  \<open>draining\<close>), and the recursion of \<open>drain\<close> is then an induction over its fuel.
\<close>

section \<open>Counting requests\<close>

definition count_rq :: "(request \<Rightarrow> bool) \<Rightarrow> governor \<Rightarrow> nat" where
  "count_rq P g = length (filter P (requests g))"

lemma length_filter_update:
  "i < length xs \<Longrightarrow> length (filter P (xs[i := x])) + (if P (xs ! i) then 1 else 0)
   = length (filter P xs) + (if P x then 1 else 0)"
proof (induction xs arbitrary: i)
  case Nil
  then show ?case by simp
next
  case (Cons y xs)
  then show ?case by (cases i) auto
qed

lemma nth_update_if: "xs[i := x] ! j = (if i = j \<and> i < length xs then x else xs ! j)"
  by (cases "i < length xs") (auto simp: nth_list_update list_update_beyond not_less)

lemma count_rq_set:
  "i < length (requests g) \<Longrightarrow> count_rq P (set_rq i r g) + (if P (rq g i) then 1 else 0)
   = count_rq P g + (if P r then 1 else 0)"
  by (simp add: count_rq_def set_rq_def rq_def length_filter_update)

lemma count_rq_pos: "i < length (requests g) \<Longrightarrow> P (rq g i) \<Longrightarrow> 0 < count_rq P g"
  by (auto simp: count_rq_def rq_def filter_empty_conv intro: nth_mem)

lemma rq_set_rq: "i < length (requests g) \<Longrightarrow> rq (set_rq i r g) j = (if j = i then r else rq g j)"
  by (auto simp: rq_def set_rq_def)

lemma set_rq_simps [simp]:
  "length (requests (set_rq i r g)) = length (requests g)"
  "queue (set_rq i r g) = queue g" "starts (set_rq i r g) = starts g" "active (set_rq i r g) = active g"
  "mutationActive (set_rq i r g) = mutationActive g" "timer (set_rq i r g) = timer g"
  "cooldownUntil (set_rq i r g) = cooldownUntil g"
  "calls (set_rq i r g) = calls g" "start_log (set_rq i r g) = start_log g"
  by (simp_all add: set_rq_def)

lemma rq_update [simp]:
  "rq (g\<lparr>queue := q\<rparr>) j = rq g j" "rq (g\<lparr>starts := s\<rparr>) j = rq g j" "rq (g\<lparr>active := a\<rparr>) j = rq g j"
  "rq (g\<lparr>mutationActive := b\<rparr>) j = rq g j" "rq (g\<lparr>timer := tm\<rparr>) j = rq g j"
  "rq (g\<lparr>cooldownUntil := c\<rparr>) j = rq g j" "rq (g\<lparr>calls := st\<rparr>) j = rq g j"
  "rq (g\<lparr>start_log := l\<rparr>) j = rq g j"
  by (simp_all add: rq_def)

lemma count_rq_update [simp]:
  "count_rq P (g\<lparr>queue := q\<rparr>) = count_rq P g" "count_rq P (g\<lparr>starts := s\<rparr>) = count_rq P g"
  "count_rq P (g\<lparr>active := a\<rparr>) = count_rq P g" "count_rq P (g\<lparr>mutationActive := b\<rparr>) = count_rq P g"
  "count_rq P (g\<lparr>timer := tm\<rparr>) = count_rq P g" "count_rq P (g\<lparr>cooldownUntil := c\<rparr>) = count_rq P g"
  "count_rq P (g\<lparr>calls := st\<rparr>) = count_rq P g" "count_rq P (g\<lparr>start_log := l\<rparr>) = count_rq P g"
  by (simp_all add: count_rq_def)

section \<open>The parts of the invariant\<close>

definition holds_slot :: "request \<Rightarrow> bool" where
  "holds_slot r \<longleftrightarrow> q_started r \<and> \<not> q_activeReleased r"

definition holds_mutation :: "request \<Rightarrow> bool" where
  "holds_mutation r \<longleftrightarrow> holds_slot r \<and> q_kind r = Mutation_request"

definition slots_ok :: "governor_options \<Rightarrow> governor \<Rightarrow> bool" where
  "slots_ok opt g \<longleftrightarrow> active g = int (count_rq holds_slot g) \<and> active g \<le> concurrency opt
     \<and> count_rq holds_mutation g = (if mutationActive g then 1 else 0)"

definition queue_ok :: "governor \<Rightarrow> bool" where
  "queue_ok g \<longleftrightarrow> sorted_wrt (<) (queue g)
     \<and> (\<forall>j. j \<in> set (queue g) \<longleftrightarrow> j < length (requests g) \<and> q_state (rq g j) = Rq_queued)"

text \<open>What a request of each state has done. A refunded request never reached its operation.\<close>

definition untouched :: "request \<Rightarrow> bool" where
  "untouched r \<longleftrightarrow> \<not> q_activeReleased r \<and> \<not> q_budgetRefunded r \<and> q_calls r = 0 \<and> q_outcome r = None"

definition pre_ok :: "request \<Rightarrow> bool" where
  "pre_ok r \<longleftrightarrow> q_state r = Rq_pre_dispatch \<and> q_started r \<and> untouched r"

definition request_ok :: "request \<Rightarrow> bool" where
  "request_ok r \<longleftrightarrow>
     (case q_state r of
        Rq_queued \<Rightarrow> \<not> q_started r \<and> untouched r \<and> q_awaits r = Awaits_nothing
      | Rq_pre_dispatch \<Rightarrow> q_started r \<and> untouched r \<and> q_awaits r = Awaits_hook
      | Rq_cancelled \<Rightarrow> q_activeReleased r = q_started r \<and> q_budgetRefunded r \<and> q_calls r = 0
          \<and> q_outcome r = Some (Rejected Request_cancelled)
          \<and> (q_awaits r = Awaits_nothing \<or> q_awaits r = Awaits_hook \<and> q_started r)
      | Rq_dispatched \<Rightarrow> q_started r \<and> \<not> q_activeReleased r \<and> \<not> q_budgetRefunded r \<and> q_calls r = 1
          \<and> q_outcome r = None \<and> q_awaits r = Awaits_operation
      | Rq_settled \<Rightarrow> q_started r \<and> q_calls r = (if q_budgetRefunded r then 0 else 1)
          \<and> q_outcome r \<noteq> None \<and> q_awaits r = (if q_activeReleased r then Awaits_nothing else Awaits_finally))"

definition charged_run :: "call_state \<Rightarrow> AssistantRunScope \<Rightarrow> charged \<Rightarrow> bool" where
  "charged_run st sc ch =
     (case ch of
        Charged_turn i \<Rightarrow> hooks (budgets st ! i) = Some (Charge_run sc) \<or> hooks (budgets st ! i) = Some (Convert_reserved sc)
      | _ \<Rightarrow> False)"

text \<open>Charges that are still owed: to a budget of the process, and to a run through any budget.\<close>

definition turn_count :: "nat \<Rightarrow> governor \<Rightarrow> nat" where
  "turn_count i g = count_rq (\<lambda>r. \<not> q_budgetRefunded r \<and> q_charged r = Charged_turn i) g"

definition run_count :: "AssistantRunScope \<Rightarrow> governor \<Rightarrow> nat" where
  "run_count sc g = count_rq (\<lambda>r. \<not> q_budgetRefunded r \<and> charged_run (calls g) sc (q_charged r)) g"

definition charges_ok :: "governor \<Rightarrow> bool" where
  "charges_ok g \<longleftrightarrow> budgets_ok (calls g)
     \<and> (\<forall>j<length (requests g). charge_ok (calls g) (q_charged (rq g j)))
     \<and> (\<forall>i<length (budgets (calls g)). hooks (budgets (calls g) ! i) = None \<longrightarrow>
          int (turn_count i g) \<le> used (budgets (calls g) ! i))
     \<and> (\<forall>sc row. run_row sc (run_rows (calls g)) = Some row \<longrightarrow>
          int (run_count sc g) \<le> hostCallsUsed (ar_budget row))"

definition rate_ok :: "governor_options \<Rightarrow> int \<Rightarrow> governor \<Rightarrow> bool" where
  "rate_ok opt t g \<longleftrightarrow> timely t (start_log g) \<and> timely t (starts g)
     \<and> in_window 1000 t (starts g) = in_window 1000 t (start_log g)
     \<and> spaced (nat (rateCap opt)) 1000 (start_log g)"

definition mid_ok :: "request \<Rightarrow> bool" where
  "mid_ok r \<longleftrightarrow> pre_ok r \<and> q_awaits r = Awaits_nothing"

text \<open>
  The invariant, up to one request \<open>X\<close> that has left the queue and whose hook has not answered yet.
\<close>

definition requests_ok :: "nat option \<Rightarrow> governor \<Rightarrow> bool" where
  "requests_ok X g \<longleftrightarrow>
     (\<forall>j<length (requests g). if X = Some j then mid_ok (rq g j) else request_ok (rq g j))"

definition governor_inv :: "nat option \<Rightarrow> governor_options \<Rightarrow> int \<Rightarrow> governor \<Rightarrow> bool" where
  "governor_inv X opt t g \<longleftrightarrow> slots_ok opt g \<and> queue_ok g \<and> requests_ok X g \<and> charges_ok g \<and> rate_ok opt t g"

lemma rate_ok_later: "rate_ok opt t g \<Longrightarrow> t \<le> t' \<Longrightarrow> rate_ok opt t' g"
  using in_window_later [of t t' 1000 "starts g"] in_window_later [of t t' 1000 "start_log g"]
  by (auto simp: rate_ok_def intro: timely_later)

lemma governor_inv_later: "governor_inv X opt t g \<Longrightarrow> t \<le> t' \<Longrightarrow> governor_inv X opt t' g"
  by (auto simp: governor_inv_def intro: rate_ok_later)

section \<open>Charges and refunds\<close>

lemma refund_run_rows:
  "run_rows (refund_charge t ch st) =
     (case ch of Charged_turn i \<Rightarrow> (case hooks (budgets st ! i) of None \<Rightarrow> run_rows st
                                   | Some h \<Rightarrow> on_refund t h (run_rows st)) | _ \<Rightarrow> run_rows st)"
  by (cases ch) (auto simp: put_budget_def Let_def split: option.splits)

lemma refund_hooks:
  "hooks (budgets (refund_charge t ch st) ! i) = hooks (budgets st ! i)"
  by (cases ch) (auto simp: put_budget_def Let_def nth_update_if split: option.splits)

lemma refund_used:
  "charge_ok st ch \<Longrightarrow> i < length (budgets st) \<Longrightarrow>
   used (budgets (refund_charge t ch st) ! i) = used (budgets st ! i) - (if ch = Charged_turn i then 1 else 0)"
  by (cases ch) (auto simp: put_budget_def Let_def nth_update_if split: option.splits)

lemma charged_run_refund [simp]: "charged_run (refund_charge t ch st) sc = charged_run st sc"
  unfolding charged_run_def refund_hooks ..

lemma charge_ok_refund [simp]: "charge_ok (refund_charge t ch st) = charge_ok st"
proof
  fix c
  show "charge_ok (refund_charge t ch st) c = charge_ok st c"
    by (cases c) (simp_all add: refund_keeps_shape)
qed

lemma refund_row_used: "hostCallsUsed (ar_budget (refund_row t r)) = max 0 (hostCallsUsed (ar_budget r) - 1)"
  by (simp add: refund_row_def)

lemma on_refund_row:
  "run_row sc (on_refund t h rows) =
     map_option (\<lambda>r. if h = Charge_run sc \<or> h = Convert_reserved sc then refund_row t r else r) (run_row sc rows)"
  by (cases h) (auto simp: refundRunHostCall_def run_row_upd option.map_comp o_def
      intro!: option.map_cong dest!: run_row_SomeD)

text \<open>The ledger after a refund has at least what was owed, less the refunded call.\<close>

lemma refund_ledger:
  assumes row: "run_row sc (run_rows (refund_charge t ch st)) = Some row'"
    and owed: "\<And>row. run_row sc (run_rows st) = Some row \<Longrightarrow> int n \<le> hostCallsUsed (ar_budget row)"
    and n': "n' + (if charged_run st sc ch then 1 else 0) = n"
  shows "int n' \<le> hostCallsUsed (ar_budget row')"
proof (cases "\<exists>i h. ch = Charged_turn i \<and> hooks (budgets st ! i) = Some h")
  case True
  then obtain i h where ch: "ch = Charged_turn i" "hooks (budgets st ! i) = Some h" by blast
  obtain row where r: "run_row sc (run_rows st) = Some row"
    "row' = (if h = Charge_run sc \<or> h = Convert_reserved sc then refund_row t row else row)"
    using row unfolding refund_run_rows ch charged.case option.case on_refund_row by blast
  from owed [OF r(1)] n' r(2) ch show ?thesis
    by (auto simp: charged_run_def refund_row_used split: if_splits)
next
  case False
  then have "run_rows (refund_charge t ch st) = run_rows st" "\<not> charged_run st sc ch"
    by (auto simp: refund_run_rows charged_run_def split: charged.splits option.splits)
  with row owed [of row'] n' show ?thesis by simp
qed

lemma charged_hooks:
  assumes "chargeHostCallBudget t c st = Inr (st', ch)"
  shows "charged_run st' = charged_run st" "charge_ok st' = charge_ok st"
    "hooks (budgets st' ! i) = hooks (budgets st ! i)"
proof -
  have h: "hooks (budgets st' ! j) = hooks (budgets st ! j)" for j
    using assms by (auto simp: chargeHostCallBudget_def spend_def put_budget_def nth_update_if Let_def
        split: option.splits if_splits prod.splits)
  show "charged_run st' = charged_run st" by (simp add: charged_run_def h fun_eq_iff split: charged.split)
  show "charge_ok st' = charge_ok st"
  proof
    fix x
    show "charge_ok st' x = charge_ok st x" by (cases x) (simp_all add: charge_keeps_shape [OF assms])
  qed
  show "hooks (budgets st' ! i) = hooks (budgets st ! i)" by (rule h)
qed

lemma charge_used:
  assumes "chargeHostCallBudget t c st = Inr (st', ch)" "context_ok st c"
  shows "used (budgets st' ! i) = used (budgets st ! i) + (if ch = Charged_turn i then 1 else 0)"
  using assms
  by (auto simp: chargeHostCallBudget_def spend_def put_budget_def nth_update_if context_ok_def Let_def
      split: option.splits if_splits prod.splits)

lemma on_charge_row:
  assumes "on_charge t h rows = (rows', True)" "run_ledger_ok rows" "run_row sc rows' = Some row'"
  shows "\<exists>row. run_row sc rows = Some row \<and> hostCallsUsed (ar_budget row')
    = hostCallsUsed (ar_budget row) + (if h = Charge_run sc \<or> h = Convert_reserved sc then 1 else 0)"
proof (cases h)
  case (Charge_run s)
  have g: "snd (chargeRunHostCall t s rows)" "rows' = fst (chargeRunHostCall t s rows)"
    using assms(1) Charge_run by simp_all
  then obtain r where r: "run_row s rows = Some r" "ledger_total r < 60"
    using charge_granted_iff [OF assms(2)] by blast
  obtain row where row: "run_row sc rows = Some row"
    "row' = (if ar_scope row = s \<and> ledger_total row < 60 then charge_row t row else row)"
    using assms(3) g(2) by (auto simp: chargeRunHostCall_def Let_def run_row_upd)
  with r Charge_run run_row_SomeD [OF row(1)] show ?thesis by (auto simp: charge_row_def)
next
  case (Convert_reserved s)
  have g: "snd (convertReservedRunHostCall t s rows)" "rows' = fst (convertReservedRunHostCall t s rows)"
    using assms(1) Convert_reserved by simp_all
  then obtain r where r: "run_row s rows = Some r" "0 < hostCallsReserved (ar_budget r) \<or> ledger_total r < 60"
    using convert_granted_iff [OF assms(2)] by blast
  obtain row where row: "run_row sc rows = Some row"
    "row' = (if ar_scope row = s \<and> (0 < hostCallsReserved (ar_budget row) \<or> ledger_total row < 60)
             then convert_row t row else row)"
    using assms(3) g(2) by (auto simp: convertReservedRunHostCall_def Let_def run_row_upd)
  with r Convert_reserved run_row_SomeD [OF row(1)] show ?thesis by (auto simp: convert_row_def)
qed

lemma charge_ledger:
  assumes ch: "chargeHostCallBudget t c st = Inr (st', ch)" and ok: "budgets_ok st"
    and row: "run_row sc (run_rows st') = Some row'"
  shows "\<exists>row. run_row sc (run_rows st) = Some row
    \<and> hostCallsUsed (ar_budget row') = hostCallsUsed (ar_budget row) + (if charged_run st sc ch then 1 else 0)"
proof (cases "\<exists>i h. ch = Charged_turn i \<and> hooks (budgets st ! i) = Some h")
  case True
  then obtain i h where i: "ch = Charged_turn i" "hooks (budgets st ! i) = Some h" by blast
  then have "on_charge t h (run_rows st) = (run_rows st', True)"
    using ch by (auto simp: chargeHostCallBudget_def spend_def put_budget_def Let_def
        split: option.splits if_splits prod.splits)
  from on_charge_row [OF this _ row] ok i show ?thesis by (auto simp: budgets_ok_def charged_run_def)
next
  case False
  then have "run_rows st' = run_rows st" "\<not> charged_run st sc ch"
    using ch by (auto simp: chargeHostCallBudget_def spend_def put_budget_def charged_run_def Let_def
        split: option.splits if_splits prod.splits charged.splits)
  with row show ?thesis by auto
qed

section \<open>Replacing one request\<close>

text \<open>
  Every closure changes one request, leaves the queue if it was in it, frees its slot when it stops
  holding one, and refunds its charge when it becomes refunded.
\<close>

definition replace :: "int \<Rightarrow> nat \<Rightarrow> request \<Rightarrow> governor \<Rightarrow> governor" where
  "replace t i r g = (set_rq i r g)
     \<lparr>queue := (if q_state (rq g i) = Rq_queued then remove1 i (queue g) else queue g),
      active := (if holds_slot (rq g i) \<and> \<not> holds_slot r then active g - 1 else active g),
      mutationActive := (if holds_mutation (rq g i) \<and> \<not> holds_slot r then False else mutationActive g),
      calls := (if q_budgetRefunded r \<and> \<not> q_budgetRefunded (rq g i)
                then refund_charge t (q_charged (rq g i)) (calls g) else calls g)\<rparr>"

definition may_replace :: "request \<Rightarrow> request \<Rightarrow> bool" where
  "may_replace r r' \<longleftrightarrow> request_ok r' \<and> q_kind r' = q_kind r \<and> q_charged r' = q_charged r
     \<and> q_state r' \<noteq> Rq_queued \<and> (holds_slot r' \<longrightarrow> holds_slot r)
     \<and> (q_budgetRefunded r \<longrightarrow> q_budgetRefunded r')"

lemma replace_slots:
  assumes "slots_ok opt g" "i < length (requests g)" "may_replace (rq g i) r"
  shows "slots_ok opt (replace t i r g)"
  using assms count_rq_set [OF assms(2), of holds_slot r] count_rq_set [OF assms(2), of holds_mutation r]
    count_rq_pos [OF assms(2), of holds_mutation]
  by (auto simp: slots_ok_def replace_def may_replace_def holds_mutation_def split: if_splits)

lemma replace_queue:
  assumes q: "queue_ok g" and i: "i < length (requests g)" and m: "may_replace (rq g i) r"
  shows "queue_ok (replace t i r g)"
proof -
  have d: "distinct (queue g)" using q by (simp add: queue_ok_def strict_sorted_iff)
  have "sorted_wrt (<) (remove1 i (queue g))"
    using q by (simp add: queue_ok_def strict_sorted_iff sorted_remove1)
  with q i m d show ?thesis
    by (auto simp: queue_ok_def replace_def may_replace_def rq_set_rq set_remove1_eq)
qed

lemma replace_requests:
  assumes "requests_ok X g" "i < length (requests g)" "X = None \<or> X = Some i" "may_replace (rq g i) r"
  shows "requests_ok None (replace t i r g)"
  using assms by (auto simp: requests_ok_def replace_def may_replace_def rq_set_rq)

lemma replace_charges:
  assumes c: "charges_ok g" and i: "i < length (requests g)" and m: "may_replace (rq g i) r"
  shows "charges_ok (replace t i r g)"
proof (cases "q_budgetRefunded r \<and> \<not> q_budgetRefunded (rq g i)")
  case False
  then have same: "q_budgetRefunded r = q_budgetRefunded (rq g i)" "q_charged r = q_charged (rq g i)"
    using m by (auto simp: may_replace_def)
  have "calls (replace t i r g) = calls g" using False by (auto simp: replace_def)
  moreover have "turn_count j (replace t i r g) = turn_count j g" for j
    using count_rq_set [OF i, of "\<lambda>r. \<not> q_budgetRefunded r \<and> q_charged r = Charged_turn j" r] same
    by (simp add: turn_count_def replace_def)
  moreover have "run_count sc (replace t i r g) = run_count sc g" for sc
    using count_rq_set [OF i, of "\<lambda>r. \<not> q_budgetRefunded r \<and> charged_run (calls g) sc (q_charged r)" r] same False
    by (simp add: run_count_def replace_def)
  ultimately show ?thesis using c same by (simp add: charges_ok_def replace_def rq_set_rq i)
next
  case True
  let ?ch = "q_charged (rq g i)" and ?g = "replace t i r g"
  have ch: "q_charged r = ?ch" using m by (simp add: may_replace_def)
  have cok: "charge_ok (calls g) ?ch" using c i by (simp add: charges_ok_def)
  have calls: "calls ?g = refund_charge t ?ch (calls g)" using True by (simp add: replace_def)
  have turn: "turn_count j ?g + (if ?ch = Charged_turn j then 1 else 0) = turn_count j g" for j
    using count_rq_set [OF i, of "\<lambda>r. \<not> q_budgetRefunded r \<and> q_charged r = Charged_turn j" r] True
    by (simp add: turn_count_def replace_def)
  have run: "run_count sc ?g + (if charged_run (calls g) sc ?ch then 1 else 0) = run_count sc g" for sc
    using count_rq_set [OF i, of "\<lambda>r. \<not> q_budgetRefunded r \<and> charged_run (calls g) sc (q_charged r)" r] True
    by (auto simp: run_count_def calls) (auto simp: replace_def)
  show ?thesis
    unfolding charges_ok_def
  proof (intro conjI allI impI)
    show "budgets_ok (calls ?g)" using c cok by (simp add: calls charges_ok_def refund_keeps_ok)
  next
    fix j assume "j < length (requests ?g)"
    then have j: "j < length (requests g)" by (simp add: replace_def)
    have "q_charged (rq ?g j) = q_charged (rq g j)" using ch by (simp add: replace_def rq_set_rq i)
    with c j show "charge_ok (calls ?g) (q_charged (rq ?g j))" by (simp add: calls charges_ok_def)
  next
    fix j assume "j < length (budgets (calls ?g))" "hooks (budgets (calls ?g) ! j) = None"
    then have "int (turn_count j g) \<le> used (budgets (calls g) ! j)" "j < length (budgets (calls g))"
      using c by (simp_all add: calls refund_hooks refund_keeps_shape charges_ok_def)
    with turn [of j] show "int (turn_count j ?g) \<le> used (budgets (calls ?g) ! j)"
      by (auto simp: calls refund_used [OF cok] split: if_splits)
  next
    fix sc row assume "run_row sc (run_rows (calls ?g)) = Some row"
    then have "run_row sc (run_rows (refund_charge t ?ch (calls g))) = Some row" by (simp add: calls)
    from refund_ledger [OF this _ run] c show "int (run_count sc ?g) \<le> hostCallsUsed (ar_budget row)"
      by (simp add: charges_ok_def)
  qed
qed

lemma replace_rate: "rate_ok opt t g \<Longrightarrow> rate_ok opt t (replace t' i r g)"
  by (simp add: rate_ok_def replace_def)

lemma replace_inv:
  assumes "governor_inv X opt t g" "i < length (requests g)" "X = None \<or> X = Some i" "may_replace (rq g i) r"
  shows "governor_inv None opt t (replace t' i r g)"
  using assms replace_requests [OF _ assms(2,3,4)]
  by (simp add: governor_inv_def replace_slots replace_queue replace_charges replace_rate)

lemma replace_other:
  "i < length (requests g) \<Longrightarrow> rq (replace t i r g) j = (if j = i then r else rq g j)"
  "length (requests (replace t i r g)) = length (requests g)"
  "set (queue (replace t i r g)) \<subseteq> set (queue g)"
  by (simp_all add: replace_def rq_set_rq set_remove1_subset)

section \<open>The closures\<close>

text \<open>
  What a closure may do from \<open>g\<close> to \<open>g'\<close>: the invariant holds again, nothing was added to the
  queue, and of the requests that had left the queue it touched only its own.
\<close>

definition closes :: "governor_options \<Rightarrow> int \<Rightarrow> nat option \<Rightarrow> governor \<Rightarrow> governor \<Rightarrow> bool" where
  "closes opt t X g g' \<longleftrightarrow> governor_inv None opt t g' \<and> length (requests g') = length (requests g)
     \<and> set (queue g') \<subseteq> set (queue g)
     \<and> (\<forall>j<length (requests g). X \<noteq> Some j \<and> q_state (rq g j) \<noteq> Rq_queued \<longrightarrow> rq g' j = rq g j)"

definition cancelled_request :: "request \<Rightarrow> request" where
  "cancelled_request r =
     (let c = r\<lparr>q_state := Rq_cancelled, q_budgetRefunded := True, q_outcome := Some (Rejected Request_cancelled)\<rparr>
      in if q_started r then c\<lparr>q_activeReleased := True\<rparr> else c)"

definition failed_request :: "request \<Rightarrow> request" where
  "failed_request r = r\<lparr>q_state := Rq_settled, q_budgetRefunded := True,
     q_outcome := Some (Rejected Operation_failed), q_activeReleased := True\<rparr>"

definition thrown_request :: "request \<Rightarrow> request" where
  "thrown_request r = r\<lparr>q_calls := q_calls r + 1, q_state := Rq_settled,
     q_outcome := Some (Rejected Operation_failed), q_activeReleased := True\<rparr>"

definition dispatched_request :: "request \<Rightarrow> request" where
  "dispatched_request r = r\<lparr>q_state := Rq_dispatched, q_calls := q_calls r + 1, q_awaits := Awaits_operation\<rparr>"

lemmas request_moves = cancelled_request_def failed_request_def thrown_request_def dispatched_request_def

lemma may_cancel:
  assumes "request_ok r \<or> pre_ok r" "q_state r = Rq_queued \<or> q_state r = Rq_pre_dispatch"
    "q_awaits r = Awaits_nothing \<or> q_awaits r = Awaits_hook"
  shows "may_replace r (cancelled_request r)"
  using assms
  by (auto simp: may_replace_def cancelled_request_def Let_def request_ok_def pre_ok_def untouched_def holds_slot_def)

lemma may_fail: "pre_ok r \<Longrightarrow> q_awaits r = Awaits_nothing \<Longrightarrow> may_replace r (failed_request r)"
  by (auto simp: may_replace_def failed_request_def request_ok_def pre_ok_def untouched_def holds_slot_def)

lemma may_throw: "pre_ok r \<Longrightarrow> q_awaits r = Awaits_nothing \<Longrightarrow> may_replace r (thrown_request r)"
  by (auto simp: may_replace_def thrown_request_def request_ok_def pre_ok_def untouched_def holds_slot_def)

lemma may_dispatch: "pre_ok r \<Longrightarrow> may_replace r (dispatched_request r)"
  by (auto simp: may_replace_def dispatched_request_def request_ok_def pre_ok_def untouched_def holds_slot_def)

lemmas closure_defs = replace_def request_moves cancelBeforeDispatch_def failBeforeDispatch_def
  startExternalOperation_def refundBeforeDispatch_def rejectOnce_def releaseActive_def free_slot_def
  set_rq_def rq_def holds_slot_def holds_mutation_def Let_def

text \<open>Each closure, on a live request, is one replacement followed by \<open>drain\<close>.\<close>

lemma cancel_queued_eq:
  assumes "i < length (requests g)" "request_ok (rq g i)" "q_state (rq g i) = Rq_queued"
  shows "cancelBeforeDispatch D t i g = D (replace t i (cancelled_request (rq g i)) g)"
proof -
  have "cancelBeforeDispatch (\<lambda>g. g) t i g = replace t i (cancelled_request (rq g i)) g"
    using assms by (auto simp: closure_defs request_ok_def untouched_def)
  moreover have "cancelBeforeDispatch D t i g = D (cancelBeforeDispatch (\<lambda>g. g) t i g)"
    using assms(3) by (simp add: cancelBeforeDispatch_def Let_def)
  ultimately show ?thesis by simp
qed

lemma cancel_pre_eq:
  assumes "i < length (requests g)" "pre_ok (rq g i)"
  shows "cancelBeforeDispatch D t i g = D (replace t i (cancelled_request (rq g i)) g)"
  using assms by (auto simp: closure_defs pre_ok_def untouched_def intro!: arg_cong [where f = D])

lemma cancel_late_eq:
  "q_state (rq g i) \<noteq> Rq_queued \<Longrightarrow> q_state (rq g i) \<noteq> Rq_pre_dispatch \<Longrightarrow> cancelBeforeDispatch D t i g = g"
  by (simp add: cancelBeforeDispatch_def)

lemma fail_pre_eq:
  assumes "i < length (requests g)" "pre_ok (rq g i)"
  shows "failBeforeDispatch D t i g = D (replace t i (failed_request (rq g i)) g)"
  using assms by (auto simp: closure_defs pre_ok_def untouched_def intro!: arg_cong [where f = D])

lemma start_pre_eq:
  assumes "i < length (requests g)" "pre_ok (rq g i)" "\<not> q_aborted (rq g i)"
  shows "startExternalOperation D t i g =
    (case q_operation (rq g i) of
       Operation_throws \<Rightarrow> D (replace t i (thrown_request (rq g i)) g)
     | Operation_promises \<Rightarrow> replace t i (dispatched_request (rq g i)) g)"
  using assms
  by (auto simp: closure_defs pre_ok_def untouched_def intro!: arg_cong [where f = D] split: operation_answer.split)

lemma late_eq:
  assumes "q_state (rq g i) = Rq_cancelled" "q_activeReleased (rq g i)"
  shows "failBeforeDispatch D t i g = g" "startExternalOperation D t i g = g"
  using assms by (simp_all add: failBeforeDispatch_def startExternalOperation_def releaseActive_def)

end
