(* ===== verification/GovernorDrain.thy ===== *)
theory GovernorDrain
  imports GovernorInvariant
begin

text \<open>
  Every entry of the event loop keeps the invariant of the governor. The closures are verified
  against any \<open>drain\<close> that keeps it (locale \<open>draining\<close>); \<open>drain\<close> itself is an induction over its
  fuel, each level an interpretation of the locale by the level below.
\<close>

lemma closes_refl: "governor_inv None opt t g \<Longrightarrow> closes opt t X g g"
  by (simp add: closes_def)

lemma replace_eq_set:
  assumes "holds_slot r = holds_slot (rq g i)" "q_budgetRefunded r = q_budgetRefunded (rq g i)"
    "q_state (rq g i) \<noteq> Rq_queued"
  shows "set_rq i r g = replace t i r g"
  using assms by (auto simp: replace_def holds_mutation_def)

lemma inv_request: "governor_inv X opt t g \<Longrightarrow> i < length (requests g) \<Longrightarrow> X \<noteq> Some i \<Longrightarrow> request_ok (rq g i)"
  by (auto simp: governor_inv_def requests_ok_def split: if_splits)

lemma inv_mid: "governor_inv (Some i) opt t g \<Longrightarrow> i < length (requests g) \<Longrightarrow> mid_ok (rq g i)"
  by (auto simp: governor_inv_def requests_ok_def split: if_splits)

lemma request_pre: "request_ok r \<Longrightarrow> q_state r = Rq_pre_dispatch \<Longrightarrow> pre_ok r"
  by (simp add: request_ok_def pre_ok_def)

lemma aborted_ok [simp]:
  "request_ok (r\<lparr>q_aborted := True\<rparr>) = request_ok r" "mid_ok (r\<lparr>q_aborted := True\<rparr>) = mid_ok r"
  "holds_slot (r\<lparr>q_aborted := True\<rparr>) = holds_slot r" "holds_mutation (r\<lparr>q_aborted := True\<rparr>) = holds_mutation r"
  by (simp_all add: request_ok_def mid_ok_def pre_ok_def untouched_def holds_slot_def holds_mutation_def
      split: request_state.split)

lemma aborted_inv:
  assumes g: "governor_inv X opt t g" and i: "i < length (requests g)"
  shows "governor_inv X opt t (set_rq i ((rq g i)\<lparr>q_aborted := True\<rparr>) g)"
proof -
  let ?r = "(rq g i)\<lparr>q_aborted := True\<rparr>"
  let ?g = "set_rq i ?r g"
  have c: "P (rq g i) = P ?r \<Longrightarrow> count_rq P ?g = count_rq P g" for P
    using count_rq_set [OF i, of P ?r] by (simp split: if_splits)
  have "slots_ok opt ?g"
    using g c [of holds_slot] c [of holds_mutation] by (simp add: governor_inv_def slots_ok_def)
  moreover have "queue_ok ?g" using g by (simp add: governor_inv_def queue_ok_def rq_set_rq i)
  moreover have "requests_ok X ?g" using g i by (auto simp: governor_inv_def requests_ok_def rq_set_rq split: if_splits)
  moreover have "charges_ok ?g"
  proof -
    have "turn_count k ?g = turn_count k g" "run_count sc ?g = run_count sc g" for k sc
      by (simp_all add: turn_count_def run_count_def c)
    with g show ?thesis by (simp add: governor_inv_def charges_ok_def rq_set_rq i)
  qed
  moreover have "rate_ok opt t ?g" using g by (simp add: governor_inv_def rate_ok_def)
  ultimately show ?thesis by (simp add: governor_inv_def)
qed

section \<open>Starting the head of the queue\<close>

definition enter :: "int \<Rightarrow> nat \<Rightarrow> governor \<Rightarrow> governor" where
  "enter t i g = set_rq i ((rq (take_next t i g) i)\<lparr>q_state := Rq_pre_dispatch\<rparr>) (take_next t i g)"

lemma prune_inv:
  assumes "governor_inv X opt t g"
  shows "governor_inv X opt t (pruneStarts t g)"
    and "starts (pruneStarts t g) = in_window 1000 t (start_log g)"
proof -
  have "starts (pruneStarts t g) = in_window 1000 t (starts g)"
    using assms by (simp add: pruneStarts_def governor_inv_def rate_ok_def timely_def in_window_def
        shift_while_le_sorted_filter)
  moreover have "in_window 1000 t (starts g) = in_window 1000 t (start_log g)"
    using assms by (simp add: governor_inv_def rate_ok_def)
  ultimately show s: "starts (pruneStarts t g) = in_window 1000 t (start_log g)" by simp
  have "rate_ok opt t (pruneStarts t g)"
    using assms s timely_window [of t "start_log g" 1000]
    by (simp add: governor_inv_def rate_ok_def) (simp add: pruneStarts_def)
  with assms show "governor_inv X opt t (pruneStarts t g)"
    by (simp add: governor_inv_def slots_ok_def queue_ok_def requests_ok_def charges_ok_def
        turn_count_def run_count_def pruneStarts_def)
qed

lemma enter_inv:
  assumes g: "governor_inv None opt t g" and q: "queue g \<noteq> []" "i = hd (queue g)"
    and cap: "\<not> concurrency opt \<le> active g" "\<not> rateCap opt \<le> int (length (starts g))"
    and s: "starts g = in_window 1000 t (start_log g)"
    and single: "\<not> (q_kind (rq g i) = Mutation_request \<and> mutationActive g)"
  shows "governor_inv (Some i) opt t (enter t i g)" and "i < length (requests g)"
    and "q_state (rq g i) = Rq_queued"
proof -
  have qo: "queue_ok g" using g by (simp add: governor_inv_def)
  have "i \<in> set (queue g)" using q by simp
  then show i: "i < length (requests g)" and st: "q_state (rq g i) = Rq_queued"
    using qo by (simp_all add: queue_ok_def)
  let ?r = "(rq g i)\<lparr>q_started := True, q_state := Rq_pre_dispatch\<rparr>"
  have e: "enter t i g = (set_rq i ?r g)\<lparr>queue := tl (queue g), active := active g + 1,
      mutationActive := (mutationActive g \<or> q_kind (rq g i) = Mutation_request),
      starts := starts g @ [t], start_log := start_log g @ [t]\<rparr>"
    using i by (simp add: enter_def take_next_def set_rq_def rq_def)
  have r: "request_ok (rq g i)" by (rule inv_request [OF g i]) simp
  have hs: "\<not> holds_slot (rq g i)" "holds_slot ?r" "mid_ok ?r"
    using r st by (auto simp: request_ok_def holds_slot_def untouched_def mid_ok_def pre_ok_def)
  have c: "count_rq P (set_rq i ?r g) = count_rq P g" if "P (rq g i) = P ?r" for P
    using count_rq_set [OF i, of P ?r] that by (simp split: if_splits)
  have "slots_ok opt (enter t i g)"
    using g cap(1) single count_rq_set [OF i, of holds_slot ?r] count_rq_set [OF i, of holds_mutation ?r] hs
    by (auto simp: e governor_inv_def slots_ok_def holds_mutation_def split: if_splits)
  moreover have "queue_ok (enter t i g)"
  proof -
    obtain js where js: "queue g = i # js" using q by (cases "queue g") auto
    with qo have "i \<notin> set js" "sorted_wrt (<) js" by (auto simp: queue_ok_def)
    with qo js i show ?thesis by (auto simp: e queue_ok_def rq_set_rq)
  qed
  moreover have "requests_ok (Some i) (enter t i g)"
    using g hs(3) i by (auto simp: e governor_inv_def requests_ok_def rq_set_rq)
  moreover have "charges_ok (enter t i g)"
  proof -
    have "turn_count k (enter t i g) = turn_count k g" "run_count sc (enter t i g) = run_count sc g" for k sc
      by (simp_all add: e turn_count_def run_count_def c)
    moreover have "calls (enter t i g) = calls g" by (simp add: e)
    moreover have "q_charged (rq (enter t i g) j) = q_charged (rq g j)" for j by (simp add: e rq_set_rq i)
    moreover have "length (requests (enter t i g)) = length (requests g)" by (simp add: e)
    ultimately show ?thesis using g by (simp add: governor_inv_def charges_ok_def)
  qed
  moreover have "rate_ok opt t (enter t i g)"
  proof -
    have ro: "rate_ok opt t g" using g by (simp add: governor_inv_def)
    then have "length (in_window 1000 t (start_log g)) < nat (rateCap opt)" using cap(2) s by simp
    from spaced_snoc [OF _ _ _ this] ro
    have "spaced (nat (rateCap opt)) 1000 (start_log g @ [t])" by (simp add: rate_ok_def)
    moreover have "in_window 1000 t (starts g @ [t]) = in_window 1000 t (start_log g @ [t])"
      using ro by (simp add: rate_ok_def in_window_def)
    ultimately show ?thesis using ro by (simp add: e rate_ok_def timely_snoc)
  qed
  ultimately show "governor_inv (Some i) opt t (enter t i g)" by (simp add: governor_inv_def)
qed

section \<open>The closures, for any drain that keeps the invariant\<close>

locale draining =
  fixes opt :: governor_options and t :: int and D :: "governor \<Rightarrow> governor"
  assumes D_closes: "governor_inv None opt t g \<Longrightarrow> closes opt t None g (D g)"
begin

lemma replace_closes:
  assumes g: "governor_inv X opt t g" "i < length (requests g)" "X = None \<or> X = Some i" "may_replace (rq g i) r"
  shows "closes opt t (Some i) g (D (replace t i r g)) \<and> rq (D (replace t i r g)) i = r"
proof -
  let ?g = "replace t i r g"
  have "closes opt t None ?g (D ?g)" by (rule D_closes [OF replace_inv [OF g]])
  moreover have "q_state r \<noteq> Rq_queued" using g(4) by (simp add: may_replace_def)
  ultimately show ?thesis using g(2) replace_other(3) [of t i r g] by (auto simp: closes_def replace_other(1,2))
qed

lemma replace_only_closes:
  assumes g: "governor_inv X opt t g" "i < length (requests g)" "X = None \<or> X = Some i" "may_replace (rq g i) r"
  shows "closes opt t (Some i) g (replace t i r g)"
  using replace_inv [OF g] g(2) by (simp add: closes_def replace_other)

lemma cancel_live:
  assumes g: "governor_inv X opt t g" "i < length (requests g)" "X = None \<or> X = Some i"
    and live: "q_state (rq g i) = Rq_queued \<or> q_state (rq g i) = Rq_pre_dispatch"
  shows "closes opt t (Some i) g (cancelBeforeDispatch D t i g)
    \<and> rq (cancelBeforeDispatch D t i g) i = cancelled_request (rq g i)"
proof -
  have r: "request_ok (rq g i) \<or> mid_ok (rq g i)"
    using g inv_request [OF g(1,2)] inv_mid [of i opt t g] by auto
  then have m: "may_replace (rq g i) (cancelled_request (rq g i))"
    using live by (intro may_cancel) (auto simp: mid_ok_def request_ok_def)
  have "cancelBeforeDispatch D t i g = D (replace t i (cancelled_request (rq g i)) g)"
  proof (cases "q_state (rq g i) = Rq_queued")
    case True
    with r have "request_ok (rq g i)" by (auto simp: mid_ok_def pre_ok_def)
    then show ?thesis by (rule cancel_queued_eq [OF g(2) _ True])
  next
    case False
    with r live have "pre_ok (rq g i)" by (auto simp: mid_ok_def request_pre)
    then show ?thesis by (rule cancel_pre_eq [OF g(2)])
  qed
  with replace_closes [OF g m] show ?thesis by simp
qed

lemma cancel_closes:
  assumes g: "governor_inv None opt t g" "i < length (requests g)"
  shows "closes opt t (Some i) g (cancelBeforeDispatch D t i g)"
proof (cases "q_state (rq g i) = Rq_queued \<or> q_state (rq g i) = Rq_pre_dispatch")
  case True
  with cancel_live [OF g] show ?thesis by simp
next
  case False
  with closes_refl [OF g(1)] show ?thesis by (simp add: cancel_late_eq)
qed

lemma fail_closes:
  assumes "governor_inv (Some i) opt t g" "i < length (requests g)"
  shows "closes opt t (Some i) g (failBeforeDispatch D t i g)"
proof -
  have m: "pre_ok (rq g i)" "q_awaits (rq g i) = Awaits_nothing"
    using inv_mid [OF assms] by (simp_all add: mid_ok_def)
  from replace_closes [OF assms _ may_fail [OF m]] show ?thesis by (simp add: fail_pre_eq [OF assms(2) m(1)])
qed

lemma start_closes:
  assumes g: "governor_inv (Some i) opt t g" "i < length (requests g)"
  shows "closes opt t (Some i) g (startExternalOperation D t i g)"
proof -
  have m: "pre_ok (rq g i)" "q_awaits (rq g i) = Awaits_nothing"
    using inv_mid [OF g] by (simp_all add: mid_ok_def)
  show ?thesis
  proof (cases "q_aborted (rq g i)")
    case True
    have live: "q_state (rq g i) = Rq_queued \<or> q_state (rq g i) = Rq_pre_dispatch"
      using m(1) by (simp add: pre_ok_def)
    note c = cancel_live [OF g _ live]
    have "q_activeReleased (cancelled_request (rq g i))"
      using m(1) by (simp add: pre_ok_def cancelled_request_def Let_def)
    then have "startExternalOperation D t i g = cancelBeforeDispatch D t i g"
      using True c m(1) by (simp add: startExternalOperation_def releaseActive_def pre_ok_def)
    with c show ?thesis by simp
  next
    case False
    show ?thesis
    proof (cases "q_operation (rq g i)")
      case Operation_throws
      with replace_closes [OF g _ may_throw [OF m]] show ?thesis by (simp add: start_pre_eq [OF g(2) m(1) False])
    next
      case Operation_promises
      with replace_only_closes [OF g _ may_dispatch [OF m(1)]] show ?thesis
        by (simp add: start_pre_eq [OF g(2) m(1) False])
    qed
  qed
qed

lemma onAbort_live:
  assumes g: "governor_inv X opt t g" "i < length (requests g)" "X = None \<or> X = Some i"
    and live: "q_state (rq g i) = Rq_queued \<or> q_state (rq g i) = Rq_pre_dispatch"
  shows "closes opt t (Some i) g (onAbort D t i g)
    \<and> rq (onAbort D t i g) i = cancelled_request ((rq g i)\<lparr>q_aborted := True\<rparr>)"
  using cancel_live [OF aborted_inv [OF g(1,2)] _ g(3)] live g(2)
  by (auto simp: onAbort_def closes_def rq_set_rq)

lemma onAbort_closes:
  assumes g: "governor_inv None opt t g" "i < length (requests g)"
  shows "closes opt t (Some i) g (onAbort D t i g)"
  using cancel_closes [OF aborted_inv [OF g]] g(2)
  by (auto simp: onAbort_def closes_def rq_set_rq)

text \<open>\<open>dispatch\<close> of the head, with whatever its hook does.\<close>

lemma dispatch_closes:
  assumes g: "governor_inv (Some i) opt t (enter t i g)" and i: "i < length (requests g)"
  shows "closes opt t (Some i) (enter t i g) (dispatch D t i (take_next t i g))"
proof -
  let ?g1 = "enter t i g"
  have i1: "i < length (requests ?g1)" using i by (simp add: enter_def take_next_def)
  have r1: "rq ?g1 i = (rq (take_next t i g) i)\<lparr>q_state := Rq_pre_dispatch\<rparr>"
    using i by (simp add: enter_def rq_set_rq take_next_def)
  have m: "pre_ok (rq ?g1 i)" "q_awaits (rq ?g1 i) = Awaits_nothing"
    using inv_mid [OF g i1] by (simp_all add: mid_ok_def)
  have d: "dispatch D t i (take_next t i g) =
    (let g2 = (if q_hook_aborts (rq ?g1 i) then onAbort D t i ?g1 else ?g1) in
     case q_hook (rq ?g1 i) of
        Hook_throws \<Rightarrow> failBeforeDispatch D t i g2
      | Hook_promises \<Rightarrow> set_rq i ((rq g2 i)\<lparr>q_awaits := Awaits_hook\<rparr>) g2
      | Hook_returns \<Rightarrow> startExternalOperation D t i g2)"
    by (simp add: dispatch_def Let_def enter_def [symmetric] r1)
  show ?thesis
  proof (cases "q_hook_aborts (rq ?g1 i)")
    case True
    let ?g2 = "onAbort D t i ?g1" and ?c = "cancelled_request ((rq ?g1 i)\<lparr>q_aborted := True\<rparr>)"
    have "closes opt t (Some i) ?g1 ?g2 \<and> rq ?g2 i = ?c"
      by (rule onAbort_live [OF g i1]) (use m(1) in \<open>simp_all add: pre_ok_def\<close>)
    then have c: "closes opt t (Some i) ?g1 ?g2" "rq ?g2 i = ?c" by simp_all
    have state: "q_state ?c = Rq_cancelled" "q_activeReleased ?c"
      using m(1) by (simp_all add: pre_ok_def cancelled_request_def Let_def)
    have inv2: "governor_inv None opt t ?g2" and i2: "i < length (requests ?g2)"
      using c(1) i1 by (simp_all add: closes_def)
    show ?thesis
    proof (cases "q_hook (rq ?g1 i)")
      case Hook_promises
      have "may_replace ?c (?c\<lparr>q_awaits := Awaits_hook\<rparr>)"
        using m by (simp add: may_replace_def cancelled_request_def Let_def request_ok_def pre_ok_def
            untouched_def holds_slot_def)
      then have "closes opt t (Some i) ?g2 (replace t i (?c\<lparr>q_awaits := Awaits_hook\<rparr>) ?g2)"
        by (intro replace_only_closes [OF inv2 i2]) (simp_all add: c(2))
      moreover have "set_rq i (?c\<lparr>q_awaits := Awaits_hook\<rparr>) ?g2 = replace t i (?c\<lparr>q_awaits := Awaits_hook\<rparr>) ?g2"
        by (rule replace_eq_set) (simp_all add: c(2) state holds_slot_def)
      ultimately show ?thesis
        using c True Hook_promises by (auto simp: d Let_def closes_def)
    qed (use c True late_eq [of ?g2 i D t] state in \<open>simp_all add: d Let_def\<close>)
  next
    case False
    show ?thesis
    proof (cases "q_hook (rq ?g1 i)")
      case Hook_promises
      have "may_replace (rq ?g1 i) ((rq ?g1 i)\<lparr>q_awaits := Awaits_hook\<rparr>)"
        using m by (simp add: may_replace_def request_ok_def pre_ok_def untouched_def holds_slot_def)
      from replace_only_closes [OF g i1 _ this]
      have "closes opt t (Some i) ?g1 (replace t i ((rq ?g1 i)\<lparr>q_awaits := Awaits_hook\<rparr>) ?g1)" by simp
      moreover have "set_rq i ((rq ?g1 i)\<lparr>q_awaits := Awaits_hook\<rparr>) ?g1
          = replace t i ((rq ?g1 i)\<lparr>q_awaits := Awaits_hook\<rparr>) ?g1"
        by (rule replace_eq_set) (use m(1) in \<open>simp_all add: pre_ok_def holds_slot_def\<close>)
      ultimately show ?thesis using False Hook_promises by (simp add: d Let_def)
    qed (use fail_closes [OF g i1] start_closes [OF g i1] False in \<open>simp_all add: d\<close>)
  qed
qed

end

section \<open>Draining\<close>

lemma schedule_inv [simp]: "governor_inv X opt t (schedule u v g) = governor_inv X opt t g"
  by (simp add: schedule_def governor_inv_def slots_ok_def queue_ok_def requests_ok_def charges_ok_def
      turn_count_def run_count_def rate_ok_def)

lemma schedule_simps [simp]:
  "requests (schedule u v g) = requests g" "queue (schedule u v g) = queue g" "active (schedule u v g) = active g"
  "rq (schedule u v g) j = rq g j" "timer (schedule u v g) \<noteq> None"
  by (simp_all add: schedule_def rq_def)

lemma prune_simps [simp]:
  "requests (pruneStarts t g) = requests g" "queue (pruneStarts t g) = queue g"
  "active (pruneStarts t g) = active g" "mutationActive (pruneStarts t g) = mutationActive g"
  "rq (pruneStarts t g) j = rq g j" "start_log (pruneStarts t g) = start_log g"
  by (simp_all add: pruneStarts_def rq_def)

lemma closes_same:
  "governor_inv None opt t g' \<Longrightarrow> requests g' = requests g \<Longrightarrow> queue g' = queue g \<Longrightarrow> closes opt t X g g'"
  by (simp add: closes_def rq_def)

text \<open>What a start needs of the state before it; \<open>g1\<close> is the state with its window pruned.\<close>

lemma drain_start:
  assumes g: "governor_inv None opt t g" and D: "draining opt t D"
    and q: "queue g \<noteq> []" "\<not> concurrency opt \<le> active g"
    and cap: "\<not> rateCap opt \<le> int (length (starts (pruneStarts t g)))"
    and i: "i = hd (queue (pruneStarts t g))"
    and single: "\<not> (q_kind (rq (pruneStarts t g) i) = Mutation_request \<and> mutationActive (pruneStarts t g))"
  shows "closes opt t None g (dispatch D t i (take_next t i (pruneStarts t g)))"
proof -
  let ?g1 = "pruneStarts t g"
  have e: "governor_inv (Some i) opt t (enter t i ?g1)" "i < length (requests ?g1)"
    "q_state (rq ?g1 i) = Rq_queued"
    by (rule enter_inv [OF prune_inv(1) [OF g]]; use assms prune_inv(2) [OF g] in simp)+
  from draining.dispatch_closes [OF D e(1,2)]
  have c: "closes opt t (Some i) (enter t i ?g1) (dispatch D t i (take_next t i ?g1))" .
  have len: "length (requests (enter t i ?g1)) = length (requests g)" by (simp add: enter_def take_next_def)
  have "rq (dispatch D t i (take_next t i ?g1)) j = rq g j"
    if j: "j < length (requests g)" "q_state (rq g j) \<noteq> Rq_queued" for j
  proof -
    have "j \<noteq> i" using j(2) e(3) by auto
    then have "rq (enter t i ?g1) j = rq g j" using e(2) by (simp add: enter_def rq_set_rq take_next_def)
    with c j \<open>j \<noteq> i\<close> len show ?thesis by (simp add: closes_def)
  qed
  moreover have "set (queue (enter t i ?g1)) \<subseteq> set (queue g)"
    using q(1) by (simp add: enter_def take_next_def list.set_sel(2) subset_iff)
  ultimately show ?thesis using c len by (auto simp: closes_def)
qed

lemma closes_trans: "closes opt t None g g' \<Longrightarrow> closes opt t None g' g'' \<Longrightarrow> closes opt t None g g''"
  by (auto simp: closes_def)

lemma drain_fuel_closes:
  "governor_inv None opt t g \<Longrightarrow> closes opt t None g (drain_fuel opt t n g)"
proof (induction n arbitrary: g)
  case 0
  then show ?case by (simp add: closes_refl)
next
  case (Suc n)
  have D: "draining opt t (drain_fuel opt t n)" by unfold_locales (rule Suc.IH)
  let ?g1 = "pruneStarts t g" and ?d = "drain_fuel opt t n"
  let ?i = "hd (queue ?g1)"
  consider (idle) "queue g = [] \<or> concurrency opt \<le> active g"
    | (cooling) "queue g \<noteq> []" "\<not> concurrency opt \<le> active g" "t < cooldownUntil g"
    | (capped) "queue g \<noteq> []" "\<not> concurrency opt \<le> active g" "\<not> t < cooldownUntil g"
        "rateCap opt \<le> int (length (starts ?g1))"
    | (serial) "queue g \<noteq> []" "\<not> concurrency opt \<le> active g" "\<not> t < cooldownUntil g"
        "\<not> rateCap opt \<le> int (length (starts ?g1))" "q_kind (rq ?g1 ?i) = Mutation_request \<and> mutationActive ?g1"
    | (start) "queue g \<noteq> []" "\<not> concurrency opt \<le> active g" "\<not> t < cooldownUntil g"
        "\<not> rateCap opt \<le> int (length (starts ?g1))" "\<not> (q_kind (rq ?g1 ?i) = Mutation_request \<and> mutationActive ?g1)"
    by blast
  then show ?case
  proof cases
    case idle
    then show ?thesis using closes_refl [OF Suc.prems] by simp
  next
    case cooling
    then show ?thesis using Suc.prems by (simp add: closes_same)
  next
    case capped
    then show ?thesis using prune_inv(1) [OF Suc.prems] by (simp add: Let_def closes_same)
  next
    case serial
    then show ?thesis using prune_inv(1) [OF Suc.prems] by (simp add: Let_def closes_same)
  next
    case start
    let ?g2 = "dispatch ?d t ?i (take_next t ?i ?g1)"
    have c: "closes opt t None g ?g2" by (rule drain_start [OF Suc.prems D start(1,2,4) refl start(5)])
    then have "closes opt t None ?g2 (?d ?g2)" by (intro Suc.IH) (simp add: closes_def)
    from closes_trans [OF c this] start show ?thesis by (auto simp: Let_def)
  qed
qed

interpretation drains: draining opt t "drain_fuel opt t n" for opt t n
  by unfold_locales (rule drain_fuel_closes)

end
