(* ===== verification/GovernorSafety.thy ===== *)
theory GovernorSafety
  imports GovernorDrain
begin

text \<open>
  The governor as a step system: every entry keeps the invariant, no queued request is ever
  stranded, and \<open>drain\<close> with the length of the queue as fuel satisfies the recursion of the code.
\<close>

section \<open>The recursion of drain\<close>

lemma closes_length:
  assumes "closes opt t X g g'" "queue_ok g"
  shows "length (queue g') \<le> length (queue g)"
proof -
  have "distinct (queue g')" "distinct (queue g)" "set (queue g') \<subseteq> set (queue g)"
    using assms by (auto simp: closes_def governor_inv_def queue_ok_def strict_sorted_iff)
  then show ?thesis by (metis card_mono distinct_card finite_set)
qed

text \<open>A closure depends on \<open>drain\<close> only at states whose queue is part of its own.\<close>

definition agree_below :: "governor_options \<Rightarrow> int \<Rightarrow> nat set \<Rightarrow> (governor \<Rightarrow> governor) \<Rightarrow> (governor \<Rightarrow> governor) \<Rightarrow> bool" where
  "agree_below opt t Q D D' \<longleftrightarrow> (\<forall>h. governor_inv None opt t h \<and> set (queue h) \<subseteq> Q \<longrightarrow> D h = D' h)"

lemma agree_replace:
  assumes "agree_below opt t Q D D'" "governor_inv X opt t g" "i < length (requests g)" "X = None \<or> X = Some i"
    "may_replace (rq g i) r" "set (queue g) \<subseteq> Q"
  shows "D (replace t i r g) = D' (replace t i r g)"
  using assms replace_inv [OF assms(2-5)] replace_other(3) [of t i r g] by (simp add: agree_below_def subset_trans)

lemma dispatch_cong:
  assumes a: "agree_below opt t (set (queue (enter t i g))) D D'"
    and d: "draining opt t D" "draining opt t D'"
    and g: "governor_inv (Some i) opt t (enter t i g)" and i: "i < length (requests g)"
  shows "dispatch D t i (take_next t i g) = dispatch D' t i (take_next t i g)"
proof -
  let ?g1 = "enter t i g"
  have i1: "i < length (requests ?g1)" using i by (simp add: enter_def take_next_def)
  have m: "pre_ok (rq ?g1 i)" "q_awaits (rq ?g1 i) = Awaits_nothing"
    using inv_mid [OF g i1] by (simp_all add: mid_ok_def)
  have r1: "rq ?g1 i = (rq (take_next t i g) i)\<lparr>q_state := Rq_pre_dispatch\<rparr>"
    using i by (simp add: enter_def rq_set_rq take_next_def)
  note rep = agree_replace [OF a _ _ _ _ subset_refl]
  show ?thesis
  proof (cases "q_hook_aborts (rq ?g1 i)")
    case True
    let ?a = "set_rq i ((rq ?g1 i)\<lparr>q_aborted := True\<rparr>) ?g1"
    have ainv: "governor_inv (Some i) opt t ?a" by (rule aborted_inv [OF g i1])
    have arq: "rq ?a i = (rq ?g1 i)\<lparr>q_aborted := True\<rparr>" "i < length (requests ?a)"
      using i1 by (simp_all add: rq_set_rq)
    have pre: "pre_ok (rq ?a i)" using m(1) by (simp add: arq pre_ok_def untouched_def)
    have may: "may_replace (rq ?a i) (cancelled_request (rq ?a i))"
      using m pre by (intro may_cancel) (simp_all add: arq pre_ok_def)
    have "onAbort D t i ?g1 = onAbort D' t i ?g1"
      unfolding onAbort_def cancel_pre_eq [OF arq(2) pre]
      by (rule agree_replace [OF a ainv arq(2) _ may]) simp_all
    moreover have "rq (onAbort D t i ?g1) i = cancelled_request ((rq ?g1 i)\<lparr>q_aborted := True\<rparr>)"
      using draining.onAbort_live [OF d(1) g i1] m(1) by (simp add: pre_ok_def)
    moreover have "q_state (cancelled_request ((rq ?g1 i)\<lparr>q_aborted := True\<rparr>)) = Rq_cancelled"
      "q_activeReleased (cancelled_request ((rq ?g1 i)\<lparr>q_aborted := True\<rparr>))"
      using m(1) by (simp_all add: pre_ok_def cancelled_request_def Let_def)
    ultimately show ?thesis
      using True late_eq [of "onAbort D t i ?g1" i]
      by (simp add: dispatch_def Let_def enter_def [symmetric] r1 split: hook_answer.split)
  next
    case False
    have "failBeforeDispatch D t i ?g1 = failBeforeDispatch D' t i ?g1"
      by (simp add: fail_pre_eq [OF i1 m(1)] rep [OF g i1 _ may_fail [OF m]])
    moreover have "startExternalOperation D t i ?g1 = startExternalOperation D' t i ?g1"
    proof (cases "q_aborted (rq ?g1 i)")
      case True
      have may: "may_replace (rq ?g1 i) (cancelled_request (rq ?g1 i))"
        using m by (intro may_cancel) (simp_all add: pre_ok_def)
      have c: "cancelBeforeDispatch D t i ?g1 = cancelBeforeDispatch D' t i ?g1"
        unfolding cancel_pre_eq [OF i1 m(1)] by (rule rep [OF g i1 _ may]) simp
      have "rq (cancelBeforeDispatch D t i ?g1) i = cancelled_request (rq ?g1 i)"
        using draining.cancel_live [OF d(1) g i1] m(1) by (simp add: pre_ok_def)
      then have "q_activeReleased (rq (cancelBeforeDispatch D t i ?g1) i)"
        using m(1) by (simp add: pre_ok_def cancelled_request_def Let_def)
      with c True m(1) show ?thesis
        by (simp add: startExternalOperation_def releaseActive_def pre_ok_def)
    next
      case False
      show ?thesis
        by (simp add: start_pre_eq [OF i1 m(1) False] rep [OF g i1 _ may_throw [OF m]] split: operation_answer.split)
    qed
    ultimately show ?thesis using False
      by (simp add: dispatch_def Let_def enter_def [symmetric] r1 split: hook_answer.split)
  qed
qed

text \<open>One level of \<open>drain\<close>: the requests it starts are the head of the queue.\<close>

definition starts_next :: "governor_options \<Rightarrow> int \<Rightarrow> governor \<Rightarrow> bool" where
  "starts_next opt t g \<longleftrightarrow> queue g \<noteq> [] \<and> active g < concurrency opt \<and> cooldownUntil g \<le> t
     \<and> int (length (starts (pruneStarts t g))) < rateCap opt
     \<and> \<not> (q_kind (rq g (hd (queue g))) = Mutation_request \<and> mutationActive g)"

lemma drain_fuel_Suc_start:
  "starts_next opt t g \<Longrightarrow> drain_fuel opt t (Suc n) g =
     drain_fuel opt t n (dispatch (drain_fuel opt t n) t (hd (queue g)) (take_next t (hd (queue g)) (pruneStarts t g)))"
  by (auto simp: starts_next_def Let_def)

lemma drain_fuel_Suc_stop:
  "\<not> starts_next opt t g \<Longrightarrow> drain_fuel opt t (Suc n) g = drain_fuel opt t (Suc m) g"
  by (auto simp: starts_next_def Let_def not_less)

lemma starts_next_enter:
  assumes g: "governor_inv None opt t g" and s: "starts_next opt t g"
  shows "governor_inv (Some (hd (queue g))) opt t (enter t (hd (queue g)) (pruneStarts t g))"
    and "hd (queue g) < length (requests (pruneStarts t g))"
    and "queue (enter t (hd (queue g)) (pruneStarts t g)) = tl (queue g)"
proof -
  show "governor_inv (Some (hd (queue g))) opt t (enter t (hd (queue g)) (pruneStarts t g))"
    "hd (queue g) < length (requests (pruneStarts t g))"
    by (rule enter_inv [OF prune_inv(1) [OF g]]; use s prune_inv(2) [OF g] in \<open>simp add: starts_next_def not_less\<close>)+
qed (simp add: enter_def take_next_def)

lemma tail_length:
  assumes g: "governor_inv None opt t g" and s: "starts_next opt t g"
    and h: "governor_inv None opt t h" "set (queue h) \<subseteq> set (tl (queue g))"
  shows "length (queue h) < length (queue g)"
proof -
  have d: "distinct (tl (queue g))" "distinct (queue h)"
    using g h(1) by (auto simp: governor_inv_def queue_ok_def strict_sorted_iff distinct_tl)
  then have "length (queue h) \<le> length (tl (queue g))"
    using h(2) by (metis card_mono distinct_card finite_set)
  moreover have "queue g \<noteq> []" using s by (simp add: starts_next_def)
  ultimately show ?thesis by (cases "queue g") auto
qed

lemma dispatched_tail:
  assumes g: "governor_inv None opt t g" and s: "starts_next opt t g" and D: "draining opt t D"
  shows "governor_inv None opt t (dispatch D t (hd (queue g)) (take_next t (hd (queue g)) (pruneStarts t g)))
    \<and> length (queue (dispatch D t (hd (queue g)) (take_next t (hd (queue g)) (pruneStarts t g)))) < length (queue g)"
proof -
  note e = starts_next_enter [OF g s]
  from draining.dispatch_closes [OF D e(1,2)] e(3) show ?thesis
    using tail_length [OF g s] by (simp add: closes_def)
qed

lemma drain_fuel_enough:
  "governor_inv None opt t g \<Longrightarrow> length (queue g) \<le> n \<Longrightarrow> length (queue g) \<le> m \<Longrightarrow>
   drain_fuel opt t n g = drain_fuel opt t m g"
proof (induction n arbitrary: m g)
  case 0
  then show ?case by (cases m) simp_all
next
  case (Suc n)
  show ?case
  proof (cases m)
    case 0
    with Suc.prems show ?thesis by simp
  next
    case (Suc m')
    show ?thesis
    proof (cases "starts_next opt t g")
      case True
      let ?i = "hd (queue g)"
      note e = starts_next_enter [OF Suc.prems(1) True]
      let ?d = "\<lambda>k. dispatch (drain_fuel opt t k) t ?i (take_next t ?i (pruneStarts t g))"
      have "agree_below opt t (set (tl (queue g))) (drain_fuel opt t n) (drain_fuel opt t m')"
        unfolding agree_below_def
      proof (intro allI impI)
        fix h assume h: "governor_inv None opt t h \<and> set (queue h) \<subseteq> set (tl (queue g))"
        with tail_length [OF Suc.prems(1) True] have "length (queue h) < length (queue g)" by blast
        with Suc.IH [of h m'] h Suc.prems(2,3) Suc show "drain_fuel opt t n h = drain_fuel opt t m' h" by simp
      qed
      then have d: "?d n = ?d m'"
        by (intro dispatch_cong [OF _ drains.draining_axioms drains.draining_axioms e(1,2)]) (simp add: e(3))
      note l = dispatched_tail [OF Suc.prems(1) True drains.draining_axioms [where n = n]]
      then have "drain_fuel opt t n (?d n) = drain_fuel opt t m' (?d n)"
        using Suc.prems(2,3) Suc by (intro Suc.IH) simp_all
      with d show ?thesis unfolding Suc drain_fuel_Suc_start [OF True] by simp
    next
      case False
      from drain_fuel_Suc_stop [OF this] show ?thesis unfolding Suc .
    qed
  qed
qed

text \<open>The recursion equation of the code.\<close>

lemma drain_unfold:
  assumes g: "governor_inv None opt t g"
  shows "drain opt t g =
     (if queue g = [] \<or> concurrency opt \<le> active g then g
      else if t < cooldownUntil g then schedule t (cooldownUntil g - t) g
      else let g1 = pruneStarts t g in
           if rateCap opt \<le> int (length (starts g1)) then schedule t (hd (starts g1) + 1000 - t) g1
           else let i = hd (queue g1) in
                if q_kind (rq g1 i) = Mutation_request \<and> mutationActive g1 then g1
                else drain opt t (dispatch (drain opt t) t i (take_next t i g1)))"
proof (cases "starts_next opt t g")
  case True
  let ?i = "hd (queue g)"
  note e = starts_next_enter [OF g True]
  let ?d = "\<lambda>D. dispatch D t ?i (take_next t ?i (pruneStarts t g))"
  obtain n where n: "length (queue g) = Suc n" using True by (cases "queue g") (auto simp: starts_next_def)
  have dd: "draining opt t (drain opt t)"
    unfolding drain_def by unfold_locales (rule drain_fuel_closes)
  have "agree_below opt t (set (tl (queue g))) (drain_fuel opt t n) (drain opt t)"
    unfolding agree_below_def
  proof (intro allI impI)
    fix h assume h: "governor_inv None opt t h \<and> set (queue h) \<subseteq> set (tl (queue g))"
    with tail_length [OF g True] n have "length (queue h) \<le> n" by fastforce
    with h show "drain_fuel opt t n h = drain opt t h" unfolding drain_def by (intro drain_fuel_enough) simp_all
  qed
  then have d: "?d (drain_fuel opt t n) = ?d (drain opt t)"
    by (intro dispatch_cong [OF _ drains.draining_axioms dd e(1,2)]) (simp add: e(3))
  have l: "governor_inv None opt t (?d (drain opt t))" "length (queue (?d (drain opt t))) \<le> n"
    using dispatched_tail [OF g True dd] n by simp_all
  have "drain opt t g = drain_fuel opt t n (?d (drain_fuel opt t n))"
    unfolding drain_def n by (rule drain_fuel_Suc_start [OF True])
  also have "\<dots> = drain opt t (?d (drain opt t))"
    unfolding d drain_def [of opt t "?d (drain opt t)"] by (rule drain_fuel_enough [OF l(1,2)]) simp
  finally show ?thesis using True by (auto simp: starts_next_def Let_def)
next
  case False
  show ?thesis
  proof (cases "queue g")
    case Nil
    then show ?thesis by (simp add: drain_def)
  next
    case (Cons j js)
    then show ?thesis using False by (auto simp: drain_def starts_next_def Let_def not_less)
  qed
qed

section \<open>No request is stranded\<close>

text \<open>A queued request waits for an active request to release its slot, or for the timer.\<close>

definition not_stuck :: "governor \<Rightarrow> bool" where
  "not_stuck g \<longleftrightarrow> queue g = [] \<or> 0 < active g \<or> timer g \<noteq> None"

lemma mutation_active:
  assumes "slots_ok opt g" "mutationActive g"
  shows "0 < active g"
proof -
  have "count_rq holds_mutation g \<le> count_rq holds_slot g"
    unfolding count_rq_def holds_mutation_def
    by (metis (mono_tags, lifting) filter_filter length_filter_le filter_cong)
  with assms show ?thesis by (simp add: slots_ok_def)
qed

lemma drain_fuel_not_stuck:
  assumes v: "valid_options opt"
  shows "governor_inv None opt t g \<Longrightarrow> length (queue g) \<le> n \<Longrightarrow> not_stuck (drain_fuel opt t n g)"
proof (induction n arbitrary: g)
  case 0
  then show ?case by (simp add: not_stuck_def)
next
  case (Suc n)
  show ?case
  proof (cases "starts_next opt t g")
    case True
    from dispatched_tail [OF Suc.prems(1) True drains.draining_axioms [where n = n]] Suc.prems(2)
    show ?thesis unfolding drain_fuel_Suc_start [OF True] by (intro Suc.IH) simp_all
  next
    case False
    have "slots_ok opt (pruneStarts t g)" using prune_inv(1) [OF Suc.prems(1)] by (simp add: governor_inv_def)
    with False v mutation_active [of opt "pruneStarts t g"] show ?thesis
      by (auto simp: not_stuck_def starts_next_def Let_def not_less valid_options_def)
  qed
qed

lemma drain_closes: "governor_inv None opt t g \<Longrightarrow> closes opt t None g (drain opt t g)"
  unfolding drain_def by (rule drain_fuel_closes)

lemma drain_not_stuck: "valid_options opt \<Longrightarrow> governor_inv None opt t g \<Longrightarrow> not_stuck (drain opt t g)"
  unfolding drain_def by (simp add: drain_fuel_not_stuck)

interpretation whole: draining opt t "drain opt t" for opt t
  by unfold_locales (rule drain_closes)

text \<open>A replacement that leaves queue, slots and timer alone keeps the governor going.\<close>

lemma not_stuck_set [simp]: "not_stuck (set_rq i r g) = not_stuck g"
  by (simp add: not_stuck_def)

section \<open>Every entry keeps the invariant\<close>

lemma governor_inv_cong:
  assumes "governor_inv X opt t g" "requests g' = requests g" "queue g' = queue g" "starts g' = starts g"
    "active g' = active g" "mutationActive g' = mutationActive g" "calls g' = calls g" "start_log g' = start_log g"
  shows "governor_inv X opt t g'"
proof -
  have "rq g' j = rq g j" "count_rq P g' = count_rq P g" for j P
    using assms(2) by (simp_all add: rq_def count_rq_def)
  with assms show ?thesis
    by (simp add: governor_inv_def slots_ok_def queue_ok_def requests_ok_def charges_ok_def
        turn_count_def run_count_def rate_ok_def)
qed

lemma enqueue_inv:
  assumes g: "governor_inv None opt t g" and c: "context_ok (calls g) c"
    and ch: "chargeHostCallBudget t c (calls g) = Inr (st, ch)"
  shows "governor_inv None opt t
    (g\<lparr>calls := st, requests := requests g @ [new_request k h ha op ch], queue := queue g @ [length (requests g)]\<rparr>)"
    (is "governor_inv None opt t ?g")
proof -
  let ?r = "new_request k h ha op ch"
  have r: "request_ok ?r" "\<not> holds_slot ?r" "q_state ?r = Rq_queued" "q_charged ?r = ch" "\<not> q_budgetRefunded ?r"
    by (simp_all add: new_request_def request_ok_def untouched_def holds_slot_def)
  have at: "rq ?g j = (if j = length (requests g) then ?r else rq g j)" if "j \<le> length (requests g)" for j
    using that by (auto simp: rq_def nth_append)
  have cnt: "count_rq P (g\<lparr>calls := st, requests := requests g @ [?r]\<rparr>) = count_rq P g + (if P ?r then 1 else 0)" for P
    by (simp add: count_rq_def)
  have "slots_ok opt ?g" using g r(2) by (simp add: governor_inv_def slots_ok_def cnt holds_mutation_def)
  moreover have "queue_ok ?g"
    using g r(3) at by (auto simp: governor_inv_def queue_ok_def sorted_wrt_append less_Suc_eq split: if_splits)
  moreover have "requests_ok None ?g"
    using g r(1) at by (auto simp: governor_inv_def requests_ok_def less_Suc_eq)
  moreover have "charges_ok ?g"
    unfolding charges_ok_def
  proof (intro conjI allI impI)
    have old: "budgets_ok (calls g)" "charges_ok g" using g by (simp_all add: governor_inv_def charges_ok_def)
    note ok = charge_keeps_ok [OF old(1) c ch] and keep = charged_hooks [OF ch] charge_keeps_shape [OF ch]
    show "budgets_ok (calls ?g)" using ok by simp
    show "charge_ok (calls ?g) (q_charged (rq ?g j))" if "j < length (requests ?g)" for j
      using that ok old(2) at [of j] r(4) by (auto simp: charges_ok_def keep less_Suc_eq)
    show "int (turn_count j ?g) \<le> used (budgets (calls ?g) ! j)"
      if "j < length (budgets (calls ?g))" "hooks (budgets (calls ?g) ! j) = None" for j
      using that old(2) charge_used [OF ch c, of j] r(4,5)
      by (auto simp: charges_ok_def keep turn_count_def cnt)
    show "int (run_count sc ?g) \<le> hostCallsUsed (ar_budget row)"
      if "run_row sc (run_rows (calls ?g)) = Some row" for sc row
      using charge_ledger [OF ch old(1), of sc row] that old(2) r(4,5)
      by (auto simp: charges_ok_def run_count_def cnt keep)
  qed
  moreover have "rate_ok opt t ?g" using g by (simp add: governor_inv_def rate_ok_def)
  ultimately show ?thesis by (simp add: governor_inv_def)
qed

text \<open>New budgets and new reservations leave every charge where it was.\<close>

lemma calls_extended_inv:
  assumes g: "governor_inv X opt t g" and ok: "budgets_ok st"
    and len: "length (budgets (calls g)) \<le> length (budgets st)" "length (reservations (calls g)) \<le> length (reservations st)"
    and rows: "run_rows st = run_rows (calls g)"
    and same: "\<And>i. i < length (budgets (calls g)) \<Longrightarrow>
      hooks (budgets st ! i) = hooks (budgets (calls g) ! i) \<and> used (budgets (calls g) ! i) \<le> used (budgets st ! i)"
    and new: "\<And>i. length (budgets (calls g)) \<le> i \<Longrightarrow> i < length (budgets st) \<Longrightarrow> hooks (budgets st ! i) = None \<Longrightarrow>
      0 \<le> used (budgets st ! i)"
  shows "governor_inv X opt t (g\<lparr>calls := st\<rparr>)"
proof -
  have c: "charges_ok g" using g by (simp add: governor_inv_def)
  then have ch: "charge_ok (calls g) (q_charged r)" if "r \<in> set (requests g)" for r
    using that by (auto simp: charges_ok_def in_set_conv_nth rq_def)
  have cr: "charged_run st sc (q_charged r) = charged_run (calls g) sc (q_charged r)" if "r \<in> set (requests g)" for r sc
    using ch [OF that] same by (auto simp: charged_run_def split: charged.split)
  have "charges_ok (g\<lparr>calls := st\<rparr>)"
    unfolding charges_ok_def
  proof (intro conjI allI impI)
    show "budgets_ok (calls (g\<lparr>calls := st\<rparr>))" using ok by simp
    show "charge_ok (calls (g\<lparr>calls := st\<rparr>)) (q_charged (rq (g\<lparr>calls := st\<rparr>) j))"
      if "j < length (requests (g\<lparr>calls := st\<rparr>))" for j
      using ch [of "rq g j"] that len by (cases "q_charged (rq g j)") (auto simp: rq_def)
    show "int (turn_count j (g\<lparr>calls := st\<rparr>)) \<le> used (budgets (calls (g\<lparr>calls := st\<rparr>)) ! j)"
      if j: "j < length (budgets (calls (g\<lparr>calls := st\<rparr>)))" "hooks (budgets (calls (g\<lparr>calls := st\<rparr>)) ! j) = None" for j
    proof (cases "j < length (budgets (calls g))")
      case True
      with same [OF True] j c show ?thesis by (fastforce simp: charges_ok_def turn_count_def)
    next
      case False
      have "\<not> (\<not> q_budgetRefunded r \<and> q_charged r = Charged_turn j)" if "r \<in> set (requests g)" for r
        using ch [OF that] False by auto
      then have "turn_count j g = 0" by (simp add: turn_count_def count_rq_def filter_empty_conv)
      with new [of j] False j show ?thesis by (simp add: turn_count_def)
    qed
    show "int (run_count sc (g\<lparr>calls := st\<rparr>)) \<le> hostCallsUsed (ar_budget row)"
      if "run_row sc (run_rows (calls (g\<lparr>calls := st\<rparr>))) = Some row" for sc row
    proof -
      have "run_count sc (g\<lparr>calls := st\<rparr>) = run_count sc g"
        using cr by (auto simp: run_count_def count_rq_def intro!: arg_cong [where f = length] filter_cong)
      with that rows c show ?thesis by (simp add: charges_ok_def)
    qed
  qed
  with g show ?thesis
    by (simp add: governor_inv_def slots_ok_def queue_ok_def requests_ok_def rate_ok_def)
qed

lemma install_inv:
  assumes "governor_inv X opt t g" "plain_ok b" "hooks b = None \<Longrightarrow> 0 \<le> used b"
  shows "governor_inv X opt t (g\<lparr>calls := snd (install_budget b c (calls g))\<rparr>)"
proof (rule calls_extended_inv [OF assms(1)])
  have "budgets_ok (calls g)" using assms(1) by (simp add: governor_inv_def charges_ok_def)
  then show "budgets_ok (snd (install_budget b c (calls g)))"
    using assms(2) by (simp add: install_budget_def budgets_ok_def)
qed (use assms(3) in \<open>auto simp: install_budget_def nth_append less_Suc_eq\<close>)

lemma reserve_inv:
  assumes g: "governor_inv X opt t g" and n: "0 \<le> n" and c: "context_ok (calls g) c"
    and r: "withReservedHostCallBudget n c (calls g) = Inr (c', st)"
  shows "governor_inv X opt t (g\<lparr>calls := st\<rparr>)"
proof -
  obtain st1 where st1: "reserveHostCallBudget (Safe_integer n) c (calls g) = Inr st1"
    "st = st1\<lparr>reservations := reservations st1 @ [n]\<rparr>"
    using r by (auto simp: withReservedHostCallBudget_def)
  have "budgets_ok (calls g)" using g by (simp add: governor_inv_def charges_ok_def)
  from reserve_ok [OF this c st1(1)] n have "budgets_ok st" by (simp add: st1(2) budgets_ok_def)
  then show ?thesis
    by (rule calls_extended_inv [OF g])
      (use st1 n in \<open>auto simp: put_budget_def nth_update_if Let_def split: option.splits if_splits\<close>)
qed

text \<open>The callbacks of a request that has left the queue.\<close>

lemma hook_answered_inv:
  assumes g: "governor_inv None opt t g" and i: "i < length (requests g)" and a: "q_awaits (rq g i) = Awaits_hook"
  shows "q_state (rq g i) = Rq_cancelled \<and> q_activeReleased (rq g i)
        \<and> governor_inv None opt t (set_rq i ((rq g i)\<lparr>q_awaits := Awaits_nothing\<rparr>) g)
    \<or> governor_inv (Some i) opt t (set_rq i ((rq g i)\<lparr>q_awaits := Awaits_nothing\<rparr>) g)"
proof -
  let ?r = "(rq g i)\<lparr>q_awaits := Awaits_nothing\<rparr>"
  have r: "request_ok (rq g i)" by (rule inv_request [OF g i]) simp
  show ?thesis
  proof (cases "q_state (rq g i)")
    case Rq_cancelled
    have "may_replace (rq g i) ?r"
      using r a Rq_cancelled by (simp add: may_replace_def request_ok_def holds_slot_def)
    from replace_inv [OF g i _ this] have "governor_inv None opt t (replace t i ?r g)" by simp
    moreover have "set_rq i ?r g = replace t i ?r g"
      by (rule replace_eq_set) (simp_all add: Rq_cancelled holds_slot_def)
    ultimately show ?thesis using r a Rq_cancelled by (simp add: request_ok_def)
  next
    case Rq_pre_dispatch
    have m: "mid_ok ?r" using r Rq_pre_dispatch by (simp add: request_ok_def mid_ok_def pre_ok_def untouched_def)
    have c: "count_rq P (set_rq i ?r g) = count_rq P g" if "P (rq g i) = P ?r" for P
      using count_rq_set [OF i, of P ?r] that by (simp split: if_splits)
    have "turn_count k (set_rq i ?r g) = turn_count k g" "run_count sc (set_rq i ?r g) = run_count sc g" for k sc
      by (simp_all add: turn_count_def run_count_def c)
    moreover have "count_rq holds_slot (set_rq i ?r g) = count_rq holds_slot g"
      "count_rq holds_mutation (set_rq i ?r g) = count_rq holds_mutation g"
      by (simp_all add: c holds_slot_def holds_mutation_def)
    ultimately have "governor_inv (Some i) opt t (set_rq i ?r g)"
      using g m i Rq_pre_dispatch
      by (simp add: governor_inv_def slots_ok_def queue_ok_def requests_ok_def charges_ok_def rate_ok_def rq_set_rq)
    then show ?thesis by simp
  qed (use r a in \<open>simp_all add: request_ok_def split: if_splits\<close>)
qed

lemma operation_settled:
  assumes g: "governor_inv None opt t g" and i: "i < length (requests g)" and a: "q_awaits (rq g i) = Awaits_operation"
  shows "governor_inv None opt t (set_rq i ((rq g i)\<lparr>q_state := Rq_settled, q_awaits := Awaits_finally, q_outcome := Some out\<rparr>) g)"
    and "q_outcome (rq g i) = None"
proof -
  let ?r = "(rq g i)\<lparr>q_state := Rq_settled, q_awaits := Awaits_finally, q_outcome := Some out\<rparr>"
  have r: "request_ok (rq g i)" by (rule inv_request [OF g i]) simp
  then have st: "q_state (rq g i) = Rq_dispatched"
    using a by (auto simp: request_ok_def split: request_state.splits if_splits)
  with r show "q_outcome (rq g i) = None" by (simp add: request_ok_def)
  have "may_replace (rq g i) ?r"
    using r st by (simp add: may_replace_def request_ok_def holds_slot_def)
  from replace_inv [OF g i _ this] have "governor_inv None opt t (replace t i ?r g)" by simp
  moreover have "set_rq i ?r g = replace t i ?r g" by (rule replace_eq_set) (simp_all add: st holds_slot_def)
  ultimately show "governor_inv None opt t (set_rq i ?r g)" by simp
qed

lemma operation_finally_eq:
  assumes g: "governor_inv None opt t g" and i: "i < length (requests g)" and a: "q_awaits (rq g i) = Awaits_finally"
  shows "\<exists>r. may_replace (rq g i) r
    \<and> releaseActive D i (set_rq i ((rq g i)\<lparr>q_awaits := Awaits_nothing\<rparr>) g) = D (replace t i r g)"
proof -
  let ?r = "(rq g i)\<lparr>q_awaits := Awaits_nothing, q_activeReleased := True\<rparr>"
  have r: "request_ok (rq g i)" by (rule inv_request [OF g i]) simp
  then have st: "q_state (rq g i) = Rq_settled" "\<not> q_activeReleased (rq g i)" "q_started (rq g i)"
    using a by (auto simp: request_ok_def split: request_state.splits if_splits)
  have "may_replace (rq g i) ?r"
    using r st by (simp add: may_replace_def request_ok_def holds_slot_def)
  moreover have "releaseActive D i (set_rq i ((rq g i)\<lparr>q_awaits := Awaits_nothing\<rparr>) g) = D (replace t i ?r g)"
    using st i by (auto simp: releaseActive_def free_slot_def replace_def set_rq_def rq_def holds_slot_def holds_mutation_def
        intro!: arg_cong [where f = D])
  ultimately show ?thesis by blast
qed

text \<open>One entry: the invariant and progress.\<close>

definition governor_good :: "governor_options \<Rightarrow> int \<times> governor \<Rightarrow> bool" where
  "governor_good opt s \<longleftrightarrow> governor_inv None opt (fst s) (snd s) \<and> not_stuck (snd s)"

lemma not_stuck_schedule [simp]: "not_stuck (schedule u v g)"
  by (simp add: not_stuck_def)

lemma closes_inv: "closes opt t X g g' \<Longrightarrow> governor_inv None opt t g'"
  by (simp add: closes_def)

text \<open>Closures that end in \<open>drain\<close>, or leave the governor as it was, do not strand a request.\<close>

lemma replace_drain_good:
  assumes v: "valid_options opt" and g: "governor_inv X opt t g" "i < length (requests g)" "X = None \<or> X = Some i"
    "may_replace (rq g i) r"
  shows "governor_good opt (t, drain opt t (replace t i r g))"
  using closes_inv [OF drain_closes [OF replace_inv [OF g]]] drain_not_stuck [OF v replace_inv [OF g]]
  by (simp add: governor_good_def)

lemma cancel_good:
  assumes v: "valid_options opt" and g: "governor_inv None opt t g" "i < length (requests g)" and n: "not_stuck g"
  shows "governor_good opt (t, cancelBeforeDispatch (drain opt t) t i g)"
proof -
  have r: "request_ok (rq g i)" by (rule inv_request [OF g]) simp
  consider "q_state (rq g i) = Rq_queued" | "q_state (rq g i) = Rq_pre_dispatch"
    | "q_state (rq g i) \<noteq> Rq_queued" "q_state (rq g i) \<noteq> Rq_pre_dispatch" by blast
  then show ?thesis
  proof cases
    case 1
    with r have "may_replace (rq g i) (cancelled_request (rq g i))" by (intro may_cancel) (auto simp: request_ok_def)
    from replace_drain_good [OF v g _ this] show ?thesis by (simp add: cancel_queued_eq [OF g(2) r 1])
  next
    case 2
    with r have "may_replace (rq g i) (cancelled_request (rq g i))" by (intro may_cancel) (auto simp: request_ok_def)
    from replace_drain_good [OF v g _ this] show ?thesis
      by (simp add: cancel_pre_eq [OF g(2) request_pre [OF r 2]])
  next
    case 3
    with g n show ?thesis by (simp add: cancel_late_eq governor_good_def)
  qed
qed

lemma mid_good:
  assumes v: "valid_options opt" and g: "governor_inv (Some i) opt t g" "i < length (requests g)"
  shows "governor_good opt (t, failBeforeDispatch (drain opt t) t i g)"
    and "governor_good opt (t, startExternalOperation (drain opt t) t i g)"
proof -
  have m: "pre_ok (rq g i)" "q_awaits (rq g i) = Awaits_nothing" using inv_mid [OF g] by (simp_all add: mid_ok_def)
  have act: "0 < active g"
    using g m(1) count_rq_pos [OF g(2), of holds_slot]
    by (auto simp: governor_inv_def slots_ok_def pre_ok_def holds_slot_def untouched_def)
  show "governor_good opt (t, failBeforeDispatch (drain opt t) t i g)"
    using replace_drain_good [OF v g _ may_fail [OF m]] by (simp add: fail_pre_eq [OF g(2) m(1)])
  show "governor_good opt (t, startExternalOperation (drain opt t) t i g)"
  proof (cases "q_aborted (rq g i)")
    case True
    have may: "may_replace (rq g i) (cancelled_request (rq g i))" using m by (intro may_cancel) (simp_all add: pre_ok_def)
    have "q_activeReleased (rq (cancelBeforeDispatch (drain opt t) t i g) i)"
      using whole.cancel_live [OF g] m(1) by (simp add: pre_ok_def cancelled_request_def Let_def)
    then have "startExternalOperation (drain opt t) t i g = drain opt t (replace t i (cancelled_request (rq g i)) g)"
      using True m(1) by (simp add: startExternalOperation_def releaseActive_def pre_ok_def)
        (metis cancel_pre_eq g(2) m(1))
    with replace_drain_good [OF v g _ may] show ?thesis by simp
  next
    case False
    have "governor_good opt (t, replace t i (dispatched_request (rq g i)) g)"
      using replace_inv [OF g _ may_dispatch [OF m(1)]] act m(1)
      by (simp add: governor_good_def not_stuck_def replace_def dispatched_request_def holds_slot_def pre_ok_def untouched_def)
    with replace_drain_good [OF v g _ may_throw [OF m]] show ?thesis
      by (simp add: start_pre_eq [OF g(2) m(1) False] split: operation_answer.split)
  qed
qed

lemma drained_good: "valid_options opt \<Longrightarrow> governor_inv None opt t g \<Longrightarrow> governor_good opt (t, drain opt t g)"
  using closes_inv [OF drain_closes] drain_not_stuck by (simp add: governor_good_def)

lemma noteRateLimited_good:
  assumes "governor_good opt (t, g)"
  shows "governor_good opt (t, noteRateLimited t delayMs g)"
proof -
  let ?g1 = "g\<lparr>cooldownUntil := max (cooldownUntil g) (t + max 0 delayMs)\<rparr>"
  have "governor_inv None opt t ?g1"
    using assms by (intro governor_inv_cong [of None opt t g ?g1]) (simp_all add: governor_good_def)
  then show ?thesis using assms by (auto simp: noteRateLimited_def governor_good_def not_stuck_def Let_def)
qed

lemma onAbort_good:
  assumes v: "valid_options opt" and g: "governor_good opt (t, g)" and i: "i < length (requests g)"
  shows "governor_good opt (t, onAbort (drain opt t) t i g)"
  unfolding onAbort_def
  by (rule cancel_good [OF v aborted_inv]) (use g i in \<open>simp_all add: governor_good_def\<close>)

lemma run_request_good:
  assumes v: "valid_options opt" and g: "governor_good opt (t, g)" and c: "context_ok (calls g) c"
  shows "governor_good opt (t, fst (run_request opt t c aborted (new_request k h ha op) g))"
proof (cases "aborted \<or> (\<exists>e. chargeHostCallBudget t c (calls g) = Inl e)")
  case True
  with g show ?thesis by (auto simp: run_request_def)
next
  case False
  then obtain st ch where ch: "chargeHostCallBudget t c (calls g) = Inr (st, ch)" "\<not> aborted"
    by (metis old.sum.exhaust surj_pair)
  have "governor_inv None opt t g" using g by (simp add: governor_good_def)
  from drained_good [OF v enqueue_inv [OF this c ch(1)]] ch show ?thesis by (simp add: run_request_def Let_def)
qed

lemma hook_good:
  assumes v: "valid_options opt" and g: "governor_good opt (t, g)"
    and i: "i < length (requests g)" "q_awaits (rq g i) = Awaits_hook"
  shows "governor_good opt (t, handle opt t (Hook_resolves i) g)" "governor_good opt (t, handle opt t (Hook_rejects i) g)"
proof -
  let ?g = "set_rq i ((rq g i)\<lparr>q_awaits := Awaits_nothing\<rparr>) g"
  have inv: "governor_inv None opt t g" and ns: "not_stuck g" using g by (simp_all add: governor_good_def)
  have at: "rq ?g i = (rq g i)\<lparr>q_awaits := Awaits_nothing\<rparr>" "i < length (requests ?g)"
    using i(1) by (simp_all add: rq_set_rq)
  consider (late) "q_state (rq ?g i) = Rq_cancelled" "q_activeReleased (rq ?g i)" "governor_inv None opt t ?g"
    | (mid) "governor_inv (Some i) opt t ?g"
    using hook_answered_inv [OF inv i] by (auto simp: at)
  then have "governor_good opt (t, startExternalOperation (drain opt t) t i ?g)
    \<and> governor_good opt (t, failBeforeDispatch (drain opt t) t i ?g)"
  proof cases
    case late
    with ns show ?thesis by (simp add: late_eq governor_good_def)
  next
    case mid
    from mid_good [OF v mid at(2)] show ?thesis by simp
  qed
  then show "governor_good opt (t, handle opt t (Hook_resolves i) g)" "governor_good opt (t, handle opt t (Hook_rejects i) g)"
    by simp_all
qed

lemma operation_good:
  assumes g: "governor_good opt (t, g)" and i: "i < length (requests g)" "q_awaits (rq g i) = Awaits_operation"
  shows "governor_good opt (t, handle opt t (Operation_resolves i) g)"
    "governor_good opt (t, handle opt t (Operation_rejects i) g)"
proof -
  have inv: "governor_inv None opt t g" and ns: "not_stuck g" using g by (simp_all add: governor_good_def)
  note settled = operation_settled [OF inv i]
  show "governor_good opt (t, handle opt t (Operation_resolves i) g)"
    using settled(1) [of Resolved] settled(2) ns by (simp add: governor_good_def)
  show "governor_good opt (t, handle opt t (Operation_rejects i) g)"
    using settled(1) [of "Rejected Operation_failed"] settled(2) ns i(1)
    by (simp add: governor_good_def rejectOnce_def rq_set_rq) (simp add: set_rq_def)
qed

lemma finally_good:
  assumes v: "valid_options opt" and g: "governor_good opt (t, g)"
    and i: "i < length (requests g)" "q_awaits (rq g i) = Awaits_finally"
  shows "governor_good opt (t, handle opt t (Operation_finally i) g)"
proof -
  have inv: "governor_inv None opt t g" using g by (simp add: governor_good_def)
  obtain r where r: "may_replace (rq g i) r"
    "releaseActive (drain opt t) i (set_rq i ((rq g i)\<lparr>q_awaits := Awaits_nothing\<rparr>) g) = drain opt t (replace t i r g)"
    using operation_finally_eq [OF inv i] by blast
  from replace_drain_good [OF v inv i(1) _ r(1)] show ?thesis by (simp add: r(2))
qed

lemma timer_good:
  assumes v: "valid_options opt" and g: "governor_good opt (t, g)"
  shows "governor_good opt (t, handle opt t Timer_fires g)"
proof -
  have "governor_inv None opt t (g\<lparr>timer := None\<rparr>)"
    using g by (intro governor_inv_cong [of None opt t g "g\<lparr>timer := None\<rparr>"]) (simp_all add: governor_good_def)
  from drained_good [OF v this] show ?thesis by simp
qed

lemma budget_good:
  assumes g: "governor_good opt (t, g)"
  shows "governor_good opt (t, handle opt t (Run_budget_installed h m c) g)"
    and "0 \<le> m \<Longrightarrow> governor_good opt (t, handle opt t (Budget_installed u m c) g)"
    and "0 \<le> n \<Longrightarrow> context_ok (calls g) c \<Longrightarrow> governor_good opt (t, handle opt t (Calls_reserved n c) g)"
proof -
  have inv: "governor_inv None opt t g" and ns: "not_stuck g" using g by (simp_all add: governor_good_def)
  have ns': "not_stuck (g\<lparr>calls := st\<rparr>)" for st using ns by (simp add: not_stuck_def)
  show "governor_good opt (t, handle opt t (Run_budget_installed h m c) g)"
    using install_inv [OF inv, of "\<lparr>used = 0, maximum = m, hooks = Some h\<rparr>" c] ns'
    by (simp add: governor_good_def withRunScopedHostCallBudget_def plain_ok_def)
  show "governor_good opt (t, handle opt t (Budget_installed u m c) g)" if "0 \<le> m"
    using install_inv [OF inv, of "\<lparr>used = max 0 (min m u), maximum = m, hooks = None\<rparr>" c] ns' that inv
    by (auto simp: governor_good_def withHostCallBudgetFromUsed_def plain_ok_def)
  show "governor_good opt (t, handle opt t (Calls_reserved n c) g)" if "0 \<le> n" "context_ok (calls g) c"
    using reserve_inv [OF inv that] ns' inv ns by (auto simp: governor_good_def split: sum.split)
qed

lemma handle_good:
  assumes v: "valid_options opt" and g: "governor_good opt (t, g)" and p: "possible t g e"
  shows "governor_good opt (t, handle opt t e g)"
proof (cases e)
  case (Run_called c aborted k h ha op)
  with run_request_good [OF v g, of c aborted k h ha op] p show ?thesis by simp
next
  case (Signal_aborts i)
  with onAbort_good [OF v g] p show ?thesis by simp
next
  case (Hook_resolves i)
  with hook_good(1) [OF v g] p show ?thesis by auto
next
  case (Hook_rejects i)
  with hook_good(2) [OF v g] p show ?thesis by auto
next
  case (Operation_resolves i)
  with operation_good(1) [OF g] p show ?thesis by auto
next
  case (Operation_rejects i)
  with operation_good(2) [OF g] p show ?thesis by auto
next
  case (Operation_finally i)
  with finally_good [OF v g] p show ?thesis by auto
next
  case Timer_fires
  with timer_good [OF v g] show ?thesis by simp
next
  case (Rate_limited d)
  with noteRateLimited_good [OF g] show ?thesis by simp
next
  case (Run_budget_installed h m c)
  with budget_good(1) [OF g] show ?thesis by simp
next
  case (Budget_installed u m c)
  with budget_good(2) [OF g] p show ?thesis by simp
next
  case (Calls_reserved n c)
  with budget_good(3) [OF g] p show ?thesis by simp
qed

section \<open>Reachable governors\<close>

text \<open>A governor starts with no budget installed, over a ledger that keeps its ceiling.\<close>

definition fresh_calls :: "AssistantRun list \<Rightarrow> call_state" where
  "fresh_calls rows = \<lparr>budgets = [], reservations = [], run_rows = rows\<rparr>"

definition governor_init :: "governor_options \<Rightarrow> int \<times> governor \<Rightarrow> bool" where
  "governor_init opt s \<longleftrightarrow> valid_options opt \<and> (\<exists>rows. run_ledger_ok rows \<and> snd s = new_governor (fresh_calls rows))"

lemma new_governor_good:
  assumes v: "valid_options opt" and l: "run_ledger_ok rows"
  shows "governor_good opt (t, new_governor (fresh_calls rows))"
proof -
  have "0 \<le> hostCallsUsed (ar_budget row)" if "run_row sc rows = Some row" for sc row
    using l run_row_SomeD [OF that] by (auto simp: run_ledger_ok_def within_ceiling_def)
  then show ?thesis
    using v l by (auto simp: governor_good_def governor_inv_def new_governor_def fresh_calls_def slots_ok_def queue_ok_def
        requests_ok_def charges_ok_def budgets_ok_def turn_count_def run_count_def count_rq_def rate_ok_def
        timely_def spaced_def not_stuck_def valid_options_def)
qed

interpretation governor: step_system "governor_init opt" "governor_step opt" "\<lambda>s. valid_options opt \<and> governor_good opt s" for opt
proof
  fix s :: "int \<times> governor"
  assume "governor_init opt s"
  then show "valid_options opt \<and> governor_good opt s"
    using new_governor_good [of opt _ "fst s"] by (cases s) (auto simp: governor_init_def)
next
  fix s s' :: "int \<times> governor"
  assume g: "valid_options opt \<and> governor_good opt s" and st: "governor_step opt s s'"
  from st show "valid_options opt \<and> governor_good opt s'"
  proof (cases rule: governor_step.cases)
    case (entry t t' g e)
    have "governor_good opt (t', g)"
      using g entry by (auto simp: governor_good_def intro: governor_inv_later)
    with handle_good [of opt t' g e] g entry show ?thesis by simp
  qed
qed

definition governor_reachable :: "governor_options \<Rightarrow> int \<times> governor \<Rightarrow> bool" where
  "governor_reachable opt s \<longleftrightarrow> (\<exists>s0. governor_init opt s0 \<and> (governor_step opt)\<^sup>*\<^sup>* s0 s)"

lemma reachable_good: "governor_reachable opt s \<Longrightarrow> valid_options opt \<and> governor_good opt s"
  unfolding governor_reachable_def using governor.reachable_inv by blast

section \<open>What the invariant says\<close>

text \<open>The requests whose operation was invoked and that were charged to a run.\<close>

definition calls_charged_to_run :: "AssistantRunScope \<Rightarrow> governor \<Rightarrow> nat" where
  "calls_charged_to_run sc g = count_rq (\<lambda>r. q_calls r \<noteq> 0 \<and> charged_run (calls g) sc (q_charged r)) g"

lemma count_rq_mono:
  assumes "\<And>j. j < length (requests g) \<Longrightarrow> P (rq g j) \<Longrightarrow> Q (rq g j)"
  shows "count_rq P g \<le> count_rq Q g"
proof -
  have "filter P (requests g) = filter P (filter Q (requests g))"
    using assms by (auto simp: rq_def in_set_conv_nth intro!: filter_cong)
  then show ?thesis unfolding count_rq_def by (metis length_filter_le)
qed

lemma called_not_refunded:
  "governor_inv None opt t g \<Longrightarrow> j < length (requests g) \<Longrightarrow> q_calls (rq g j) \<noteq> 0 \<Longrightarrow>
   q_calls (rq g j) = 1 \<and> \<not> q_budgetRefunded (rq g j)"
  using inv_request [of None opt t g j]
  by (auto simp: request_ok_def untouched_def split: request_state.splits if_splits)

lemma run_calls_bounded:
  assumes "governor_inv None opt t g" "run_row sc (run_rows (calls g)) = Some row"
  shows "calls_charged_to_run sc g \<le> 60"
proof -
  have "calls_charged_to_run sc g \<le> run_count sc g"
    unfolding calls_charged_to_run_def run_count_def
    by (rule count_rq_mono) (use called_not_refunded [OF assms(1)] in blast)
  moreover have "int (run_count sc g) \<le> hostCallsUsed (ar_budget row)"
    using assms by (simp add: governor_inv_def charges_ok_def)
  moreover have "within_ceiling row"
    using assms run_row_SomeD [OF assms(2)] by (auto simp: governor_inv_def charges_ok_def budgets_ok_def run_ledger_ok_def)
  ultimately show ?thesis by (simp add: within_ceiling_def ledger_total_def)
qed

end
