(* ===== verification/Monitors.thy ===== *)
theory Monitors
  imports RateLimit
begin

text \<open>
  The two alerting monitors of the Clockify client: sustained throttling
  (\<open>src/src/clockify/host-throttle-monitor.ts\<close>) and repeated token rejections
  (\<open>src/src/clockify/token-rejection-monitor.ts\<close>). A step returns the alerts it logs. The map of
  workspaces is a function; the privacy alias of the log line is left out.
\<close>

section \<open>Token rejections\<close>

definition TOKEN_REJECTION_SUSPECT_THRESHOLD :: nat where
  "TOKEN_REJECTION_SUSPECT_THRESHOLD = 3"

type_synonym streaks = "string \<Rightarrow> nat option"

definition rejected :: "nat \<Rightarrow> string \<Rightarrow> streaks \<Rightarrow> streaks \<times> nat list" where
  "rejected limit ws m =
     (let streak = (case m ws of None \<Rightarrow> 0 | Some n \<Rightarrow> n) + 1 in
      (m(ws := Some streak), if streak = limit then [streak] else []))"

definition accepted :: "string \<Rightarrow> streaks \<Rightarrow> streaks" where
  "accepted ws m = m(ws := None)"

datatype token_answer = Token_rejected string | Token_accepted string

fun token_step :: "nat \<Rightarrow> token_answer \<Rightarrow> streaks \<Rightarrow> streaks \<times> nat list" where
  "token_step limit (Token_rejected ws) m = rejected limit ws m"
| "token_step limit (Token_accepted ws) m = (accepted ws m, [])"

fun token_state :: "nat \<Rightarrow> token_answer list \<Rightarrow> streaks \<Rightarrow> streaks" where
  "token_state limit [] m = m"
| "token_state limit (a # as) m = token_state limit as (fst (token_step limit a m))"

text \<open>The rejections of a workspace since it was last accepted, read off the answers.\<close>

fun current_streak :: "string \<Rightarrow> token_answer list \<Rightarrow> nat" where
  "current_streak ws [] = 0"
| "current_streak ws (Token_rejected v # as) = current_streak ws as + (if v = ws then 1 else 0)"
| "current_streak ws (Token_accepted v # as) = (if v = ws then 0 else current_streak ws as)"

lemma token_state_append:
  "token_state limit (as @ bs) m = token_state limit bs (token_state limit as m)"
  by (induction as arbitrary: m) simp_all

lemma token_state_streak:
  "(case token_state limit as (\<lambda>w. None) ws of None \<Rightarrow> 0 | Some n \<Rightarrow> n) = current_streak ws (rev as)"
proof (induction as rule: rev_induct)
  case Nil
  then show ?case by simp
next
  case (snoc a as)
  then show ?case
    by (cases a) (auto simp: token_state_append rejected_def accepted_def Let_def split: option.splits)
qed

text \<open>An alert is logged exactly when a rejection brings the streak of its workspace to the threshold.\<close>

lemma token_alert_iff:
  "snd (token_step limit (Token_rejected ws) (token_state limit as (\<lambda>w. None))) =
     (if current_streak ws (rev as) + 1 = limit then [limit] else [])"
  using token_state_streak [of limit as ws] by (simp add: rejected_def Let_def)

section \<open>Sustained throttling\<close>

definition MAX_GET_RETRIES :: nat where
  "MAX_GET_RETRIES = 2"

definition SUSTAINED_HOST_CONSECUTIVE_THRESHOLD :: nat where
  "SUSTAINED_HOST_CONSECUTIVE_THRESHOLD = 1 + MAX_GET_RETRIES + 1"

definition SUSTAINED_HOST_WINDOW_MS :: int where
  "SUSTAINED_HOST_WINDOW_MS = 60000"

definition SUSTAINED_HOST_WINDOW_THRESHOLD :: nat where
  "SUSTAINED_HOST_WINDOW_THRESHOLD = 12"

record WorkspaceThrottleState =
  streak :: nat
  failures :: "int list"
  windowAlerted :: bool
  consecutiveAlerted :: bool

record throttle_options =
  consecutiveThreshold :: nat
  windowThreshold :: nat
  windowMs :: int

definition throttle_defaults :: throttle_options where
  "throttle_defaults = \<lparr>consecutiveThreshold = SUSTAINED_HOST_CONSECUTIVE_THRESHOLD,
     windowThreshold = SUSTAINED_HOST_WINDOW_THRESHOLD, windowMs = SUSTAINED_HOST_WINDOW_MS\<rparr>"

datatype throttle_alert = Consecutive_alert nat | Window_alert nat

type_synonym throttle_map = "string \<Rightarrow> WorkspaceThrottleState option"

definition new_throttle_state :: WorkspaceThrottleState where
  "new_throttle_state = \<lparr>streak = 0, failures = [], windowAlerted = False, consecutiveAlerted = False\<rparr>"

definition pruneWindow :: "throttle_options \<Rightarrow> int \<Rightarrow> WorkspaceThrottleState \<Rightarrow> WorkspaceThrottleState" where
  "pruneWindow opt t st = st\<lparr>failures := shift_while_le (t - windowMs opt) (failures st)\<rparr>"

definition record_failure :: "throttle_options \<Rightarrow> int \<Rightarrow> WorkspaceThrottleState \<Rightarrow> WorkspaceThrottleState" where
  "record_failure opt t st =
     (let fs = failures st @ [t];
          fs' = (if windowThreshold opt < length fs then tl fs else fs) in
      pruneWindow opt t (st\<lparr>streak := streak st + 1, failures := fs'\<rparr>))"

definition trip_consecutive ::
  "throttle_options \<Rightarrow> WorkspaceThrottleState \<Rightarrow> WorkspaceThrottleState \<times> throttle_alert list" where
  "trip_consecutive opt st =
     (if streak st = consecutiveThreshold opt \<and> \<not> consecutiveAlerted st
      then (st\<lparr>consecutiveAlerted := True\<rparr>, [Consecutive_alert (streak st)]) else (st, []))"

definition trip_window ::
  "throttle_options \<Rightarrow> WorkspaceThrottleState \<Rightarrow> WorkspaceThrottleState \<times> throttle_alert list" where
  "trip_window opt st =
     (if \<not> windowThreshold opt \<le> length (failures st) then (st\<lparr>windowAlerted := False\<rparr>, [])
      else if \<not> windowAlerted st then (st\<lparr>windowAlerted := True\<rparr>, [Window_alert (length (failures st))])
      else (st, []))"

definition throttled ::
  "throttle_options \<Rightarrow> int \<Rightarrow> string \<Rightarrow> throttle_map \<Rightarrow> throttle_map \<times> throttle_alert list" where
  "throttled opt t ws m =
     (let st = (case m ws of None \<Rightarrow> new_throttle_state | Some st \<Rightarrow> st);
          (st1, a1) = trip_consecutive opt (record_failure opt t st);
          (st2, a2) = trip_window opt st1 in
      (m(ws := Some st2), a1 @ a2))"

definition healthy :: "throttle_options \<Rightarrow> int \<Rightarrow> string \<Rightarrow> throttle_map \<Rightarrow> throttle_map" where
  "healthy opt t ws m =
     (case m ws of
        None \<Rightarrow> m
      | Some st \<Rightarrow>
          (let st1 = pruneWindow opt t (st\<lparr>streak := 0\<rparr>);
               st2 = (if length (failures st1) < windowThreshold opt then st1\<lparr>windowAlerted := False\<rparr> else st1) in
           if failures st2 = [] then m(ws := None) else m(ws := Some st2)))"

datatype host_answer = Host_throttled string int | Host_healthy string int

fun throttle_step :: "throttle_options \<Rightarrow> host_answer \<Rightarrow> throttle_map \<Rightarrow> throttle_map \<times> throttle_alert list" where
  "throttle_step opt (Host_throttled ws t) m = throttled opt t ws m"
| "throttle_step opt (Host_healthy ws t) m = (healthy opt t ws m, [])"

fun answer_time :: "host_answer \<Rightarrow> int" where
  "answer_time (Host_throttled ws t) = t"
| "answer_time (Host_healthy ws t) = t"

text \<open>The alerts a run logs, and the state it ends in.\<close>

fun throttle_run :: "throttle_options \<Rightarrow> host_answer list \<Rightarrow> throttle_map \<Rightarrow> throttle_map \<times> throttle_alert list" where
  "throttle_run opt [] m = (m, [])"
| "throttle_run opt (a # as) m =
     (case throttle_step opt a m of (m', xs) \<Rightarrow> case throttle_run opt as m' of (m'', ys) \<Rightarrow> (m'', xs @ ys))"

lemma throttle_run_append:
  "throttle_run opt (as @ bs) m =
     (case throttle_run opt as m of (m', xs) \<Rightarrow> case throttle_run opt bs m' of (m'', ys) \<Rightarrow> (m'', xs @ ys))"
  by (induction as arbitrary: m) (auto split: prod.splits)

section \<open>The capped window counts like the full history\<close>

text \<open>All failures of a workspace, oldest first, and the time of its last answer.\<close>

fun failure_time :: "string \<Rightarrow> host_answer \<Rightarrow> int list" where
  "failure_time ws (Host_throttled v t) = (if v = ws then [t] else [])"
| "failure_time ws (Host_healthy v t) = []"

definition failure_times :: "string \<Rightarrow> host_answer list \<Rightarrow> int list" where
  "failure_times ws as = concat (map (failure_time ws) as)"

fun answer_workspace :: "host_answer \<Rightarrow> string" where
  "answer_workspace (Host_throttled ws t) = ws"
| "answer_workspace (Host_healthy ws t) = ws"

text \<open>How many failures of the workspace lay in the window at its last answer.\<close>

definition count_at_last_answer :: "throttle_options \<Rightarrow> string \<Rightarrow> host_answer list \<Rightarrow> nat" where
  "count_at_last_answer opt ws as =
     (case filter (\<lambda>a. answer_workspace a = ws) as of
        [] \<Rightarrow> 0
      | b # bs \<Rightarrow> length (in_window (windowMs opt) (answer_time (last (b # bs))) (failure_times ws as)))"

text \<open>Windows are suffixes of the history; \<open>aged\<close> counts the failures that have left the window.\<close>

definition aged :: "int \<Rightarrow> int \<Rightarrow> int list \<Rightarrow> nat" where
  "aged w t xs = length (filter (\<lambda>x. \<not> t - w < x) xs)"

lemma in_window_drop:
  "sorted xs \<Longrightarrow> in_window w t (drop k xs) = drop (max k (aged w t xs)) xs"
proof (induction xs arbitrary: k)
  case Nil
  then show ?case by (simp add: in_window_def)
next
  case (Cons x xs)
  show ?case
  proof (cases "t - w < x")
    case True
    with Cons.prems have "\<forall>y\<in>set (x # xs). t - w < y" by fastforce
    then have "aged w t (x # xs) = 0" "in_window w t (drop k (x # xs)) = drop k (x # xs)"
      by (auto simp: aged_def in_window_def filter_empty_conv filter_id_conv dest!: in_set_dropD)
    then show ?thesis by simp
  next
    case False
    with Cons.IH [of "k - 1"] Cons.IH [of 0] Cons.prems show ?thesis
      by (cases k) (simp_all add: aged_def in_window_def)
  qed
qed

lemma shift_while_drop:
  assumes "sorted xs"
  shows "shift_while_le (t - w) (drop k xs) = drop (max k (aged w t xs)) xs"
  using in_window_drop [OF assms, of w t k] assms
  by (simp add: in_window_def shift_while_le_sorted_filter sorted_wrt_drop)

lemma length_in_window: "sorted xs \<Longrightarrow> length (in_window w t xs) = length xs - aged w t xs"
  using in_window_drop [of xs w t 0] by simp

lemma aged_snoc: "0 < w \<Longrightarrow> aged w t (xs @ [t]) = aged w t xs"
  by (simp add: aged_def)

lemma aged_le: "aged w t xs \<le> length xs"
  by (simp add: aged_def)

lemma aged_mono: "t \<le> t' \<Longrightarrow> aged w t xs \<le> aged w t' xs"
  unfolding aged_def by (induction xs) auto

definition window_of :: "throttle_map \<Rightarrow> string \<Rightarrow> int list" where
  "window_of m ws = (case m ws of None \<Rightarrow> [] | Some st \<Rightarrow> failures st)"

definition latch_of :: "throttle_map \<Rightarrow> string \<Rightarrow> bool" where
  "latch_of m ws = (case m ws of None \<Rightarrow> False | Some st \<Rightarrow> windowAlerted st)"

text \<open>
  At its last answer, at time \<open>u\<close>, the stored window of a workspace was what lies in the window, capped at
  the threshold; the latch is set exactly while the window is full.
\<close>

definition window_inv :: "throttle_options \<Rightarrow> int \<Rightarrow> int list \<Rightarrow> int list \<Rightarrow> bool \<Rightarrow> bool" where
  "window_inv opt u h fs latch \<longleftrightarrow>
     fs = drop (max (length h - windowThreshold opt) (aged (windowMs opt) u h)) h
     \<and> latch = (windowThreshold opt \<le> length fs)"

lemma window_inv_length:
  "window_inv opt u h fs latch \<Longrightarrow> length fs = min (windowThreshold opt) (length h - aged (windowMs opt) u h)"
  by (auto simp: window_inv_def)

lemma tl_of_drop: "tl (drop k xs) = drop (Suc k) xs"
  by (simp add: drop_Suc tl_drop)

lemma throttled_window:
  assumes i: "window_inv opt u h fs latch" and s: "sorted h" "\<forall>x\<in>set h. x \<le> u" and u: "u \<le> t"
    and w: "0 < windowMs opt" "0 < windowThreshold opt"
  shows "shift_while_le (t - windowMs opt) (if windowThreshold opt < length (fs @ [t]) then tl (fs @ [t]) else fs @ [t])
    = drop (max (length (h @ [t]) - windowThreshold opt) (aged (windowMs opt) t (h @ [t]))) (h @ [t])"
proof -
  let ?w = "windowMs opt" and ?T = "windowThreshold opt"
  define k where "k = max (length h - ?T) (aged ?w u h)"
  have k: "k \<le> length h" "fs = drop k h" using i aged_le [of ?w u h] by (auto simp: k_def window_inv_def)
  define k' where "k' = (if ?T < length (fs @ [t]) then k + 1 else k)"
  have "(if ?T < length (fs @ [t]) then tl (fs @ [t]) else fs @ [t]) = drop k' (h @ [t])"
  proof -
    have "fs @ [t] = drop k (h @ [t])" using k by simp
    then show ?thesis unfolding k'_def by (simp only: tl_of_drop Suc_eq_plus1 split: if_split) simp
  qed
  moreover have "sorted (h @ [t])" using s u by (fastforce simp: sorted_append)
  moreover have "max k' (aged ?w t (h @ [t])) = max (length (h @ [t]) - ?T) (aged ?w t (h @ [t]))"
    using k aged_mono [OF u, of ?w h] aged_snoc [OF w(1), of t h] w(2) by (auto simp: k'_def k_def max_def)
  ultimately show ?thesis by (simp only: shift_while_drop)
qed

lemma healthy_window:
  assumes i: "window_inv opt u h fs latch" and s: "sorted h" and u: "u \<le> t"
  shows "shift_while_le (t - windowMs opt) fs
    = drop (max (length h - windowThreshold opt) (aged (windowMs opt) t h)) h"
  using assms aged_mono [OF u, of "windowMs opt" h]
  by (simp add: window_inv_def shift_while_drop max.assoc max_absorb2)

text \<open>The run of answers: every workspace keeps the invariant at its last answer.\<close>

definition answers_of :: "string \<Rightarrow> host_answer list \<Rightarrow> host_answer list" where
  "answers_of ws as = filter (\<lambda>a. answer_workspace a = ws) as"

definition last_answer :: "string \<Rightarrow> host_answer list \<Rightarrow> int option" where
  "last_answer ws as = (if answers_of ws as = [] then None else Some (answer_time (last (answers_of ws as))))"

lemma failure_times_snoc: "failure_times ws (as @ [a]) = failure_times ws as @ failure_time ws a"
  by (simp add: failure_times_def)

lemma last_answer_snoc:
  "last_answer ws (as @ [a]) = (if answer_workspace a = ws then Some (answer_time a) else last_answer ws as)"
  by (simp add: last_answer_def answers_of_def)

lemma failure_times_le: "t \<in> set (failure_times ws as) \<Longrightarrow> \<exists>a\<in>set as. answer_time a = t"
proof (induction as)
  case Nil
  then show ?case by (simp add: failure_times_def)
next
  case (Cons a as)
  then show ?case by (cases a) (auto simp: failure_times_def split: if_splits)
qed

lemma failure_times_sorted:
  "sorted (map answer_time as) \<Longrightarrow> sorted (failure_times ws as)"
proof (induction as rule: rev_induct)
  case Nil
  then show ?case by (simp add: failure_times_def)
next
  case (snoc a as)
  then have "\<forall>x\<in>set (failure_times ws as). x \<le> answer_time a"
    by (auto simp: sorted_append dest!: failure_times_le)
  with snoc show ?case
    by (cases a) (auto simp: failure_times_snoc sorted_append)
qed

lemma no_answer_no_failure: "last_answer ws as = None \<Longrightarrow> failure_times ws as = []"
  by (induction as rule: rev_induct) (auto simp: failure_times_snoc last_answer_snoc failure_times_def
      elim: failure_time.elims split: if_splits, metis answer_workspace.simps failure_time.elims)

text \<open>What one answer does to the window and the latch of its workspace.\<close>

lemma throttled_effect:
  "window_of (fst (throttled opt t ws m)) ws =
     shift_while_le (t - windowMs opt)
       (if windowThreshold opt < length (window_of m ws @ [t]) then tl (window_of m ws @ [t]) else window_of m ws @ [t])"
  "latch_of (fst (throttled opt t ws m)) ws = (windowThreshold opt \<le> length (window_of (fst (throttled opt t ws m)) ws))"
  "v \<noteq> ws \<Longrightarrow> fst (throttled opt t ws m) v = m v"
  by (auto simp: throttled_def Let_def record_failure_def pruneWindow_def trip_consecutive_def trip_window_def
      window_of_def latch_of_def new_throttle_state_def split: prod.splits option.splits if_splits)

lemma throttled_alerts:
  "Window_alert n \<in> set (snd (throttled opt t ws m)) \<longleftrightarrow>
     n = length (window_of (fst (throttled opt t ws m)) ws) \<and> windowThreshold opt \<le> n \<and> \<not> latch_of m ws"
  by (auto simp: throttled_def Let_def record_failure_def pruneWindow_def trip_consecutive_def trip_window_def
      window_of_def latch_of_def new_throttle_state_def split: prod.splits option.splits if_splits)

lemma healthy_effect:
  assumes "0 < windowThreshold opt" "latch_of m ws = (windowThreshold opt \<le> length (window_of m ws))"
  shows "window_of (healthy opt t ws m) ws = shift_while_le (t - windowMs opt) (window_of m ws)"
    and "latch_of (healthy opt t ws m) ws = (windowThreshold opt \<le> length (window_of (healthy opt t ws m) ws))"
    and "v \<noteq> ws \<Longrightarrow> healthy opt t ws m v = m v"
proof -
  show 1: "window_of (healthy opt t ws m) ws = shift_while_le (t - windowMs opt) (window_of m ws)"
    by (auto simp: healthy_def Let_def pruneWindow_def window_of_def split: option.splits)
  have "length (shift_while_le (t - windowMs opt) (window_of m ws)) \<le> length (window_of m ws)"
    by (rule length_shift_while_le)
  with assms show "latch_of (healthy opt t ws m) ws = (windowThreshold opt \<le> length (window_of (healthy opt t ws m) ws))"
    by (auto simp: healthy_def Let_def pruneWindow_def window_of_def latch_of_def split: option.splits)
  show "v \<noteq> ws \<Longrightarrow> healthy opt t ws m v = m v"
    by (auto simp: healthy_def Let_def split: option.splits)
qed

definition monitored :: "throttle_options \<Rightarrow> host_answer list \<Rightarrow> string \<Rightarrow> bool" where
  "monitored opt as ws \<longleftrightarrow>
     (let m = fst (throttle_run opt as (\<lambda>w. None)); h = failure_times ws as in
      case last_answer ws as of
        None \<Rightarrow> m ws = None
      | Some u \<Rightarrow> window_inv opt u h (window_of m ws) (latch_of m ws) \<and> (\<forall>x\<in>set h. x \<le> u))"

lemma monitored_before:
  assumes m: "monitored opt as ws" and w: "0 < windowThreshold opt"
    and t: "\<forall>a\<in>set as. answer_time a \<le> t"
  shows "\<exists>u\<le>t. window_inv opt u (failure_times ws as) (window_of (fst (throttle_run opt as (\<lambda>w. None))) ws)
       (latch_of (fst (throttle_run opt as (\<lambda>w. None))) ws) \<and> (\<forall>x\<in>set (failure_times ws as). x \<le> u)"
proof (cases "last_answer ws as")
  case None
  with m w no_answer_no_failure [OF None] show ?thesis
    by (intro exI [of _ t]) (simp add: monitored_def window_inv_def window_of_def latch_of_def)
next
  case (Some u)
  then have "\<exists>a\<in>set as. answer_time a = u"
    by (auto simp: last_answer_def answers_of_def split: if_splits dest!: last_in_set)
  with t have "u \<le> t" by auto
  with m Some show ?thesis by (auto simp: monitored_def Let_def)
qed

lemma throttle_run_monitored:
  assumes w: "0 < windowMs opt" "0 < windowThreshold opt"
  shows "sorted (map answer_time as) \<Longrightarrow> monitored opt as ws"
proof (induction as rule: rev_induct)
  case Nil
  then show ?case by (simp add: monitored_def last_answer_def answers_of_def)
next
  case (snoc a as)
  let ?m = "fst (throttle_run opt as (\<lambda>w. None))" and ?h = "failure_times ws as" and ?t = "answer_time a"
  have m': "fst (throttle_run opt (as @ [a]) (\<lambda>w. None)) = fst (throttle_step opt a ?m)"
    by (simp add: throttle_run_append split: prod.splits)
  have srt: "sorted (map answer_time as)" "\<forall>b\<in>set as. answer_time b \<le> ?t"
    using snoc.prems by (auto simp: sorted_append)
  note IH = snoc.IH [OF srt(1)]
  obtain u where u: "u \<le> ?t" "window_inv opt u ?h (window_of ?m ws) (latch_of ?m ws)" "\<forall>x\<in>set ?h. x \<le> u"
    using monitored_before [OF IH w(2) srt(2)] by blast
  have latch: "latch_of ?m ws = (windowThreshold opt \<le> length (window_of ?m ws))"
    using u(2) by (simp add: window_inv_def)
  show ?case
  proof (cases "answer_workspace a = ws")
    case False
    have "fst (throttle_step opt a ?m) ws = ?m ws" "failure_time ws a = []"
      using False healthy_effect(3) [OF w(2), of ?m] by (cases a; auto simp: throttled_effect healthy_def Let_def split: option.splits)+
    with IH False show ?thesis
      by (cases "last_answer ws as")
        (simp_all add: monitored_def m' last_answer_snoc failure_times_snoc window_of_def latch_of_def Let_def)
  next
    case True
    have srt_h: "sorted ?h" by (rule failure_times_sorted [OF srt(1)])
    show ?thesis
    proof (cases a)
      case (Host_throttled v t)
      with True have a: "a = Host_throttled ws t" by simp
      have t: "u \<le> t" "fst (throttle_run opt (as @ [Host_throttled ws t]) (\<lambda>w. None)) = fst (throttled opt t ws ?m)"
        using u(1) m' by (simp_all add: a)
      then have "\<forall>x\<in>set ?h. x \<le> t" using u(3) by auto
      then show ?thesis
        unfolding a monitored_def t(2) failure_times_snoc
        using throttled_window [OF u(2) srt_h u(3) t(1) w]
        by (simp add: last_answer_snoc window_inv_def Let_def throttled_effect)
    next
      case (Host_healthy v t)
      with True have a: "a = Host_healthy ws t" by simp
      have t: "u \<le> t" "fst (throttle_run opt (as @ [Host_healthy ws t]) (\<lambda>w. None)) = healthy opt t ws ?m"
        using u(1) m' by (simp_all add: a)
      then have "\<forall>x\<in>set ?h. x \<le> t" using u(3) by auto
      then show ?thesis
        unfolding a monitored_def t(2) failure_times_snoc
        using healthy_window [OF u(2) srt_h t(1)] healthy_effect(1,2) [OF w(2) latch, of t]
        by (simp add: last_answer_snoc window_inv_def Let_def)
    qed
  qed
qed

text \<open>
  The sustained-rate alert, over the whole history: it is logged exactly when this failure makes the
  failures in the window reach the threshold, and at the last answer of the workspace they were below it.
\<close>

definition failures_in_window :: "throttle_options \<Rightarrow> int \<Rightarrow> int list \<Rightarrow> nat" where
  "failures_in_window opt t h = length (in_window (windowMs opt) t h)"

lemma window_alert_iff:
  assumes w: "0 < windowMs opt" "0 < windowThreshold opt"
    and s: "sorted (map answer_time as)" "\<forall>a\<in>set as. answer_time a \<le> t"
  shows "(\<exists>n. Window_alert n \<in> set (snd (throttled opt t ws (fst (throttle_run opt as (\<lambda>w. None)))))) \<longleftrightarrow>
     windowThreshold opt \<le> failures_in_window opt t (failure_times ws as @ [t])
     \<and> (case last_answer ws as of None \<Rightarrow> True
        | Some u \<Rightarrow> failures_in_window opt u (failure_times ws as) < windowThreshold opt)"
proof -
  let ?m = "fst (throttle_run opt as (\<lambda>w. None))" and ?h = "failure_times ws as" and ?as = "as @ [Host_throttled ws t]"
  have "sorted (map answer_time ?as)" using s by (auto simp: sorted_append)
  from throttle_run_monitored [OF w this, of ws]
  have now: "window_inv opt t (?h @ [t]) (window_of (fst (throttled opt t ws ?m)) ws) (latch_of (fst (throttled opt t ws ?m)) ws)"
    by (simp add: monitored_def last_answer_snoc failure_times_snoc throttle_run_append Let_def split: prod.splits)
  have len: "length fs = min (windowThreshold opt) (failures_in_window opt v h)"
    if "window_inv opt v h fs l" "sorted h" for v h fs l
    using window_inv_length [OF that(1)] length_in_window [OF that(2)] by (simp add: failures_in_window_def)
  have sh: "sorted ?h" by (rule failure_times_sorted [OF s(1)])
  have "sorted (?h @ [t])" using sh s(2) by (auto simp: sorted_append dest!: failure_times_le)
  from len [OF now this]
  have a: "windowThreshold opt \<le> length (window_of (fst (throttled opt t ws ?m)) ws)
    \<longleftrightarrow> windowThreshold opt \<le> failures_in_window opt t (?h @ [t])" by simp
  have b: "\<not> latch_of ?m ws \<longleftrightarrow> (case last_answer ws as of None \<Rightarrow> True
        | Some u \<Rightarrow> failures_in_window opt u ?h < windowThreshold opt)"
    using throttle_run_monitored [OF w s(1), of ws] len [OF _ sh]
    by (auto simp: monitored_def Let_def latch_of_def window_inv_def split: option.splits)
  show ?thesis using a b by (auto simp: throttled_alerts)
qed

section \<open>A partial outage floods the log\<close>

text \<open>
  A workspace that fails every 5.2 seconds and answers well just before each failure. Twelve failures
  fit in the window, eleven remain at each good answer: the latch re-arms every time, although the
  window never drains.
\<close>

definition beat_time :: "nat \<Rightarrow> int" where
  "beat_time k = 5200 * int k"

definition outage_start :: "string \<Rightarrow> host_answer list" where
  "outage_start ws = map (\<lambda>k. Host_throttled ws (beat_time k)) [0..<12]"

definition good_answer :: "string \<Rightarrow> nat \<Rightarrow> host_answer" where
  "good_answer ws k = Host_healthy ws (beat_time (k + 12) - 1)"

definition beat :: "string \<Rightarrow> nat \<Rightarrow> host_answer list" where
  "beat ws k = [good_answer ws k, Host_throttled ws (beat_time (k + 12))]"

definition outage :: "string \<Rightarrow> nat \<Rightarrow> host_answer list" where
  "outage ws n = outage_start ws @ concat (map (beat ws) [0..<n])"

definition flooded :: "nat \<Rightarrow> nat \<Rightarrow> WorkspaceThrottleState" where
  "flooded s k = \<lparr>streak = s, failures = map beat_time [k..<k + 12], windowAlerted = True, consecutiveAlerted = True\<rparr>"

lemma outage_start_run:
  "throttle_run throttle_defaults (outage_start ws) (\<lambda>w. None) =
     ((\<lambda>w. None)(ws := Some (flooded 12 0)), [Consecutive_alert 4, Window_alert 12])"
  by (simp add: outage_start_def upt_conv_Cons throttled_def Let_def record_failure_def pruneWindow_def
      trip_consecutive_def trip_window_def new_throttle_state_def throttle_defaults_def flooded_def beat_time_def
      SUSTAINED_HOST_CONSECUTIVE_THRESHOLD_def MAX_GET_RETRIES_def SUSTAINED_HOST_WINDOW_MS_def
      SUSTAINED_HOST_WINDOW_THRESHOLD_def eval_nat_numeral)

lemma beats_after: "map beat_time [k..<k + 12] = beat_time k # map beat_time [Suc k..<k + 12]"
  by (simp add: upt_conv_Cons)

lemma shift_beats:
  assumes "c < beat_time k"
  shows "shift_while_le c (map beat_time [k..<m]) = map beat_time [k..<m]"
  using assms by (cases "k < m") (simp_all add: upt_conv_Cons not_le)

lemma healthy_beat:
  assumes "m ws = Some (flooded s k)"
  shows "healthy throttle_defaults (beat_time (k + 12) - 1) ws m =
    m(ws := Some \<lparr>streak = 0, failures = map beat_time [Suc k..<k + 12], windowAlerted = False, consecutiveAlerted = True\<rparr>)"
proof -
  have "shift_while_le (beat_time (k + 12) - 1 - 60000) (map beat_time [k..<k + 12]) = map beat_time [Suc k..<k + 12]"
    unfolding beats_after using shift_beats [of "beat_time (k + 12) - 1 - 60000" "Suc k" "k + 12"]
    by (simp add: beat_time_def)
  then show ?thesis
    by (simp add: healthy_def assms flooded_def pruneWindow_def throttle_defaults_def Let_def
        SUSTAINED_HOST_WINDOW_MS_def SUSTAINED_HOST_WINDOW_THRESHOLD_def)
qed

lemma beat_run:
  assumes "m ws = Some (flooded s k)"
  shows "\<exists>s'. throttle_run throttle_defaults (beat ws k) m = (m(ws := Some (flooded s' (Suc k))), [Window_alert 12])"
proof -
  have e: "map beat_time [Suc k..<k + 12] @ [beat_time (k + 12)] = map beat_time [Suc k..<Suc k + 12]"
    using upt_Suc_append [of "Suc k" "k + 12"] by (simp add: numeral_eq_Suc)
  have "shift_while_le (beat_time (k + 12) - 60000) (map beat_time [Suc k..<Suc k + 12]) = map beat_time [Suc k..<Suc k + 12]"
    by (rule shift_beats) (simp add: beat_time_def)
  then have "throttled throttle_defaults (beat_time (k + 12)) ws
      (m(ws := Some \<lparr>streak = 0, failures = map beat_time [Suc k..<k + 12], windowAlerted = False, consecutiveAlerted = True\<rparr>))
    = (m(ws := Some (flooded 1 (Suc k))), [Window_alert 12])"
    by (simp add: throttled_def record_failure_def e pruneWindow_def trip_consecutive_def trip_window_def
        throttle_defaults_def flooded_def Let_def SUSTAINED_HOST_CONSECUTIVE_THRESHOLD_def MAX_GET_RETRIES_def
        SUSTAINED_HOST_WINDOW_MS_def SUSTAINED_HOST_WINDOW_THRESHOLD_def)
  then show ?thesis by (auto simp: beat_def good_answer_def healthy_beat [of m ws s k, OF assms])
qed

lemma outage_run:
  "\<exists>s. throttle_run throttle_defaults (outage ws n) (\<lambda>w. None) =
     ((\<lambda>w. None)(ws := Some (flooded s n)), Consecutive_alert 4 # replicate (n + 1) (Window_alert 12))"
proof (induction n)
  case 0
  show ?case by (rule exI [of _ 12]) (simp add: outage_def outage_start_run fun_eq_iff)
next
  case (Suc n)
  then obtain s where s: "throttle_run throttle_defaults (outage ws n) (\<lambda>w. None) =
     ((\<lambda>w. None)(ws := Some (flooded s n)), Consecutive_alert 4 # replicate (n + 1) (Window_alert 12))" by blast
  obtain s' where s': "throttle_run throttle_defaults (beat ws n) ((\<lambda>w. None)(ws := Some (flooded s n)))
      = ((\<lambda>w. None)(ws := Some (flooded s' (Suc n))), [Window_alert 12])"
    using beat_run [of "(\<lambda>w. None)(ws := Some (flooded s n))" ws s n] by auto
  have "outage ws (Suc n) = outage ws n @ beat ws n" by (simp add: outage_def)
  then show ?case
    by (intro exI [of _ s']) (simp add: throttle_run_append s s' replicate_append_same fun_eq_iff)
qed

lemma window_never_drains:
  "length (window_of (fst (throttle_run throttle_defaults (outage ws k @ [good_answer ws k]) (\<lambda>w. None))) ws) = 11"
proof -
  obtain s where s: "throttle_run throttle_defaults (outage ws k) (\<lambda>w. None) =
     ((\<lambda>w. None)(ws := Some (flooded s k)), Consecutive_alert 4 # replicate (k + 1) (Window_alert 12))"
    using outage_run by blast
  show ?thesis
    by (simp add: throttle_run_append s good_answer_def healthy_beat [of _ ws s k] window_of_def)
qed

end
