(* ===== verification/Coordinator.thy ===== *)
theory Coordinator
  imports Prelude
begin

text \<open>
  The settlement barrier of a workspace (\<open>src/src/clockify/workspace-mutation-coordinator.ts\<close>):
  generations of an installation, the leases of running actions, revocation, and the drain an
  uninstall waits for. Every \<open>WorkspaceState\<close> object of the source is an \<open>epoch\<close> in a store, named by its
  index; the maps of the closure hold these names. A promise is the condition that resolves it: a
  drain is resolved when no epoch it waits for has a lease left. The lifecycle queue of the same
  file is in \<open>KeyedFifo\<close>.
\<close>

section \<open>State\<close>

record epoch =
  ep_workspace :: string
  ep_generation :: int
  ep_blocked :: bool
  ep_aborted :: bool
  ep_leases :: "nat list"
  ep_nextLease :: nat

record lease =
  l_epoch :: nat
  l_id :: nat
  l_released :: bool

record deletion =
  dl_workspace :: string
  dl_drain :: nat
  dl_finished :: bool
  dl_completed :: bool

text \<open>A drain is the list of the epochs whose waiters have not been called.\<close>

record coordinator =
  epochs :: "epoch list"
  states :: "string \<Rightarrow> nat option"
  retiredStates :: "string \<Rightarrow> nat list"
  leases :: "lease list"
  drains :: "nat list list"
  deletions :: "string \<Rightarrow> nat option"
  deletion_log :: "deletion list"

datatype coordinator_error = Revoked string int | Invalid_generation | Backwards_generation

definition new_coordinator :: coordinator where
  "new_coordinator = \<lparr>epochs = [], states = (\<lambda>w. None), retiredStates = (\<lambda>w. []), leases = [], drains = [],
     deletions = (\<lambda>w. None), deletion_log = []\<rparr>"

definition activeState :: "string \<Rightarrow> int \<Rightarrow> epoch" where
  "activeState ws generation = \<lparr>ep_workspace = ws, ep_generation = generation, ep_blocked = False,
     ep_aborted = False, ep_leases = [], ep_nextLease = 1\<rparr>"

definition set_epoch :: "nat \<Rightarrow> epoch \<Rightarrow> coordinator \<Rightarrow> coordinator" where
  "set_epoch e ep s = s\<lparr>epochs := (epochs s)[e := ep]\<rparr>"

definition install :: "string \<Rightarrow> epoch \<Rightarrow> coordinator \<Rightarrow> coordinator" where
  "install ws ep s = s\<lparr>states := (states s)(ws := Some (length (epochs s))), epochs := epochs s @ [ep]\<rparr>"

text \<open>\<open>resolveDrain\<close> calls the waiters of an epoch that has no lease left.\<close>

definition resolveDrain :: "nat \<Rightarrow> coordinator \<Rightarrow> coordinator" where
  "resolveDrain e s =
     (if ep_leases (epochs s ! e) \<noteq> [] then s
      else s\<lparr>drains := map (filter (\<lambda>e'. e' \<noteq> e)) (drains s)\<rparr>)"

text \<open>The epochs of a drain that are not settled at once register a waiter.\<close>

definition workspaceDrain :: "string \<Rightarrow> coordinator \<Rightarrow> coordinator \<times> nat" where
  "workspaceDrain ws s =
     (let es = (case states s ws of None \<Rightarrow> [] | Some e \<Rightarrow> [e]) @ retiredStates s ws;
          waits = filter (\<lambda>e. ep_leases (epochs s ! e) \<noteq> []) es in
      (s\<lparr>drains := drains s @ [waits]\<rparr>, length (drains s)))"

definition drain_resolved :: "nat \<Rightarrow> coordinator \<Rightarrow> bool" where
  "drain_resolved d s \<longleftrightarrow> drains s ! d = []"

definition block :: "string \<Rightarrow> coordinator \<Rightarrow> coordinator" where
  "block ws s =
     (case states s ws of
        None \<Rightarrow> install ws ((activeState ws 0)\<lparr>ep_blocked := True, ep_aborted := True\<rparr>) s
      | Some e \<Rightarrow> resolveDrain e (set_epoch e ((epochs s ! e)\<lparr>ep_blocked := True, ep_aborted := True\<rparr>) s))"

definition blockAndDrain :: "string \<Rightarrow> coordinator \<Rightarrow> coordinator \<times> nat" where
  "blockAndDrain ws s = workspaceDrain ws (block ws s)"

section \<open>Operations\<close>

text \<open>\<open>add_retired\<close> is \<open>Set.add\<close>.\<close>

definition add_retired :: "string \<Rightarrow> nat \<Rightarrow> coordinator \<Rightarrow> coordinator" where
  "add_retired ws e s = s\<lparr>retiredStates := (retiredStates s)(ws := List.insert e (retiredStates s ws))\<rparr>"

fun activate :: "string \<Rightarrow> js_number \<Rightarrow> coordinator \<Rightarrow> (coordinator_error, coordinator) result" where
  "activate ws Other_number s = Inl Invalid_generation"
| "activate ws (Safe_integer g) s =
     (if g < 1 then Inl Invalid_generation
      else if deletions s ws \<noteq> None then Inl (Revoked ws g)
      else case states s ws of
             None \<Rightarrow> Inr (install ws (activeState ws g) s)
           | Some e \<Rightarrow>
               (let cur = epochs s ! e in
                if g < ep_generation cur then Inl Backwards_generation
                else if g = ep_generation cur \<and> \<not> ep_blocked cur then Inr s
                else if g = ep_generation cur then Inl (Revoked ws g)
                else let s1 = set_epoch e (cur\<lparr>ep_aborted := True\<rparr>) s;
                         s2 = (if ep_leases cur \<noteq> [] then add_retired ws e s1 else s1) in
                     Inr (install ws (activeState ws g) s2)))"

text \<open>A process that restarted learns the generation from the first caller.\<close>

definition seeded :: "string \<Rightarrow> int \<Rightarrow> coordinator \<Rightarrow> coordinator \<times> nat" where
  "seeded ws g s = (case states s ws of
     None \<Rightarrow> (install ws (activeState ws g) s, length (epochs s)) | Some e \<Rightarrow> (s, e))"

text \<open>The signal an observer gets is the revocation of its epoch, joined to the caller's own.\<close>

definition observe :: "string \<Rightarrow> int \<Rightarrow> coordinator \<Rightarrow> (coordinator_error, coordinator \<times> nat) result" where
  "observe ws g s =
     (case seeded ws g s of (s', e) \<Rightarrow>
        if ep_blocked (epochs s' ! e) \<or> ep_generation (epochs s' ! e) \<noteq> g then Inl (Revoked ws g) else Inr (s', e))"

definition acquire :: "string \<Rightarrow> int \<Rightarrow> coordinator \<Rightarrow> (coordinator_error, coordinator \<times> nat) result" where
  "acquire ws g s =
     (case seeded ws g s of (s', e) \<Rightarrow>
        let ep = epochs s' ! e in
        if ep_blocked ep \<or> ep_generation ep \<noteq> g then Inl (Revoked ws g)
        else Inr ((set_epoch e (ep\<lparr>ep_nextLease := ep_nextLease ep + 1, ep_leases := ep_leases ep @ [ep_nextLease ep]\<rparr>) s')
                    \<lparr>leases := leases s' @ [\<lparr>l_epoch = e, l_id = ep_nextLease ep, l_released = False\<rparr>]\<rparr>,
                  length (leases s')))"

text \<open>The signal of a lease: \<open>callerAborted\<close> is the state of the caller's own signal, if it gave one.\<close>

definition lease_aborted :: "nat \<Rightarrow> bool \<Rightarrow> coordinator \<Rightarrow> bool" where
  "lease_aborted l callerAborted s \<longleftrightarrow> callerAborted \<or> ep_aborted (epochs s ! l_epoch (leases s ! l))"

definition drop_retired :: "nat \<Rightarrow> coordinator \<Rightarrow> coordinator" where
  "drop_retired e s =
     (let ws = ep_workspace (epochs s ! e) in
      if ep_leases (epochs s ! e) = [] \<and> states s ws \<noteq> Some e
      then s\<lparr>retiredStates := (retiredStates s)(ws := removeAll e (retiredStates s ws))\<rparr> else s)"

definition release :: "nat \<Rightarrow> coordinator \<Rightarrow> coordinator" where
  "release l s =
     (let h = leases s ! l; e = l_epoch h; ep = epochs s ! e in
      if l_released h then s
      else drop_retired e (resolveDrain e
             ((set_epoch e (ep\<lparr>ep_leases := removeAll (l_id h) (ep_leases ep)\<rparr>) s)
                \<lparr>leases := (leases s)[l := h\<lparr>l_released := True\<rparr>]\<rparr>)))"

text \<open>The result says whether the caller owns the deletion, and which one it is.\<close>

definition beginDeletion :: "string \<Rightarrow> coordinator \<Rightarrow> coordinator \<times> bool \<times> nat" where
  "beginDeletion ws s =
     (case deletions s ws of
        Some d \<Rightarrow> (s, False, d)
      | None \<Rightarrow>
          (case blockAndDrain ws s of (s', dr) \<Rightarrow>
             let d = length (deletion_log s') in
             (s'\<lparr>deletion_log := deletion_log s' @ [\<lparr>dl_workspace = ws, dl_drain = dr, dl_finished = False, dl_completed = False\<rparr>],
                deletions := (deletions s')(ws := Some d)\<rparr>, True, d)))"

definition set_deletion :: "nat \<Rightarrow> deletion \<Rightarrow> coordinator \<Rightarrow> coordinator" where
  "set_deletion d dl s = s\<lparr>deletion_log := (deletion_log s)[d := dl]\<rparr>"

definition finish :: "bool \<Rightarrow> nat \<Rightarrow> coordinator \<Rightarrow> coordinator" where
  "finish owner d s = (if \<not> owner then s else set_deletion d ((deletion_log s ! d)\<lparr>dl_finished := True\<rparr>) s)"

text \<open>The callback \<open>finish\<close> attaches to the drain: it runs once the drain is resolved.\<close>

definition complete_deletion :: "nat \<Rightarrow> coordinator \<Rightarrow> coordinator" where
  "complete_deletion d s =
     (let dl = deletion_log s ! d; ws = dl_workspace dl in
      set_deletion d (dl\<lparr>dl_completed := True\<rparr>)
        (if deletions s ws = Some d then s\<lparr>deletions := (deletions s)(ws := None)\<rparr> else s))"

definition waitForDeletion :: "string \<Rightarrow> coordinator \<Rightarrow> nat option" where
  "waitForDeletion ws s = deletions s ws"

inductive coordinator_step :: "coordinator \<Rightarrow> coordinator \<Rightarrow> bool" where
  activate: "activate ws g s = Inr s' \<Longrightarrow> coordinator_step s s'"
| observe: "observe ws g s = Inr (s', e) \<Longrightarrow> coordinator_step s s'"
| acquire: "acquire ws g s = Inr (s', l) \<Longrightarrow> coordinator_step s s'"
| release: "l < length (leases s) \<Longrightarrow> coordinator_step s (release l s)"
| block: "coordinator_step s (block ws s)"
| blockAndDrain: "blockAndDrain ws s = (s', d) \<Longrightarrow> coordinator_step s s'"
| beginDeletion: "beginDeletion ws s = (s', owner, d) \<Longrightarrow> coordinator_step s s'"
| finish: "d < length (deletion_log s) \<Longrightarrow> coordinator_step s (finish owner d s)"
| complete: "d < length (deletion_log s) \<Longrightarrow> dl_finished (deletion_log s ! d) \<Longrightarrow> \<not> dl_completed (deletion_log s ! d) \<Longrightarrow>
    drain_resolved (dl_drain (deletion_log s ! d)) s \<Longrightarrow> coordinator_step s (complete_deletion d s)"

section \<open>Invariant\<close>

definition epochs_ok :: "coordinator \<Rightarrow> bool" where
  "epochs_ok s \<longleftrightarrow>
     (\<forall>ws e. states s ws = Some e \<longrightarrow> e < length (epochs s) \<and> ep_workspace (epochs s ! e) = ws)
     \<and> (\<forall>e<length (epochs s). ep_leases (epochs s ! e) \<noteq> [] \<longrightarrow>
          states s (ep_workspace (epochs s ! e)) = Some e \<or> e \<in> set (retiredStates s (ep_workspace (epochs s ! e))))
     \<and> (\<forall>e<length (epochs s). (states s (ep_workspace (epochs s ! e)) \<noteq> Some e \<or> ep_blocked (epochs s ! e)) \<longrightarrow>
          ep_aborted (epochs s ! e))
     \<and> (\<forall>ws. distinct (retiredStates s ws) \<and> (\<forall>e\<in>set (retiredStates s ws).
          e < length (epochs s) \<and> ep_workspace (epochs s ! e) = ws \<and> states s ws \<noteq> Some e))"

text \<open>Generations of a workspace only grow, and the current epoch is the last one.\<close>

definition generations_ok :: "coordinator \<Rightarrow> bool" where
  "generations_ok s \<longleftrightarrow>
     (\<forall>e e'. e < e' \<longrightarrow> e' < length (epochs s) \<longrightarrow> ep_workspace (epochs s ! e) = ep_workspace (epochs s ! e') \<longrightarrow>
        ep_generation (epochs s ! e) < ep_generation (epochs s ! e'))
     \<and> (\<forall>e<length (epochs s). \<exists>c. states s (ep_workspace (epochs s ! e)) = Some c \<and> e \<le> c)"

definition leases_ok :: "coordinator \<Rightarrow> bool" where
  "leases_ok s \<longleftrightarrow>
     (\<forall>l<length (leases s). l_epoch (leases s ! l) < length (epochs s)
        \<and> l_id (leases s ! l) < ep_nextLease (epochs s ! l_epoch (leases s ! l))
        \<and> l_released (leases s ! l) = (l_id (leases s ! l) \<notin> set (ep_leases (epochs s ! l_epoch (leases s ! l)))))
     \<and> (\<forall>l l'. l < l' \<longrightarrow> l' < length (leases s) \<longrightarrow>
          l_epoch (leases s ! l) \<noteq> l_epoch (leases s ! l') \<or> l_id (leases s ! l) \<noteq> l_id (leases s ! l'))
     \<and> (\<forall>e<length (epochs s). \<forall>i\<in>set (ep_leases (epochs s ! e)).
          \<exists>l<length (leases s). l_epoch (leases s ! l) = e \<and> l_id (leases s ! l) = i)"

definition drains_ok :: "coordinator \<Rightarrow> bool" where
  "drains_ok s \<longleftrightarrow> (\<forall>d\<in>set (drains s). \<forall>e\<in>set d. e < length (epochs s) \<and> ep_leases (epochs s ! e) \<noteq> [])"

text \<open>
  While a deletion is registered its workspace is blocked, and every epoch of the workspace with a lease
  left is one its drain waits for.
\<close>

definition deletions_ok :: "coordinator \<Rightarrow> bool" where
  "deletions_ok s \<longleftrightarrow>
     (\<forall>d<length (deletion_log s). dl_drain (deletion_log s ! d) < length (drains s))
     \<and> (\<forall>ws d. deletions s ws = Some d \<longrightarrow>
          d < length (deletion_log s) \<and> dl_workspace (deletion_log s ! d) = ws
          \<and> (\<exists>e. states s ws = Some e \<and> ep_blocked (epochs s ! e))
          \<and> (\<forall>e<length (epochs s). ep_workspace (epochs s ! e) = ws \<longrightarrow> ep_leases (epochs s ! e) \<noteq> [] \<longrightarrow>
               e \<in> set (drains s ! dl_drain (deletion_log s ! d))))"

definition coordinator_ok :: "coordinator \<Rightarrow> bool" where
  "coordinator_ok s \<longleftrightarrow> epochs_ok s \<and> generations_ok s \<and> leases_ok s \<and> drains_ok s \<and> deletions_ok s"

section \<open>Every operation keeps the invariant\<close>

lemma resolveDrain_simps [simp]:
  "epochs (resolveDrain e s) = epochs s" "states (resolveDrain e s) = states s"
  "retiredStates (resolveDrain e s) = retiredStates s" "leases (resolveDrain e s) = leases s"
  "deletions (resolveDrain e s) = deletions s" "deletion_log (resolveDrain e s) = deletion_log s"
  "length (drains (resolveDrain e s)) = length (drains s)"
  by (simp_all add: resolveDrain_def)

lemma resolveDrain_drains:
  "d < length (drains s) \<Longrightarrow> drains (resolveDrain e s) ! d =
     (if ep_leases (epochs s ! e) \<noteq> [] then drains s ! d else filter (\<lambda>e'. e' \<noteq> e) (drains s ! d))"
  by (simp add: resolveDrain_def)

lemma set_epoch_simps [simp]:
  "length (epochs (set_epoch e ep s)) = length (epochs s)" "states (set_epoch e ep s) = states s"
  "retiredStates (set_epoch e ep s) = retiredStates s" "leases (set_epoch e ep s) = leases s"
  "deletions (set_epoch e ep s) = deletions s" "deletion_log (set_epoch e ep s) = deletion_log s"
  "drains (set_epoch e ep s) = drains s"
  by (simp_all add: set_epoch_def)

lemma epoch_at: "e < length (epochs s) \<Longrightarrow> epochs (set_epoch e ep s) ! j = (if j = e then ep else epochs s ! j)"
  by (auto simp: set_epoch_def)

lemma current_epoch:
  assumes "epochs_ok s" "states s ws = Some e"
  shows "e < length (epochs s)" "ep_workspace (epochs s ! e) = ws"
  using assms by (auto simp: epochs_ok_def)

lemma epoch_leased:
  "epochs_ok s \<Longrightarrow> e < length (epochs s) \<Longrightarrow> ep_leases (epochs s ! e) \<noteq> [] \<Longrightarrow>
   states s (ep_workspace (epochs s ! e)) = Some e \<or> e \<in> set (retiredStates s (ep_workspace (epochs s ! e)))"
  by (simp add: epochs_ok_def)

lemma epoch_revoked:
  "epochs_ok s \<Longrightarrow> e < length (epochs s) \<Longrightarrow>
   states s (ep_workspace (epochs s ! e)) \<noteq> Some e \<or> ep_blocked (epochs s ! e) \<Longrightarrow> ep_aborted (epochs s ! e)"
  unfolding epochs_ok_def by blast

lemma retired_epoch:
  "epochs_ok s \<Longrightarrow> e \<in> set (retiredStates s ws) \<Longrightarrow>
   e < length (epochs s) \<and> ep_workspace (epochs s ! e) = ws \<and> states s ws \<noteq> Some e"
  unfolding epochs_ok_def by blast

lemma retired_distinct: "epochs_ok s \<Longrightarrow> distinct (retiredStates s ws)"
  unfolding epochs_ok_def by blast

text \<open>An epoch that is only revoked keeps its workspace, generation and leases.\<close>

definition revokes :: "coordinator \<Rightarrow> coordinator \<Rightarrow> bool" where
  "revokes s s' \<longleftrightarrow> length (epochs s') = length (epochs s) \<and> states s' = states s \<and> retiredStates s' = retiredStates s
     \<and> leases s' = leases s \<and> deletions s' = deletions s \<and> deletion_log s' = deletion_log s \<and> drains s' = drains s
     \<and> (\<forall>j<length (epochs s). ep_workspace (epochs s' ! j) = ep_workspace (epochs s ! j)
          \<and> ep_generation (epochs s' ! j) = ep_generation (epochs s ! j)
          \<and> ep_leases (epochs s' ! j) = ep_leases (epochs s ! j)
          \<and> ep_nextLease (epochs s' ! j) = ep_nextLease (epochs s ! j)
          \<and> (ep_aborted (epochs s ! j) \<longrightarrow> ep_aborted (epochs s' ! j))
          \<and> (ep_blocked (epochs s ! j) \<longrightarrow> ep_blocked (epochs s' ! j))
          \<and> (ep_blocked (epochs s' ! j) \<longrightarrow> ep_blocked (epochs s ! j) \<or> ep_aborted (epochs s' ! j)))"

lemma revokes_ok:
  assumes r: "revokes s s'" and ok: "coordinator_ok s"
  shows "coordinator_ok s'"
proof -
  have len: "length (epochs s') = length (epochs s)" and st: "states s' = states s" "retiredStates s' = retiredStates s"
    "leases s' = leases s" "deletions s' = deletions s" "deletion_log s' = deletion_log s" "drains s' = drains s"
    and at: "\<And>j. j < length (epochs s) \<Longrightarrow> ep_workspace (epochs s' ! j) = ep_workspace (epochs s ! j)"
    "\<And>j. j < length (epochs s) \<Longrightarrow> ep_generation (epochs s' ! j) = ep_generation (epochs s ! j)"
    "\<And>j. j < length (epochs s) \<Longrightarrow> ep_leases (epochs s' ! j) = ep_leases (epochs s ! j)"
    "\<And>j. j < length (epochs s) \<Longrightarrow> ep_nextLease (epochs s' ! j) = ep_nextLease (epochs s ! j)"
    and ab: "\<And>j. j < length (epochs s) \<Longrightarrow> ep_aborted (epochs s ! j) \<Longrightarrow> ep_aborted (epochs s' ! j)"
    "\<And>j. j < length (epochs s) \<Longrightarrow> ep_blocked (epochs s ! j) \<Longrightarrow> ep_blocked (epochs s' ! j)"
    "\<And>j. j < length (epochs s) \<Longrightarrow> ep_blocked (epochs s' ! j) \<Longrightarrow> ep_blocked (epochs s ! j) \<or> ep_aborted (epochs s' ! j)"
    using r by (auto simp: revokes_def)
  have "epochs_ok s'"
    unfolding epochs_ok_def len st
  proof (intro conjI allI impI)
    fix ws e assume "states s ws = Some e"
    with ok show "e < length (epochs s)" "ep_workspace (epochs s' ! e) = ws"
      using current_epoch [of s ws e] at(1) by (auto simp: coordinator_ok_def)
  next
    fix e assume "e < length (epochs s)" "ep_leases (epochs s' ! e) \<noteq> []"
    with ok at show "states s (ep_workspace (epochs s' ! e)) = Some e \<or> e \<in> set (retiredStates s (ep_workspace (epochs s' ! e)))"
      by (simp add: coordinator_ok_def epochs_ok_def)
  next
    fix e assume "e < length (epochs s)" "states s (ep_workspace (epochs s' ! e)) \<noteq> Some e \<or> ep_blocked (epochs s' ! e)"
    with ok at(1) ab show "ep_aborted (epochs s' ! e)" unfolding coordinator_ok_def epochs_ok_def by metis
  next
    fix ws
    show "distinct (retiredStates s ws)" using ok by (simp add: coordinator_ok_def epochs_ok_def)
    show "\<forall>e\<in>set (retiredStates s ws). e < length (epochs s) \<and> ep_workspace (epochs s' ! e) = ws \<and> states s ws \<noteq> Some e"
      using ok at(1) by (simp add: coordinator_ok_def epochs_ok_def)
  qed
  moreover have "generations_ok s'"
    using ok at(1,2) unfolding coordinator_ok_def generations_ok_def len st by simp
  moreover have "leases_ok s'"
    unfolding leases_ok_def len st
  proof (intro conjI)
    show "\<forall>l<length (leases s). l_epoch (leases s ! l) < length (epochs s)
        \<and> l_id (leases s ! l) < ep_nextLease (epochs s' ! l_epoch (leases s ! l))
        \<and> l_released (leases s ! l) = (l_id (leases s ! l) \<notin> set (ep_leases (epochs s' ! l_epoch (leases s ! l))))"
      using ok at(3,4) by (simp add: coordinator_ok_def leases_ok_def)
  qed (use ok at(3) in \<open>simp_all add: coordinator_ok_def leases_ok_def\<close>)
  moreover have "drains_ok s'"
    using ok at(3) unfolding coordinator_ok_def drains_ok_def len st by fastforce
  moreover have "deletions_ok s'"
    unfolding deletions_ok_def len st
  proof (intro conjI allI impI)
    fix ws d assume d: "deletions s ws = Some d"
    with ok show "d < length (deletion_log s)" "dl_workspace (deletion_log s ! d) = ws"
      by (simp_all add: coordinator_ok_def deletions_ok_def)
    from d ok obtain e where e: "states s ws = Some e" "ep_blocked (epochs s ! e)"
      unfolding coordinator_ok_def deletions_ok_def by blast
    with ok ab(2) [OF current_epoch(1) [of s ws e]] show "\<exists>e. states s ws = Some e \<and> ep_blocked (epochs s' ! e)"
      by (simp add: coordinator_ok_def)
    fix e assume "e < length (epochs s)" "ep_workspace (epochs s' ! e) = ws" "ep_leases (epochs s' ! e) \<noteq> []"
    with d ok at show "e \<in> set (drains s ! dl_drain (deletion_log s ! d))"
      by (simp add: coordinator_ok_def deletions_ok_def)
  qed (use ok in \<open>simp add: coordinator_ok_def deletions_ok_def\<close>)
  ultimately show ?thesis by (simp add: coordinator_ok_def)
qed

lemma revoke_epoch:
  assumes "e < length (epochs s)"
  shows "revokes s (set_epoch e ((epochs s ! e)\<lparr>ep_blocked := True, ep_aborted := True\<rparr>) s)"
    and "revokes s (set_epoch e ((epochs s ! e)\<lparr>ep_aborted := True\<rparr>) s)"
  using assms by (simp_all add: revokes_def epoch_at)

text \<open>\<open>resolveDrain\<close> only shortens drains, and never by an epoch with a lease.\<close>

lemma resolveDrain_ok:
  assumes ok: "coordinator_ok s"
  shows "coordinator_ok (resolveDrain e s)"
proof -
  have "epochs_ok (resolveDrain e s) = epochs_ok s" "generations_ok (resolveDrain e s) = generations_ok s"
    "leases_ok (resolveDrain e s) = leases_ok s"
    by (simp_all only: epochs_ok_def generations_ok_def leases_ok_def resolveDrain_simps)
  moreover have "drains_ok (resolveDrain e s)"
    using ok by (auto simp: coordinator_ok_def drains_ok_def resolveDrain_def)
  moreover have "deletions_ok (resolveDrain e s)"
    using ok unfolding coordinator_ok_def deletions_ok_def resolveDrain_simps by (auto simp: resolveDrain_drains)
  ultimately show ?thesis using ok by (simp add: coordinator_ok_def)
qed

lemma deletions_cong:
  assumes ok: "deletions_ok s"
    and eq: "epochs s' = epochs s" "states s' = states s" "deletions s' = deletions s" "deletion_log s' = deletion_log s"
    and dr: "length (drains s) \<le> length (drains s')"
      "\<And>d. d < length (deletion_log s) \<Longrightarrow> drains s' ! dl_drain (deletion_log s ! d) = drains s ! dl_drain (deletion_log s ! d)"
  shows "deletions_ok s'"
  unfolding deletions_ok_def eq
proof (intro conjI allI impI)
  show "dl_drain (deletion_log s ! d) < length (drains s')" if "d < length (deletion_log s)" for d
    using ok that dr(1) by (fastforce simp: deletions_ok_def)
next
  fix ws d assume d: "deletions s ws = Some d"
  with ok show l: "d < length (deletion_log s)" and "dl_workspace (deletion_log s ! d) = ws"
    and "\<exists>e. states s ws = Some e \<and> ep_blocked (epochs s ! e)"
    by (simp_all add: deletions_ok_def)
  fix e assume "e < length (epochs s)" "ep_workspace (epochs s ! e) = ws" "ep_leases (epochs s ! e) \<noteq> []"
  with ok d dr(2) [OF l] show "e \<in> set (drains s' ! dl_drain (deletion_log s ! d))" by (simp add: deletions_ok_def)
qed

lemma workspaceDrain_ok:
  assumes ok: "coordinator_ok s" and d: "workspaceDrain ws s = (s', d)"
  shows "coordinator_ok s'"
    and "epochs s' = epochs s" "states s' = states s" "deletions s' = deletions s" "deletion_log s' = deletion_log s"
    and "d < length (drains s')"
    and "\<And>e. e < length (epochs s) \<Longrightarrow> ep_workspace (epochs s ! e) = ws \<Longrightarrow> ep_leases (epochs s ! e) \<noteq> [] \<Longrightarrow> e \<in> set (drains s' ! d)"
proof -
  let ?es = "(case states s ws of None \<Rightarrow> [] | Some e \<Rightarrow> [e]) @ retiredStates s ws"
  let ?w = "filter (\<lambda>e. ep_leases (epochs s ! e) \<noteq> []) ?es"
  have s': "s' = s\<lparr>drains := drains s @ [?w]\<rparr>" "d = length (drains s)"
    using d by (auto simp: workspaceDrain_def Let_def)
  show eq: "epochs s' = epochs s" "states s' = states s" "deletions s' = deletions s" "deletion_log s' = deletion_log s"
    and "d < length (drains s')" by (simp_all add: s')
  show "e \<in> set (drains s' ! d)"
    if "e < length (epochs s)" "ep_workspace (epochs s ! e) = ws" "ep_leases (epochs s ! e) \<noteq> []" for e
    using ok that by (fastforce simp: s' coordinator_ok_def epochs_ok_def split: option.splits)
  have rest: "retiredStates s' = retiredStates s" "leases s' = leases s" by (simp_all add: s')
  have "epochs_ok s' = epochs_ok s" "generations_ok s' = generations_ok s" "leases_ok s' = leases_ok s"
    by (simp_all only: epochs_ok_def generations_ok_def leases_ok_def eq rest)
  moreover have "\<forall>e\<in>set ?w. e < length (epochs s)"
    using ok by (auto simp: coordinator_ok_def epochs_ok_def split: option.splits)
  then have "drains_ok s'" using ok by (auto simp: coordinator_ok_def drains_ok_def s')
  moreover have "deletions_ok s'"
  proof -
    have dl: "dl_drain (deletion_log s ! d) < length (drains s)" if "d < length (deletion_log s)" for d
      using ok that by (simp add: coordinator_ok_def deletions_ok_def)
    then have "drains s' ! dl_drain (deletion_log s ! d) = drains s ! dl_drain (deletion_log s ! d)"
      if "d < length (deletion_log s)" for d using that by (simp add: s' nth_append)
    with ok show ?thesis
      by (rule_tac deletions_cong [of s]) (simp_all add: coordinator_ok_def eq, simp add: s')
  qed
  ultimately show "coordinator_ok s'" using ok by (simp add: coordinator_ok_def)
qed

text \<open>
  Installing a new epoch: the old ones of the workspace are revoked and, if they have a lease, retired;
  a registered deletion requires that the new epoch is blocked.
\<close>

lemma install_ok:
  assumes ok: "generations_ok s" "leases_ok s" "drains_ok s" "deletions_ok s" "epochs_ok s"
    and ep: "ep_workspace ep = ws" "ep_leases ep = []" "ep_blocked ep \<Longrightarrow> ep_aborted ep"
    and old: "\<And>e. e < length (epochs s) \<Longrightarrow> ep_workspace (epochs s ! e) = ws \<Longrightarrow>
      ep_aborted (epochs s ! e) \<and> ep_generation (epochs s ! e) < ep_generation ep
      \<and> (ep_leases (epochs s ! e) \<noteq> [] \<longrightarrow> e \<in> set R)"
    and R: "distinct R" "\<And>e. e \<in> set R \<Longrightarrow> e < length (epochs s) \<and> ep_workspace (epochs s ! e) = ws"
    and del: "deletions s ws = None"
  shows "coordinator_ok (install ws ep (s\<lparr>retiredStates := (retiredStates s)(ws := R)\<rparr>))"
proof -
  let ?R = "(retiredStates s)(ws := R)"
  let ?i = "install ws ep (s\<lparr>retiredStates := ?R\<rparr>)"
  let ?n = "length (epochs s)"
  have at: "epochs ?i ! j = (if j = ?n then ep else epochs s ! j)" if "j \<le> ?n" for j
    using that by (auto simp: install_def nth_append)
  have len: "length (epochs ?i) = Suc ?n" by (simp add: install_def)
  have st: "states ?i = (states s)(ws := Some ?n)" "retiredStates ?i = ?R"
    "leases ?i = leases s" "deletions ?i = deletions s"
    "deletion_log ?i = deletion_log s" "drains ?i = drains s"
    by (simp_all add: install_def)
  have "epochs_ok ?i"
    unfolding epochs_ok_def len st
  proof (intro conjI allI impI)
    fix w e assume "((states s)(ws := Some ?n)) w = Some e"
    then show "e < Suc ?n" "ep_workspace (epochs ?i ! e) = w"
      using current_epoch [OF ok(5), of w e] ep(1) at [of e] by (auto split: if_splits)
  next
    fix e assume e: "e < Suc ?n" "ep_leases (epochs ?i ! e) \<noteq> []"
    then have "e < ?n" "ep_leases (epochs s ! e) \<noteq> []" using at [of e] ep(2) by (auto simp: less_Suc_eq)
    with old [of e] epoch_leased [OF ok(5), of e] at [of e]
    show "((states s)(ws := Some ?n)) (ep_workspace (epochs ?i ! e)) = Some e
      \<or> e \<in> set (?R (ep_workspace (epochs ?i ! e)))"
      by auto
  next
    fix e assume e: "e < Suc ?n"
      "((states s)(ws := Some ?n)) (ep_workspace (epochs ?i ! e)) \<noteq> Some e \<or> ep_blocked (epochs ?i ! e)"
    show "ep_aborted (epochs ?i ! e)"
    proof (cases "e = ?n")
      case True
      with e ep(1,3) at [of e] show ?thesis by auto
    next
      case False
      with e have "e < ?n" by simp
      with False e(2) old [of e] epoch_revoked [OF ok(5), of e] at [of e] show ?thesis by (auto split: if_splits)
    qed
  next
    fix w
    show "distinct (?R w)" using ok(5) R(1) by (simp add: epochs_ok_def)
    show "\<forall>e\<in>set (?R w). e < Suc ?n \<and> ep_workspace (epochs ?i ! e) = w
        \<and> ((states s)(ws := Some ?n)) w \<noteq> Some e"
    proof
      fix e assume e: "e \<in> set (?R w)"
      then have "e < ?n \<and> ep_workspace (epochs s ! e) = w \<and> (w = ws \<or> states s w \<noteq> Some e)"
        using retired_epoch [OF ok(5), of e w] R(2) [of e] by (auto split: if_splits)
      with at [of e]
      show "e < Suc ?n \<and> ep_workspace (epochs ?i ! e) = w \<and> ((states s)(ws := Some ?n)) w \<noteq> Some e"
        by auto
    qed
  qed
  moreover have "generations_ok ?i"
    unfolding generations_ok_def len st
  proof (intro conjI allI impI)
    fix e e' assume "e < e'" "e' < Suc ?n"
      "ep_workspace (epochs ?i ! e) = ep_workspace (epochs ?i ! e')"
    with ok(1) old [of e] ep(1) at [of e] at [of e']
    show "ep_generation (epochs ?i ! e) < ep_generation (epochs ?i ! e')"
      by (auto simp: generations_ok_def less_Suc_eq split: if_splits)
  next
    fix e assume "e < Suc ?n"
    with ok(1) ep(1) at [of e]
    show "\<exists>c. ((states s)(ws := Some ?n)) (ep_workspace (epochs ?i ! e)) = Some c \<and> e \<le> c"
      by (auto simp: generations_ok_def less_Suc_eq)
  qed
  moreover have "leases_ok ?i"
    unfolding leases_ok_def len st
  proof (intro conjI)
    show "\<forall>l<length (leases s). l_epoch (leases s ! l) < Suc ?n
        \<and> l_id (leases s ! l) < ep_nextLease (epochs ?i ! l_epoch (leases s ! l))
        \<and> l_released (leases s ! l) = (l_id (leases s ! l) \<notin> set (ep_leases (epochs ?i ! l_epoch (leases s ! l))))"
      using ok(2) at by (auto simp: leases_ok_def)
    show "\<forall>e<Suc ?n. \<forall>i\<in>set (ep_leases (epochs ?i ! e)). \<exists>l<length (leases s). l_epoch (leases s ! l) = e \<and> l_id (leases s ! l) = i"
      using ok(2) at ep(2) by (auto simp: leases_ok_def less_Suc_eq)
  qed (use ok(2) in \<open>simp add: leases_ok_def\<close>)
  moreover have "drains_ok ?i"
    using ok(3) at unfolding drains_ok_def len st by fastforce
  moreover have "deletions_ok ?i"
    unfolding deletions_ok_def len st
  proof (intro conjI allI impI)
    fix w d assume d: "deletions s w = Some d"
    with del have w: "w \<noteq> ws" by auto
    from d ok(4) show "d < length (deletion_log s)" "dl_workspace (deletion_log s ! d) = w" by (simp_all add: deletions_ok_def)
    from d ok(4) obtain c where "states s w = Some c" "ep_blocked (epochs s ! c)" unfolding deletions_ok_def by blast
    with w current_epoch(1) [OF ok(5)] at [of c]
    show "\<exists>e. ((states s)(ws := Some ?n)) w = Some e \<and> ep_blocked (epochs ?i ! e)" by fastforce
    fix e assume "e < Suc ?n" "ep_workspace (epochs ?i ! e) = w" "ep_leases (epochs ?i ! e) \<noteq> []"
    with d ok(4) w ep(1) at [of e] show "e \<in> set (drains s ! dl_drain (deletion_log s ! d))"
      by (auto simp: deletions_ok_def less_Suc_eq)
  qed (use ok(4) in \<open>simp add: deletions_ok_def\<close>)
  ultimately show ?thesis by (simp add: coordinator_ok_def)
qed

section \<open>The operations\<close>

lemma ok_parts:
  assumes "coordinator_ok s"
  shows "epochs_ok s" "generations_ok s" "leases_ok s" "drains_ok s" "deletions_ok s"
  using assms by (simp_all add: coordinator_ok_def)

lemma none_no_epoch:
  "generations_ok s \<Longrightarrow> states s ws = None \<Longrightarrow> e < length (epochs s) \<Longrightarrow> ep_workspace (epochs s ! e) \<noteq> ws"
  by (auto simp: generations_ok_def)

lemma none_no_deletion: "deletions_ok s \<Longrightarrow> states s ws = None \<Longrightarrow> deletions s ws = None"
  unfolding deletions_ok_def by (metis not_Some_eq)

lemma install_first_ok:
  assumes ok: "coordinator_ok s" and n: "states s ws = None"
    and ep: "ep_workspace ep = ws" "ep_leases ep = []" "ep_blocked ep \<Longrightarrow> ep_aborted ep"
  shows "coordinator_ok (install ws ep s)"
proof -
  have "coordinator_ok (install ws ep (s\<lparr>retiredStates := (retiredStates s)(ws := retiredStates s ws)\<rparr>))"
    by (rule install_ok [OF ok_parts(2,3,4,5,1) [OF ok] ep])
      (use ok_parts(1) [OF ok] none_no_epoch [OF ok_parts(2) [OF ok] n] none_no_deletion [OF ok_parts(5) [OF ok] n]
         retired_epoch [OF ok_parts(1) [OF ok]] in \<open>auto simp: epochs_ok_def\<close>)
  then show ?thesis by simp
qed

lemma block_ok:
  assumes ok: "coordinator_ok s"
  shows "coordinator_ok (block ws s)"
    and "\<exists>e. states (block ws s) ws = Some e \<and> ep_blocked (epochs (block ws s) ! e)"
    and "deletions (block ws s) = deletions s" and "deletion_log (block ws s) = deletion_log s"
proof -
  show "coordinator_ok (block ws s)"
  proof (cases "states s ws")
    case None
    from install_first_ok [OF ok None] show ?thesis by (simp add: block_def None activeState_def)
  next
    case (Some e)
    have "e < length (epochs s)" by (rule current_epoch(1) [OF ok_parts(1) [OF ok] Some])
    from resolveDrain_ok [OF revokes_ok [OF revoke_epoch(1) [OF this] ok]] show ?thesis by (simp add: block_def Some)
  qed
  show "\<exists>e. states (block ws s) ws = Some e \<and> ep_blocked (epochs (block ws s) ! e)"
  proof (cases "states s ws")
    case None
    then show ?thesis by (simp add: block_def install_def)
  next
    case (Some e)
    with current_epoch(1) [OF ok_parts(1) [OF ok] Some] show ?thesis by (simp add: block_def epoch_at)
  qed
  show "deletions (block ws s) = deletions s" "deletion_log (block ws s) = deletion_log s"
    by (simp_all add: block_def install_def split: option.split)
qed

lemma seeded_ok:
  assumes ok: "coordinator_ok s" and s': "seeded ws g s = (s', e)"
  shows "coordinator_ok s'" "states s' ws = Some e" "e < length (epochs s')" "ep_workspace (epochs s' ! e) = ws"
    "leases s' = leases s"
proof -
  have *: "coordinator_ok s' \<and> states s' ws = Some e \<and> leases s' = leases s"
  proof (cases "states s ws")
    case None
    from install_first_ok [OF ok None, of "activeState ws g"] s' None show ?thesis
      by (auto simp: seeded_def activeState_def install_def)
  next
    case (Some c)
    with s' ok show ?thesis by (simp add: seeded_def)
  qed
  then show "coordinator_ok s'" "states s' ws = Some e" "leases s' = leases s" by simp_all
  with current_epoch [OF ok_parts(1)] show "e < length (epochs s')" "ep_workspace (epochs s' ! e) = ws" by blast+
qed

lemma activate_ok:
  assumes ok: "coordinator_ok s" and a: "activate ws n s = Inr s'"
  shows "coordinator_ok s'"
proof -
  obtain g where n: "n = Safe_integer g" "1 \<le> g" "deletions s ws = None"
    using a by (cases n) (auto split: if_splits)
  show ?thesis
  proof (cases "states s ws")
    case None
    from install_first_ok [OF ok None, of "activeState ws g"] a n None show ?thesis by (simp add: activeState_def)
  next
    case (Some e)
    let ?cur = "epochs s ! e"
    have e: "e < length (epochs s)" "ep_workspace ?cur = ws" using current_epoch [OF ok_parts(1) [OF ok] Some] by simp_all
    show ?thesis
    proof (cases "g = ep_generation ?cur")
      case True
      with a n Some ok show ?thesis by (auto simp: Let_def split: if_splits)
    next
      case False
      let ?s1 = "set_epoch e (?cur\<lparr>ep_aborted := True\<rparr>) s"
      let ?s2 = "if ep_leases ?cur \<noteq> [] then add_retired ws e ?s1 else ?s1"
      have g: "ep_generation ?cur < g" and s': "s' = install ws (activeState ws g) ?s2"
        using a n Some False by (auto simp: Let_def split: if_splits)
      have ok1: "coordinator_ok ?s1" by (rule revokes_ok [OF revoke_epoch(2) [OF e(1)] ok])
      let ?R = "if ep_leases ?cur \<noteq> [] then List.insert e (retiredStates s ws) else retiredStates s ws"
      have eq: "?s2 = ?s1\<lparr>retiredStates := (retiredStates ?s1)(ws := ?R)\<rparr>" by (simp add: add_retired_def)
      have gen: "ep_generation (epochs s ! j) \<le> ep_generation ?cur"
        if "j < length (epochs s)" "ep_workspace (epochs s ! j) = ws" for j
      proof -
        have "j \<le> e" using ok_parts(2) [OF ok] that Some by (auto simp: generations_ok_def)
        then show ?thesis using ok_parts(2) [OF ok] that e by (cases "j = e") (auto simp: generations_ok_def less_le)
      qed
      have r: "distinct (retiredStates s ws)" "\<And>j. j \<in> set (retiredStates s ws) \<Longrightarrow> j < length (epochs s) \<and> ep_workspace (epochs s ! j) = ws"
        using retired_distinct [OF ok_parts(1) [OF ok]] retired_epoch [OF ok_parts(1) [OF ok]] by blast+
      show ?thesis
        unfolding s' eq
      proof (rule install_ok [OF ok_parts(2,3,4,5,1) [OF ok1]])
        fix j assume j: "j < length (epochs ?s1)" "ep_workspace (epochs ?s1 ! j) = ws"
        then have j': "j < length (epochs s)" "ep_workspace (epochs s ! j) = ws" using e(1,2) by (auto simp: epoch_at split: if_splits)
        have "j = e \<or> ep_aborted (epochs s ! j)" using epoch_revoked [OF ok_parts(1) [OF ok] j'(1)] j'(2) Some by auto
        moreover have "ep_leases (epochs s ! j) \<noteq> [] \<Longrightarrow> j = e \<or> j \<in> set (retiredStates s ws)"
          using epoch_leased [OF ok_parts(1) [OF ok] j'(1)] j'(2) Some by auto
        ultimately show "ep_aborted (epochs ?s1 ! j) \<and> ep_generation (epochs ?s1 ! j) < ep_generation (activeState ws g)
          \<and> (ep_leases (epochs ?s1 ! j) \<noteq> [] \<longrightarrow> j \<in> set ?R)"
          using gen [OF j'] g e(1) by (auto simp: epoch_at activeState_def)
      next
        show "distinct ?R" using r(1) by simp
        show "\<And>j. j \<in> set ?R \<Longrightarrow> j < length (epochs ?s1) \<and> ep_workspace (epochs ?s1 ! j) = ws"
          using r(2) e by (auto simp: epoch_at split: if_splits)
      qed (use n(3) in \<open>simp_all add: activeState_def\<close>)
    qed
  qed
qed

text \<open>A lease is added to, or dropped from, the leases of its epoch.\<close>

lemma leases_change_epochs:
  assumes ok: "epochs_ok s" and e: "e < length (epochs s)" and live: "ep_leases (epochs s ! e) = [] \<Longrightarrow> states s (ep_workspace (epochs s ! e)) = Some e"
  shows "epochs_ok (set_epoch e ((epochs s ! e)\<lparr>ep_nextLease := n, ep_leases := ls\<rparr>) s)" (is "epochs_ok ?s")
proof -
  have at: "ep_workspace (epochs ?s ! j) = ep_workspace (epochs s ! j)" "ep_blocked (epochs ?s ! j) = ep_blocked (epochs s ! j)"
    "ep_aborted (epochs ?s ! j) = ep_aborted (epochs s ! j)" "ep_leases (epochs ?s ! j) = (if j = e then ls else ep_leases (epochs s ! j))" for j
    using e by (simp_all add: epoch_at)
  show ?thesis
    unfolding epochs_ok_def set_epoch_simps
  proof (intro conjI allI impI)
    fix j assume "j < length (epochs s)" "ep_leases (epochs ?s ! j) \<noteq> []"
    then show "states s (ep_workspace (epochs ?s ! j)) = Some j \<or> j \<in> set (retiredStates s (ep_workspace (epochs ?s ! j)))"
      using epoch_leased [OF ok, of j] live by (auto simp: at split: if_splits)
  next
    fix j assume "j < length (epochs s)" "states s (ep_workspace (epochs ?s ! j)) \<noteq> Some j \<or> ep_blocked (epochs ?s ! j)"
    then show "ep_aborted (epochs ?s ! j)" using epoch_revoked [OF ok, of j] by (simp add: at)
  next
    fix ws
    show "distinct (retiredStates s ws)" by (rule retired_distinct [OF ok])
    show "\<forall>j\<in>set (retiredStates s ws). j < length (epochs s) \<and> ep_workspace (epochs ?s ! j) = ws \<and> states s ws \<noteq> Some j"
      using retired_epoch [OF ok] by (simp add: at)
  qed (use current_epoch [OF ok] in \<open>simp_all add: at\<close>)
qed

lemma generations_leases:
  "e < length (epochs s) \<Longrightarrow> generations_ok (set_epoch e ((epochs s ! e)\<lparr>ep_nextLease := n, ep_leases := ls\<rparr>) s) = generations_ok s"
proof -
  assume e: "e < length (epochs s)"
  let ?s = "set_epoch e ((epochs s ! e)\<lparr>ep_nextLease := n, ep_leases := ls\<rparr>) s"
  have "ep_workspace (epochs ?s ! j) = ep_workspace (epochs s ! j)" "ep_generation (epochs ?s ! j) = ep_generation (epochs s ! j)" for j
    using e by (simp_all add: epoch_at)
  then show ?thesis by (simp only: generations_ok_def set_epoch_simps)
qed

lemma acquire_ok:
  assumes ok: "coordinator_ok s" and a: "acquire ws g s = Inr (s', l)"
  shows "coordinator_ok s'"
proof -
  obtain s1 e where s1: "seeded ws g s = (s1, e)" by fastforce
  note sd = seeded_ok [OF ok s1]
  let ?ep = "epochs s1 ! e"
  have b: "\<not> ep_blocked ?ep" using a by (auto simp: acquire_def s1 Let_def split: if_splits)
  let ?s2 = "set_epoch e (?ep\<lparr>ep_nextLease := ep_nextLease ?ep + 1, ep_leases := ep_leases ?ep @ [ep_nextLease ?ep]\<rparr>) s1"
  let ?h = "\<lparr>l_epoch = e, l_id = ep_nextLease ?ep, l_released = False\<rparr>"
  have s': "s' = ?s2\<lparr>leases := leases s1 @ [?h]\<rparr>"
    using a by (auto simp: acquire_def s1 Let_def set_epoch_def split: if_splits)
  have at: "ep_leases (epochs ?s2 ! j) = (if j = e then ep_leases ?ep @ [ep_nextLease ?ep] else ep_leases (epochs s1 ! j))"
    "ep_nextLease (epochs ?s2 ! j) = (if j = e then ep_nextLease ?ep + 1 else ep_nextLease (epochs s1 ! j))"
    "ep_workspace (epochs ?s2 ! j) = ep_workspace (epochs s1 ! j)" "ep_blocked (epochs ?s2 ! j) = ep_blocked (epochs s1 ! j)" for j
    using sd(3) by (simp_all add: epoch_at)
  have eq: "epochs s' = epochs ?s2" "states s' = states ?s2" "retiredStates s' = retiredStates ?s2"
    "deletions s' = deletions ?s2" "deletion_log s' = deletion_log ?s2" "drains s' = drains ?s2"
    by (simp_all add: s')
  have "epochs_ok ?s2" by (rule leases_change_epochs [OF ok_parts(1) [OF sd(1)] sd(3)]) (simp add: sd)
  then have "epochs_ok s'" unfolding epochs_ok_def eq .
  moreover have "generations_ok ?s2" unfolding generations_leases [OF sd(3)] by (rule ok_parts(2) [OF sd(1)])
  then have "generations_ok s'" unfolding generations_ok_def eq .
  moreover have "leases_ok s'"
  proof -
    have old: "leases_ok s1" by (rule ok_parts(3) [OF sd(1)])
    have new: "\<not> (l_epoch (leases s1 ! k) = e \<and> l_id (leases s1 ! k) = ep_nextLease ?ep)" if "k < length (leases s1)" for k
      using old that by (fastforce simp: leases_ok_def)
    have lat: "leases s' ! k = (if k = length (leases s1) then ?h else leases s1 ! k)" if "k < Suc (length (leases s1))" for k
      using that by (auto simp: s' nth_append)
    have len: "length (leases s') = Suc (length (leases s1))" by (simp add: s')
    show ?thesis
      unfolding leases_ok_def len eq set_epoch_simps
    proof (intro conjI allI impI ballI)
      fix k assume k: "k < Suc (length (leases s1))"
      show "l_epoch (leases s' ! k) < length (epochs s1)"
        "l_id (leases s' ! k) < ep_nextLease (epochs ?s2 ! l_epoch (leases s' ! k))"
        "l_released (leases s' ! k) = (l_id (leases s' ! k) \<notin> set (ep_leases (epochs ?s2 ! l_epoch (leases s' ! k))))"
        using k old new [of k] sd(3) unfolding lat [OF k] at by (auto simp: leases_ok_def less_Suc_eq)
    next
      fix k k' assume k: "k < k'" "k' < Suc (length (leases s1))"
      then show "l_epoch (leases s' ! k) \<noteq> l_epoch (leases s' ! k') \<or> l_id (leases s' ! k) \<noteq> l_id (leases s' ! k')"
        using old new [of k] lat [of k] lat [of k'] by (cases "k' = length (leases s1)") (auto simp: leases_ok_def)
    next
      fix j i assume j: "j < length (epochs s1)" "i \<in> set (ep_leases (epochs ?s2 ! j))"
      show "\<exists>k<Suc (length (leases s1)). l_epoch (leases s' ! k) = j \<and> l_id (leases s' ! k) = i"
      proof (cases "j = e \<and> i = ep_nextLease ?ep")
        case True
        then show ?thesis by (intro exI [of _ "length (leases s1)"]) (simp add: lat)
      next
        case False
        with j have "i \<in> set (ep_leases (epochs s1 ! j))" unfolding at by (auto split: if_splits)
        with old j obtain k where "k < length (leases s1)" "l_epoch (leases s1 ! k) = j" "l_id (leases s1 ! k) = i"
          unfolding leases_ok_def by blast
        then show ?thesis by (intro exI [of _ k]) (simp add: lat)
      qed
    qed
  qed
  moreover have "drains_ok s'"
    using ok_parts(4) [OF sd(1)] unfolding drains_ok_def eq set_epoch_simps at by auto
  moreover have "deletions_ok s'"
  proof -
    have old: "deletions_ok s1" by (rule ok_parts(5) [OF sd(1)])
    have "deletions s1 ws = None"
    proof (rule ccontr)
      assume "deletions s1 ws \<noteq> None"
      then obtain d where "deletions s1 ws = Some d" by blast
      with old obtain c where "states s1 ws = Some c" "ep_blocked (epochs s1 ! c)" unfolding deletions_ok_def by blast
      with sd(2) b show False by simp
    qed
    note none = this
    show ?thesis
      unfolding deletions_ok_def eq set_epoch_simps at
    proof (intro conjI allI impI)
      show "dl_drain (deletion_log s1 ! d) < length (drains s1)" if "d < length (deletion_log s1)" for d
        using old that by (simp add: deletions_ok_def)
    next
      fix v d assume d: "deletions s1 v = Some d"
      with old show "d < length (deletion_log s1)" "dl_workspace (deletion_log s1 ! d) = v"
        "\<exists>e. states s1 v = Some e \<and> ep_blocked (epochs s1 ! e)"
        unfolding deletions_ok_def by blast+
      fix j assume j: "j < length (epochs s1)" "ep_workspace (epochs s1 ! j) = v"
        "(if j = e then ep_leases ?ep @ [ep_nextLease ?ep] else ep_leases (epochs s1 ! j)) \<noteq> []"
      have "j \<noteq> e" using d none j(2) sd(4) by auto
      with j(3) have "ep_leases (epochs s1 ! j) \<noteq> []" by simp
      with old d j(1,2) show "j \<in> set (drains s1 ! dl_drain (deletion_log s1 ! d))" unfolding deletions_ok_def by blast
    qed
  qed
  ultimately show ?thesis by (simp add: coordinator_ok_def)
qed

lemma drop_retired_ok:
  assumes ok: "coordinator_ok s"
  shows "coordinator_ok (drop_retired e s)"
proof (cases "ep_leases (epochs s ! e) = [] \<and> states s (ep_workspace (epochs s ! e)) \<noteq> Some e")
  case True
  let ?ws = "ep_workspace (epochs s ! e)"
  let ?s = "s\<lparr>retiredStates := (retiredStates s)(?ws := removeAll e (retiredStates s ?ws))\<rparr>"
  have eo: "epochs_ok s" by (rule ok_parts(1) [OF ok])
  have "epochs_ok ?s"
    unfolding epochs_ok_def
  proof (intro conjI allI impI)
    fix j assume "j < length (epochs ?s)" "ep_leases (epochs ?s ! j) \<noteq> []"
    with epoch_leased [OF eo, of j] True
    show "states ?s (ep_workspace (epochs ?s ! j)) = Some j \<or> j \<in> set (retiredStates ?s (ep_workspace (epochs ?s ! j)))"
      by auto
  next
    fix j assume "j < length (epochs ?s)" "states ?s (ep_workspace (epochs ?s ! j)) \<noteq> Some j \<or> ep_blocked (epochs ?s ! j)"
    with epoch_revoked [OF eo, of j] show "ep_aborted (epochs ?s ! j)" by simp
  next
    fix ws
    show "distinct (retiredStates ?s ws)" using retired_distinct [OF eo] by (simp add: distinct_removeAll)
    show "\<forall>j\<in>set (retiredStates ?s ws). j < length (epochs ?s) \<and> ep_workspace (epochs ?s ! j) = ws \<and> states ?s ws \<noteq> Some j"
      using retired_epoch [OF eo] by auto
  qed (use current_epoch [OF eo] in simp_all)
  moreover have "generations_ok ?s = generations_ok s" "leases_ok ?s = leases_ok s" "drains_ok ?s = drains_ok s"
    "deletions_ok ?s = deletions_ok s"
    by (simp_all add: generations_ok_def leases_ok_def drains_ok_def deletions_ok_def)
  ultimately show ?thesis using ok True by (simp add: drop_retired_def coordinator_ok_def Let_def)
next
  case False
  with ok show ?thesis by (auto simp: drop_retired_def Let_def)
qed

lemma release_ok:
  assumes ok: "coordinator_ok s" and l: "l < length (leases s)"
  shows "coordinator_ok (release l s)"
proof (cases "l_released (leases s ! l)")
  case True
  with ok show ?thesis by (simp add: release_def)
next
  case False
  let ?h = "leases s ! l" and ?e = "l_epoch (leases s ! l)"
  let ?ep = "epochs s ! ?e"
  let ?ls = "removeAll (l_id ?h) (ep_leases ?ep)"
  let ?s1 = "set_epoch ?e (?ep\<lparr>ep_nextLease := ep_nextLease ?ep, ep_leases := ?ls\<rparr>) s"
  let ?s2 = "?s1\<lparr>leases := (leases s)[l := ?h\<lparr>l_released := True\<rparr>]\<rparr>"
  let ?s3 = "resolveDrain ?e ?s2"
  note old = ok_parts [OF ok]
  have e: "?e < length (epochs s)" "l_id ?h \<in> set (ep_leases ?ep)"
    using old(3) l False by (auto simp: leases_ok_def)
  have at: "ep_leases (epochs ?s1 ! j) = (if j = ?e then ?ls else ep_leases (epochs s ! j))"
    "ep_nextLease (epochs ?s1 ! j) = ep_nextLease (epochs s ! j)"
    "ep_workspace (epochs ?s1 ! j) = ep_workspace (epochs s ! j)" "ep_blocked (epochs ?s1 ! j) = ep_blocked (epochs s ! j)" for j
    using e(1) by (simp_all add: epoch_at)
  have eq: "epochs ?s3 = epochs ?s1" "states ?s3 = states s" "retiredStates ?s3 = retiredStates s" "deletions ?s3 = deletions s"
    "deletion_log ?s3 = deletion_log s" "leases ?s3 = (leases s)[l := ?h\<lparr>l_released := True\<rparr>]"
    by simp_all
  have "epochs_ok ?s1" by (rule leases_change_epochs [OF old(1) e(1)]) (use e(2) in auto)
  then have "epochs_ok ?s3" unfolding epochs_ok_def eq set_epoch_simps .
  moreover have "generations_ok ?s1" unfolding generations_leases [OF e(1)] by (rule old(2))
  then have "generations_ok ?s3" unfolding generations_ok_def eq set_epoch_simps .
  moreover have "leases_ok ?s3"
    unfolding leases_ok_def eq set_epoch_simps length_list_update
  proof (intro conjI allI impI ballI)
    fix k assume k: "k < length (leases s)"
    let ?k = "(leases s)[l := ?h\<lparr>l_released := True\<rparr>] ! k"
    have kk: "l_epoch ?k = l_epoch (leases s ! k)" "l_id ?k = l_id (leases s ! k)" "l_released ?k = (k = l \<or> l_released (leases s ! k))"
      using k l by (auto simp: nth_list_update)
    show "l_epoch ?k < length (epochs s)" "l_id ?k < ep_nextLease (epochs ?s1 ! l_epoch ?k)"
      unfolding kk at using old(3) k by (simp_all add: leases_ok_def)
    have same: "k = l" if "l_epoch (leases s ! k) = ?e" "l_id (leases s ! k) = l_id ?h"
      using old(3) k l that unfolding leases_ok_def by (metis linorder_neqE_nat)
    have "l_released (leases s ! k) = (l_id (leases s ! k) \<notin> set (ep_leases (epochs s ! l_epoch (leases s ! k))))"
      using old(3) k by (simp add: leases_ok_def)
    then show "l_released ?k = (l_id ?k \<notin> set (ep_leases (epochs ?s1 ! l_epoch ?k)))"
      unfolding kk at using same by auto
  next
    fix k k' assume k: "k < k'" "k' < length (leases s)"
    then have "l_epoch (leases s ! k) \<noteq> l_epoch (leases s ! k') \<or> l_id (leases s ! k) \<noteq> l_id (leases s ! k')"
      using old(3) by (simp add: leases_ok_def)
    with k l show "l_epoch ((leases s)[l := ?h\<lparr>l_released := True\<rparr>] ! k) \<noteq> l_epoch ((leases s)[l := ?h\<lparr>l_released := True\<rparr>] ! k')
      \<or> l_id ((leases s)[l := ?h\<lparr>l_released := True\<rparr>] ! k) \<noteq> l_id ((leases s)[l := ?h\<lparr>l_released := True\<rparr>] ! k')"
      by (auto simp: nth_list_update)
  next
    fix j i assume j: "j < length (epochs s)" "i \<in> set (ep_leases (epochs ?s1 ! j))"
    then have "i \<in> set (ep_leases (epochs s ! j))" unfolding at by (auto split: if_splits)
    with old(3) j(1) obtain k where "k < length (leases s)" "l_epoch (leases s ! k) = j" "l_id (leases s ! k) = i"
      unfolding leases_ok_def by blast
    then show "\<exists>k<length (leases s). l_epoch ((leases s)[l := ?h\<lparr>l_released := True\<rparr>] ! k) = j
        \<and> l_id ((leases s)[l := ?h\<lparr>l_released := True\<rparr>] ! k) = i"
      by (intro exI [of _ k]) (use l in \<open>auto simp: nth_list_update\<close>)
  qed
  moreover have dr: "drains ?s3 ! d = (if ?ls \<noteq> [] then drains s ! d else filter (\<lambda>e'. e' \<noteq> ?e) (drains s ! d))"
    if "d < length (drains s)" for d
    using that by (simp add: resolveDrain_def epoch_at e(1))
  have "drains_ok ?s3"
    unfolding drains_ok_def eq set_epoch_simps
  proof (intro ballI)
    fix ds j assume "ds \<in> set (drains ?s3)" and j: "j \<in> set ds"
    then obtain d where d: "d < length (drains s)" "ds = drains ?s3 ! d" by (auto simp: in_set_conv_nth)
    with j dr [OF d(1)] have "j \<in> set (drains s ! d)" "j = ?e \<longrightarrow> ?ls \<noteq> []" by (auto split: if_splits)
    with old(4) d(1) show "j < length (epochs s) \<and> ep_leases (epochs ?s1 ! j) \<noteq> []"
      unfolding drains_ok_def at by auto
  qed
  moreover have "deletions_ok ?s3"
    unfolding deletions_ok_def eq set_epoch_simps at
  proof (intro conjI allI impI)
    fix d assume "d < length (deletion_log s)"
    with old(5) show "dl_drain (deletion_log s ! d) < length (drains ?s3)" by (simp add: deletions_ok_def)
  next
    fix ws d assume d: "deletions s ws = Some d"
    with old(5) show l: "d < length (deletion_log s)" and "dl_workspace (deletion_log s ! d) = ws"
      and "\<exists>e. states s ws = Some e \<and> ep_blocked (epochs s ! e)"
      unfolding deletions_ok_def by blast+
    fix j assume j: "j < length (epochs s)" "ep_workspace (epochs s ! j) = ws"
      "(if j = ?e then ?ls else ep_leases (epochs s ! j)) \<noteq> []"
    then have "ep_leases (epochs s ! j) \<noteq> []" by (auto split: if_splits)
    with old(5) d j(1,2) have "j \<in> set (drains s ! dl_drain (deletion_log s ! d))" unfolding deletions_ok_def by blast
    moreover have "dl_drain (deletion_log s ! d) < length (drains s)" using old(5) l by (simp add: deletions_ok_def)
    ultimately show "j \<in> set (drains ?s3 ! dl_drain (deletion_log s ! d))"
      unfolding dr [OF \<open>dl_drain (deletion_log s ! d) < length (drains s)\<close>] using j(3) by (auto split: if_splits)
  qed
  ultimately have "coordinator_ok ?s3" by (simp only: coordinator_ok_def simp_thms)
  from drop_retired_ok [OF this] show ?thesis using False by (simp add: release_def Let_def)
qed

lemma beginDeletion_ok:
  assumes ok: "coordinator_ok s" and b: "beginDeletion ws s = (s', owner, d)"
  shows "coordinator_ok s'" "deletions s' ws = Some d" "deletions s ws = None \<longleftrightarrow> owner"
proof -
  have "coordinator_ok s' \<and> deletions s' ws = Some d \<and> (deletions s ws = None \<longleftrightarrow> owner)"
  proof (cases "deletions s ws")
    case (Some d')
    with b ok show ?thesis by (simp add: beginDeletion_def)
  next
    case None
    obtain s1 dr where s1: "workspaceDrain ws (block ws s) = (s1, dr)" by fastforce
    note bl = block_ok [OF ok, of ws]
    note w = workspaceDrain_ok [OF bl(1) s1]
    let ?dl = "\<lparr>dl_workspace = ws, dl_drain = dr, dl_finished = False, dl_completed = False\<rparr>"
    let ?s2 = "s1\<lparr>deletion_log := deletion_log s1 @ [?dl], deletions := (deletions s1)(ws := Some (length (deletion_log s1)))\<rparr>"
    have s': "s' = ?s2" "owner" "d = length (deletion_log s1)"
      using b None s1 by (auto simp: beginDeletion_def blockAndDrain_def Let_def)
    note old = ok_parts [OF w(1)]
    have "epochs_ok ?s2 = epochs_ok s1" "generations_ok ?s2 = generations_ok s1" "leases_ok ?s2 = leases_ok s1"
      "drains_ok ?s2 = drains_ok s1"
      by (simp_all add: epochs_ok_def generations_ok_def leases_ok_def drains_ok_def)
    moreover have "deletions_ok ?s2"
      unfolding deletions_ok_def
    proof (intro conjI allI impI)
      fix k assume "k < length (deletion_log ?s2)"
      with old(5) w(6) show "dl_drain (deletion_log ?s2 ! k) < length (drains ?s2)"
        by (auto simp: deletions_ok_def nth_append less_Suc_eq)
    next
      fix v k assume k: "deletions ?s2 v = Some k"
      have "v = ws \<and> k = length (deletion_log s1) \<or> v \<noteq> ws \<and> deletions s1 v = Some k" using k by (auto split: if_splits)
      moreover have "k < length (deletion_log s1) \<and> dl_workspace (deletion_log s1 ! k) = v
          \<and> (\<exists>e. states s1 v = Some e \<and> ep_blocked (epochs s1 ! e))" if "deletions s1 v = Some k"
        using old(5) that unfolding deletions_ok_def by blast
      ultimately show "k < length (deletion_log ?s2)" "dl_workspace (deletion_log ?s2 ! k) = v"
        "\<exists>e. states ?s2 v = Some e \<and> ep_blocked (epochs ?s2 ! e)"
        using bl(2) w(2,3) by (auto simp: nth_append)
      fix e assume e: "e < length (epochs ?s2)" "ep_workspace (epochs ?s2 ! e) = v" "ep_leases (epochs ?s2 ! e) \<noteq> []"
      show "e \<in> set (drains ?s2 ! dl_drain (deletion_log ?s2 ! k))"
      proof (cases "v = ws")
        case True
        with k w(7) [of e] w(2) e show ?thesis by (simp add: nth_append)
      next
        case False
        with k have k1: "deletions s1 v = Some k" by simp
        with old(5) have "k < length (deletion_log s1)" unfolding deletions_ok_def by blast
        with old(5) k1 e show ?thesis unfolding deletions_ok_def by (simp add: nth_append)
      qed
    qed
    ultimately show ?thesis using old s' None by (simp add: coordinator_ok_def)
  qed
  then show "coordinator_ok s'" "deletions s' ws = Some d" "deletions s ws = None \<longleftrightarrow> owner" by simp_all
qed

lemma deletion_log_parts:
  assumes "epochs s' = epochs s" "states s' = states s" "retiredStates s' = retiredStates s" "leases s' = leases s"
    "drains s' = drains s"
  shows "epochs_ok s' = epochs_ok s" "generations_ok s' = generations_ok s" "leases_ok s' = leases_ok s"
    "drains_ok s' = drains_ok s"
  by (simp_all only: epochs_ok_def generations_ok_def leases_ok_def drains_ok_def assms)

lemma set_deletion_simps [simp]:
  "epochs (set_deletion d dl s) = epochs s" "states (set_deletion d dl s) = states s"
  "retiredStates (set_deletion d dl s) = retiredStates s" "leases (set_deletion d dl s) = leases s"
  "drains (set_deletion d dl s) = drains s" "deletions (set_deletion d dl s) = deletions s"
  "length (deletion_log (set_deletion d dl s)) = length (deletion_log s)"
  by (simp_all add: set_deletion_def)

text \<open>A deletion keeps its workspace and its drain; its registration may be dropped.\<close>

lemma deletion_settled_ok:
  assumes ok: "coordinator_ok s" and d: "d < length (deletion_log s)"
    and dl: "dl_workspace dl = dl_workspace (deletion_log s ! d)" "dl_drain dl = dl_drain (deletion_log s ! d)"
  shows "coordinator_ok (set_deletion d dl s)"
    and "coordinator_ok (set_deletion d dl (s\<lparr>deletions := (deletions s)(ws := None)\<rparr>))"
proof -
  have at: "dl_workspace (deletion_log (set_deletion d dl v) ! j) = dl_workspace (deletion_log s ! j)"
    "dl_drain (deletion_log (set_deletion d dl v) ! j) = dl_drain (deletion_log s ! j)"
    if "deletion_log v = deletion_log s" for j and v :: coordinator
    using that d dl by (cases "j = d"; simp add: set_deletion_def)+
  note old = ok_parts [OF ok]
  have *: "coordinator_ok (set_deletion d dl v)"
    if v: "epochs v = epochs s" "states v = states s" "retiredStates v = retiredStates s" "leases v = leases s"
      "drains v = drains s" "deletion_log v = deletion_log s" "\<And>w k. deletions v w = Some k \<Longrightarrow> deletions s w = Some k"
    for v :: coordinator
  proof -
    have "deletions_ok (set_deletion d dl v)"
      unfolding deletions_ok_def set_deletion_simps v(1-6) at [OF v(6)]
    proof (intro conjI allI impI)
      show "dl_drain (deletion_log s ! k) < length (drains s)" if "k < length (deletion_log s)" for k
        using old(5) that by (simp add: deletions_ok_def)
    next
      fix w k assume "deletions v w = Some k"
      then have k: "deletions s w = Some k" by (rule v(7))
      with old(5) show "k < length (deletion_log s)" "dl_workspace (deletion_log s ! k) = w"
        "\<exists>e. states s w = Some e \<and> ep_blocked (epochs s ! e)"
        unfolding deletions_ok_def by blast+
      fix e assume "e < length (epochs s)" "ep_workspace (epochs s ! e) = w" "ep_leases (epochs s ! e) \<noteq> []"
      with old(5) k show "e \<in> set (drains s ! dl_drain (deletion_log s ! k))" unfolding deletions_ok_def by blast
    qed
    moreover have "epochs_ok (set_deletion d dl v)" "generations_ok (set_deletion d dl v)"
      "leases_ok (set_deletion d dl v)" "drains_ok (set_deletion d dl v)"
      using old deletion_log_parts [of "set_deletion d dl v" s] v by simp_all
    ultimately show ?thesis by (simp add: coordinator_ok_def)
  qed
  show "coordinator_ok (set_deletion d dl s)" by (rule *) simp_all
  show "coordinator_ok (set_deletion d dl (s\<lparr>deletions := (deletions s)(ws := None)\<rparr>))"
    by (rule *) (auto split: if_splits)
qed

lemma new_coordinator_ok: "coordinator_ok new_coordinator"
  by (simp add: coordinator_ok_def new_coordinator_def epochs_ok_def generations_ok_def leases_ok_def drains_ok_def deletions_ok_def)

lemma coordinator_step_ok:
  assumes "coordinator_step s s'" "coordinator_ok s"
  shows "coordinator_ok s'"
  using assms
proof (cases rule: coordinator_step.cases)
  case (activate ws g)
  with assms(2) activate_ok show ?thesis by blast
next
  case (observe ws g e)
  obtain s1 e1 where s1: "seeded ws g s = (s1, e1)" by fastforce
  with observe have "s' = s1" by (auto simp: observe_def split: if_splits)
  with seeded_ok(1) [OF assms(2) s1] show ?thesis by simp
next
  case (acquire ws g l)
  with assms(2) acquire_ok show ?thesis by blast
next
  case (release l)
  with assms(2) release_ok show ?thesis by blast
next
  case (block ws)
  with assms(2) block_ok(1) show ?thesis by blast
next
  case (blockAndDrain ws d)
  then show ?thesis using workspaceDrain_ok(1) [OF block_ok(1) [OF assms(2)]] by (simp add: blockAndDrain_def)
next
  case (beginDeletion ws owner d)
  with assms(2) beginDeletion_ok(1) show ?thesis by blast
next
  case (finish d owner)
  then show ?thesis using deletion_settled_ok(1) [OF assms(2) finish(2)] assms(2) by (auto simp: finish_def)
next
  case (complete d)
  then show ?thesis using deletion_settled_ok [OF assms(2) complete(2), of "(deletion_log s ! d)\<lparr>dl_completed := True\<rparr>"]
    by (auto simp: complete_deletion_def Let_def)
qed

interpretation coordinator: step_system "\<lambda>s. s = new_coordinator" coordinator_step coordinator_ok
  by unfold_locales (auto intro: new_coordinator_ok coordinator_step_ok)

definition coordinator_reachable :: "coordinator \<Rightarrow> bool" where
  "coordinator_reachable s \<longleftrightarrow> coordinator_step\<^sup>*\<^sup>* new_coordinator s"

lemma coordinator_reachable_ok: "coordinator_reachable s \<Longrightarrow> coordinator_ok s"
  unfolding coordinator_reachable_def using coordinator.reachable_inv by blast

section \<open>What the barrier guarantees\<close>

definition live_lease :: "string \<Rightarrow> nat \<Rightarrow> coordinator \<Rightarrow> bool" where
  "live_lease ws l s \<longleftrightarrow> l < length (leases s) \<and> \<not> l_released (leases s ! l) \<and> ep_workspace (epochs s ! l_epoch (leases s ! l)) = ws"

lemma live_lease_epoch:
  assumes "coordinator_ok s" "live_lease ws l s"
  shows "l_epoch (leases s ! l) < length (epochs s)" "ep_leases (epochs s ! l_epoch (leases s ! l)) \<noteq> []"
  using ok_parts(3) [OF assms(1)] assms(2) by (auto simp: leases_ok_def live_lease_def)

text \<open>Once the drain of a registered deletion is resolved, no lease is left and none can be acquired.\<close>

lemma drained_deletion_exclusive:
  assumes ok: "coordinator_ok s" and d: "deletions s ws = Some d"
    and dr: "drain_resolved (dl_drain (deletion_log s ! d)) s"
  shows "\<not> live_lease ws l s" and "acquire ws g s = Inl (Revoked ws g)"
proof -
  note old = ok_parts(5) [OF ok]
  show "\<not> live_lease ws l s"
  proof
    assume l: "live_lease ws l s"
    have "l_epoch (leases s ! l) \<in> set (drains s ! dl_drain (deletion_log s ! d))"
      using old d l live_lease_epoch [OF ok l] unfolding deletions_ok_def live_lease_def by blast
    with dr show False by (simp add: drain_resolved_def)
  qed
  obtain e where "states s ws = Some e" "ep_blocked (epochs s ! e)"
    using old d unfolding deletions_ok_def by blast
  then show "acquire ws g s = Inl (Revoked ws g)" by (simp add: acquire_def seeded_def Let_def)
qed

text \<open>A drain waits for nothing but leases: when those of the workspace are released it is resolved.\<close>

lemma deletion_drain_resolves:
  assumes ok: "coordinator_ok s" and d: "d < length (drains s)"
    and none: "\<And>l. l < length (leases s) \<Longrightarrow> l_epoch (leases s ! l) \<in> set (drains s ! d) \<Longrightarrow> l_released (leases s ! l)"
  shows "drain_resolved d s"
proof (rule ccontr)
  assume "\<not> drain_resolved d s"
  then obtain e where e: "e \<in> set (drains s ! d)" unfolding drain_resolved_def by (metis list.set_intros(1) neq_Nil_conv)
  with ok_parts(4) [OF ok] d have l: "e < length (epochs s)" "ep_leases (epochs s ! e) \<noteq> []"
    by (auto simp: drains_ok_def)
  then obtain i where i: "i \<in> set (ep_leases (epochs s ! e))" by (metis list.set_intros(1) neq_Nil_conv)
  with ok_parts(3) [OF ok] l(1) obtain k where k: "k < length (leases s)" "l_epoch (leases s ! k) = e" "l_id (leases s ! k) = i"
    unfolding leases_ok_def by blast
  with ok_parts(3) [OF ok] i have "\<not> l_released (leases s ! k)" by (auto simp: leases_ok_def)
  with none [OF k(1)] k(2) e show False by simp
qed

text \<open>A live lease of a revoked generation has an aborted signal.\<close>

lemma stale_lease_aborted:
  assumes ok: "coordinator_ok s" and l: "live_lease ws l s"
    and stale: "states s ws \<noteq> Some (l_epoch (leases s ! l)) \<or> ep_blocked (epochs s ! l_epoch (leases s ! l))"
  shows "lease_aborted l caller s"
  using epoch_revoked [OF ok_parts(1) [OF ok] live_lease_epoch(1) [OF ok l]] l stale
  by (simp add: lease_aborted_def live_lease_def)

lemma acquired_lease_current:
  assumes ok: "coordinator_ok s" and a: "acquire ws g s = Inr (s', l)"
  shows "live_lease ws l s' \<and> states s' ws = Some (l_epoch (leases s' ! l))
    \<and> ep_generation (epochs s' ! l_epoch (leases s' ! l)) = g \<and> \<not> ep_blocked (epochs s' ! l_epoch (leases s' ! l))"
proof -
  obtain s1 e where s1: "seeded ws g s = (s1, e)" by fastforce
  note sd = seeded_ok [OF ok s1]
  from a sd(2-5) show ?thesis
    by (auto simp: acquire_def s1 Let_def live_lease_def nth_append epoch_at split: if_splits)
qed

end
