(* ===== verification/KeyedFifo.thy ===== *)
theory KeyedFifo
  imports Prelude
begin

text \<open>
  Promise chains that serialise the tasks of one key: \<open>KeyedFifo\<close> (\<open>src/src/routes/fifo-lock.ts\<close>) and
  \<open>runLifecycle\<close> of the workspace coordinator (\<open>src/src/clockify/workspace-mutation-coordinator.ts\<close>).
  A call stores the tail it found and puts its own there; its tail is resolved when the one it found is,
  and its gate is open. The microtasks that settle a promise whose condition holds are not steps of
  their own. The two classes keep separate chains; \<open>chain_step\<close> has the steps of both, so what it keeps holds for each.
\<close>

section \<open>Calls and tails\<close>

datatype call_phase = Waiting | Running | Released

record chain_call =
  cc_key :: string
  cc_pred :: "nat option"
  cc_phase :: call_phase
  cc_sequence :: "int option"

record chain =
  tails :: "string \<Rightarrow> nat option"
  chain_calls :: "chain_call list"
  latest :: "string \<Rightarrow> int"
  executed :: "(nat \<times> string \<times> int option) list"

text \<open>\<open>executed\<close> records the operations that ran, with their key and sequence; the code does not read it.\<close>

definition new_chain :: chain where
  "new_chain = \<lparr>tails = (\<lambda>k. None), chain_calls = [], latest = (\<lambda>k. 0), executed = []\<rparr>"

definition call_at :: "chain \<Rightarrow> nat \<Rightarrow> chain_call" where
  "call_at s i = chain_calls s ! i"

text \<open>A predecessor is an earlier call, so the walk along the chain ends.\<close>

function tail_resolved :: "chain \<Rightarrow> nat \<Rightarrow> bool" where
  "tail_resolved s i =
     (cc_phase (call_at s i) = Released
      \<and> (case cc_pred (call_at s i) of None \<Rightarrow> True | Some p \<Rightarrow> if p < i then tail_resolved s p else False))"
  by auto
termination by (relation "measure snd") auto

declare tail_resolved.simps [simp del]

definition enqueue :: "string \<Rightarrow> int option \<Rightarrow> chain \<Rightarrow> chain" where
  "enqueue k q s = s\<lparr>chain_calls := chain_calls s @ [\<lparr>cc_key = k, cc_pred = tails s k, cc_phase = Waiting, cc_sequence = q\<rparr>],
     tails := (tails s)(k := Some (length (chain_calls s)))\<rparr>"

definition set_phase :: "nat \<Rightarrow> call_phase \<Rightarrow> chain \<Rightarrow> chain" where
  "set_phase i p s = s\<lparr>chain_calls := (chain_calls s)[i := (call_at s i)\<lparr>cc_phase := p\<rparr>]\<rparr>"

definition may_start :: "chain \<Rightarrow> nat \<Rightarrow> bool" where
  "may_start s i \<longleftrightarrow> i < length (chain_calls s) \<and> cc_phase (call_at s i) = Waiting
     \<and> (case cc_pred (call_at s i) of None \<Rightarrow> True | Some p \<Rightarrow> tail_resolved s p)"

text \<open>A superseded lifecycle request answers with its stale response; its place in the chain is the same.\<close>

definition start :: "nat \<Rightarrow> chain \<Rightarrow> chain" where
  "start i s =
     (let c = call_at s i; k = cc_key c; s' = set_phase i Running s in
      case cc_sequence c of
        None \<Rightarrow> s'\<lparr>executed := executed s @ [(i, k, None)]\<rparr>
      | Some q \<Rightarrow>
          if q < latest s k then s'
          else s'\<lparr>latest := (latest s)(k := q), executed := executed s @ [(i, k, Some q)]\<rparr>)"

definition forget :: "nat \<Rightarrow> chain \<Rightarrow> chain" where
  "forget i s = (let k = cc_key (call_at s i) in
     if tails s k = Some i then s\<lparr>tails := (tails s)(k := None)\<rparr> else s)"

text \<open>\<open>KeyedFifo.run\<close>: the task settles, the gate opens, and the tail goes if it is still this one.\<close>

definition fifo_finish :: "nat \<Rightarrow> chain \<Rightarrow> chain" where
  "fifo_finish i s = forget i (set_phase i Released s)"

text \<open>\<open>runLifecycle\<close>: the tail goes later, when it is resolved.\<close>

definition lifecycle_finish :: "nat \<Rightarrow> chain \<Rightarrow> chain" where
  "lifecycle_finish i s = set_phase i Released s"

fun runLifecycle :: "string \<Rightarrow> js_number option \<Rightarrow> chain \<Rightarrow> (string, chain) result" where
  "runLifecycle k None s = Inr (enqueue k None s)"
| "runLifecycle k (Some Other_number) s = Inl ''invalid_lifecycle_request_sequence''"
| "runLifecycle k (Some (Safe_integer q)) s =
     (if q < 1 then Inl ''invalid_lifecycle_request_sequence'' else Inr (enqueue k (Some q) s))"

inductive chain_step :: "chain \<Rightarrow> chain \<Rightarrow> bool" where
  fifo_run: "chain_step s (enqueue k None s)"
| lifecycle_run: "runLifecycle k q s = Inr s' \<Longrightarrow> chain_step s s'"
| starts: "may_start s i \<Longrightarrow> chain_step s (start i s)"
| fifo_settles: "i < length (chain_calls s) \<Longrightarrow> cc_phase (call_at s i) = Running \<Longrightarrow> chain_step s (fifo_finish i s)"
| lifecycle_settles: "i < length (chain_calls s) \<Longrightarrow> cc_phase (call_at s i) = Running \<Longrightarrow> chain_step s (lifecycle_finish i s)"
| forgets: "i < length (chain_calls s) \<Longrightarrow> tail_resolved s i \<Longrightarrow> chain_step s (forget i s)"

section \<open>Invariant\<close>

definition settled_before :: "chain \<Rightarrow> string \<Rightarrow> nat \<Rightarrow> bool" where
  "settled_before s k n \<longleftrightarrow> (\<forall>j<n. j < length (chain_calls s) \<longrightarrow> cc_key (call_at s j) = k \<longrightarrow> cc_phase (call_at s j) = Released)"

definition call_ok :: "chain \<Rightarrow> nat \<Rightarrow> bool" where
  "call_ok s i \<longleftrightarrow>
     (case cc_pred (call_at s i) of
        None \<Rightarrow> settled_before s (cc_key (call_at s i)) i
      | Some p \<Rightarrow> p < i \<and> cc_key (call_at s p) = cc_key (call_at s i)
          \<and> (\<forall>j. p < j \<longrightarrow> j < i \<longrightarrow> cc_key (call_at s j) \<noteq> cc_key (call_at s i)))
     \<and> (cc_phase (call_at s i) \<noteq> Waiting \<longrightarrow> settled_before s (cc_key (call_at s i)) i)"

definition tail_ok :: "chain \<Rightarrow> string \<Rightarrow> bool" where
  "tail_ok s k \<longleftrightarrow>
     (case tails s k of
        None \<Rightarrow> settled_before s k (length (chain_calls s))
      | Some i \<Rightarrow> i < length (chain_calls s) \<and> cc_key (call_at s i) = k
          \<and> (\<forall>j. i < j \<longrightarrow> j < length (chain_calls s) \<longrightarrow> cc_key (call_at s j) \<noteq> k))"

text \<open>A resolved tail means that every call of its key up to it has been released.\<close>

lemma tail_resolved_settled:
  assumes ok: "\<forall>i<length (chain_calls s). call_ok s i"
  shows "i < length (chain_calls s) \<Longrightarrow>
    tail_resolved s i \<longleftrightarrow> settled_before s (cc_key (call_at s i)) (Suc i)"
proof (induction i rule: less_induct)
  case (less i)
  have c: "call_ok s i" using ok less.prems by simp
  show ?case
  proof (cases "cc_pred (call_at s i)")
    case None
    with c show ?thesis using less.prems
      by (auto simp: tail_resolved.simps [of s i] call_ok_def settled_before_def less_Suc_eq)
  next
    case (Some p)
    with c have p: "p < i" "cc_key (call_at s p) = cc_key (call_at s i)"
      "\<And>j. p < j \<Longrightarrow> j < i \<Longrightarrow> cc_key (call_at s j) \<noteq> cc_key (call_at s i)"
      by (auto simp: call_ok_def)
    have "tail_resolved s p \<longleftrightarrow> settled_before s (cc_key (call_at s i)) (Suc p)"
      using less.IH [OF p(1)] p(1,2) less.prems by simp
    moreover have "settled_before s (cc_key (call_at s i)) (Suc p) \<longleftrightarrow> settled_before s (cc_key (call_at s i)) i"
      using p(1,3) unfolding settled_before_def by (metis less_Suc_eq less_trans linorder_neqE_nat)
    ultimately show ?thesis using p(1) less.prems
      by (auto simp: tail_resolved.simps [of s i] Some settled_before_def less_Suc_eq)
  qed
qed

lemma call_at_set_phase:
  "i < length (chain_calls s) \<Longrightarrow> call_at (set_phase i p s) j = (if j = i then (call_at s i)\<lparr>cc_phase := p\<rparr> else call_at s j)"
  by (simp add: set_phase_def call_at_def nth_list_update)

lemma set_phase_simps [simp]:
  "length (chain_calls (set_phase i p s)) = length (chain_calls s)" "tails (set_phase i p s) = tails s"
  "latest (set_phase i p s) = latest s" "executed (set_phase i p s) = executed s"
  by (simp_all add: set_phase_def)

lemma set_phase_same_call:
  assumes "i < length (chain_calls s)"
  shows "cc_key (call_at (set_phase i p s) j) = cc_key (call_at s j)"
    "cc_pred (call_at (set_phase i p s) j) = cc_pred (call_at s j)"
    "cc_phase (call_at (set_phase i p s) j) = (if j = i then p else cc_phase (call_at s j))"
  using assms by (simp_all add: call_at_set_phase)

text \<open>A call that has not been released is in no settled range, so moving it on keeps them.\<close>

lemma settled_before_set_phase:
  "i < length (chain_calls s) \<Longrightarrow> cc_phase (call_at s i) \<noteq> Released \<Longrightarrow> settled_before s k n
    \<Longrightarrow> settled_before (set_phase i p s) k n"
  by (auto simp: settled_before_def set_phase_same_call)

text \<open>What the calls and tails promise, without the log.\<close>

definition calls_ok :: "chain \<Rightarrow> bool" where
  "calls_ok s \<longleftrightarrow> (\<forall>i<length (chain_calls s). call_ok s i) \<and> (\<forall>k. tail_ok s k)"

lemma calls_ok_parts:
  assumes "calls_ok s"
  shows "i < length (chain_calls s) \<Longrightarrow> call_ok s i" "tail_ok s k"
  using assms by (auto simp: calls_ok_def)

lemma set_phase_ok:
  assumes ok: "calls_ok s" and i: "i < length (chain_calls s)" and ph: "cc_phase (call_at s i) \<noteq> Released"
    and sb: "settled_before s (cc_key (call_at s i)) i"
  shows "calls_ok (set_phase i p s)"
proof -
  note keep = settled_before_set_phase [OF i ph, where p = p]
  have "call_ok (set_phase i p s) j" if j: "j < length (chain_calls s)" for j
    using calls_ok_parts(1) [OF ok j] sb unfolding call_ok_def set_phase_same_call [OF i]
    by (auto intro: keep split: option.splits if_splits)
  moreover have "tail_ok (set_phase i p s) k" for k
    using calls_ok_parts(2) [OF ok, of k] unfolding tail_ok_def set_phase_same_call [OF i] set_phase_simps
    by (auto intro: keep split: option.splits)
  ultimately show ?thesis by (simp add: calls_ok_def)
qed

lemma may_start_settled:
  assumes ok: "calls_ok s" and m: "may_start s i"
  shows "i < length (chain_calls s)" "cc_phase (call_at s i) = Waiting" "settled_before s (cc_key (call_at s i)) i"
proof -
  show i: "i < length (chain_calls s)" and "cc_phase (call_at s i) = Waiting" using m by (auto simp: may_start_def)
  have c: "call_ok s i" by (rule calls_ok_parts(1) [OF ok i])
  show "settled_before s (cc_key (call_at s i)) i"
  proof (cases "cc_pred (call_at s i)")
    case None
    with c show ?thesis by (simp add: call_ok_def)
  next
    case (Some p)
    with c have p: "p < i" "cc_key (call_at s p) = cc_key (call_at s i)"
      "\<And>j. p < j \<Longrightarrow> j < i \<Longrightarrow> cc_key (call_at s j) \<noteq> cc_key (call_at s i)"
      by (auto simp: call_ok_def)
    have "settled_before s (cc_key (call_at s i)) (Suc p)"
      using tail_resolved_settled [of s p] ok p(1,2) i m Some by (auto simp: may_start_def calls_ok_def)
    with p(3) show ?thesis unfolding settled_before_def by (metis less_Suc_eq linorder_neqE_nat)
  qed
qed

lemma set_tails_simps [simp]:
  "call_at (s\<lparr>tails := t\<rparr>) j = call_at s j" "settled_before (s\<lparr>tails := t\<rparr>) k n = settled_before s k n"
  by (simp_all add: call_at_def settled_before_def)

lemma forget_ok:
  assumes ok: "calls_ok s" and r: "settled_before s (cc_key (call_at s i)) (Suc i)"
  shows "calls_ok (forget i s)"
proof (cases "tails s (cc_key (call_at s i)) = Some i")
  case True
  let ?k = "cc_key (call_at s i)"
  have t: "i < length (chain_calls s)" "\<And>j. i < j \<Longrightarrow> j < length (chain_calls s) \<Longrightarrow> cc_key (call_at s j) \<noteq> ?k"
    using calls_ok_parts(2) [OF ok, of ?k] True by (auto simp: tail_ok_def)
  have eq: "forget i s = s\<lparr>tails := (tails s)(?k := None)\<rparr>" using True by (simp add: forget_def)
  have "settled_before s ?k (length (chain_calls s))"
    using r t(2) unfolding settled_before_def by (metis less_Suc_eq linorder_neqE_nat)
  moreover have "call_ok (s\<lparr>tails := (tails s)(?k := None)\<rparr>) j = call_ok s j" for j
    by (simp only: call_ok_def set_tails_simps)
  moreover have "tail_ok (s\<lparr>tails := (tails s)(?k := None)\<rparr>) k' =
      (if k' = ?k then settled_before s k' (length (chain_calls s)) else tail_ok s k')" for k'
    by (simp add: tail_ok_def cong: option.case_cong)
  ultimately show ?thesis using ok by (simp add: eq calls_ok_def)
qed (use ok in \<open>simp add: forget_def Let_def\<close>)

lemma enqueue_ok:
  assumes ok: "calls_ok s"
  shows "calls_ok (enqueue k q s)"
proof -
  let ?s = "enqueue k q s" and ?n = "length (chain_calls s)"
  have at: "call_at ?s j = call_at s j" if "j < ?n" for j
    using that by (simp add: enqueue_def call_at_def nth_append)
  have new: "cc_key (call_at ?s ?n) = k" "cc_pred (call_at ?s ?n) = tails s k" "cc_phase (call_at ?s ?n) = Waiting"
    by (simp_all add: enqueue_def call_at_def)
  have len: "length (chain_calls ?s) = Suc ?n" by (simp add: enqueue_def)
  have sb: "settled_before ?s k' m \<longleftrightarrow> settled_before s k' m" if "m \<le> ?n" for k' m
    using that by (auto simp: settled_before_def len at)
  have "call_ok ?s i" if i: "i < Suc ?n" for i
  proof (cases "i < ?n")
    case True
    have same: "call_at ?s j = call_at s j" if "j \<le> i" for j using that True by (simp add: at)
    have c: "call_ok s i" by (rule calls_ok_parts(1) [OF ok True])
    show ?thesis
    proof (cases "cc_pred (call_at s i)")
      case None
      with c show ?thesis using True by (simp add: call_ok_def same sb)
    next
      case (Some p)
      with c have p: "p < i" by (simp add: call_ok_def)
      with c Some show ?thesis using True by (simp add: call_ok_def same sb)
    qed
  next
    case False
    with i have [simp]: "i = ?n" by simp
    have t: "tail_ok s k" by (rule calls_ok_parts(2) [OF ok])
    show ?thesis
    proof (cases "tails s k")
      case None
      with t show ?thesis by (simp add: call_ok_def new tail_ok_def sb)
    next
      case (Some p)
      with t have "p < ?n" "cc_key (call_at s p) = k" "\<forall>j. p < j \<longrightarrow> j < ?n \<longrightarrow> cc_key (call_at s j) \<noteq> k"
        by (simp_all add: tail_ok_def)
      with Some at show ?thesis by (simp add: call_ok_def new)
    qed
  qed
  moreover have "tail_ok ?s k'" for k'
  proof (cases "k' = k")
    case True
    then have "tails ?s k' = Some ?n" by (simp add: enqueue_def)
    then show ?thesis using True new len by (simp add: tail_ok_def)
  next
    case False
    then have t: "tails ?s k' = tails s k'" by (simp add: enqueue_def)
    have "settled_before ?s k' (Suc ?n) \<longleftrightarrow> settled_before s k' ?n"
      using False at new(1) by (auto simp: settled_before_def len less_Suc_eq)
    then show ?thesis using calls_ok_parts(2) [OF ok, of k'] at new(1) False unfolding tail_ok_def t len
      by (auto split: option.splits simp: less_Suc_eq)
  qed
  ultimately show ?thesis by (simp add: calls_ok_def len)
qed

section \<open>The log of executions\<close>

definition executions :: "chain \<Rightarrow> string \<Rightarrow> nat list" where
  "executions s k = map fst (filter (\<lambda>e. fst (snd e) = k) (executed s))"

definition sequences :: "chain \<Rightarrow> string \<Rightarrow> int list" where
  "sequences s k = map (the \<circ> snd \<circ> snd) (filter (\<lambda>e. fst (snd e) = k \<and> snd (snd e) \<noteq> None) (executed s))"

definition log_ok :: "chain \<Rightarrow> bool" where
  "log_ok s \<longleftrightarrow>
     (\<forall>e\<in>set (executed s). fst e < length (chain_calls s) \<and> cc_key (call_at s (fst e)) = fst (snd e)
        \<and> cc_phase (call_at s (fst e)) \<noteq> Waiting)
     \<and> (\<forall>k. sorted_wrt (<) (executions s k))
     \<and> (\<forall>k. sorted (sequences s k) \<and> (\<forall>q\<in>set (sequences s k). q \<le> latest s k))"

definition chain_ok :: "chain \<Rightarrow> bool" where
  "chain_ok s \<longleftrightarrow> calls_ok s \<and> log_ok s"

text \<open>Steps that touch neither the log nor the key of a call, and do not send a call back to waiting.\<close>

lemma log_ok_grows:
  assumes ok: "log_ok s" and same: "executed s' = executed s" "latest s' = latest s"
    and len: "length (chain_calls s) \<le> length (chain_calls s')"
    and calls: "\<And>j. j < length (chain_calls s) \<Longrightarrow> cc_key (call_at s' j) = cc_key (call_at s j)
      \<and> (cc_phase (call_at s j) \<noteq> Waiting \<longrightarrow> cc_phase (call_at s' j) \<noteq> Waiting)"
  shows "log_ok s'"
proof -
  have "executions s' k = executions s k" "sequences s' k = sequences s k" for k
    by (simp_all only: executions_def sequences_def same)
  moreover have "fst e < length (chain_calls s') \<and> cc_key (call_at s' (fst e)) = fst (snd e)
      \<and> cc_phase (call_at s' (fst e)) \<noteq> Waiting" if "e \<in> set (executed s)" for e
    using ok that calls [of "fst e"] len by (auto simp: log_ok_def)
  ultimately show ?thesis using ok by (simp add: log_ok_def same)
qed

text \<open>A call that has started is later than every call of its key in the log.\<close>

lemma logged_before:
  assumes ok: "calls_ok s" "log_ok s" and w: "cc_phase (call_at s i) = Waiting"
    and i: "i < length (chain_calls s)" and j: "j \<in> set (executions s (cc_key (call_at s i)))"
  shows "j < i"
proof (rule ccontr)
  assume "\<not> j < i"
  have j': "j < length (chain_calls s)" "cc_key (call_at s j) = cc_key (call_at s i)" "cc_phase (call_at s j) \<noteq> Waiting"
    using ok(2) j by (auto simp: log_ok_def executions_def)
  then have "settled_before s (cc_key (call_at s i)) j"
    using calls_ok_parts(1) [OF ok(1) j'(1)] by (simp add: call_ok_def)
  moreover have "i < j" using \<open>\<not> j < i\<close> j'(3) w by (metis linorder_neqE_nat)
  ultimately have "cc_phase (call_at s i) = Released" using i by (simp add: settled_before_def)
  with w show False by simp
qed

lemma start_simps:
  "chain_calls (start i s) = chain_calls (set_phase i Running s)" "tails (start i s) = tails s"
  by (simp_all add: start_def Let_def split: option.splits)

lemma chain_update_simps [simp]:
  "call_at (s\<lparr>executed := es\<rparr>) j = call_at s j" "call_at (s\<lparr>latest := l\<rparr>) j = call_at s j"
  by (simp_all add: call_at_def)

lemma calls_ok_cong:
  assumes "chain_calls s' = chain_calls s" "tails s' = tails s"
  shows "calls_ok s' = calls_ok s"
proof -
  have at: "call_at s' j = call_at s j" for j using assms(1) by (simp add: call_at_def)
  show ?thesis
    by (simp only: calls_ok_def call_ok_def tail_ok_def settled_before_def at assms)
qed

lemma sorted_wrt_snoc: "sorted_wrt R (xs @ [x]) \<longleftrightarrow> sorted_wrt R xs \<and> (\<forall>y\<in>set xs. R y x)"
  by (induction xs) auto

text \<open>A further execution keeps the log in order when its call is the latest of its key.\<close>

lemma log_ok_snoc:
  assumes l: "log_ok s" and ex: "executed s' = executed s @ [(i, k, v)]" and calls: "chain_calls s' = chain_calls s"
    and i: "i < length (chain_calls s)" "cc_key (call_at s i) = k" "cc_phase (call_at s i) \<noteq> Waiting"
    and before: "\<forall>j\<in>set (executions s k). j < i"
    and lat: "\<And>k'. latest s k' \<le> latest s' k'" "\<And>q. v = Some q \<Longrightarrow> latest s k \<le> q \<and> q \<le> latest s' k"
  shows "log_ok s'"
proof -
  have at: "call_at s' j = call_at s j" for j by (simp add: call_at_def calls)
  have e: "executions s' k' = executions s k' @ (if k' = k then [i] else [])" for k'
    by (simp add: executions_def ex)
  have q: "sequences s' k' = sequences s k' @ (if k' = k \<and> v \<noteq> None then [the v] else [])" for k'
    by (simp add: sequences_def ex)
  have "sorted_wrt (<) (executions s' k')" for k'
    using l before by (simp add: e log_ok_def sorted_wrt_snoc)
  moreover have "sorted (sequences s' k') \<and> (\<forall>x\<in>set (sequences s' k'). x \<le> latest s' k')" for k'
  proof -
    have "sorted (sequences s k')" "\<forall>x\<in>set (sequences s k'). x \<le> latest s k'" using l by (simp_all add: log_ok_def)
    with lat(1) [of k'] lat(2) show ?thesis by (cases v) (auto simp: q sorted_append intro: order_trans)
  qed
  moreover have "\<forall>e\<in>set (executed s'). fst e < length (chain_calls s') \<and> cc_key (call_at s' (fst e)) = fst (snd e)
      \<and> cc_phase (call_at s' (fst e)) \<noteq> Waiting"
    using l i by (simp add: ex at calls log_ok_def)
  ultimately show ?thesis by (simp add: log_ok_def)
qed

lemma start_ok:
  assumes ok: "chain_ok s" and m: "may_start s i"
  shows "chain_ok (start i s)"
proof -
  have q: "calls_ok s" and l: "log_ok s" using ok by (simp_all add: chain_ok_def)
  note i = may_start_settled [OF q m]
  let ?k = "cc_key (call_at s i)" and ?s = "set_phase i Running s"
  have "calls_ok ?s" using set_phase_ok [OF q i(1) _ i(3)] i(2) by simp
  then have "calls_ok (start i s)" using calls_ok_cong [of "start i s" ?s] by (simp add: start_simps)
  moreover have l': "log_ok ?s"
    by (rule log_ok_grows [OF l]) (simp_all add: set_phase_same_call i(1))
  have before: "\<forall>j\<in>set (executions ?s ?k). j < i"
    using logged_before [OF q l i(2,1)] by (simp add: executions_def)
  have i': "i < length (chain_calls ?s)" "cc_key (call_at ?s i) = ?k" "cc_phase (call_at ?s i) \<noteq> Waiting"
    using i(1) by (simp_all add: set_phase_same_call)
  have "log_ok (start i s)"
  proof (cases "cc_sequence (call_at s i)")
    case None
    show ?thesis by (rule log_ok_snoc [OF l' _ _ i' before, where v = None]) (simp_all add: start_def None Let_def)
  next
    case (Some v)
    show ?thesis
    proof (cases "v < latest s ?k")
      case True
      with Some l' show ?thesis by (simp add: start_def)
    next
      case False
      show ?thesis
        by (rule log_ok_snoc [OF l' _ _ i' before, where v = "Some v"]) (use False in \<open>simp_all add: start_def Some Let_def\<close>)
    qed
  qed
  ultimately show ?thesis by (simp add: chain_ok_def)
qed

lemma settle_ok:
  assumes ok: "chain_ok s" and i: "i < length (chain_calls s)" "cc_phase (call_at s i) = Running"
  shows "chain_ok (set_phase i Released s)" "settled_before (set_phase i Released s) (cc_key (call_at s i)) (Suc i)"
proof -
  have q: "calls_ok s" and l: "log_ok s" using ok by (simp_all add: chain_ok_def)
  have sb: "settled_before s (cc_key (call_at s i)) i"
    using calls_ok_parts(1) [OF q i(1)] i(2) by (simp add: call_ok_def)
  have "calls_ok (set_phase i Released s)" using set_phase_ok [OF q i(1) _ sb] i(2) by simp
  moreover have "log_ok (set_phase i Released s)"
    by (rule log_ok_grows [OF l]) (simp_all add: set_phase_same_call i(1))
  ultimately show "chain_ok (set_phase i Released s)" by (simp add: chain_ok_def)
  show "settled_before (set_phase i Released s) (cc_key (call_at s i)) (Suc i)"
  proof -
    have "settled_before (set_phase i Released s) (cc_key (call_at s i)) i"
      by (rule settled_before_set_phase [OF i(1) _ sb]) (simp add: i(2))
    moreover have "cc_phase (call_at (set_phase i Released s) i) = Released" by (simp add: set_phase_same_call i(1))
    ultimately show ?thesis unfolding settled_before_def less_Suc_eq by blast
  qed
qed

lemma forget_chain_ok:
  assumes ok: "chain_ok s" and r: "settled_before s (cc_key (call_at s i)) (Suc i)"
  shows "chain_ok (forget i s)"
proof -
  have "log_ok (forget i s)"
    by (rule log_ok_grows [of s]) (use ok in \<open>simp_all add: chain_ok_def forget_def Let_def\<close>)
  then show ?thesis using forget_ok [OF _ r] ok by (simp add: chain_ok_def)
qed

lemma enqueue_chain_ok: "chain_ok s \<Longrightarrow> chain_ok (enqueue k q s)"
proof -
  assume ok: "chain_ok s"
  have "log_ok (enqueue k q s)"
    by (rule log_ok_grows [of s]) (use ok in \<open>simp_all add: chain_ok_def enqueue_def call_at_def nth_append\<close>)
  with ok enqueue_ok show ?thesis by (simp add: chain_ok_def)
qed

lemma runLifecycle_enqueues: "runLifecycle k q s = Inr s' \<Longrightarrow> \<exists>v. s' = enqueue k v s"
  by (cases "(k, q, s)" rule: runLifecycle.cases) (auto split: if_splits)

lemma chain_step_ok:
  assumes "chain_step s s'" "chain_ok s"
  shows "chain_ok s'"
  using assms
proof (cases rule: chain_step.cases)
  case (lifecycle_run k q)
  with assms(2) show ?thesis using runLifecycle_enqueues enqueue_chain_ok by blast
next
  case (fifo_settles i)
  note r = settle_ok [OF assms(2) fifo_settles(2,3)]
  have "cc_key (call_at (set_phase i Released s) i) = cc_key (call_at s i)"
    by (simp add: set_phase_same_call fifo_settles(2))
  with forget_chain_ok [OF r(1), of i] r(2) show ?thesis by (simp add: fifo_settles(1) fifo_finish_def)
next
  case (lifecycle_settles i)
  with settle_ok(1) [OF assms(2)] show ?thesis by (simp add: lifecycle_finish_def)
next
  case (forgets i)
  have "settled_before s (cc_key (call_at s i)) (Suc i)"
    using tail_resolved_settled [of s i] assms(2) forgets by (simp add: chain_ok_def calls_ok_def)
  with forget_chain_ok [OF assms(2)] forgets show ?thesis by simp
qed (use assms(2) in \<open>simp_all add: start_ok enqueue_chain_ok\<close>)

lemma new_chain_ok: "chain_ok new_chain"
  by (simp add: chain_ok_def calls_ok_def tail_ok_def settled_before_def log_ok_def executions_def sequences_def new_chain_def)

interpretation chain: step_system "\<lambda>s. s = new_chain" chain_step chain_ok
  by unfold_locales (auto intro: new_chain_ok chain_step_ok)

definition chain_reachable :: "chain \<Rightarrow> bool" where
  "chain_reachable s \<longleftrightarrow> chain_step\<^sup>*\<^sup>* new_chain s"

lemma chain_reachable_ok: "chain_reachable s \<Longrightarrow> chain_ok s"
  unfolding chain_reachable_def using chain.reachable_inv by blast

section \<open>What the queues guarantee\<close>

text \<open>One task of a key at a time.\<close>

lemma one_running_per_key:
  assumes ok: "chain_ok s" and ij: "i < length (chain_calls s)" "j < length (chain_calls s)"
    and run: "cc_phase (call_at s i) = Running" "cc_phase (call_at s j) = Running"
    and key: "cc_key (call_at s i) = cc_key (call_at s j)"
  shows "i = j"
proof -
  have *: False if "a < b" "b < length (chain_calls s)" "cc_phase (call_at s a) = Running"
    "cc_phase (call_at s b) = Running" "cc_key (call_at s a) = cc_key (call_at s b)" for a b
  proof -
    have "settled_before s (cc_key (call_at s b)) b"
      using calls_ok_parts(1) [of s b] ok that by (simp add: chain_ok_def call_ok_def)
    with that show False by (simp add: settled_before_def)
  qed
  show ?thesis
    by (cases rule: linorder_cases [of i j]) (use *[of i j] *[of j i] ij run key in simp_all)
qed

text \<open>Tasks of a key run in the order they were asked for; superseded lifecycle requests do not run.\<close>

lemma executions_in_order: "chain_ok s \<Longrightarrow> sorted_wrt (<) (executions s k) \<and> sorted (sequences s k)"
  by (simp add: chain_ok_def log_ok_def)

text \<open>The first call of a key that has not been released runs or may start.\<close>

lemma head_of_line:
  assumes ok: "chain_ok s" and i: "i < length (chain_calls s)" and ph: "cc_phase (call_at s i) \<noteq> Released"
    and first: "settled_before s (cc_key (call_at s i)) i"
  shows "cc_phase (call_at s i) = Running \<or> may_start s i"
proof (cases "cc_phase (call_at s i)")
  case Waiting
  have q: "calls_ok s" using ok by (simp add: chain_ok_def)
  have "tail_resolved s p" if p: "cc_pred (call_at s i) = Some p" for p
  proof -
    have "p < i" "cc_key (call_at s p) = cc_key (call_at s i)"
      using calls_ok_parts(1) [OF q i] p by (simp_all add: call_ok_def)
    with first i tail_resolved_settled [of s p] q show ?thesis by (auto simp: calls_ok_def settled_before_def)
  qed
  with Waiting i show ?thesis by (auto simp: may_start_def split: option.splits)
qed (use ph in simp_all)

lemma key_not_stuck:
  assumes ok: "chain_ok s" and i: "i < length (chain_calls s)" and ph: "cc_phase (call_at s i) \<noteq> Released"
  shows "\<exists>j\<le>i. cc_key (call_at s j) = cc_key (call_at s i) \<and> (cc_phase (call_at s j) = Running \<or> may_start s j)"
proof -
  define open_call where "open_call = (\<lambda>j. cc_key (call_at s j) = cc_key (call_at s i) \<and> cc_phase (call_at s j) \<noteq> Released)"
  define j where "j = (LEAST j. open_call j)"
  have oi: "open_call i" using ph by (simp add: open_call_def)
  have j: "open_call j" "j \<le> i" using LeastI [of open_call, OF oi] Least_le [of open_call, OF oi] by (simp_all add: j_def)
  have "\<not> open_call m" if "m < j" for m using not_less_Least [of m open_call] that by (simp add: j_def)
  then have first: "settled_before s (cc_key (call_at s j)) j"
    using j(1) by (simp add: settled_before_def open_call_def)
  have "j < length (chain_calls s)" using j(2) i by simp
  from head_of_line [OF ok this _ first] j show ?thesis by (intro exI [of _ j]) (simp add: open_call_def)
qed

end
