(* ===== verification/GuardScenario.thy ===== *)
theory GuardScenario
  imports GovernorSafety Monitors Coordinator KeyedFifo "HOL-Library.Code_Target_Nat"
begin

text \<open>Concrete runs of the process-wide guards, evaluated step by step: the inputs of the witnesses.\<close>

section \<open>A governor with a charged mutation in flight\<close>

definition demo_scope :: AssistantRunScope where
  "demo_scope = \<lparr>sc_session = ''s'', sc_run = ''r'', sc_workspace = ''w'', sc_admin = ''a'', sc_generation = 1,
     sc_authClass = ''addon''\<rparr>"

definition demo_run :: AssistantRun where
  "demo_run = \<lparr>ar_scope = demo_scope, ar_original_request = ''q'', ar_request_hash = ''h'', ar_phase = Ph_executing_reads,
     ar_registry_id = ''v2-api'', ar_catalog_hash = ''c'', ar_loaded_tool_names = [], ar_used_tool_names = [],
     ar_continuation = Cont_none, ar_budget = createEmptyRunBudget, ar_unfinished = [], ar_created_at = 0,
     ar_updated_at = 0\<rparr>"

definition no_context :: call_context where
  "no_context = \<lparr>ctx_budget = None, ctx_reservation = None\<rparr>"

definition run_context :: call_context where
  "run_context = \<lparr>ctx_budget = Some 0, ctx_reservation = None\<rparr>"

text \<open>A run-scoped budget is installed, two mutations are asked for: one is dispatched, one waits.\<close>

definition idle_governor :: governor where
  "idle_governor = new_governor (fresh_calls [demo_run])"

definition budgeted_governor :: governor where
  "budgeted_governor = handle default_options 0 (Run_budget_installed (Charge_run demo_scope) 60 no_context) idle_governor"

definition mutation_call :: entry where
  "mutation_call = Run_called run_context False Mutation_request Hook_returns False Operation_promises"

definition busy_governor :: governor where
  "busy_governor = handle default_options 5 mutation_call (handle default_options 5 mutation_call budgeted_governor)"

lemma budgeted_governor_eval: "budgets (calls budgeted_governor) = [\<lparr>used = 0, maximum = 60, hooks = Some (Charge_run demo_scope)\<rparr>]"
  by code_simp

lemma budgeted_reachable: "governor_reachable default_options (0, budgeted_governor)"
proof -
  have "governor_init default_options (0, idle_governor)"
    by (simp add: governor_init_def idle_governor_def valid_options_def default_options_def)
      (rule exI [of _ "[demo_run]"], simp add: run_ledger_ok_def within_ceiling_def ledger_total_def demo_run_def createEmptyRunBudget_def)
  moreover have "possible 0 idle_governor (Run_budget_installed (Charge_run demo_scope) 60 no_context)" by code_simp
  then have "governor_step default_options (0, idle_governor) (0, budgeted_governor)"
    unfolding budgeted_governor_def by (intro governor_step.entry) simp_all
  ultimately show ?thesis unfolding governor_reachable_def by blast
qed

lemma reachable_step:
  "governor_reachable opt (t, g) \<Longrightarrow> t \<le> t' \<Longrightarrow> possible t' g e \<Longrightarrow> governor_reachable opt (t', handle opt t' e g)"
  unfolding governor_reachable_def using governor_step.entry rtranclp.rtrancl_into_rtrancl by metis

lemma busy_reachable: "governor_reachable default_options (5, busy_governor)"
proof -
  have "possible 5 budgeted_governor mutation_call" by code_simp
  then have 1: "governor_reachable default_options (5, handle default_options 5 mutation_call budgeted_governor)"
    by (rule reachable_step [OF budgeted_reachable, rotated]) simp
  have "possible 5 (handle default_options 5 mutation_call budgeted_governor) mutation_call" by code_simp
  then show ?thesis unfolding busy_governor_def by (rule reachable_step [OF 1, rotated]) simp
qed

lemma busy_governor_eval:
  "queue busy_governor = [1]" "active busy_governor = 1" "length (requests busy_governor) = 2"
  "q_calls (rq busy_governor 0) = 1" "q_state (rq busy_governor 1) = Rq_queued" "start_log busy_governor = [5]"
  "map_option (hostCallsUsed \<circ> ar_budget) (run_row demo_scope (run_rows (calls busy_governor))) = Some 2"
  by code_simp+

section \<open>A deletion that waits for a lease\<close>

definition leased_coordinator :: coordinator where
  "leased_coordinator = (case acquire ''w'' 3 new_coordinator of Inr (s, l) \<Rightarrow> s | Inl e \<Rightarrow> new_coordinator)"

definition deleting_coordinator :: coordinator where
  "deleting_coordinator = fst (beginDeletion ''w'' leased_coordinator)"

definition drained_coordinator :: coordinator where
  "drained_coordinator = release 0 deleting_coordinator"

lemma coordinator_path:
  "coordinator_reachable leased_coordinator" "coordinator_reachable deleting_coordinator" "coordinator_reachable drained_coordinator"
proof -
  have "acquire ''w'' 3 new_coordinator = Inr (leased_coordinator, 0)"
    by (simp add: leased_coordinator_def acquire_def seeded_def new_coordinator_def install_def activeState_def set_epoch_def Let_def)
  then have 1: "coordinator_step new_coordinator leased_coordinator" by (rule coordinator_step.acquire)
  show l: "coordinator_reachable leased_coordinator"
    unfolding coordinator_reachable_def using 1 by blast
  have "coordinator_step leased_coordinator deleting_coordinator"
    unfolding deleting_coordinator_def
    by (rule coordinator_step.beginDeletion [where ws = "''w''" and owner = "fst (snd (beginDeletion ''w'' leased_coordinator))"
          and d = "snd (snd (beginDeletion ''w'' leased_coordinator))"]) simp
  with l show d: "coordinator_reachable deleting_coordinator" unfolding coordinator_reachable_def by simp
  have "coordinator_step deleting_coordinator drained_coordinator"
    unfolding drained_coordinator_def by (rule coordinator_step.release) code_simp
  with d show "coordinator_reachable drained_coordinator" unfolding coordinator_reachable_def by simp
qed

lemma drained_coordinator_eval:
  "deletions drained_coordinator ''w'' = Some 0" "drain_resolved (dl_drain (deletion_log drained_coordinator ! 0)) drained_coordinator"
  "\<not> drain_resolved (dl_drain (deletion_log deleting_coordinator ! 0)) deleting_coordinator"
  by code_simp+

section \<open>Two tasks of one key\<close>

definition two_calls :: chain where
  "two_calls = start 0 (enqueue ''k'' None (enqueue ''k'' None new_chain))"

lemma two_calls_reachable: "chain_reachable two_calls"
proof -
  have "chain_step new_chain (enqueue ''k'' None new_chain)" by (rule chain_step.fifo_run)
  moreover have "chain_step (enqueue ''k'' None new_chain) (enqueue ''k'' None (enqueue ''k'' None new_chain))"
    by (rule chain_step.fifo_run)
  moreover have "chain_step (enqueue ''k'' None (enqueue ''k'' None new_chain)) two_calls"
    unfolding two_calls_def
    by (rule chain_step.starts) (simp add: may_start_def enqueue_def call_at_def new_chain_def)
  ultimately show ?thesis unfolding chain_reachable_def by simp
qed

lemma two_calls_eval:
  "length (chain_calls two_calls) = 2" "cc_phase (call_at two_calls 0) = Running" "cc_phase (call_at two_calls 1) = Waiting"
  "executions two_calls ''k'' = [0]"
  by (simp_all add: two_calls_def start_def set_phase_def enqueue_def call_at_def new_chain_def executions_def)

end
