(* ===== verification/Receipts.thy ===== *)
theory Receipts
  imports JsValue
begin

text \<open>
  Receipts (\<open>src/src/harness/receipts.ts\<close>): the uniform shape in which an action reports what it did.
  A change set lists the entities of four buckets; empty buckets and empty optional fields are left
  out, so that a read never looks like a write. A receipt is the JSON object the code builds.
\<close>

section \<open>Data\<close>

record EntityRef =
  er_type :: string
  er_id :: string
  er_name :: "string option"
  er_projectId :: "string option"

definition optional :: "string \<Rightarrow> string option \<Rightarrow> (string \<times> jsv) list" where
  "optional k v = (case v of None \<Rightarrow> [] | Some s \<Rightarrow> [(k, JStr s)])"

definition entity_json :: "EntityRef \<Rightarrow> jsv" where
  "entity_json r = JObj ([(''type'', JStr (er_type r)), (''id'', JStr (er_id r))]
     @ optional ''name'' (er_name r) @ optional ''projectId'' (er_projectId r))"

record ChangeSet =
  cs_created :: "EntityRef list option"
  cs_updated :: "EntityRef list option"
  cs_deleted :: "EntityRef list option"
  cs_reused :: "EntityRef list option"

text \<open>\<open>CHANGE_BUCKETS\<close> with the reader of each bucket, in the order of the code.\<close>

definition CHANGE_BUCKETS :: "(string \<times> (ChangeSet \<Rightarrow> EntityRef list option)) list" where
  "CHANGE_BUCKETS = [(''created'', cs_created), (''updated'', cs_updated), (''deleted'', cs_deleted), (''reused'', cs_reused)]"

definition filled :: "EntityRef list option \<Rightarrow> bool" where
  "filled refs = (case refs of None \<Rightarrow> False | Some rs \<Rightarrow> rs \<noteq> [])"

definition hasChanges :: "ChangeSet option \<Rightarrow> bool" where
  "hasChanges changed = (case changed of None \<Rightarrow> False | Some c \<Rightarrow> list_ex (\<lambda>(k, bucket). filled (bucket c)) CHANGE_BUCKETS)"

definition cleanChangeSet :: "ChangeSet option \<Rightarrow> jsv option" where
  "cleanChangeSet changed =
     (if \<not> hasChanges changed then None
      else Some (JObj (map (\<lambda>(k, bucket). (k, JArr (map entity_json (the (bucket (the changed))))))
             (filter (\<lambda>(k, bucket). filled (bucket (the changed))) CHANGE_BUCKETS))))"

text \<open>The white space that \<open>trim\<close> removes, among the ASCII characters.\<close>

definition js_space :: "char \<Rightarrow> bool" where
  "js_space c \<longleftrightarrow> of_char c \<in> {9, 10, 11, 12, 13, 32 :: nat}"

definition blank :: "string \<Rightarrow> bool" where
  "blank s \<longleftrightarrow> list_all js_space s"

definition cleanIds :: "(string \<times> string option) list option \<Rightarrow> jsv option" where
  "cleanIds ids =
     (case ids of None \<Rightarrow> None
      | Some es \<Rightarrow>
          let out = filter (\<lambda>(k, v). case v of None \<Rightarrow> False | Some s \<Rightarrow> \<not> blank s) es in
          if out = [] then None else Some (JObj (map (\<lambda>(k, v). (k, JStr (the v))) out)))"

record SuccessReceiptInput =
  si_action :: string
  si_entity :: "string option"
  si_ids :: "(string \<times> string option) list option"
  si_data :: jsv
  si_changed :: "ChangeSet option"
  si_warnings :: "jsv list option"
  si_next :: "jsv list option"

definition nonempty_array :: "string \<Rightarrow> jsv list option \<Rightarrow> (string \<times> jsv) list" where
  "nonempty_array k xs = (case xs of None \<Rightarrow> [] | Some ys \<Rightarrow> if ys = [] then [] else [(k, JArr ys)])"

definition member_of :: "string \<Rightarrow> jsv option \<Rightarrow> (string \<times> jsv) list" where
  "member_of k v = (case v of None \<Rightarrow> [] | Some x \<Rightarrow> [(k, x)])"

definition successReceipt :: "SuccessReceiptInput \<Rightarrow> jsv" where
  "successReceipt i =
     JObj ([(''ok'', JBool True), (''action'', JStr (si_action i))]
       @ (case si_entity i of None \<Rightarrow> [] | Some e \<Rightarrow> if e = [] then [] else [(''entity'', JStr e)])
       @ (if si_data i = JUndef then [] else [(''data'', si_data i)])
       @ member_of ''ids'' (cleanIds (si_ids i))
       @ member_of ''changed'' (cleanChangeSet (si_changed i))
       @ nonempty_array ''warnings'' (si_warnings i)
       @ nonempty_array ''next'' (si_next i))"

text \<open>The last argument is the recovery hint, undefined when the caller gives none.\<close>

definition errorReceipt :: "string \<Rightarrow> string \<Rightarrow> string \<Rightarrow> jsv \<Rightarrow> jsv" where
  "errorReceipt action code message recovery =
     JObj [(''ok'', JBool False), (''action'', JStr action), (''code'', JStr code), (''message'', JStr message),
           (''recovery'', if recovery = JUndef \<or> recovery = JNull
                          then JObj [(''hint'', JStr message), (''retryable'', JBool False)] else recovery)]"

definition warning_json :: "string \<Rightarrow> string \<Rightarrow> jsv" where
  "warning_json code message = JObj [(''code'', JStr code), (''message'', JStr message)]"

text \<open>Lists of rows carry their count and say when they are incomplete.\<close>

record ListReceiptInput =
  li_input :: SuccessReceiptInput
  li_rows :: "jsv list"
  li_truncated :: bool
  li_dataKey :: "string option"
  li_data :: "(string \<times> jsv) list"
  li_count :: "int option"
  li_truncationMessage :: "string option"

definition default_truncation :: string where
  "default_truncation = ''Clockify returned an incomplete list. Narrow the filter or date range before relying on absence, uniqueness, counts, or totals.''"

definition list_warnings :: "ListReceiptInput \<Rightarrow> jsv list" where
  "list_warnings i =
     (let warnings = (case si_warnings (li_input i) of None \<Rightarrow> [] | Some ws \<Rightarrow> ws) in
      if li_truncated i \<and> \<not> list_ex (\<lambda>w. getp ''code'' w = JStr ''list_truncated'') warnings
      then warnings @ [warning_json ''list_truncated''
             (case li_truncationMessage i of None \<Rightarrow> default_truncation | Some m \<Rightarrow> m)]
      else warnings)"

definition listReceipt :: "ListReceiptInput \<Rightarrow> jsv" where
  "listReceipt i =
     successReceipt ((li_input i)\<lparr>
       si_data := JObj (spread (li_data i)
         [(''count'', JNum (case li_count i of None \<Rightarrow> int (length (li_rows i)) | Some n \<Rightarrow> n)),
          (case li_dataKey i of None \<Rightarrow> ''items'' | Some k \<Rightarrow> k, JArr (li_rows i)),
          (''truncated'', JBool (li_truncated i))]),
       si_warnings := Some (list_warnings i)\<rparr>)"

section \<open>Facts\<close>

text \<open>A receipt has a change set exactly when some bucket holds an entity.\<close>

lemma cleanChangeSet_None_iff: "cleanChangeSet c = None \<longleftrightarrow> \<not> hasChanges c"
  by (simp add: cleanChangeSet_def)

lemma member_of_getp: "getp k (JObj (member_of k v @ rest)) = (case v of None \<Rightarrow> getp k (JObj rest) | Some x \<Rightarrow> x)"
  by (simp add: member_of_def getp_def split: option.splits)

lemma receipt_ok [simp]: "getp ''ok'' (successReceipt i) = JBool True" "getp ''action'' (successReceipt i) = JStr (si_action i)"
  by (simp_all add: successReceipt_def getp_def)

lemma receipt_optional:
  "getp ''changed'' (successReceipt i) = (case cleanChangeSet (si_changed i) of None \<Rightarrow> JUndef | Some c \<Rightarrow> c)
   \<and> getp ''warnings'' (successReceipt i) = (case si_warnings i of None \<Rightarrow> JUndef | Some ws \<Rightarrow> if ws = [] then JUndef else JArr ws)"
  by (cases "si_entity i"; cases "si_data i = JUndef"; cases "cleanIds (si_ids i)"; cases "cleanChangeSet (si_changed i)";
      cases "si_warnings i"; cases "si_next i")
    (simp_all add: successReceipt_def getp_def member_of_def nonempty_array_def)

lemmas receipt_changed = receipt_optional [THEN conjunct1]

lemmas receipt_warnings = receipt_optional [THEN conjunct2]

lemma receipt_changed_iff: "getp ''changed'' (successReceipt i) \<noteq> JUndef \<longleftrightarrow> hasChanges (si_changed i)"
  by (auto simp: receipt_changed cleanChangeSet_def)

text \<open>An incomplete list always says so, once.\<close>

lemma list_warnings_truncated:
  "li_truncated i \<Longrightarrow> list_ex (\<lambda>w. getp ''code'' w = JStr ''list_truncated'') (list_warnings i)"
  by (auto simp: list_warnings_def Let_def warning_json_def list_ex_iff getp_def)

end
