(* ===== verification/SafeJson.thy ===== *)
theory SafeJson
  imports JsValue
begin

text \<open>
  The JSON boundary of the durable store: redaction, truncation and the byte bounds of
  \<open>src/src/harness/safe-json.ts\<close>, and the bounded action-result summary of
  \<open>src/src/db/action-results.ts\<close>. A recursive source function that loops over the sorted keys
  of an object is modelled as the children's results followed by the sort, so that the
  recursion stays structural; the values are acyclic, so the \<open>seen\<close> sets never fire.
\<close>

section \<open>Sensitive keys\<close>

definition lower_char :: "char \<Rightarrow> char" where
  "lower_char c = (let n = (of_char c :: nat) in if 65 \<le> n \<and> n \<le> 90 then char_of (n + 32) else c)"

lemma lower_char_code [code]:
  "lower_char c =
     (if (case c of Char b0 b1 b2 b3 b4 b5 b6 b7 \<Rightarrow> b6 \<and> \<not> b5 \<and> \<not> b7)
      then (let n = (of_char c :: nat) in if 65 \<le> n \<and> n \<le> 90 then char_of (n + 32) else c) else c)"
  by (cases c) (auto simp: lower_char_def Let_def of_char_def)

fun starts_with :: "string \<Rightarrow> string \<Rightarrow> bool" where
  "starts_with [] ys = True"
| "starts_with (x # xs) [] = False"
| "starts_with (x # xs) (y # ys) \<longleftrightarrow> x = y \<and> starts_with xs ys"

fun contains :: "string \<Rightarrow> string \<Rightarrow> bool" where
  "contains needle [] = starts_with needle []"
| "contains needle (y # ys) \<longleftrightarrow> starts_with needle (y # ys) \<or> contains needle ys"

text \<open>\<open>/(?:authorization|...|api[_-]?key|bytes|binary)/i.test(key)\<close>.\<close>

definition SENSITIVE_KEY :: "string \<Rightarrow> bool" where
  "SENSITIVE_KEY key =
     list_ex (\<lambda>needle. contains needle (map lower_char key))
       [''authorization'', ''cookie'', ''header'', ''secret'', ''token'', ''password'',
        ''apikey'', ''api_key'', ''api-key'', ''bytes'', ''binary'']"

definition MAX_STRING :: nat where "MAX_STRING = 4096"
definition MAX_ARRAY :: nat where "MAX_ARRAY = 128"
definition MAX_DEPTH :: nat where "MAX_DEPTH = 12"

text \<open>The UTF-8 bytes of the ellipsis U+2026.\<close>

definition ellipsis :: string where
  "ellipsis = [char_of (226::nat), char_of (128::nat), char_of (166::nat)]"

text \<open>\<open>record.type === "Buffer" && Array.isArray(record.data)\<close>.\<close>

definition is_buffer_json :: "(string \<times> jsv) list \<Rightarrow> bool" where
  "is_buffer_json es \<longleftrightarrow>
     map_of es ''type'' = Some (JStr ''Buffer'')
     \<and> (case map_of es ''data'' of Some (JArr xs) \<Rightarrow> True | _ \<Rightarrow> False)"

definition is_digit :: "char \<Rightarrow> bool" where
  "is_digit c = (let n = (of_char c :: nat) in 48 \<le> n \<and> n \<le> 57)"

fun is_byte_value :: "jsv \<Rightarrow> bool" where
  "is_byte_value (JNum n) \<longleftrightarrow> 0 \<le> n \<and> n \<le> 255"
| "is_byte_value _ = False"

text \<open>A non-empty object whose keys are all decimal and whose values are all bytes.\<close>

definition is_byte_map :: "(string \<times> jsv) list \<Rightarrow> bool" where
  "is_byte_map es \<longleftrightarrow>
     es \<noteq> [] \<and> list_all (\<lambda>(k, v). k \<noteq> [] \<and> list_all is_digit k \<and> is_byte_value v) es"

section \<open>Redaction\<close>

text \<open>
  The loop \<open>for (const key of keys.sort())\<close> over the children already normalised: a sensitive
  key and an undefined child are left out.
\<close>

definition keep_members :: "(string \<times> jsv) list \<Rightarrow> (string \<times> jsv) list" where
  "keep_members es = filter (\<lambda>(k, v). \<not> SENSITIVE_KEY k \<and> v \<noteq> JUndef) (sort_key fst es)"

fun normalized :: "nat \<Rightarrow> jsv \<Rightarrow> jsv"
  and normalized_elements :: "nat \<Rightarrow> jsv list \<Rightarrow> jsv list"
  and normalized_members :: "nat \<Rightarrow> (string \<times> jsv) list \<Rightarrow> (string \<times> jsv) list"
where
  "normalized depth JNull = JNull"
| "normalized depth (JBool b) = JBool b"
| "normalized depth (JNum n) = JNum n"
| "normalized depth JNonFinite = JNonFinite"
| "normalized depth (JStr s) =
     JStr (if length s \<le> MAX_STRING then s else take (MAX_STRING - 1) s @ ellipsis)"
| "normalized depth (JBytes bs) = JUndef"
| "normalized depth (JArr xs) =
     (if MAX_DEPTH \<le> depth
      then JObj [(''truncated'', JBool True), (''reason'', JStr ''max_depth'')]
      else JArr (filter (\<lambda>v. v \<noteq> JUndef) (take MAX_ARRAY (normalized_elements (depth + 1) xs))
                 @ (if length xs > MAX_ARRAY
                    then [JObj [(''truncated'', JBool True),
                                (''originalItemCount'', JNum (int (length xs)))]]
                    else [])))"
| "normalized depth (JObj es) =
     (if is_buffer_json es \<or> is_byte_map es then JUndef
      else if MAX_DEPTH \<le> depth
      then JObj [(''truncated'', JBool True), (''reason'', JStr ''max_depth'')]
      else JObj (keep_members (normalized_members (depth + 1) es)))"
| "normalized depth JUndef = JUndef"
| "normalized depth JOther = JUndef"
| "normalized_elements depth [] = []"
| "normalized_elements depth (x # xs) = normalized depth x # normalized_elements depth xs"
| "normalized_members depth [] = []"
| "normalized_members depth ((k, v) # es) = (k, normalized depth v) # normalized_members depth es"

fun completeNormalized :: "jsv \<Rightarrow> jsv"
  and complete_elements :: "jsv list \<Rightarrow> jsv list"
  and complete_members :: "(string \<times> jsv) list \<Rightarrow> (string \<times> jsv) list"
where
  "completeNormalized JNull = JNull"
| "completeNormalized (JBool b) = JBool b"
| "completeNormalized (JNum n) = JNum n"
| "completeNormalized JNonFinite = JNonFinite"
| "completeNormalized (JStr s) = JStr s"
| "completeNormalized (JBytes bs) = JUndef"
| "completeNormalized (JArr xs) = JArr (filter (\<lambda>v. v \<noteq> JUndef) (complete_elements xs))"
| "completeNormalized (JObj es) =
     (if is_buffer_json es \<or> is_byte_map es then JUndef
      else JObj (keep_members (complete_members es)))"
| "completeNormalized JUndef = JUndef"
| "completeNormalized JOther = JUndef"
| "complete_elements [] = []"
| "complete_elements (x # xs) = completeNormalized x # complete_elements xs"
| "complete_members [] = []"
| "complete_members ((k, v) # es) = (k, completeNormalized v) # complete_members es"

definition or_null :: "jsv \<Rightarrow> jsv" where
  "or_null v = (if v = JUndef then JNull else v)"

definition sanitizeJson :: "jsv \<Rightarrow> jsv" where
  "sanitizeJson v = or_null (normalized 0 v)"

definition sanitizeCompleteJson :: "jsv \<Rightarrow> jsv" where
  "sanitizeCompleteJson v = or_null (completeNormalized v)"

section \<open>Byte bounds\<close>

text \<open>
  \<open>Buffer.byteLength(JSON.stringify(v))\<close>. The source calls it on values that have a text;
  \<open>json_text\<close> is total and equals that text (lemma \<open>json_text_defined\<close>).
\<close>

definition json_text :: "jsv \<Rightarrow> string" where
  "json_text v = (case stringify v of None \<Rightarrow> [] | Some t \<Rightarrow> t)"

definition jsonByteLength :: "jsv \<Rightarrow> nat" where
  "jsonByteLength v = length (json_text v)"

definition preview_object :: "string \<Rightarrow> nat \<Rightarrow> nat \<Rightarrow> jsv" where
  "preview_object value originalByteCount n =
     JObj [(''truncated'', JBool True), (''originalByteCount'', JNum (int originalByteCount)),
           (''preview'', JStr (take n value))]"

text \<open>The binary search of \<open>boundedPreview\<close>; \<open>(low + high + 1) div 2\<close> is \<open>Math.ceil\<close> of half.\<close>

function preview_search :: "string \<Rightarrow> nat \<Rightarrow> nat \<Rightarrow> nat \<Rightarrow> nat \<Rightarrow> nat" where
  "preview_search value originalByteCount maxBytes low high =
     (if low < high
      then let middle = (low + high + 1) div 2 in
           if jsonByteLength (preview_object value originalByteCount middle) \<le> maxBytes
           then preview_search value originalByteCount maxBytes middle high
           else preview_search value originalByteCount maxBytes low (middle - 1)
      else low)"
  by pat_completeness auto
termination
  by (relation "measure (\<lambda>(v, n, m, low, high). high - low)") auto

declare preview_search.simps [simp del]

definition boundedPreview :: "string \<Rightarrow> nat \<Rightarrow> nat \<Rightarrow> jsv" where
  "boundedPreview value originalByteCount maxBytes =
     (let low = preview_search value originalByteCount maxBytes 0 (length value);
          result = preview_object value originalByteCount low;
          minimal = JObj [(''truncated'', JBool True)] in
      if jsonByteLength result \<le> maxBytes then result
      else if jsonByteLength minimal \<le> maxBytes then minimal else JNull)"

definition boundedSanitizedJson :: "jsv \<Rightarrow> nat \<Rightarrow> jsv" where
  "boundedSanitizedJson v maxBytes =
     (let safe = sanitizeJson v in
      if jsonByteLength safe \<le> maxBytes then safe
      else boundedPreview (json_text safe) (length (json_text safe)) maxBytes)"

definition boundedCompleteSanitizedJson :: "jsv \<Rightarrow> nat \<Rightarrow> jsv" where
  "boundedCompleteSanitizedJson v maxBytes =
     (let safe = sanitizeCompleteJson v in
      if jsonByteLength safe \<le> maxBytes then safe
      else boundedPreview (json_text safe) (length (json_text safe)) maxBytes)"

text \<open>\<open>createHash("sha256")\<close> is the parameter \<open>sha256\<close>.\<close>

definition sanitizedFingerprint :: "(string \<Rightarrow> string) \<Rightarrow> jsv \<Rightarrow> string" where
  "sanitizedFingerprint sha256 v = sha256 (json_text (sanitizeCompleteJson v))"

section \<open>Lossless evidence\<close>

datatype evidence_error =
    durable_evidence_non_json
  | durable_evidence_binary
  | durable_evidence_sensitive
  | durable_evidence_too_large

fun sequence :: "('e, 'a) result list \<Rightarrow> ('e, 'a list) result" where
  "sequence [] = Inr []"
| "sequence (r # rs) = and_then r (\<lambda>x. and_then (sequence rs) (\<lambda>xs. Inr (x # xs)))"

text \<open>One iteration of the loop over the sorted keys: the key is tested before its value.\<close>

definition exact_member ::
  "string \<times> (evidence_error, jsv) result \<Rightarrow> (evidence_error, string \<times> jsv) result" where
  "exact_member m =
     (case m of (k, r) \<Rightarrow>
        if SENSITIVE_KEY k then Inl durable_evidence_sensitive
        else and_then r (\<lambda>v. Inr (k, v)))"

fun exactNonsecret :: "jsv \<Rightarrow> (evidence_error, jsv) result"
  and exact_elements :: "jsv list \<Rightarrow> (evidence_error, jsv) result list"
  and exact_members :: "(string \<times> jsv) list \<Rightarrow> (string \<times> (evidence_error, jsv) result) list"
where
  "exactNonsecret JNull = Inr JNull"
| "exactNonsecret (JBool b) = Inr (JBool b)"
| "exactNonsecret (JStr s) = Inr (JStr s)"
| "exactNonsecret (JNum n) = Inr (JNum n)"
| "exactNonsecret JNonFinite = Inl durable_evidence_non_json"
| "exactNonsecret (JBytes bs) = Inl durable_evidence_binary"
| "exactNonsecret (JArr xs) = and_then (sequence (exact_elements xs)) (\<lambda>ys. Inr (JArr ys))"
| "exactNonsecret (JObj es) =
     (if is_buffer_json es then Inl durable_evidence_binary
      else and_then (sequence (map exact_member (sort_key fst (exact_members es))))
             (\<lambda>ms. Inr (JObj ms)))"
| "exactNonsecret JUndef = Inl durable_evidence_non_json"
| "exactNonsecret JOther = Inl durable_evidence_non_json"
| "exact_elements [] = []"
| "exact_elements (x # xs) = exactNonsecret x # exact_elements xs"
| "exact_members [] = []"
| "exact_members ((k, v) # es) = (k, exactNonsecret v) # exact_members es"

definition exactNonsecretJson :: "jsv \<Rightarrow> nat \<Rightarrow> (evidence_error, jsv) result" where
  "exactNonsecretJson v maxBytes =
     and_then (exactNonsecret v) (\<lambda>safe.
       if maxBytes < jsonByteLength safe then Inl durable_evidence_too_large else Inr safe)"

section \<open>What redaction guarantees\<close>

text \<open>
  No object at any depth has a sensitive key or is a serialised buffer, and no binary value is left. An object
  of bytes under decimal keys is not excluded: the sanitizers look for one before they remove the sensitive
  members, so removing such a member can make one (lemma \<open>sanitizer_leaves_byte_map\<close>).
\<close>

fun secret_free :: "jsv \<Rightarrow> bool" where
  "secret_free (JArr xs) = list_all secret_free xs"
| "secret_free (JObj es) \<longleftrightarrow>
     \<not> is_buffer_json es \<and> list_all (\<lambda>(k, v). \<not> SENSITIVE_KEY k \<and> secret_free v) es"
| "secret_free (JBytes bs) = False"
| "secret_free _ = True"

text \<open>A value as JavaScript has them: every object has each of its keys once.\<close>

fun keyed :: "jsv \<Rightarrow> bool" where
  "keyed (JArr xs) = list_all keyed xs"
| "keyed (JObj es) \<longleftrightarrow> distinct (map fst es) \<and> list_all (\<lambda>(k, v). keyed v) es"
| "keyed _ = True"

text \<open>
  What redaction may leave of a value: a part of it, in which every object stands for an object of the input
  at the same place that is neither a serialised buffer nor a map of bytes. Only with \<open>cut\<close> may strings be
  shortened and arrays and objects replaced by markers.
\<close>

definition cut_marker :: "jsv \<Rightarrow> bool" where
  "cut_marker w \<longleftrightarrow>
     w = JObj [(''truncated'', JBool True), (''reason'', JStr ''max_depth'')]
     \<or> (\<exists>n. w = JObj [(''truncated'', JBool True), (''originalItemCount'', JNum n)])"

inductive redacts :: "bool \<Rightarrow> jsv \<Rightarrow> jsv \<Rightarrow> bool" for cut where
  redacts_null: "redacts cut JNull JNull"
| redacts_bool: "redacts cut (JBool b) (JBool b)"
| redacts_num: "redacts cut (JNum n) (JNum n)"
| redacts_nonfinite: "redacts cut JNonFinite JNonFinite"
| redacts_str: "redacts cut (JStr s) (JStr s)"
| redacts_short: "cut \<Longrightarrow> MAX_STRING < length s \<Longrightarrow> redacts cut (JStr s) (JStr (take (MAX_STRING - 1) s @ ellipsis))"
| redacts_arr: "(\<forall>w\<in>set ws. (\<exists>v\<in>set vs. redacts cut v w) \<or> cut \<and> cut_marker w) \<Longrightarrow> redacts cut (JArr vs) (JArr ws)"
| redacts_obj: "\<not> is_buffer_json es \<Longrightarrow> \<not> is_byte_map es
    \<Longrightarrow> (\<forall>m\<in>set ms. \<not> SENSITIVE_KEY (fst m) \<and> (\<exists>v. (fst m, v) \<in> set es \<and> redacts cut v (snd m)))
    \<Longrightarrow> redacts cut (JObj es) (JObj ms)"
| redacts_deep_arr: "cut \<Longrightarrow> cut_marker w \<Longrightarrow> redacts cut (JArr vs) w"
| redacts_deep_obj: "cut \<Longrightarrow> cut_marker w \<Longrightarrow> \<not> is_buffer_json es \<Longrightarrow> \<not> is_byte_map es \<Longrightarrow> redacts cut (JObj es) w"

lemma length_normalized_elements [simp]: "length (normalized_elements d xs) = length xs"
  by (induction xs) auto

lemma set_keep_members [simp]:
  "set (keep_members es) = {(k, v). (k, v) \<in> set es \<and> \<not> SENSITIVE_KEY k \<and> v \<noteq> JUndef}"
  by (auto simp: keep_members_def)

lemma marker_keys_public [simp]:
  "\<not> SENSITIVE_KEY ''truncated''" "\<not> SENSITIVE_KEY ''reason''"
  "\<not> SENSITIVE_KEY ''originalItemCount''" "\<not> SENSITIVE_KEY ''originalByteCount''"
  "\<not> SENSITIVE_KEY ''preview''"
  by code_simp+

lemma normalized_Buffer: "normalized d v = JStr ''Buffer'' \<Longrightarrow> v = JStr ''Buffer''"
  by (cases v) (auto simp: MAX_STRING_def ellipsis_def split: if_splits dest: arg_cong [of _ _ length])

lemma normalized_JArr: "normalized d v = JArr xs \<Longrightarrow> \<exists>ys. v = JArr ys"
  by (cases v) (auto split: if_splits)

lemma complete_Buffer: "completeNormalized v = JStr ''Buffer'' \<Longrightarrow> v = JStr ''Buffer''"
  by (cases v) (auto split: if_splits)

lemma complete_JArr: "completeNormalized v = JArr xs \<Longrightarrow> \<exists>ys. v = JArr ys"
  by (cases v) (auto split: if_splits)

lemma normalized_members_map: "normalized_members d es = map (map_prod id (normalized d)) es"
  by (induction es) auto

lemma complete_members_map: "complete_members es = map (map_prod id completeNormalized) es"
  by (induction es) auto

lemma normalized_elements_map: "normalized_elements d xs = map (normalized d) xs"
  by (induction xs) auto

lemma complete_elements_map: "complete_elements xs = map completeNormalized xs"
  by (induction xs) auto

lemma keep_members_lookup:
  assumes "distinct (map fst es)" and "map_of (keep_members (map (map_prod id f) es)) k = Some w"
  shows "\<exists>v. map_of es k = Some v \<and> f v = w"
proof -
  from map_of_SomeD [OF assms(2)] obtain v where "(k, v) \<in> set es" "f v = w" by auto
  with assms(1) show ?thesis by auto
qed

text \<open>Redaction makes no serialised buffer out of an object that is none.\<close>

lemma keep_members_buffer:
  assumes d: "distinct (map fst es)" and b: "is_buffer_json (keep_members (map (map_prod id f) es))"
    and f: "\<And>v. f v = JStr ''Buffer'' \<Longrightarrow> v = JStr ''Buffer''" "\<And>v xs. f v = JArr xs \<Longrightarrow> \<exists>ys. v = JArr ys"
  shows "is_buffer_json es"
proof -
  let ?m = "keep_members (map (map_prod id f) es)"
  from b obtain xs where m: "map_of ?m ''type'' = Some (JStr ''Buffer'')" "map_of ?m ''data'' = Some (JArr xs)"
    by (auto simp: is_buffer_json_def split: option.splits jsv.splits)
  from keep_members_lookup [OF d m(1)] f(1) have "map_of es ''type'' = Some (JStr ''Buffer'')" by blast
  moreover from keep_members_lookup [OF d m(2)] f(2) obtain ys where "map_of es ''data'' = Some (JArr ys)" by blast
  ultimately show ?thesis by (simp add: is_buffer_json_def)
qed

lemma normalized_buffer:
  "distinct (map fst es) \<Longrightarrow> is_buffer_json (keep_members (normalized_members d es)) \<Longrightarrow> is_buffer_json es"
  unfolding normalized_members_map by (erule (1) keep_members_buffer) (auto dest: normalized_Buffer normalized_JArr)

lemma complete_buffer:
  "distinct (map fst es) \<Longrightarrow> is_buffer_json (keep_members (complete_members es)) \<Longrightarrow> is_buffer_json es"
  unfolding complete_members_map by (erule (1) keep_members_buffer) (auto dest: complete_Buffer complete_JArr)

lemma marker_no_buffer [simp]:
  "\<not> is_buffer_json [(''truncated'', v), (''reason'', w)]" "\<not> is_buffer_json [(''truncated'', v), (''originalItemCount'', w)]"
  "\<not> is_buffer_json [(''truncated'', v)]" "\<not> is_buffer_json [(''truncated'', v), (''originalByteCount'', w), (''preview'', x)]"
  by (simp_all add: is_buffer_json_def)

lemma normalized_secret_free_aux:
  "keyed v \<Longrightarrow> secret_free (normalized d v)"
  "list_all keyed xs \<Longrightarrow> list_all secret_free (normalized_elements d xs)"
  "list_all (\<lambda>(k, v). keyed v) es \<Longrightarrow> list_all (\<lambda>(k, v). secret_free v) (normalized_members d es)"
proof (induction d v and d xs and d es rule: normalized_normalized_elements_normalized_members.induct)
  case (8 depth es)
  then show ?case
    using normalized_buffer [of es "depth + 1"] by (auto simp: list_all_iff)
qed (auto simp: list_all_iff dest: in_set_takeD)

lemma complete_secret_free_aux:
  "keyed v \<Longrightarrow> secret_free (completeNormalized v)"
  "list_all keyed xs \<Longrightarrow> list_all secret_free (complete_elements xs)"
  "list_all (\<lambda>(k, v). keyed v) es \<Longrightarrow> list_all (\<lambda>(k, v). secret_free v) (complete_members es)"
proof (induction v and xs and es rule: completeNormalized_complete_elements_complete_members.induct)
  case (8 es)
  then show ?case
    using complete_buffer [of es] by (auto simp: list_all_iff)
qed (auto simp: list_all_iff)

lemma sanitizeJson_secret_free: "keyed v \<Longrightarrow> secret_free (sanitizeJson v)"
  using normalized_secret_free_aux(1) by (simp add: sanitizeJson_def or_null_def)

lemma sanitizeCompleteJson_secret_free: "keyed v \<Longrightarrow> secret_free (sanitizeCompleteJson v)"
  using complete_secret_free_aux(1) by (simp add: sanitizeCompleteJson_def or_null_def)

lemma cut_markers [simp]:
  "cut_marker (JObj [(''truncated'', JBool True), (''reason'', JStr ''max_depth'')])"
  "cut_marker (JObj [(''truncated'', JBool True), (''originalItemCount'', JNum n)])"
  by (simp_all add: cut_marker_def)

lemma normalized_redacts: "normalized d v = JUndef \<or> redacts True v (normalized d v)"
proof (induction v arbitrary: d)
  case (JArr xs)
  show ?case
  proof (cases "MAX_DEPTH \<le> d")
    case False
    have "\<forall>w\<in>set (normalized_elements (d + 1) xs). w \<noteq> JUndef \<longrightarrow> (\<exists>v\<in>set xs. redacts True v w)"
      using JArr [of _ "d + 1"] by (force simp: normalized_elements_map)
    with False show ?thesis by (fastforce intro!: redacts_arr dest: in_set_takeD)
  qed (simp add: redacts_deep_arr)
next
  case (JObj es)
  have deep: "MAX_DEPTH \<le> d \<Longrightarrow> ?case" by (simp add: redacts_deep_obj)
  have "(k, w) \<in> set (normalized_members (d + 1) es) \<Longrightarrow> w \<noteq> JUndef \<Longrightarrow> \<exists>v. (k, v) \<in> set es \<and> redacts True v w" for k w
    using JObj [of _ _ "d + 1"] by (force simp: normalized_members_map)
  then have "\<not> MAX_DEPTH \<le> d \<Longrightarrow> ?case" by (auto intro!: redacts_obj)
  with deep show ?case by blast
qed (auto intro: redacts.intros redacts_short [OF TrueI, unfolded One_nat_def])

lemma complete_redacts: "completeNormalized v = JUndef \<or> redacts False v (completeNormalized v)"
proof (induction v)
  case (JArr xs)
  have "w \<in> set (complete_elements xs) \<Longrightarrow> w \<noteq> JUndef \<Longrightarrow> \<exists>v\<in>set xs. redacts False v w" for w
    using JArr by (force simp: complete_elements_map)
  then show ?case by (auto intro!: redacts_arr)
next
  case (JObj es)
  have "(k, w) \<in> set (complete_members es) \<Longrightarrow> w \<noteq> JUndef \<Longrightarrow> \<exists>v. (k, v) \<in> set es \<and> redacts False v w" for k w
    using JObj by (force simp: complete_members_map)
  then show ?case by (auto intro!: redacts_obj)
qed (auto intro: redacts.intros)

lemma sanitized_redacts:
  "sanitizeJson v = JNull \<or> redacts True v (sanitizeJson v)"
  "sanitizeCompleteJson v = JNull \<or> redacts False v (sanitizeCompleteJson v)"
  using normalized_redacts [of 0 v] complete_redacts [of v]
  by (auto simp: sanitizeJson_def sanitizeCompleteJson_def or_null_def)

text \<open>
  The bytes of \<open>Hi\<close> as an object, with a token beside them: the sanitizer removes the token and leaves the
  bytes, which sanitizing a second time removes.
\<close>

lemma sanitizer_leaves_byte_map:
  "sanitizeJson (JObj [(''0'', JNum 72), (''1'', JNum 105), (''token'', JStr ''x'')]) = JObj [(''0'', JNum 72), (''1'', JNum 105)]"
  "sanitizeJson (JObj [(''0'', JNum 72), (''1'', JNum 105)]) = JNull"
  by code_simp+

text \<open>Presentation sanitisation also bounds the shape: nesting, array length, string length.\<close>

fun shape_ok :: "nat \<Rightarrow> jsv \<Rightarrow> bool" where
  "shape_ok d (JStr s) \<longleftrightarrow> length s \<le> MAX_STRING + 2"
| "shape_ok d (JArr xs) \<longleftrightarrow> 0 < d \<and> length xs \<le> MAX_ARRAY + 1 \<and> list_all (shape_ok (d - 1)) xs"
| "shape_ok d (JObj es) \<longleftrightarrow> 0 < d \<and> list_all (\<lambda>(k, v). shape_ok (d - 1) v) es"
| "shape_ok d _ = True"

lemma normalized_shape_aux:
  "shape_ok (Suc (MAX_DEPTH - d)) (normalized d v)"
  "list_all (shape_ok (Suc (MAX_DEPTH - d))) (normalized_elements d xs)"
  "list_all (\<lambda>(k, v). shape_ok (Suc (MAX_DEPTH - d)) v) (normalized_members d es)"
proof (induction d v and d xs and d es rule: normalized_normalized_elements_normalized_members.induct)
  case (5 depth s)
  then show ?case by (simp add: MAX_STRING_def ellipsis_def)
next
  case (7 depth xs)
  show ?case
  proof (cases "MAX_DEPTH \<le> depth")
    case True
    then show ?thesis by (simp add: MAX_STRING_def)
  next
    case False
    then have d: "MAX_DEPTH - depth = Suc (MAX_DEPTH - (depth + 1))" by simp
    define ys where
      "ys = filter (\<lambda>v. v \<noteq> JUndef) (take MAX_ARRAY (normalized_elements (depth + 1) xs))"
    have "length ys \<le> length (take MAX_ARRAY (normalized_elements (depth + 1) xs))"
      unfolding ys_def by (rule length_filter_le)
    then have "length ys \<le> MAX_ARRAY" by simp
    moreover have "list_all (shape_ok (MAX_DEPTH - depth)) ys"
      using 7 False unfolding d ys_def by (auto simp: list_all_iff dest: in_set_takeD)
    ultimately show ?thesis
      using False by (simp only: normalized.simps if_False ys_def [symmetric]) simp
  qed
next
  case (8 depth es)
  show ?case
  proof (cases "MAX_DEPTH \<le> depth")
    case True
    then show ?thesis by (simp add: MAX_STRING_def)
  next
    case False
    then have d: "MAX_DEPTH - depth = Suc (MAX_DEPTH - (depth + 1))" by simp
    show ?thesis using 8 False by (auto simp: list_all_iff d)
  qed
qed auto

lemma sanitizeJson_shape: "shape_ok (Suc MAX_DEPTH) (sanitizeJson v)"
  using normalized_shape_aux(1) [of 0 v] by (auto simp: sanitizeJson_def or_null_def)

section \<open>The preview is the longest prefix that fits\<close>

lemma json_text_defined: "v \<noteq> JUndef \<Longrightarrow> v \<noteq> JOther \<Longrightarrow> stringify v = Some (json_text v)"
  by (cases "stringify v") (auto simp: json_text_def)

lemma normalized_defined: "normalized d v \<noteq> JOther" "completeNormalized v \<noteq> JOther"
  by (cases v; simp)+

lemma or_null_text: "v \<noteq> JOther \<Longrightarrow> stringify (or_null v) = Some (json_text (or_null v))"
  by (rule json_text_defined) (simp_all add: or_null_def)

lemma sanitized_text_defined:
  "stringify (sanitizeJson v) = Some (json_text (sanitizeJson v))"
  "stringify (sanitizeCompleteJson v) = Some (json_text (sanitizeCompleteJson v))"
  unfolding sanitizeJson_def sanitizeCompleteJson_def
  by (rule or_null_text, rule normalized_defined)+

lemma preview_length_mono:
  "m \<le> n \<Longrightarrow> jsonByteLength (preview_object s k m) \<le> jsonByteLength (preview_object s k n)"
proof -
  assume "m \<le> n"
  then have "take n s = take m s @ take (n - m) (drop m s)"
    by (metis le_add_diff_inverse take_add)
  then have "length (json_string (take m s)) \<le> length (json_string (take n s))"
    by (simp add: json_string_def)
  then show ?thesis by (simp add: jsonByteLength_def json_text_def preview_object_def)
qed

definition preview_fits :: "string \<Rightarrow> nat \<Rightarrow> nat \<Rightarrow> nat \<Rightarrow> bool" where
  "preview_fits s k m n \<longleftrightarrow> jsonByteLength (preview_object s k n) \<le> m"

lemma preview_search_spec:
  "low \<le> high \<Longrightarrow> (low = 0 \<or> preview_fits s k m low) \<Longrightarrow>
   (\<forall>n. high < n \<and> n \<le> length s \<longrightarrow> \<not> preview_fits s k m n) \<Longrightarrow>
   (let r = preview_search s k m low high in
      low \<le> r \<and> r \<le> high \<and> (r = 0 \<or> preview_fits s k m r)
      \<and> (\<forall>n. r < n \<and> n \<le> length s \<longrightarrow> \<not> preview_fits s k m n))"
proof (induction s k m low high rule: preview_search.induct)
  case (1 s k m low high)
  show ?case
  proof (cases "low < high")
    case False
    then have "preview_search s k m low high = low" by (simp add: preview_search.simps [of s k m low high])
    with 1 False show ?thesis by (auto simp: Let_def)
  next
    case True
    define mid where "mid = (low + high + 1) div 2"
    have mid: "low < mid" "mid \<le> high" using True by (auto simp: mid_def)
    show ?thesis
    proof (cases "preview_fits s k m mid")
      case fits: True
      then have "preview_search s k m low high = preview_search s k m mid high"
        using True by (simp add: preview_search.simps [of s k m low high] preview_fits_def mid_def Let_def)
      moreover note 1(1) [OF True mid_def, folded preview_fits_def, OF fits mid(2) _ 1(5)]
      ultimately show ?thesis using fits mid(1) unfolding Let_def by auto
    next
      case False
      then have eq: "preview_search s k m low high = preview_search s k m low (mid - 1)"
        using True by (simp add: preview_search.simps [of s k m low high] preview_fits_def mid_def Let_def)
      have "\<forall>n. mid - 1 < n \<and> n \<le> length s \<longrightarrow> \<not> preview_fits s k m n"
      proof (intro allI impI)
        fix n
        assume "mid - 1 < n \<and> n \<le> length s"
        then have "mid \<le> n" using mid(1) by linarith
        from preview_length_mono [OF this, of s k] False show "\<not> preview_fits s k m n"
          by (simp add: preview_fits_def)
      qed
      moreover have "low \<le> mid - 1" "mid - 1 \<le> high" using mid by linarith+
      ultimately show ?thesis
        using 1(2) [OF True mid_def, folded preview_fits_def, OF False _ 1(4)]
        unfolding Let_def eq by (meson order_trans)
    qed
  qed
qed

lemma jsonByteLength_null: "jsonByteLength JNull = 4"
  by (simp add: jsonByteLength_def json_text_def)

lemma boundedPreview_bytes: "4 \<le> m \<Longrightarrow> jsonByteLength (boundedPreview s k m) \<le> m"
  by (auto simp: boundedPreview_def Let_def jsonByteLength_null)

lemma boundedPreview_longest:
  assumes "preview_fits s k m 0"
  obtains n where "boundedPreview s k m = preview_object s k n" "n \<le> length s" "preview_fits s k m n"
    "\<And>n'. n < n' \<Longrightarrow> n' \<le> length s \<Longrightarrow> \<not> preview_fits s k m n'"
proof -
  let ?r = "preview_search s k m 0 (length s)"
  have vacuous: "\<forall>n. length s < n \<and> n \<le> length s \<longrightarrow> \<not> preview_fits s k m n" by auto
  have r: "?r \<le> length s" "?r = 0 \<or> preview_fits s k m ?r"
    "\<forall>n. ?r < n \<and> n \<le> length s \<longrightarrow> \<not> preview_fits s k m n"
    using preview_search_spec [OF le0 disjI1 [OF refl] vacuous] by (simp_all add: Let_def)
  then have fit: "preview_fits s k m ?r" using assms by metis
  then have "boundedPreview s k m = preview_object s k ?r"
    by (simp add: boundedPreview_def Let_def preview_fits_def)
  with r fit show ?thesis by (intro that [of ?r]) auto
qed

text \<open>A preview shows nothing but the beginning of the text it is given.\<close>

lemma boundedPreview_cases:
  "(\<exists>n. boundedPreview s k m = preview_object s k n) \<or> boundedPreview s k m = JObj [(''truncated'', JBool True)]
   \<or> boundedPreview s k m = JNull"
  by (auto simp: boundedPreview_def Let_def)

definition preview_of :: "jsv \<Rightarrow> jsv \<Rightarrow> bool" where
  "preview_of safe w \<longleftrightarrow> w = safe \<or> w = JNull \<or> w = JObj [(''truncated'', JBool True)]
     \<or> (\<exists>n. w = JObj [(''truncated'', JBool True), (''originalByteCount'', JNum (int (length (json_text safe)))),
                      (''preview'', JStr (take n (json_text safe)))])"

lemma bounded_sanitized_previews:
  "preview_of (sanitizeJson v) (boundedSanitizedJson v m)"
  "preview_of (sanitizeCompleteJson v) (boundedCompleteSanitizedJson v m)"
  using boundedPreview_cases
  by (auto simp: boundedSanitizedJson_def boundedCompleteSanitizedJson_def preview_of_def Let_def preview_object_def)

section \<open>Exact evidence loses nothing\<close>

text \<open>The same value with the keys of every object sorted.\<close>

fun canonical :: "jsv \<Rightarrow> jsv"
  and canonical_elements :: "jsv list \<Rightarrow> jsv list"
  and canonical_members :: "(string \<times> jsv) list \<Rightarrow> (string \<times> jsv) list"
where
  "canonical (JArr xs) = JArr (canonical_elements xs)"
| "canonical (JObj es) = JObj (sort_key fst (canonical_members es))"
| "canonical v = v"
| "canonical_elements [] = []"
| "canonical_elements (x # xs) = canonical x # canonical_elements xs"
| "canonical_members [] = []"
| "canonical_members ((k, v) # es) = (k, canonical v) # canonical_members es"

text \<open>JSON without a sensitive key or a serialised buffer at any depth.\<close>

fun evidence_ok :: "jsv \<Rightarrow> bool" where
  "evidence_ok (JArr xs) = list_all evidence_ok xs"
| "evidence_ok (JObj es) \<longleftrightarrow>
     \<not> is_buffer_json es \<and> list_all (\<lambda>(k, v). \<not> SENSITIVE_KEY k \<and> evidence_ok v) es"
| "evidence_ok JUndef = False"
| "evidence_ok JOther = False"
| "evidence_ok JNonFinite = False"
| "evidence_ok (JBytes bs) = False"
| "evidence_ok _ = True"

lemma sequence_Inr_iff: "sequence rs = Inr xs \<longleftrightarrow> rs = map Inr xs"
  by (induction rs arbitrary: xs) (auto simp: Cons_eq_map_conv)

lemma sequence_succeeds_iff: "(\<exists>xs. sequence rs = Inr xs) \<longleftrightarrow> list_all succeeded rs"
  by (induction rs) (auto simp: succeeded_iff)

lemma exact_member_Inr_iff:
  "exact_member (k, r) = Inr m \<longleftrightarrow> \<not> SENSITIVE_KEY k \<and> (\<exists>v. r = Inr v \<and> m = (k, v))"
  by (auto simp: exact_member_def)

lemma sort_key_map_values:
  "(\<And>x. f (g x) = f' x) \<Longrightarrow> sort_key f (map g xs) = map g (sort_key f' xs)"
proof (induction xs)
  case (Cons x xs)
  have ins: "insort_key f (g y) (map g ys) = map g (insort_key f' y ys)" for y ys
    using Cons.prems by (induction ys) auto
  from Cons show ?case by (simp add: ins)
qed simp

lemma map_exact_member_Inr:
  "map exact_member ms = map Inr ys \<longleftrightarrow>
     ms = map (\<lambda>(k, v). (k, Inr v)) ys \<and> list_all (\<lambda>(k, v). \<not> SENSITIVE_KEY k) ys"
proof (induction ms arbitrary: ys)
  case (Cons m ms)
  obtain k r where "m = (k, r)" by (cases m)
  with Cons show ?case
    by (cases ys) (auto simp: exact_member_Inr_iff)
qed auto

lemma exactNonsecret_canonical_aux:
  "\<forall>w. exactNonsecret v = Inr w \<longleftrightarrow> evidence_ok v \<and> w = canonical v"
  "exact_elements xs = map Inr ys \<longleftrightarrow> list_all evidence_ok xs \<and> ys = canonical_elements xs"
  "exact_members es = map (\<lambda>(k, v). (k, Inr v)) ms \<and> list_all (\<lambda>(k, v). \<not> SENSITIVE_KEY k) ms
   \<longleftrightarrow> list_all (\<lambda>(k, v). \<not> SENSITIVE_KEY k \<and> evidence_ok v) es \<and> ms = canonical_members es"
proof (induction v and xs and es arbitrary: and ys and ms
    rule: canonical_canonical_elements_canonical_members.induct)
  case (1 xs)
  then show ?case by (auto simp: sequence_Inr_iff)
next
  case (2 es)
  let ?ins = "\<lambda>(k :: string, v :: jsv). (k, Inr v :: (evidence_error, jsv) result)"
  have sorted_iff: "sort_key fst (exact_members es) = map ?ins ms
      \<and> list_all (\<lambda>(k, v). \<not> SENSITIVE_KEY k) ms
      \<longleftrightarrow> list_all (\<lambda>(k, v). \<not> SENSITIVE_KEY k \<and> evidence_ok v) es
          \<and> ms = sort_key fst (canonical_members es)" for ms
  proof
    assume l: "sort_key fst (exact_members es) = map ?ins ms \<and> list_all (\<lambda>(k, v). \<not> SENSITIVE_KEY k) ms"
    have sets: "set (exact_members es) = set (map ?ins ms)" using l by (metis set_sort)
    then have "\<forall>p \<in> set (exact_members es). \<exists>q. p = ?ins q" by auto
    then have "\<exists>us. exact_members es = map ?ins us" by (simp only: ex_map_conv)
    then obtain us where us: "exact_members es = map ?ins us" by blast
    have "set us = set ms"
    proof -
      have "?ins ` set us = ?ins ` set ms"
        using us sets by simp
      moreover have "inj ?ins" by (auto simp: inj_def)
      ultimately show ?thesis by (simp add: inj_image_eq_iff)
    qed
    with l have "list_all (\<lambda>(k, v). \<not> SENSITIVE_KEY k) us" by (simp add: list_all_iff)
    with us 2 have es: "list_all (\<lambda>(k, v). \<not> SENSITIVE_KEY k \<and> evidence_ok v) es" "us = canonical_members es"
      by blast+
    have "sort_key fst (map ?ins us) = map ?ins (sort_key fst us)"
      by (rule sort_key_map_values) auto
    with l us have "map ?ins ms = map ?ins (sort_key fst us)" by simp
    then have "ms = sort_key fst us" by (rule map_injective) (auto simp: inj_def)
    with es show "list_all (\<lambda>(k, v). \<not> SENSITIVE_KEY k \<and> evidence_ok v) es
        \<and> ms = sort_key fst (canonical_members es)" by simp
  next
    assume r: "list_all (\<lambda>(k, v). \<not> SENSITIVE_KEY k \<and> evidence_ok v) es
        \<and> ms = sort_key fst (canonical_members es)"
    then have c: "exact_members es = map ?ins (canonical_members es)"
      "list_all (\<lambda>(k, v). \<not> SENSITIVE_KEY k) (canonical_members es)"
      using 2 by blast+
    have "sort_key fst (map ?ins (canonical_members es)) = map ?ins (sort_key fst (canonical_members es))"
      by (rule sort_key_map_values) auto
    with r c show "sort_key fst (exact_members es) = map ?ins ms \<and> list_all (\<lambda>(k, v). \<not> SENSITIVE_KEY k) ms"
      by (simp add: list_all_iff)
  qed
  have "exactNonsecret (JObj es) = Inr w \<longleftrightarrow> \<not> is_buffer_json es \<and>
      (\<exists>ms. (sort_key fst (exact_members es) = map ?ins ms \<and> list_all (\<lambda>(k, v). \<not> SENSITIVE_KEY k) ms)
            \<and> w = JObj ms)" for w
    by (auto simp: sequence_Inr_iff map_exact_member_Inr)
  then show ?case unfolding sorted_iff by simp
next
  case (5 x xs)
  then show ?case by (auto simp: Cons_eq_map_conv)
next
  case (7 k v es)
  then show ?case by (fastforce simp: Cons_eq_map_conv)
qed auto

lemma exactNonsecretJson_iff:
  "exactNonsecretJson v m = Inr w \<longleftrightarrow> evidence_ok v \<and> w = canonical v \<and> jsonByteLength (canonical v) \<le> m"
proof -
  have "evidence_ok v \<and> x = canonical v" if "exactNonsecret v = Inr x" for x
    using exactNonsecret_canonical_aux(1) [of v] that by blast
  moreover have "exactNonsecret v = Inr (canonical v)" if "evidence_ok v"
    using exactNonsecret_canonical_aux(1) [of v] that by blast
  ultimately show ?thesis by (cases "exactNonsecret v") (auto simp: exactNonsecretJson_def)
qed

end
