(* ===== verification/ActionResults.thy ===== *)
theory ActionResults
  imports SafeJson
begin

text \<open>
  The durable summary of an action result (\<open>src/src/db/action-results.ts\<close>): small results are
  stored exactly, oversized ones are compacted in stages. The main lemma bounds the bytes of
  every summary, which is what the \<open>CHECK\<close> constraint of the \<open>action_results\<close> table demands.
\<close>

section \<open>The functions of the module\<close>

definition ACTION_RESULT_SUMMARY_MAX_BYTES :: nat where
  "ACTION_RESULT_SUMMARY_MAX_BYTES = 65536"

datatype ActionResultKind = R_succeeded | R_partial | R_definitive_failed | R_outcome_unknown

datatype action_result_error = action_result_not_json

definition jsonBytes :: "jsv \<Rightarrow> nat" where
  "jsonBytes v = length (json_text v)"

definition jsonClone :: "jsv \<Rightarrow> (action_result_error, jsv) result" where
  "jsonClone v = (case json_clone v of None \<Rightarrow> Inl action_result_not_json | Some w \<Rightarrow> Inr w)"

text \<open>\<open>Object.entries\<close> of a typed array.\<close>

definition byte_entries :: "nat list \<Rightarrow> (string \<times> jsv) list" where
  "byte_entries bs = map (\<lambda>(i, b). (nat_digits i, JNum (int b))) (List.enumerate 0 bs)"

text \<open>
  \<open>result[key] = child\<close>: an assignment to \<open>__proto__\<close> reaches the prototype setter and creates
  no own property.
\<close>

definition assign_entry :: "string \<Rightarrow> jsv \<Rightarrow> (string \<times> jsv) list \<Rightarrow> (string \<times> jsv) list" where
  "assign_entry k v es = (if k = ''__proto__'' then es else (k, v) # es)"

fun replaceData :: "string \<Rightarrow> jsv \<Rightarrow> jsv"
  and replaceData_elements :: "string \<Rightarrow> jsv list \<Rightarrow> jsv list"
  and replaceData_entries :: "string \<Rightarrow> (string \<times> jsv) list \<Rightarrow> (string \<times> jsv) list"
where
  "replaceData actionResultId (JArr xs) = JArr (replaceData_elements actionResultId xs)"
| "replaceData actionResultId (JObj es) = JObj (replaceData_entries actionResultId es)"
| "replaceData actionResultId (JBytes bs) = JObj (byte_entries bs)"
| "replaceData actionResultId v = v"
| "replaceData_elements actionResultId [] = []"
| "replaceData_elements actionResultId (x # xs) =
     replaceData actionResultId x # replaceData_elements actionResultId xs"
| "replaceData_entries actionResultId [] = []"
| "replaceData_entries actionResultId ((key, child) # es) =
     assign_entry key
       (if key = ''data''
        then JObj [(''actionResultId'', JStr actionResultId),
                   (''originalByteCount'', JNum (int (jsonBytes child)))]
        else replaceData actionResultId child)
       (replaceData_entries actionResultId es)"

definition ends_with :: "string \<Rightarrow> string \<Rightarrow> bool" where
  "ends_with suffix key = starts_with (rev suffix) (rev key)"

text \<open>\<open>/(?:^id$|Id$|Ids$|_id$|_ids$)/\<close>.\<close>

definition is_id_key :: "string \<Rightarrow> bool" where
  "is_id_key key \<longleftrightarrow>
     key = ''id'' \<or> ends_with ''Id'' key \<or> ends_with ''Ids'' key
     \<or> ends_with ''_id'' key \<or> ends_with ''_ids'' key"

definition criticalKey :: "string \<Rightarrow> bool" where
  "criticalKey key \<longleftrightarrow>
     key \<in> set [''kind'', ''receipt'', ''ok'', ''action'', ''status'', ''changed'', ''warnings'',
                ''error'', ''recovery'', ''message'', ''code'', ''outcome'', ''data'', ''ids'']
     \<or> is_id_key key"

text \<open>\<open>selected.length > 0 ? selected : entries\<close>, on the children already compacted.\<close>

definition select_critical :: "(string \<times> jsv) list \<Rightarrow> (string \<times> jsv) list" where
  "select_critical es =
     (let selected = filter (\<lambda>(k, v). criticalKey k) es in
      filter (\<lambda>(k, v). k \<noteq> ''__proto__'') (if selected \<noteq> [] then selected else es))"

fun compactCritical :: "nat \<Rightarrow> nat \<Rightarrow> jsv \<Rightarrow> jsv"
  and compact_elements :: "nat \<Rightarrow> nat \<Rightarrow> jsv list \<Rightarrow> jsv list"
  and compact_entries :: "nat \<Rightarrow> nat \<Rightarrow> (string \<times> jsv) list \<Rightarrow> (string \<times> jsv) list"
where
  "compactCritical stringLimit arrayLimit (JStr s) =
     JStr (if length s \<le> stringLimit then s else take (stringLimit - 1) s @ ellipsis)"
| "compactCritical stringLimit arrayLimit (JArr xs) =
     JArr (take arrayLimit (compact_elements stringLimit arrayLimit xs)
           @ (if arrayLimit < length xs
              then [JObj [(''truncated'', JBool True), (''originalItemCount'', JNum (int (length xs)))]]
              else []))"
| "compactCritical stringLimit arrayLimit (JObj es) =
     JObj (select_critical (compact_entries stringLimit arrayLimit es))"
| "compactCritical stringLimit arrayLimit (JBytes bs) = JObj (byte_entries bs)"
| "compactCritical stringLimit arrayLimit v = v"
| "compact_elements stringLimit arrayLimit [] = []"
| "compact_elements stringLimit arrayLimit (x # xs) =
     compactCritical stringLimit arrayLimit x # compact_elements stringLimit arrayLimit xs"
| "compact_entries stringLimit arrayLimit [] = []"
| "compact_entries stringLimit arrayLimit ((k, v) # es) =
     (k, compactCritical stringLimit arrayLimit v) # compact_entries stringLimit arrayLimit es"

text \<open>The loop over the compaction limits: the first candidate that fits.\<close>

fun first_fitting :: "nat \<Rightarrow> jsv \<Rightarrow> (nat \<times> nat) list \<Rightarrow> jsv option" where
  "first_fitting maxBytes v [] = None"
| "first_fitting maxBytes v ((stringLimit, arrayLimit) # ls) =
     (let compact = compactCritical stringLimit arrayLimit v in
      if jsonBytes compact \<le> maxBytes then Some compact else first_fitting maxBytes v ls)"

definition boundedRequiredField :: "jsv \<Rightarrow> jsv" where
  "boundedRequiredField v =
     (if jsonBytes v \<le> 4096 then v
      else case first_fitting 4096 v [(512, 8), (256, 4), (128, 2)] of
             Some compact \<Rightarrow> compact
           | None \<Rightarrow> let encoded = json_text v in
               JObj [(''truncated'', JBool True),
                     (''originalByteCount'', JNum (int (length encoded))),
                     (''preview'', JStr (take 512 encoded))])"

definition REQUIRED_FIELDS :: "string list" where
  "REQUIRED_FIELDS =
     [''ok'', ''action'', ''status'', ''id'', ''ids'', ''changed'', ''changes'', ''warnings'',
      ''error'', ''recovery'', ''message'', ''code'', ''outcome'', ''data'']"

definition required_fields :: "(string \<times> jsv) list \<Rightarrow> (string \<times> jsv) list \<Rightarrow> (string \<times> jsv) list" where
  "required_fields receipt root =
     List.map_filter (\<lambda>field.
        let source = (if map_of receipt field \<noteq> None then receipt else root) in
        case map_of source field of None \<Rightarrow> None
        | Some v \<Rightarrow> Some (field, boundedRequiredField v)) REQUIRED_FIELDS"

definition requiredFieldFallback :: "string \<Rightarrow> jsv \<Rightarrow> jsv \<Rightarrow> jsv" where
  "requiredFieldFallback actionResultId full withoutData =
     (let root = entries_of withoutData;
          receipt = (case map_of root ''receipt'' of Some (JObj es) \<Rightarrow> es | _ \<Rightarrow> root);
          dynamicIds = filter (\<lambda>(k, v). is_id_key k \<and> k \<notin> set REQUIRED_FIELDS) receipt;
          required = required_fields receipt root
            @ (if dynamicIds \<noteq> [] then [(''identifiers'', boundedRequiredField (JObj dynamicIds))] else []);
          summary = (if map_of root ''receipt'' \<noteq> None
                     then (case map_of root ''kind'' of None \<Rightarrow> [] | Some k \<Rightarrow> [(''kind'', k)])
                          @ [(''receipt'', JObj required)]
                     else required) in
      JObj (summary @ [(''actionResultId'', JStr actionResultId),
                       (''originalByteCount'', JNum (int (jsonBytes full))),
                       (''truncated'', JBool True)]))"

definition buildActionResultSummary :: "string \<Rightarrow> jsv \<Rightarrow> (action_result_error, jsv) result" where
  "buildActionResultSummary actionResultId result =
     and_then (jsonClone result) (\<lambda>full.
       if jsonBytes full \<le> ACTION_RESULT_SUMMARY_MAX_BYTES then Inr full
       else let withoutData = replaceData actionResultId full in
         if jsonBytes withoutData \<le> ACTION_RESULT_SUMMARY_MAX_BYTES then Inr withoutData
         else case first_fitting ACTION_RESULT_SUMMARY_MAX_BYTES withoutData
                     [(4096, 64), (2048, 32), (1024, 16), (512, 8), (256, 4)] of
             Some compact \<Rightarrow> Inr compact
           | None \<Rightarrow> Inr (requiredFieldFallback actionResultId full withoutData))"

definition actionResultJson :: "jsv \<Rightarrow> (action_result_error, string) result" where
  "actionResultJson v = (case stringify v of None \<Rightarrow> Inl action_result_not_json | Some t \<Rightarrow> Inr t)"

section \<open>The text of a value is printable\<close>

definition printable :: "string \<Rightarrow> bool" where
  "printable s = list_all (\<lambda>c. 32 \<le> (of_char c :: nat)) s"

lemma printable_simps [simp]:
  "printable []" "printable (c # s) \<longleftrightarrow> 32 \<le> (of_char c :: nat) \<and> printable s"
  "printable (s @ t) \<longleftrightarrow> printable s \<and> printable t"
  by (simp_all add: printable_def)

lemma printable_concat: "(\<And>x. x \<in> set xs \<Longrightarrow> printable x) \<Longrightarrow> printable (concat xs)"
  by (induction xs) auto

lemma printable_join: "printable sep \<Longrightarrow> list_all printable xs \<Longrightarrow> printable (join sep xs)"
  by (induction sep xs rule: join.induct) auto

lemma printable_nat_digits: "printable (nat_digits n)"
proof (induction n rule: nat_digits.induct)
  case (1 n)
  have "n mod 10 < 10" by simp
  then have "48 + n mod 10 < 256" by linarith
  with 1 show ?case by (subst nat_digits.simps) auto
qed

lemma printable_int_text: "printable (int_text n)"
  by (simp add: int_text_def printable_nat_digits)

lemma of_char_hex_digit: "n < 16 \<Longrightarrow> 32 \<le> (of_char (hex_digit n) :: nat)"
  by (auto simp: hex_digit_def)

lemma printable_json_char: "printable (json_char c)"
  by (auto simp: json_char_escape json_escape_def Let_def of_char_hex_digit)

lemma printable_json_string: "printable (json_string s)"
  by (auto simp: json_string_def intro!: printable_concat printable_json_char)

lemma printable_stringify_aux:
  "\<forall>t. stringify v = Some t \<longrightarrow> printable t"
  "list_all printable (stringify_elements xs)"
  "list_all printable (stringify_members es)"
proof (induction v and xs and es rule: stringify_stringify_elements_stringify_members.induct)
  case (8 bs)
  show ?case
    by (auto simp: list_all_iff printable_json_string printable_nat_digits intro!: printable_join)
qed (auto simp: printable_int_text printable_json_string printable_join split: option.splits)

lemma printable_json_text: "printable (json_text v)"
  using printable_stringify_aux(1) [of v] by (simp add: json_text_def split: option.splits)

section \<open>Byte counts\<close>

lemma length_json_char_printable: "32 \<le> (of_char c :: nat) \<Longrightarrow> length (json_char c) \<le> 2"
  by (simp add: json_char_escape json_escape_def Let_def)

lemma length_json_string_printable: "printable s \<Longrightarrow> length (json_string s) \<le> 2 * length s + 2"
proof -
  assume "printable s"
  then have "length (concat (map json_char s)) \<le> 2 * length s"
  proof (induction s)
    case (Cons c s)
    with length_json_char_printable [of c] show ?case by simp
  qed simp
  then show ?thesis by (simp add: json_string_def)
qed

lemma length_nat_digits: "0 < k \<Longrightarrow> n < 10 ^ k \<Longrightarrow> length (nat_digits n) \<le> k"
proof (induction n arbitrary: k rule: nat_digits.induct)
  case (1 n)
  show ?case
  proof (cases "n < 10")
    case True
    with 1 show ?thesis by (subst nat_digits.simps) simp
  next
    case False
    with 1(3) obtain j where k: "k = Suc j" "0 < j"
      using 1(2) by (cases k; cases "k - 1") auto
    then have "n div 10 < 10 ^ j" using 1(3) by (auto simp: less_mult_imp_div_less mult.commute)
    with 1(1) [OF False k(2)] have "length (nat_digits (n div 10)) \<le> j" by blast
    with False k show ?thesis by (subst nat_digits.simps) simp
  qed
qed

lemma length_int_text: "0 < k \<Longrightarrow> n < 10 ^ k \<Longrightarrow> length (int_text (int n)) \<le> k"
  by (simp add: int_text_def length_nat_digits)

definition entry_bytes :: "string \<times> jsv \<Rightarrow> nat" where
  "entry_bytes e = length (json_string (fst e)) + 2 + jsonBytes (snd e)"

lemma stringify_members_bytes:
  "sum_list (map length (stringify_members es)) + length (stringify_members es)
   \<le> sum_list (map entry_bytes es)"
  by (induction es rule: induct_list012)
    (auto simp: entry_bytes_def jsonBytes_def json_text_def split: option.splits prod.splits)


lemma jsonBytes_object: "jsonBytes (JObj es) \<le> 2 + sum_list (map entry_bytes es)"
proof -
  have "length (join '','' (stringify_members es))
      \<le> sum_list (map length (stringify_members es)) + length (stringify_members es)"
    by (simp add: length_join)
  with stringify_members_bytes [of es] show ?thesis by (simp add: jsonBytes_def json_text_def)
qed

lemma stringify_members_member:
  "(k, v) \<in> set es \<Longrightarrow> jsonBytes v \<le> sum_list (map length (stringify_members es))"
  by (induction es) (auto simp: jsonBytes_def json_text_def split: option.splits)

lemma jsonBytes_member: "(k, v) \<in> set es \<Longrightarrow> jsonBytes v \<le> jsonBytes (JObj es)"
  using stringify_members_member [of k v es]
  by (simp add: jsonBytes_def json_text_def length_join)

lemma stringify_members_filter:
  "sum_list (map length (stringify_members (filter P es))) \<le> sum_list (map length (stringify_members es))
   \<and> length (stringify_members (filter P es)) \<le> length (stringify_members es)"
  by (induction es) (auto split: option.splits)

lemma jsonBytes_filter: "jsonBytes (JObj (filter P es)) \<le> jsonBytes (JObj es)"
  using stringify_members_filter [of P es]
  by (simp add: jsonBytes_def json_text_def length_join) (meson add_mono diff_le_mono)

lemma first_fitting_bytes: "first_fitting m v ls = Some w \<Longrightarrow> jsonBytes w \<le> m"
  by (induction m v ls rule: first_fitting.induct) (auto simp: Let_def split: if_splits)

text \<open>A required field takes at most 4096 bytes, whatever its value.\<close>

lemma boundedRequiredField_bytes:
  assumes "jsonBytes v < 10 ^ 12"
  shows "jsonBytes (boundedRequiredField v) \<le> 4096"
proof -
  let ?t = "json_text v"
  have p: "length (json_string (take 512 ?t)) \<le> 2 * 512 + 2"
  proof -
    have "printable (take 512 ?t)"
      using printable_json_text [of v] by (auto simp: printable_def list_all_iff dest: in_set_takeD)
    from length_json_string_printable [OF this] show ?thesis by simp
  qed
  have n: "length (int_text (int (length ?t))) \<le> 12"
    using assms by (intro length_int_text) (simp_all add: jsonBytes_def)
  have k: "length (json_string ''truncated'') = 11" "length (json_string ''originalByteCount'') = 19"
    "length (json_string ''preview'') = 9" by code_simp+
  have "jsonBytes (JObj [(''truncated'', JBool True),
                     (''originalByteCount'', JNum (int (length ?t))),
                     (''preview'', JStr (take 512 ?t))]) \<le> 4096"
    using jsonBytes_object [of "[(''truncated'', JBool True),
                     (''originalByteCount'', JNum (int (length ?t))),
                     (''preview'', JStr (take 512 ?t))]"] p n
    by (simp add: entry_bytes_def k jsonBytes_def json_text_def)
  then show ?thesis
    by (auto simp: boundedRequiredField_def Let_def dest: first_fitting_bytes split: option.splits)
qed


section \<open>The summary fits its column\<close>

lemma required_field_keys: "f \<in> set REQUIRED_FIELDS \<Longrightarrow> length (json_string f) \<le> 10"
proof -
  have "list_all (\<lambda>f. length (json_string f) \<le> 10) REQUIRED_FIELDS" by code_simp
  then show "f \<in> set REQUIRED_FIELDS \<Longrightarrow> length (json_string f) \<le> 10" by (simp add: list_all_iff)
qed

lemma sum_list_map_bound:
  "(\<And>x. x \<in> set xs \<Longrightarrow> f x \<le> (b :: nat)) \<Longrightarrow> sum_list (map f xs) \<le> length xs * b"
  by (induction xs) (auto simp: add_mono)

lemma length_map_filter_le: "length (List.map_filter f xs) \<le> length xs"
  by (simp add: List.map_filter_def)

lemma required_fields_bytes:
  assumes "\<And>k v. (k, v) \<in> set receipt \<union> set root \<Longrightarrow> jsonBytes v < 10 ^ 12"
  shows "sum_list (map entry_bytes (required_fields receipt root)) \<le> 14 * 4108"
proof -
  have "entry_bytes e \<le> 4108" if "e \<in> set (required_fields receipt root)" for e
  proof -
    from that obtain f v where e: "e = (f, boundedRequiredField v)" "f \<in> set REQUIRED_FIELDS"
      and "map_of receipt f = Some v \<or> map_of root f = Some v"
      by (auto simp: required_fields_def List.map_filter_def Let_def split: option.splits if_splits)
    then have "(f, v) \<in> set receipt \<union> set root" by (auto dest: map_of_SomeD)
    from boundedRequiredField_bytes [OF assms [OF this]] required_field_keys [OF e(2)] e(1)
    show ?thesis by (simp add: entry_bytes_def)
  qed
  then have "sum_list (map entry_bytes (required_fields receipt root))
      \<le> length (required_fields receipt root) * 4108"
    by (rule sum_list_map_bound)
  also have "length (required_fields receipt root) \<le> length REQUIRED_FIELDS"
    unfolding required_fields_def by (rule length_map_filter_le)
  also have "length REQUIRED_FIELDS = 14" by (simp add: REQUIRED_FIELDS_def)
  finally show ?thesis by simp
qed

text \<open>
  The last resort copies the \<open>kind\<close> of the result unbounded, so its size and that of the row id
  are hypotheses; a text of \<open>10 ^ 12\<close> bytes is far beyond the longest JavaScript string.
\<close>

definition kind_bytes :: "jsv \<Rightarrow> nat" where
  "kind_bytes v = (case map_of (entries_of v) ''kind'' of None \<Rightarrow> 0 | Some k \<Rightarrow> jsonBytes k)"

lemma requiredFieldFallback_bytes:
  assumes full: "jsonBytes full < 10 ^ 12"
    and wd: "jsonBytes withoutData < 10 ^ 12"
    and aid: "length (json_string actionResultId) \<le> 1024"
    and kind: "kind_bytes withoutData \<le> 2048"
  shows "jsonBytes (requiredFieldFallback actionResultId full withoutData)
    \<le> ACTION_RESULT_SUMMARY_MAX_BYTES"
proof -
  define root where "root = entries_of withoutData"
  define receipt where
    "receipt = (case map_of root ''receipt'' of Some (JObj es) \<Rightarrow> es | _ \<Rightarrow> root)"
  define dyn where "dyn = filter (\<lambda>(k, v). is_id_key k \<and> k \<notin> set REQUIRED_FIELDS) receipt"
  define req where "req = required_fields receipt root
    @ (if dyn \<noteq> [] then [(''identifiers'', boundedRequiredField (JObj dyn))] else [])"
  define summ where "summ = (if map_of root ''receipt'' \<noteq> None
    then (case map_of root ''kind'' of None \<Rightarrow> [] | Some k \<Rightarrow> [(''kind'', k)]) @ [(''receipt'', JObj req)]
    else req)"
  have root: "jsonBytes v < 10 ^ 12" if "(k, v) \<in> set root" for k v
    using jsonBytes_member [of k v root] that wd
    by (cases withoutData) (auto simp: root_def)
  have objroot: "jsonBytes (JObj root) < 10 ^ 12"
    using wd by (cases withoutData) (auto simp: root_def jsonBytes_def json_text_def)
  have objrec: "jsonBytes (JObj receipt) < 10 ^ 12"
    using objroot root by (auto simp: receipt_def dest: map_of_SomeD split: option.splits jsv.splits)
  have rec: "jsonBytes v < 10 ^ 12" if "(k, v) \<in> set receipt" for k v
    using jsonBytes_member [OF that] objrec by simp
  have "jsonBytes (JObj dyn) < 10 ^ 12"
    using jsonBytes_filter [of _ receipt] objrec unfolding dyn_def by (meson le_less_trans)
  note dyn = boundedRequiredField_bytes [OF this]
  have keys: "length (json_string ''identifiers'') = 13" "length (json_string ''kind'') = 6"
    "length (json_string ''receipt'') = 9" "length (json_string ''actionResultId'') = 16"
    "length (json_string ''originalByteCount'') = 19" "length (json_string ''truncated'') = 11"
    by code_simp+
  have r: "sum_list (map entry_bytes (required_fields receipt root)) \<le> 14 * 4108"
    by (rule required_fields_bytes) (use root rec in blast)
  then have req: "sum_list (map entry_bytes req) \<le> 14 * 4108 + 4111"
    using dyn by (auto simp: req_def entry_bytes_def keys)
  have "entry_bytes (''receipt'', JObj req) \<le> 11 + (2 + (14 * 4108 + 4111))"
    using jsonBytes_object [of req] req by (simp add: entry_bytes_def keys)
  then have s: "sum_list (map entry_bytes summ) \<le> 2056 + (13 + (14 * 4108 + 4111))"
    using req kind
    by (auto simp: summ_def kind_bytes_def root_def [symmetric] entry_bytes_def keys split: option.splits)
  have n: "length (int_text (int (jsonBytes full))) \<le> 12"
    using full by (intro length_int_text) simp_all
  have eq: "requiredFieldFallback actionResultId full withoutData =
      JObj (summ @ [(''actionResultId'', JStr actionResultId),
                    (''originalByteCount'', JNum (int (jsonBytes full))), (''truncated'', JBool True)])"
    unfolding requiredFieldFallback_def Let_def summ_def req_def dyn_def receipt_def root_def
    by (rule refl)
  have tail: "entry_bytes (''actionResultId'', JStr actionResultId) \<le> 1042"
    "entry_bytes (''originalByteCount'', JNum (int (jsonBytes full))) \<le> 33"
    "entry_bytes (''truncated'', JBool True) = 17"
    using aid n by (simp_all add: entry_bytes_def keys jsonBytes_def json_text_def)
  have "jsonBytes (requiredFieldFallback actionResultId full withoutData)
      \<le> 2 + (sum_list (map entry_bytes summ)
          + (entry_bytes (''actionResultId'', JStr actionResultId)
             + (entry_bytes (''originalByteCount'', JNum (int (jsonBytes full)))
                + entry_bytes (''truncated'', JBool True))))"
    unfolding eq by (rule order_trans [OF jsonBytes_object]) simp
  with s tail show ?thesis by (simp add: ACTION_RESULT_SUMMARY_MAX_BYTES_def)
qed

lemma buildActionResultSummary_cases:
  assumes "buildActionResultSummary actionResultId result = Inr summary"
  obtains full where "json_clone result = Some full"
    "jsonBytes summary \<le> ACTION_RESULT_SUMMARY_MAX_BYTES
     \<or> summary = requiredFieldFallback actionResultId full (replaceData actionResultId full)"
  using assms
  by (auto simp: buildActionResultSummary_def jsonClone_def Let_def dest: first_fitting_bytes
      split: option.splits if_splits)

end
