(* ===== verification/Discriminators.thy ===== *)
theory Discriminators
  imports ActionResults
begin

text \<open>
  The closed origin/registry/authority/executor matrix
  (\<open>src/src/harness/action-discriminators.ts\<close>) and its enforcement in the database, the four
  discriminator triggers of \<open>src/src/db/schema.ts\<close>. A stored JSON text is kept together with
  what \<open>JSON.parse\<close> makes of it, so that a corrupt column is representable.
\<close>

datatype ActionOrigin = assistant | direct_ui | system | live_test

datatype RegistryId = v1_internal | v2_api | v2_local

datatype AuthorityModel =
    legacy_v1_authority
  | intent_capability_v1
  | preview_confirmation_v2
  | trusted_direct_v2
  | undo_v2

datatype ExecutorKind =
    legacy_v1_executor
  | prepared_safe_write
  | risky_commit
  | direct_safe_write
  | undo_commit

datatype stored_json = Stored (stored_text: string) (stored_value: "jsv option")

definition stored :: "jsv \<Rightarrow> stored_json" where
  "stored v = Stored (json_text v) (Some v)"

record DiscriminatorTuple =
  d_origin :: "ActionOrigin option"
  d_registryId :: "RegistryId option"
  d_authorityModel :: "AuthorityModel option"
  d_executorKind :: "ExecutorKind option"
  d_runId :: "string option"
  d_batchId :: "string option"
  d_sourceUndoId :: "string option"
  d_sourceUndoHash :: "string option"
  d_fieldProvenanceJson :: "stored_json option"
  d_fieldProvenanceHash :: "string option"

datatype DiscriminatorSurface = pending_confirmation | operation_run

datatype DiscriminatorMatrixResult =
    Matrix_ok
  | discriminator_incomplete
  | confirmation_authority_invalid
  | discriminator_matrix_invalid

definition TRUSTED_ORIGINS :: "ActionOrigin list" where
  "TRUSTED_ORIGINS = [direct_ui, system, live_test]"

definition PREVIEW_EXECUTORS :: "ExecutorKind list" where
  "PREVIEW_EXECUTORS = [prepared_safe_write, risky_commit]"

definition V1_AUTHORITIES :: "AuthorityModel list" where
  "V1_AUTHORITIES = [legacy_v1_authority, intent_capability_v1]"

definition is_hex_lower :: "char \<Rightarrow> bool" where
  "is_hex_lower c = (let n = (of_char c :: nat) in (48 \<le> n \<and> n \<le> 57) \<or> (97 \<le> n \<and> n \<le> 102))"

definition isSha256 :: "string option \<Rightarrow> bool" where
  "isSha256 v = (case v of None \<Rightarrow> False | Some s \<Rightarrow> length s = 64 \<and> list_all is_hex_lower s)"

definition isBoundedProvenanceJson :: "stored_json option \<Rightarrow> bool" where
  "isBoundedProvenanceJson v =
     (case v of None \<Rightarrow> False
      | Some j \<Rightarrow> length (stored_text j) \<le> 65536 \<and> stored_value j \<noteq> None)"

definition nonempty :: "string option \<Rightarrow> bool" where
  "nonempty v = (case v of None \<Rightarrow> False | Some s \<Rightarrow> s \<noteq> [])"

definition v1_row :: "RegistryId \<Rightarrow> AuthorityModel \<Rightarrow> ExecutorKind \<Rightarrow> bool" where
  "v1_row r a e \<longleftrightarrow> r = v1_internal \<and> a \<in> set V1_AUTHORITIES \<and> e = legacy_v1_executor"

definition preview_row :: "ActionOrigin \<Rightarrow> RegistryId \<Rightarrow> AuthorityModel \<Rightarrow> ExecutorKind \<Rightarrow> bool" where
  "preview_row o' r a e \<longleftrightarrow>
     o' = assistant \<and> r = v2_api \<and> a = preview_confirmation_v2 \<and> e \<in> set PREVIEW_EXECUTORS"

definition direct_row :: "ActionOrigin \<Rightarrow> RegistryId \<Rightarrow> AuthorityModel \<Rightarrow> ExecutorKind \<Rightarrow> bool" where
  "direct_row o' r a e \<longleftrightarrow>
     o' \<in> set TRUSTED_ORIGINS \<and> (r = v2_api \<or> r = v2_local) \<and> a = trusted_direct_v2
     \<and> e = direct_safe_write"

definition undo_row :: "ActionOrigin \<Rightarrow> RegistryId \<Rightarrow> AuthorityModel \<Rightarrow> ExecutorKind \<Rightarrow> bool" where
  "undo_row o' r a e \<longleftrightarrow>
     o' \<in> set TRUSTED_ORIGINS \<and> r = v2_local \<and> a = undo_v2 \<and> e = undo_commit"

definition validateDiscriminatorMatrix ::
  "DiscriminatorSurface \<Rightarrow> DiscriminatorTuple \<Rightarrow> DiscriminatorMatrixResult" where
  "validateDiscriminatorMatrix surface t =
     (case (d_origin t, d_registryId t, d_authorityModel t, d_executorKind t) of
        (Some o', Some r, Some a, Some e) \<Rightarrow>
          (if surface = pending_confirmation then
             if a = trusted_direct_v2 \<or> a = undo_v2 then confirmation_authority_invalid
             else if v1_row r a e then Matrix_ok
             else if preview_row o' r a e \<and> nonempty (d_runId t) then Matrix_ok
             else discriminator_matrix_invalid
           else if v1_row r a e then Matrix_ok
           else if preview_row o' r a e \<and> nonempty (d_runId t)
                \<and> isBoundedProvenanceJson (d_fieldProvenanceJson t)
                \<and> isSha256 (d_fieldProvenanceHash t) then Matrix_ok
           else if direct_row o' r a e then Matrix_ok
           else if undo_row o' r a e \<and> nonempty (d_sourceUndoId t) \<and> isSha256 (d_sourceUndoHash t)
             then Matrix_ok
           else discriminator_matrix_invalid)
      | _ \<Rightarrow> discriminator_incomplete)"

definition v1DiscriminatorFromCapability :: "string option \<Rightarrow> DiscriminatorTuple" where
  "v1DiscriminatorFromCapability capabilityId =
     \<lparr>d_origin = Some assistant, d_registryId = Some v1_internal,
      d_authorityModel = Some (if nonempty capabilityId then intent_capability_v1 else legacy_v1_authority),
      d_executorKind = Some legacy_v1_executor, d_runId = None, d_batchId = None,
      d_sourceUndoId = None, d_sourceUndoHash = None,
      d_fieldProvenanceJson = None, d_fieldProvenanceHash = None\<rparr>"

section \<open>The database triggers\<close>

text \<open>
  The \<open>WHEN\<close> condition of \<open>pending_confirmations_discriminator_insert\<close> (and \<open>_update\<close>), negated:
  the row is let through.
\<close>

definition confirmation_matrix_ok :: "DiscriminatorTuple \<Rightarrow> bool" where
  "confirmation_matrix_ok t \<longleftrightarrow>
     (case (d_origin t, d_registryId t, d_authorityModel t, d_executorKind t) of
        (Some o', Some r, Some a, Some e) \<Rightarrow>
          \<not> (a = trusted_direct_v2 \<or> a = undo_v2)
          \<and> (v1_row r a e \<or> (preview_row o' r a e \<and> d_runId t \<noteq> None))
      | _ \<Rightarrow> False)"

text \<open>
  The same for \<open>operation_runs\<close>; \<open>scope_exists\<close> is the \<open>EXISTS\<close> test on \<open>assistant_runs\<close>.
\<close>

definition operation_matrix_ok :: "bool \<Rightarrow> DiscriminatorTuple \<Rightarrow> bool" where
  "operation_matrix_ok scope_exists t \<longleftrightarrow>
     (case (d_origin t, d_registryId t, d_authorityModel t, d_executorKind t) of
        (Some o', Some r, Some a, Some e) \<Rightarrow>
          v1_row r a e
          \<or> (preview_row o' r a e \<and> d_runId t \<noteq> None
             \<and> (case d_fieldProvenanceJson t of None \<Rightarrow> False
                | Some j \<Rightarrow> stored_value j \<noteq> None \<and> length (stored_text j) \<le> 65536)
             \<and> (case d_fieldProvenanceHash t of None \<Rightarrow> False | Some h \<Rightarrow> length h = 64)
             \<and> scope_exists)
          \<or> direct_row o' r a e
          \<or> (undo_row o' r a e \<and> d_sourceUndoId t \<noteq> None
             \<and> (case d_sourceUndoHash t of None \<Rightarrow> False | Some h \<Rightarrow> length h = 64))
      | _ \<Rightarrow> False)"

section \<open>The validator against the triggers\<close>

lemma nonempty_Some: "nonempty v \<Longrightarrow> v \<noteq> None"
  by (simp add: nonempty_def split: option.splits)

lemma isSha256_length: "isSha256 v \<Longrightarrow> (case v of None \<Rightarrow> False | Some h \<Rightarrow> length h = 64)"
  by (simp add: isSha256_def split: option.splits)

lemma isBoundedProvenanceJson_trigger:
  "isBoundedProvenanceJson v \<longleftrightarrow>
     (case v of None \<Rightarrow> False | Some j \<Rightarrow> stored_value j \<noteq> None \<and> length (stored_text j) \<le> 65536)"
  by (auto simp: isBoundedProvenanceJson_def split: option.splits)

lemma validated_confirmation_passes_trigger:
  "validateDiscriminatorMatrix pending_confirmation t = Matrix_ok \<Longrightarrow> confirmation_matrix_ok t"
  by (auto simp: validateDiscriminatorMatrix_def confirmation_matrix_ok_def nonempty_def
      split: option.splits if_splits)

lemma validated_operation_passes_trigger:
  "validateDiscriminatorMatrix operation_run t = Matrix_ok \<Longrightarrow>
   d_authorityModel t = Some preview_confirmation_v2 \<longrightarrow> scope_exists \<Longrightarrow>
   operation_matrix_ok scope_exists t"
  unfolding validateDiscriminatorMatrix_def operation_matrix_ok_def
  by (cases "d_origin t"; cases "d_registryId t"; cases "d_authorityModel t"; cases "d_executorKind t")
    (auto simp: isBoundedProvenanceJson_trigger preview_row_def dest: isSha256_length nonempty_Some
      split: if_splits)

lemma v1_discriminator_passes:
  "confirmation_matrix_ok (v1DiscriminatorFromCapability c)"
  "operation_matrix_ok b (v1DiscriminatorFromCapability c)"
  by (simp_all add: confirmation_matrix_ok_def operation_matrix_ok_def v1DiscriminatorFromCapability_def
      v1_row_def V1_AUTHORITIES_def)

text \<open>
  A confirmation row never carries direct or undo authority, whatever the caller sends: the
  surface for previews is closed.
\<close>

lemma confirmation_matrix_closed:
  "confirmation_matrix_ok t \<Longrightarrow>
     d_authorityModel t \<in> {Some legacy_v1_authority, Some intent_capability_v1, Some preview_confirmation_v2}
     \<and> d_executorKind t \<in> {Some legacy_v1_executor, Some prepared_safe_write, Some risky_commit}"
  by (auto simp: confirmation_matrix_ok_def v1_row_def preview_row_def V1_AUTHORITIES_def
      PREVIEW_EXECUTORS_def split: option.splits)

end
