(* ===== verification/Database.thy ===== *)
theory Database
  imports Discriminators
begin

text \<open>
  The durable state: the tables of \<open>src/src/db/schema.ts\<close> that the confirmation, operation,
  batch, idempotency and recovery code reads and writes, with the constraints and triggers
  SQLite enforces on them. A table is the list of its rows. A statement returns \<open>Inl\<close> with the
  message of the constraint or trigger that aborts it, and a transaction that fails leaves the
  state it started from, since the new state only exists in the \<open>Inr\<close> value.

  Timestamps are milliseconds; the ISO texts the code compares are ordered like the instants
  they name. An \<open>expires_at\<close> text that is no date is \<open>None\<close>. Where two \<open>BEFORE\<close> triggers would
  both abort, the model reports the first one listed.
\<close>

section \<open>Rows\<close>

datatype PendingStatus =
    C_pending | C_executing | C_succeeded | C_partial | C_definitive_failed
  | C_outcome_unknown | C_cancelled | C_expired

datatype OperationRunStatus =
    O_prepared | O_executing | O_succeeded | O_partial | O_definitive_failed | O_outcome_unknown

datatype OperationStepKind = Primary | Compensation

datatype OperationStepStatus =
    S_prepared | S_executing | S_succeeded | S_definitive_failed | S_outcome_unknown
  | S_compensating | S_compensated | S_compensation_failed | S_skipped

datatype ConfirmationBatchStatus =
    B_pending | B_executing | B_succeeded | B_partial | B_definitive_failed
  | B_outcome_unknown | B_cancelled | B_expired

datatype ConfirmationBatchItemStatus =
    I_pending | I_executing | I_succeeded | I_definitive_failed | I_outcome_unknown | I_cancelled

datatype UndoStatus =
    U_available | U_executing | U_partially_undone | U_undone | U_failed | U_outcome_unknown | U_expired

datatype TurnStatus = T_prepared | T_executing | T_succeeded | T_failed | T_outcome_unknown

datatype RunPhase =
    P_model | P_discovering | P_executing_reads | P_preparing_writes
  | P_awaiting_confirmation | P_awaiting_clarification | P_completed | P_failed

record PendingRow =
  c_id :: string
  c_operation_id :: string
  c_session_id :: string
  c_workspace_id :: string
  c_admin_user_id :: string
  c_status :: PendingStatus
  c_risk :: jsv
  c_preview :: jsv
  c_operation :: "jsv option"
  c_installation_generation :: "int option"
  c_operation_hash :: string
  c_target_fingerprints :: jsv
  c_action_fingerprint :: string
  c_catalog_hash :: string
  c_capability_id :: "string option"
  c_capability_hash :: "string option"
  c_nonce_hash :: string
  c_expires_at :: "int option"
  c_created_at :: int
  c_used_at :: "int option"
  c_result_summary :: "jsv option"
  c_agent_state :: "stored_json option"
  c_action_result_id :: "string option"
  c_idempotency_key :: "string option"
  c_origin :: "ActionOrigin option"
  c_registry_id :: "RegistryId option"
  c_authority_model :: "AuthorityModel option"
  c_executor_kind :: "ExecutorKind option"
  c_run_id :: "string option"
  c_batch_id :: "string option"

record OperationRunRow =
  o_id :: string
  o_request_id :: "string option"
  o_confirmation_id :: "string option"
  o_session_id :: string
  o_workspace_id :: string
  o_admin_user_id :: string
  o_action_name :: string
  o_action_fingerprint :: string
  o_catalog_hash :: string
  o_operation_hash :: string
  o_status :: OperationRunStatus
  o_action_result_id :: "string option"
  o_operation :: stored_json
  o_reconciled_at :: "int option"
  o_reconciliation :: "jsv option"
  o_capability_id :: "string option"
  o_capability_hash :: "string option"
  o_disc :: DiscriminatorTuple
  o_created_at :: int
  o_updated_at :: int

record OperationStepRow =
  s_id :: string
  s_operation_id :: string
  s_step_index :: int
  s_plan_step_id :: string
  s_name :: string
  s_kind :: OperationStepKind
  s_status :: OperationStepStatus
  s_external_id :: "string option"
  s_target_fingerprint :: "string option"
  s_effect :: "jsv option"
  s_detail :: "jsv option"
  s_queued_at :: "int option"
  s_dispatched_at :: "int option"
  s_settled_at :: "int option"
  s_compensates_step_id :: "string option"
  s_created_at :: int
  s_updated_at :: int

record ActionResultRow =
  a_id :: string
  a_operation_id :: "string option"
  a_workspace_id :: string
  a_admin_user_id :: string
  a_session_id :: "string option"
  a_action_name :: string
  a_kind :: ActionResultKind
  a_result :: jsv
  a_summary :: jsv
  a_created_at :: int

record IdempotencyRow =
  i_key :: string
  i_workspace_id :: string
  i_admin_user_id :: string
  i_action_result_id :: "string option"
  i_result_summary :: "jsv option"
  i_committed_at :: "int option"
  i_claimed_at :: "int option"

record BatchRow =
  b_id :: string
  b_session_id :: string
  b_run_id :: string
  b_workspace_id :: string
  b_admin_user_id :: string
  b_ordered_tuple_hash :: string
  b_status :: ConfirmationBatchStatus
  b_current_index :: int
  b_action_result_id :: "string option"
  b_expires_at :: "int option"
  b_created_at :: int
  b_started_at :: "int option"
  b_completed_at :: "int option"

record BatchItemRow =
  bi_batch_id :: string
  bi_item_index :: int
  bi_session_id :: string
  bi_run_id :: string
  bi_workspace_id :: string
  bi_admin_user_id :: string
  bi_confirmation_id :: string
  bi_operation_id :: string
  bi_status :: ConfirmationBatchItemStatus
  bi_action_result_id :: "string option"
  bi_started_at :: "int option"
  bi_completed_at :: "int option"

record UndoRow =
  u_id :: string
  u_session_id :: string
  u_workspace_id :: string
  u_admin_user_id :: string
  u_action_name :: string
  u_installation_generation :: "int option"
  u_reversal :: jsv
  u_remaining :: jsv
  u_created_at :: int
  u_expires_at :: int
  u_status :: UndoStatus
  u_action_result_id :: "string option"
  u_result_summary :: "jsv option"
  u_undone_at :: "int option"

record TurnRow =
  t_session_id :: string
  t_request_id :: string
  t_status :: TurnStatus
  t_updated_at :: int

record AssistantRunRow =
  r_session_id :: string
  r_run_id :: string
  r_workspace_id :: string
  r_admin_user_id :: string
  r_phase :: RunPhase
  r_updated_at :: int

record RunEventRow =
  e_session_id :: string
  e_run_id :: string
  e_sequence :: int
  e_workspace_id :: string
  e_admin_user_id :: string
  e_event_type :: string
  e_payload :: jsv
  e_created_at :: int

text \<open>\<open>entropy\<close> counts the random identifiers drawn so far (\<open>randomUUID\<close>, \<open>randomblob\<close>).\<close>

record db =
  sessions :: "string list"
  confirmations :: "PendingRow list"
  runs :: "OperationRunRow list"
  steps :: "OperationStepRow list"
  results :: "ActionResultRow list"
  ledger :: "IdempotencyRow list"
  batches :: "BatchRow list"
  items :: "BatchItemRow list"
  undos :: "UndoRow list"
  turns :: "TurnRow list"
  assistant_runs :: "AssistantRunRow list"
  run_events :: "RunEventRow list"
  entropy :: nat

text \<open>The store context of one call: the clock and the source of random identifiers.\<close>

record env =
  now :: int
  uuid :: "nat \<Rightarrow> string"

type_synonym 'a tx = "db \<Rightarrow> (string, db \<times> 'a) result"

definition fresh_id :: "env \<Rightarrow> db \<Rightarrow> string \<times> db" where
  "fresh_id E d = (uuid E (entropy d), d\<lparr>entropy := Suc (entropy d)\<rparr>)"

definition emptyObject :: stored_json where
  "emptyObject = Stored ''{}'' (Some (JObj []))"

fun truthy :: "string option \<Rightarrow> bool" where
  "truthy None = False"
| "truthy (Some s) = (s \<noteq> [])"

fun run_status_of :: "ActionResultKind \<Rightarrow> OperationRunStatus" where
  "run_status_of R_succeeded = O_succeeded"
| "run_status_of R_partial = O_partial"
| "run_status_of R_definitive_failed = O_definitive_failed"
| "run_status_of R_outcome_unknown = O_outcome_unknown"

fun confirmation_status_of :: "ActionResultKind \<Rightarrow> PendingStatus" where
  "confirmation_status_of R_succeeded = C_succeeded"
| "confirmation_status_of R_partial = C_partial"
| "confirmation_status_of R_definitive_failed = C_definitive_failed"
| "confirmation_status_of R_outcome_unknown = C_outcome_unknown"

section \<open>Statements without triggers\<close>

text \<open>The \<open>CHECK\<close> on \<open>summary_json\<close>.\<close>

definition summary_fits :: "jsv \<Rightarrow> bool" where
  "summary_fits v \<longleftrightarrow> jsonBytes v \<le> ACTION_RESULT_SUMMARY_MAX_BYTES"

text \<open>
  \<open>INSERT INTO action_results\<close>: primary key, the partial unique index on \<open>operation_id\<close>, and the
  summary bound.
\<close>

definition insert_result :: "ActionResultRow \<Rightarrow> db \<Rightarrow> (string, db) result" where
  "insert_result a d =
     (if a_id a \<in> a_id ` set (results d) then Inl ''UNIQUE constraint failed: action_results.id''
      else if a_operation_id a \<noteq> None \<and> a_operation_id a \<in> a_operation_id ` set (results d)
      then Inl ''UNIQUE constraint failed: action_results.operation_id''
      else if \<not> summary_fits (a_summary a) then Inl ''CHECK constraint failed: summary_json''
      else Inr (d\<lparr>results := results d @ [a]\<rparr>))"

definition update_results ::
  "(ActionResultRow \<Rightarrow> bool) \<Rightarrow> (ActionResultRow \<Rightarrow> ActionResultRow) \<Rightarrow> nat tx" where
  "update_results P f d =
     (let matched = filter P (results d) in
      if list_all (\<lambda>a. summary_fits (a_summary (f a))) matched
      then Inr (d\<lparr>results := upd_where P f (results d)\<rparr>, length matched)
      else Inl ''CHECK constraint failed: summary_json'')"

definition result_of_operation :: "string \<Rightarrow> db \<Rightarrow> ActionResultRow option" where
  "result_of_operation oid d = find (\<lambda>a. a_operation_id a = Some oid) (results d)"

definition update_steps ::
  "(OperationStepRow \<Rightarrow> bool) \<Rightarrow> (OperationStepRow \<Rightarrow> OperationStepRow) \<Rightarrow> db \<Rightarrow> db \<times> nat" where
  "update_steps P f d =
     (d\<lparr>steps := upd_where P f (steps d)\<rparr>, length (filter P (steps d)))"

text \<open>
  \<open>INSERT INTO operation_steps\<close>: primary key, \<open>UNIQUE (operation_id, step_index)\<close>,
  \<open>UNIQUE (operation_id, plan_step_id)\<close>, the index check and the two foreign keys.
\<close>

definition insert_step :: "OperationStepRow \<Rightarrow> db \<Rightarrow> (string, db) result" where
  "insert_step s d =
     (if s_id s \<in> s_id ` set (steps d) then Inl ''UNIQUE constraint failed: operation_steps.id''
      else if s_step_index s < 0 then Inl ''CHECK constraint failed: step_index''
      else if list_ex (\<lambda>t. s_operation_id t = s_operation_id s
                          \<and> (s_step_index t = s_step_index s \<or> s_plan_step_id t = s_plan_step_id s)) (steps d)
      then Inl ''UNIQUE constraint failed: operation_steps''
      else if s_operation_id s \<notin> o_id ` set (runs d) then Inl ''FOREIGN KEY constraint failed''
      else if (case s_compensates_step_id s of None \<Rightarrow> False | Some k \<Rightarrow> k \<noteq> s_id s \<and> k \<notin> s_id ` set (steps d))
      then Inl ''FOREIGN KEY constraint failed''
      else Inr (d\<lparr>steps := steps d @ [s]\<rparr>))"

definition update_ledger ::
  "(IdempotencyRow \<Rightarrow> bool) \<Rightarrow> (IdempotencyRow \<Rightarrow> IdempotencyRow) \<Rightarrow> nat tx" where
  "update_ledger P f d =
     (let matched = filter P (ledger d) in
      if list_all (\<lambda>i. case i_result_summary (f i) of None \<Rightarrow> True | Some v \<Rightarrow> summary_fits v) matched
      then Inr (d\<lparr>ledger := upd_where P f (ledger d)\<rparr>, length matched)
      else Inl ''CHECK constraint failed: result_summary_json'')"

definition delete_ledger :: "(IdempotencyRow \<Rightarrow> bool) \<Rightarrow> db \<Rightarrow> db" where
  "delete_ledger P d = d\<lparr>ledger := filter (\<lambda>i. \<not> P i) (ledger d)\<rparr>"

section \<open>Operation runs\<close>

definition scope_exists :: "OperationRunRow \<Rightarrow> db \<Rightarrow> bool" where
  "scope_exists r d =
     list_ex (\<lambda>s. r_session_id s = o_session_id r \<and> Some (r_run_id s) = d_runId (o_disc r)
                 \<and> r_workspace_id s = o_workspace_id r \<and> r_admin_user_id s = o_admin_user_id r)
       (assistant_runs d)"

definition insert_run :: "OperationRunRow \<Rightarrow> db \<Rightarrow> (string, db) result" where
  "insert_run r d =
     (if o_id r \<in> o_id ` set (runs d) then Inl ''UNIQUE constraint failed: operation_runs.id''
      else if \<not> operation_matrix_ok (scope_exists r d) (o_disc r) then Inl ''discriminator_matrix_invalid''
      else Inr (d\<lparr>runs := runs d @ [r]\<rparr>))"

definition terminal_run :: "OperationRunStatus \<Rightarrow> bool" where
  "terminal_run s \<longleftrightarrow> s = O_succeeded \<or> s = O_partial \<or> s = O_definitive_failed"

text \<open>Trigger \<open>confirmed_operation_terminal_scrub\<close>, on an update of \<open>status\<close>.\<close>

definition terminal_scrub :: "OperationRunRow \<Rightarrow> OperationRunRow" where
  "terminal_scrub r =
     (if o_confirmation_id r \<noteq> None \<and> terminal_run (o_status r) \<and> stored_text (o_operation r) \<noteq> ''{}''
      then r\<lparr>o_operation := emptyObject\<rparr> else r)"

text \<open>\<open>UPDATE operation_runs SET status = ..., ... WHERE P\<close>.\<close>

definition update_run_status ::
  "(OperationRunRow \<Rightarrow> bool) \<Rightarrow> (OperationRunRow \<Rightarrow> OperationRunRow) \<Rightarrow> db \<Rightarrow> db \<times> nat" where
  "update_run_status P f d =
     (d\<lparr>runs := upd_where P (\<lambda>r. terminal_scrub (f r)) (runs d)\<rparr>, length (filter P (runs d)))"

text \<open>An update of columns no trigger watches.\<close>

definition update_run_plain ::
  "(OperationRunRow \<Rightarrow> bool) \<Rightarrow> (OperationRunRow \<Rightarrow> OperationRunRow) \<Rightarrow> db \<Rightarrow> db \<times> nat" where
  "update_run_plain P f d =
     (d\<lparr>runs := upd_where P f (runs d)\<rparr>, length (filter P (runs d)))"

text \<open>\<open>UPDATE operation_runs SET batch_id = ...\<close>, which the discriminator trigger watches.\<close>

definition update_run_batch :: "string \<Rightarrow> string \<Rightarrow> db \<Rightarrow> (string, db) result" where
  "update_run_batch batchId oid d =
     (let f = (\<lambda>r. r\<lparr>o_disc := (o_disc r)\<lparr>d_batchId := Some batchId\<rparr>\<rparr>);
          P = (\<lambda>r. o_id r = oid) in
      if list_all (\<lambda>r. operation_matrix_ok (scope_exists r d) (o_disc (f r))) (filter P (runs d))
      then Inr (d\<lparr>runs := upd_where P f (runs d)\<rparr>)
      else Inl ''discriminator_matrix_invalid'')"


section \<open>Pending confirmations\<close>

definition confirmation_disc :: "PendingRow \<Rightarrow> DiscriminatorTuple" where
  "confirmation_disc c =
     \<lparr>d_origin = c_origin c, d_registryId = c_registry_id c, d_authorityModel = c_authority_model c,
      d_executorKind = c_executor_kind c, d_runId = c_run_id c, d_batchId = c_batch_id c,
      d_sourceUndoId = None, d_sourceUndoHash = None,
      d_fieldProvenanceJson = None, d_fieldProvenanceHash = None\<rparr>"

text \<open>
  The two payload guards. An expired row must have lost its display payload too; every other
  row that is not pending must have lost its nonce, its envelope and its resume state.
\<close>

definition dispatch_payload_scrubbed :: "PendingRow \<Rightarrow> bool" where
  "dispatch_payload_scrubbed c \<longleftrightarrow>
     c_nonce_hash c = [] \<and> c_operation c = None \<and> c_agent_state c = None"

definition display_payload_scrubbed :: "PendingRow \<Rightarrow> bool" where
  "display_payload_scrubbed c \<longleftrightarrow>
     c_risk c = JArr [] \<and> c_preview c = JObj [] \<and> c_target_fingerprints c = JArr []"

definition payload_guard :: "PendingRow \<Rightarrow> (string, unit) result" where
  "payload_guard c =
     (if c_status c = C_expired \<and> \<not> (display_payload_scrubbed c \<and> dispatch_payload_scrubbed c)
      then Inl ''expired_confirmation_not_scrubbed''
      else if c_status c \<noteq> C_pending \<and> c_status c \<noteq> C_expired \<and> \<not> dispatch_payload_scrubbed c
      then Inl ''terminal_confirmation_not_scrubbed''
      else Inr ())"

definition summary_column_ok :: "PendingRow \<Rightarrow> bool" where
  "summary_column_ok c = (case c_result_summary c of None \<Rightarrow> True | Some v \<Rightarrow> summary_fits v)"

definition insert_confirmation :: "PendingRow \<Rightarrow> db \<Rightarrow> (string, db) result" where
  "insert_confirmation c d =
     and_then (payload_guard c) (\<lambda>_.
       if \<not> confirmation_matrix_ok (confirmation_disc c) then Inl ''discriminator_matrix_invalid''
       else if c_id c \<in> c_id ` set (confirmations d)
       then Inl ''UNIQUE constraint failed: pending_confirmations.id''
       else if \<not> summary_column_ok c then Inl ''CHECK constraint failed: result_summary_json''
       else if c_session_id c \<notin> set (sessions d) then Inl ''FOREIGN KEY constraint failed''
       else Inr (d\<lparr>confirmations := confirmations d @ [c]\<rparr>))"

definition put_confirmation :: "PendingRow \<Rightarrow> db \<Rightarrow> db" where
  "put_confirmation c d =
     d\<lparr>confirmations := upd_where (\<lambda>r. c_id r = c_id c) (\<lambda>r. c) (confirmations d)\<rparr>"

text \<open>
  Trigger \<open>pending_confirmation_pre_dispatch_operation_guard\<close>: a preview can only be cancelled
  or expired while its operation is still prepared and has no result.
\<close>

definition pre_dispatch_terminal_move :: "PendingRow \<Rightarrow> PendingRow \<Rightarrow> bool" where
  "pre_dispatch_terminal_move old new \<longleftrightarrow>
     c_status old = C_pending \<and> (c_status new = C_cancelled \<or> c_status new = C_expired)"

definition pre_dispatch_operation_guard :: "PendingRow \<Rightarrow> PendingRow \<Rightarrow> db \<Rightarrow> (string, unit) result" where
  "pre_dispatch_operation_guard old new d =
     (if pre_dispatch_terminal_move old new
       \<and> list_ex (\<lambda>r. o_id r = c_operation_id old
                     \<and> (o_status r \<noteq> O_prepared \<or> o_action_result_id r \<noteq> None)) (runs d)
      then Inl ''confirmation_operation_not_prepared'' else Inr ())"

definition pre_dispatch_result :: "PendingStatus \<Rightarrow> string \<Rightarrow> jsv" where
  "pre_dispatch_result status actionName =
     JObj [(''kind'', JStr ''receipt''),
           (''receipt'', JObj
              [(''ok'', JBool False), (''action'', JStr actionName),
               (''code'', JStr (if status = C_cancelled then ''confirmation_cancelled''
                                else ''confirmation_expired'')),
               (''message'', JStr (if status = C_cancelled
                  then ''This preview was cancelled before dispatch. No change was made.''
                  else ''This preview expired before dispatch. No change was made.''))])]"

text \<open>
  Trigger \<open>pending_confirmation_pre_dispatch_terminal\<close>: the linked prepared operation receives a
  definitive result, becomes \<open>definitive_failed\<close> with an empty envelope, and the confirmation is
  linked to that result.
\<close>

definition pre_dispatch_insert :: "env \<Rightarrow> PendingRow \<Rightarrow> db \<Rightarrow> (string, db) result" where
  "pre_dispatch_insert E c d =
     (case find (\<lambda>r. o_id r = c_operation_id c \<and> o_status r = O_prepared \<and> o_action_result_id r = None)
             (runs d) of
        None \<Rightarrow> Inr d
      | Some r \<Rightarrow>
          (case fresh_id E d of (aid, d1) \<Rightarrow>
             let v = pre_dispatch_result (c_status c) (o_action_name r) in
             insert_result
               \<lparr>a_id = aid, a_operation_id = Some (o_id r), a_workspace_id = o_workspace_id r,
                a_admin_user_id = o_admin_user_id r, a_session_id = Some (o_session_id r),
                a_action_name = o_action_name r, a_kind = R_definitive_failed,
                a_result = v, a_summary = v,
                a_created_at = (case c_used_at c of None \<Rightarrow> c_created_at c | Some t \<Rightarrow> t)\<rparr> d1))"

definition pre_dispatch_settle_run :: "PendingRow \<Rightarrow> db \<Rightarrow> db" where
  "pre_dispatch_settle_run c d =
     fst (update_run_status
       (\<lambda>r. o_id r = c_operation_id c \<and> o_status r = O_prepared \<and> o_action_result_id r = None)
       (\<lambda>r. r\<lparr>o_status := O_definitive_failed,
              o_action_result_id := map_option a_id (result_of_operation (o_id r) d),
              o_operation := emptyObject,
              o_updated_at := (case c_used_at c of None \<Rightarrow> c_created_at c | Some t \<Rightarrow> t)\<rparr>) d)"

definition pre_dispatch_link :: "PendingRow \<Rightarrow> db \<Rightarrow> db" where
  "pre_dispatch_link c d =
     (let a = result_of_operation (c_operation_id c) d in
      d\<lparr>confirmations := upd_where (\<lambda>r. c_id r = c_id c \<and> c_action_result_id r = None)
          (\<lambda>r. r\<lparr>c_action_result_id := map_option a_id a, c_result_summary := map_option a_summary a\<rparr>)
          (confirmations d)\<rparr>)"

definition pre_dispatch_terminal :: "env \<Rightarrow> PendingRow \<Rightarrow> db \<Rightarrow> (string, db) result" where
  "pre_dispatch_terminal E c d =
     and_then (pre_dispatch_insert E c d) (\<lambda>d1. Inr (pre_dispatch_link c (pre_dispatch_settle_run c d1)))"

text \<open>Trigger \<open>pending_confirmation_settlement_scrubs_operation\<close>.\<close>

definition settlement_move :: "PendingRow \<Rightarrow> PendingRow \<Rightarrow> bool" where
  "settlement_move old new \<longleftrightarrow>
     (c_status old = C_executing \<or> c_status old = C_outcome_unknown)
     \<and> (c_status new = C_succeeded \<or> c_status new = C_partial \<or> c_status new = C_definitive_failed)"

definition settlement_scrubs_operation :: "PendingRow \<Rightarrow> db \<Rightarrow> db" where
  "settlement_scrubs_operation c d =
     fst (update_run_plain (\<lambda>r. o_id r = c_operation_id c) (\<lambda>r. r\<lparr>o_operation := emptyObject\<rparr>) d)"

text \<open>
  One row of \<open>UPDATE pending_confirmations SET status = ..., ...\<close>: the guards, the write, the
  two \<open>AFTER\<close> triggers.
\<close>

definition update_confirmation_row ::
  "env \<Rightarrow> (PendingRow \<Rightarrow> PendingRow) \<Rightarrow> string \<Rightarrow> db \<Rightarrow> (string, db) result" where
  "update_confirmation_row E f k d =
     (case sel c_id k (confirmations d) of
        None \<Rightarrow> Inr d
      | Some old \<Rightarrow>
          let new = f old in
          and_then (payload_guard new) (\<lambda>_.
          and_then (pre_dispatch_operation_guard old new d) (\<lambda>_.
            if \<not> summary_column_ok new then Inl ''CHECK constraint failed: result_summary_json''
            else let d1 = put_confirmation new d in
              if pre_dispatch_terminal_move old new then pre_dispatch_terminal E new d1
              else if settlement_move old new then Inr (settlement_scrubs_operation new d1)
              else Inr d1)))"

definition update_confirmation_status ::
  "env \<Rightarrow> (PendingRow \<Rightarrow> bool) \<Rightarrow> (PendingRow \<Rightarrow> PendingRow) \<Rightarrow> nat tx" where
  "update_confirmation_status E P f d =
     (let ks = map c_id (filter P (confirmations d)) in
      and_then (fold_result (update_confirmation_row E f) ks d) (\<lambda>d1. Inr (d1, length ks)))"

text \<open>\<open>SET nonce_hash = ...\<close>: only the payload guards watch that column.\<close>

definition update_confirmation_nonce ::
  "(PendingRow \<Rightarrow> bool) \<Rightarrow> string \<Rightarrow> nat tx" where
  "update_confirmation_nonce P nonceHash d =
     (let f = (\<lambda>c. c\<lparr>c_nonce_hash := nonceHash\<rparr>); matched = filter P (confirmations d) in
      if list_all (\<lambda>c. succeeded (payload_guard (f c))) matched
      then Inr (d\<lparr>confirmations := upd_where P f (confirmations d)\<rparr>, length matched)
      else Inl ''terminal_confirmation_not_scrubbed'')"

text \<open>\<open>SET idempotency_key = ...\<close>: no trigger watches that column.\<close>

definition update_confirmation_key ::
  "(PendingRow \<Rightarrow> bool) \<Rightarrow> string option \<Rightarrow> db \<Rightarrow> db \<times> nat" where
  "update_confirmation_key P k d =
     (d\<lparr>confirmations := upd_where P (\<lambda>c. c\<lparr>c_idempotency_key := k\<rparr>) (confirmations d)\<rparr>,
      length (filter P (confirmations d)))"

text \<open>\<open>SET batch_id = ...\<close>: the discriminator trigger watches that column.\<close>

definition update_confirmation_batch :: "string \<Rightarrow> string \<Rightarrow> db \<Rightarrow> (string, db) result" where
  "update_confirmation_batch batchId k d =
     (let f = (\<lambda>c. c\<lparr>c_batch_id := Some batchId\<rparr>); P = (\<lambda>c. c_id c = k) in
      if list_all (\<lambda>c. confirmation_matrix_ok (confirmation_disc (f c))) (filter P (confirmations d))
      then Inr (d\<lparr>confirmations := upd_where P f (confirmations d)\<rparr>)
      else Inl ''discriminator_matrix_invalid'')"


section \<open>Lifecycles\<close>

fun confirmation_reach :: "PendingStatus \<Rightarrow> PendingStatus \<Rightarrow> bool" where
  "confirmation_reach C_pending t = True"
| "confirmation_reach C_executing t \<longleftrightarrow>
     t \<in> {C_executing, C_succeeded, C_partial, C_definitive_failed, C_outcome_unknown}"
| "confirmation_reach C_outcome_unknown t \<longleftrightarrow> t \<in> {C_outcome_unknown, C_succeeded, C_partial}"
| "confirmation_reach s t \<longleftrightarrow> s = t"

fun run_reach :: "OperationRunStatus \<Rightarrow> OperationRunStatus \<Rightarrow> bool" where
  "run_reach O_prepared t = True"
| "run_reach O_executing t \<longleftrightarrow> t \<noteq> O_prepared"
| "run_reach O_outcome_unknown t \<longleftrightarrow> t \<in> {O_outcome_unknown, O_succeeded, O_partial}"
| "run_reach s t \<longleftrightarrow> s = t"

fun step_reach :: "OperationStepStatus \<Rightarrow> OperationStepStatus \<Rightarrow> bool" where
  "step_reach S_prepared t = True"
| "step_reach S_executing t \<longleftrightarrow> t \<noteq> S_prepared"
| "step_reach S_outcome_unknown t \<longleftrightarrow>
     t \<in> {S_outcome_unknown, S_succeeded, S_definitive_failed, S_compensating, S_compensated}"
| "step_reach S_succeeded t \<longleftrightarrow> t \<in> {S_succeeded, S_compensating, S_compensated}"
| "step_reach S_compensating t \<longleftrightarrow> t \<in> {S_compensating, S_succeeded, S_compensated}"
| "step_reach s t \<longleftrightarrow> s = t"

text \<open>
  A confirmation never changes its identity, its owner or what it was bound to; its status
  only moves forward.
\<close>

definition confirmation_move :: "PendingRow \<Rightarrow> PendingRow \<Rightarrow> bool" where
  "confirmation_move c c' \<longleftrightarrow>
     c_id c' = c_id c \<and> c_operation_id c' = c_operation_id c \<and> c_session_id c' = c_session_id c
     \<and> c_workspace_id c' = c_workspace_id c \<and> c_admin_user_id c' = c_admin_user_id c
     \<and> c_operation_hash c' = c_operation_hash c \<and> c_action_fingerprint c' = c_action_fingerprint c
     \<and> c_catalog_hash c' = c_catalog_hash c \<and> c_expires_at c' = c_expires_at c
     \<and> c_created_at c' = c_created_at c \<and> confirmation_reach (c_status c) (c_status c')"

text \<open>
  An operation run keeps its identity, owner and hashes; its envelope is kept or erased, never
  replaced.
\<close>

definition run_move :: "OperationRunRow \<Rightarrow> OperationRunRow \<Rightarrow> bool" where
  "run_move r r' \<longleftrightarrow>
     o_id r' = o_id r \<and> o_confirmation_id r' = o_confirmation_id r \<and> o_session_id r' = o_session_id r
     \<and> o_workspace_id r' = o_workspace_id r \<and> o_admin_user_id r' = o_admin_user_id r
     \<and> o_action_name r' = o_action_name r \<and> o_action_fingerprint r' = o_action_fingerprint r
     \<and> o_catalog_hash r' = o_catalog_hash r \<and> o_operation_hash r' = o_operation_hash r
     \<and> o_created_at r' = o_created_at r
     \<and> (o_operation r' = o_operation r \<or> o_operation r' = emptyObject)
     \<and> run_reach (o_status r) (o_status r')"

text \<open>
  A journal step keeps its place in the plan; a recorded dispatch is never erased, and no
  status that precedes dispatch is entered again.
\<close>

definition step_move :: "OperationStepRow \<Rightarrow> OperationStepRow \<Rightarrow> bool" where
  "step_move s s' \<longleftrightarrow>
     s_id s' = s_id s \<and> s_operation_id s' = s_operation_id s \<and> s_step_index s' = s_step_index s
     \<and> s_plan_step_id s' = s_plan_step_id s \<and> s_kind s' = s_kind s
     \<and> s_target_fingerprint s' = s_target_fingerprint s
     \<and> s_compensates_step_id s' = s_compensates_step_id s
     \<and> (s_dispatched_at s \<noteq> None \<longrightarrow> s_dispatched_at s' = s_dispatched_at s)
     \<and> step_reach (s_status s) (s_status s')"

lemma confirmation_reach_trans: "confirmation_reach s t \<Longrightarrow> confirmation_reach t u \<Longrightarrow> confirmation_reach s u"
  by (cases s; cases t; simp; cases u; simp)

lemma run_reach_trans: "run_reach s t \<Longrightarrow> run_reach t u \<Longrightarrow> run_reach s u"
  by (cases s; cases t; simp; cases u; simp)

lemma step_reach_trans: "step_reach s t \<Longrightarrow> step_reach t u \<Longrightarrow> step_reach s u"
  by (cases s; cases t; simp; cases u; simp)

lemma confirmation_reach_refl [simp]: "confirmation_reach s s"
  by (cases s) auto

lemma run_reach_refl [simp]: "run_reach s s"
  by (cases s) auto

lemma step_reach_refl [simp]: "step_reach s s"
  by (cases s) auto

interpretation confirmation_lc: lifecycle c_id confirmation_move
  by unfold_locales (auto simp: confirmation_move_def intro: confirmation_reach_trans)

interpretation run_lc: lifecycle o_id run_move
  by unfold_locales (auto simp: run_move_def intro: run_reach_trans)

interpretation step_lc: lifecycle s_id step_move
  by unfold_locales (auto simp: step_move_def intro: step_reach_trans)

end
