(* ===== verification/ConfirmationGate.thy ===== *)
theory ConfirmationGate
  imports Database
begin

text \<open>
  The pure confirmation lifecycle of \<open>src/src/harness/confirmations.ts\<close>: how a preview is
  created and bound to its operation, which gate a confirm or a nonce rotation must pass, and
  how it is cancelled. SHA-256 is the parameter \<open>sha256\<close>. An instant is in milliseconds;
  \<open>expiresAt = None\<close> is a text that does not parse as a date. The random values a call draws
  (\<open>randomUUID\<close>, \<open>randomBytes\<close>) are arguments.
\<close>

section \<open>Records\<close>

definition DEFAULT_TTL_MS :: int where "DEFAULT_TTL_MS = 5 * 60 * 1000"

record PendingConfirmationRecord =
  p_id :: string
  p_operationId :: string
  p_sessionId :: string
  p_workspaceId :: string
  p_adminUserId :: string
  p_status :: PendingStatus
  p_risk :: jsv
  p_preview :: jsv
  p_operation :: jsv
  p_installationGeneration :: "int option"
  p_operationHash :: string
  p_targetFingerprints :: jsv
  p_actionFingerprint :: string
  p_catalogHash :: string
  p_capabilityId :: "string option"
  p_capabilityHash :: "string option"
  p_nonceHash :: string
  p_expiresAt :: "int option"
  p_createdAt :: int
  p_usedAt :: "int option"
  p_agentState :: jsv
  p_actionResultId :: "string option"
  p_origin :: "ActionOrigin option"
  p_registryId :: "RegistryId option"
  p_authorityModel :: "AuthorityModel option"
  p_executorKind :: "ExecutorKind option"
  p_runId :: "string option"
  p_batchId :: "string option"

record CreateConfirmationInput =
  ci_sessionId :: string
  ci_workspaceId :: string
  ci_adminUserId :: string
  ci_risk :: jsv
  ci_preview :: jsv
  ci_operation :: jsv
  ci_installationGeneration :: "int option"
  ci_sessionSecret :: string
  ci_now :: int
  ci_ttlMs :: "int option"
  ci_id :: "string option"
  ci_nonce :: "string option"
  ci_agentState :: jsv
  ci_actionFingerprint :: "string option"
  ci_catalogHash :: "string option"
  ci_capabilityId :: "string option"
  ci_capabilityHash :: "string option"
  ci_origin :: "ActionOrigin option"
  ci_registryId :: "RegistryId option"
  ci_authorityModel :: "AuthorityModel option"
  ci_executorKind :: "ExecutorKind option"
  ci_runId :: "string option"
  ci_batchId :: "string option"
  ci_operationBindingHash :: "string option"

datatype gate_exn = Evidence_exn evidence_error | Type_exn

datatype gate_result = Gate_ok | Denied (denied_code: string) (denied_message: string)

text \<open>A truthy string survives \<open>...(x ? { x } : {})\<close>, the empty one does not.\<close>

definition keep_truthy :: "string option \<Rightarrow> string option" where
  "keep_truthy v = (if truthy v then v else None)"

section \<open>Hashes\<close>

fun sortValue :: "jsv \<Rightarrow> jsv"
  and sort_elements :: "jsv list \<Rightarrow> jsv list"
  and sort_members :: "(string \<times> jsv) list \<Rightarrow> (string \<times> jsv) list"
where
  "sortValue (JArr xs) = JArr (sort_elements xs)"
| "sortValue (JObj es) =
     JObj (filter (\<lambda>(k, v). v \<noteq> JUndef \<and> k \<noteq> ''__proto__'') (sort_key fst (sort_members es)))"
| "sortValue (JBytes bs) = JObj (sort_key fst (byte_entries bs))"
| "sortValue v = v"
| "sort_elements [] = []"
| "sort_elements (x # xs) = sortValue x # sort_elements xs"
| "sort_members [] = []"
| "sort_members ((k, v) # es) = (k, sortValue v) # sort_members es"

definition canonicalJson :: "jsv \<Rightarrow> string option" where
  "canonicalJson v = stringify (sortValue v)"

text \<open>\<open>createHash(...).update(undefined)\<close> throws.\<close>

definition hashOperation :: "(string \<Rightarrow> string) \<Rightarrow> jsv \<Rightarrow> (gate_exn, string) result" where
  "hashOperation sha256 v = (case canonicalJson v of None \<Rightarrow> Inl Type_exn | Some t \<Rightarrow> Inr (sha256 t))"

definition hashNonce :: "(string \<Rightarrow> string) \<Rightarrow> string \<Rightarrow> string \<Rightarrow> string \<Rightarrow> string \<Rightarrow> string" where
  "hashNonce sha256 nonce i operationHash sessionSecret =
     sha256 (nonce @ ''.'' @ i @ ''.'' @ operationHash @ ''.'' @ sessionSecret)"

text \<open>The accumulator \<open>mismatch |= a.charCodeAt(i) ^ b.charCodeAt(i)\<close>.\<close>

fun mismatch_acc :: "nat \<Rightarrow> string \<Rightarrow> string \<Rightarrow> nat" where
  "mismatch_acc m (a # as) (b # bs) = mismatch_acc (or m (xor (of_char a) (of_char b))) as bs"
| "mismatch_acc m _ _ = m"

definition timingSafeStringEqual :: "string \<Rightarrow> string \<Rightarrow> bool" where
  "timingSafeStringEqual a b = (if length a \<noteq> length b then False else mismatch_acc 0 a b = 0)"

section \<open>Authority of a preview\<close>

definition V2_PREVIEW_EXECUTORS :: "ExecutorKind list" where
  "V2_PREVIEW_EXECUTORS = [prepared_safe_write, risky_commit]"

definition isV2PreviewAuthority :: "PendingConfirmationRecord \<Rightarrow> bool" where
  "isV2PreviewAuthority r \<longleftrightarrow>
     p_origin r = Some assistant \<and> p_registryId r = Some v2_api
     \<and> p_authorityModel r = Some preview_confirmation_v2
     \<and> (case p_executorKind r of None \<Rightarrow> False | Some e \<Rightarrow> e \<in> set V2_PREVIEW_EXECUTORS)
     \<and> truthy (p_runId r) \<and> \<not> truthy (p_capabilityId r)"

definition isBatchOwnedConfirmation :: "PendingConfirmationRecord \<Rightarrow> bool" where
  "isBatchOwnedConfirmation r = truthy (p_batchId r)"

definition isV2AssistantPreviewConfirmation :: "PendingConfirmationRecord \<Rightarrow> bool" where
  "isV2AssistantPreviewConfirmation r \<longleftrightarrow> isV2PreviewAuthority r \<and> \<not> truthy (p_batchId r)"

definition isV2AssistantBatchConfirmation :: "PendingConfirmationRecord \<Rightarrow> bool" where
  "isV2AssistantBatchConfirmation r \<longleftrightarrow> isV2PreviewAuthority r \<and> isBatchOwnedConfirmation r"

definition isTrustedDirectOrigin :: "ActionOrigin option \<Rightarrow> bool" where
  "isTrustedDirectOrigin v = (case v of None \<Rightarrow> False | Some o' \<Rightarrow> o' \<in> {direct_ui, system, live_test})"

text \<open>\<open>JSON.parse(JSON.stringify(payload ?? {}))\<close>; \<open>JSON.parse(undefined)\<close> throws.\<close>

definition payload_clone :: "jsv \<Rightarrow> (gate_exn, jsv) result" where
  "payload_clone operation =
     (let payload = getp ''payload'' operation;
          v = (if payload = JUndef \<or> payload = JNull then JObj [] else payload) in
      case json_clone v of None \<Rightarrow> Inl Type_exn | Some w \<Rightarrow> Inr w)"

definition confirmationOperationBindingHash ::
  "(string \<Rightarrow> string) \<Rightarrow> PendingConfirmationRecord \<Rightarrow> (gate_exn, string) result" where
  "confirmationOperationBindingHash sha256 r =
     (if isV2PreviewAuthority r \<and> is_record (p_operation r)
      then and_then (payload_clone (p_operation r)) (\<lambda>w.
           case exactNonsecretJson w 65536 of
             Inl e \<Rightarrow> Inl (Evidence_exn e)
           | Inr safe \<Rightarrow> hashOperation sha256 safe)
      else hashOperation sha256 (p_operation r))"

section \<open>Creation\<close>

definition bind_generation :: "int option \<Rightarrow> jsv \<Rightarrow> jsv" where
  "bind_generation g operation =
     (case (g, operation) of
        (Some n, JObj es) \<Rightarrow> JObj (spread es [(''installationGeneration'', JNum n)])
      | (Some n, JBytes bs) \<Rightarrow> JObj (spread (byte_entries bs) [(''installationGeneration'', JNum n)])
      | _ \<Rightarrow> operation)"

definition preview_targets :: "jsv \<Rightarrow> (gate_exn, jsv list) result" where
  "preview_targets preview =
     (case getp ''targets'' preview of
        JUndef \<Rightarrow> Inr [] | JNull \<Rightarrow> Inr [] | JArr xs \<Rightarrow> Inr xs | _ \<Rightarrow> Inl Type_exn)"

record CreatedConfirmation =
  cc_record :: PendingConfirmationRecord
  cc_previewId :: string
  cc_nonce :: string
  cc_expiresAt :: int

text \<open>The action fingerprint defaults to the hash of \<open>{ operation, version: 1 }\<close>.\<close>

definition action_fingerprint_of ::
  "(string \<Rightarrow> string) \<Rightarrow> string option \<Rightarrow> jsv \<Rightarrow> (gate_exn, string) result" where
  "action_fingerprint_of sha256 given operation =
     (case given of Some f \<Rightarrow> Inr f
      | None \<Rightarrow> hashOperation sha256 (JObj [(''operation'', operation), (''version'', JNum 1)]))"

definition createPendingConfirmation ::
  "(string \<Rightarrow> string) \<Rightarrow> string \<Rightarrow> string \<Rightarrow> string \<Rightarrow> CreateConfirmationInput
   \<Rightarrow> (gate_exn, CreatedConfirmation) result" where
  "createPendingConfirmation sha256 rndId rndNonce rndOperationId input =
     (let ttlMs = (case ci_ttlMs input of None \<Rightarrow> DEFAULT_TTL_MS | Some t \<Rightarrow> t);
          i = (case ci_id input of None \<Rightarrow> rndId | Some k \<Rightarrow> k);
          nonce = (case ci_nonce input of None \<Rightarrow> rndNonce | Some n \<Rightarrow> n);
          expiresAt = ci_now input + ttlMs;
          operation = bind_generation (ci_installationGeneration input) (ci_operation input);
          operationId = (case getp ''operationId'' operation of JStr s \<Rightarrow> s | _ \<Rightarrow> rndOperationId) in
      and_then (action_fingerprint_of sha256 (ci_actionFingerprint input) operation) (\<lambda>fingerprint.
      let base = \<lparr>p_id = i, p_operationId = operationId, p_sessionId = ci_sessionId input,
            p_workspaceId = ci_workspaceId input, p_adminUserId = ci_adminUserId input,
            p_status = C_pending, p_risk = ci_risk input, p_preview = ci_preview input,
            p_operation = operation, p_installationGeneration = ci_installationGeneration input,
            p_operationHash = [], p_targetFingerprints = JArr [],
            p_actionFingerprint = fingerprint,
            p_catalogHash = (case ci_catalogHash input of None \<Rightarrow> ''unbound'' | Some h \<Rightarrow> h),
            p_capabilityId = None, p_capabilityHash = None, p_nonceHash = [],
            p_expiresAt = None, p_createdAt = 0, p_usedAt = None, p_agentState = JUndef,
            p_actionResultId = None, p_origin = ci_origin input, p_registryId = ci_registryId input,
            p_authorityModel = ci_authorityModel input, p_executorKind = ci_executorKind input,
            p_runId = keep_truthy (ci_runId input), p_batchId = keep_truthy (ci_batchId input)\<rparr> in
      and_then (case ci_operationBindingHash input of Some h \<Rightarrow> Inr h
                | None \<Rightarrow> confirmationOperationBindingHash sha256 base) (\<lambda>operationHash.
      and_then (preview_targets (ci_preview input)) (\<lambda>targets.
      and_then (sequence (map (hashOperation sha256) targets)) (\<lambda>fingerprints.
        Inr \<lparr>cc_record = base\<lparr>p_operationHash := operationHash,
               p_targetFingerprints := JArr (map JStr fingerprints),
               p_capabilityId := keep_truthy (ci_capabilityId input),
               p_capabilityHash := keep_truthy (ci_capabilityHash input),
               p_nonceHash := hashNonce sha256 nonce i operationHash (ci_sessionSecret input),
               p_expiresAt := Some expiresAt, p_createdAt := ci_now input,
               p_agentState := ci_agentState input\<rparr>,
             cc_previewId = i, cc_nonce = nonce, cc_expiresAt = expiresAt\<rparr>)))))"

section \<open>The gate\<close>

record ConfirmationGateInput =
  g_record :: PendingConfirmationRecord
  g_sessionId :: string
  g_workspaceId :: string
  g_adminUserId :: string
  g_now :: int
  g_expectedActionFingerprint :: "string option"
  g_expectedCatalogHash :: "string option"

definition fingerprint_ok :: "string option \<Rightarrow> string \<Rightarrow> bool" where
  "fingerprint_ok expected actual \<longleftrightarrow>
     (truthy expected \<longrightarrow> timingSafeStringEqual actual (the expected))"

definition checkConfirmationGate ::
  "(string \<Rightarrow> string) \<Rightarrow> ConfirmationGateInput \<Rightarrow> (gate_exn, gate_result) result" where
  "checkConfirmationGate sha256 g =
     (let r = g_record g in
      if p_sessionId r \<noteq> g_sessionId g \<or> p_workspaceId r \<noteq> g_workspaceId g
         \<or> p_adminUserId r \<noteq> g_adminUserId g
      then Inr (Denied ''forbidden'' ''This preview belongs to a different session.'')
      else if p_status r = C_expired
      then Inr (Denied ''expired'' ''This preview has expired. Ask me to run a fresh preview.'')
      else if p_status r \<noteq> C_pending
      then Inr (Denied ''not_pending'' ''This preview is no longer pending.'')
      else if (case p_expiresAt r of None \<Rightarrow> True | Some t \<Rightarrow> t \<le> g_now g)
      then Inr (Denied ''expired'' ''This preview has expired. Ask me to run a fresh preview.'')
      else and_then (confirmationOperationBindingHash sha256 r) (\<lambda>h.
        if \<not> timingSafeStringEqual h (p_operationHash r)
        then Inr (Denied ''operation_mismatch'' ''Preview integrity check failed.'')
        else if \<not> fingerprint_ok (g_expectedActionFingerprint g) (p_actionFingerprint r)
        then Inr (Denied ''incompatible_confirmation''
               ''This preview was created by incompatible action code. Run a fresh preview.'')
        else if \<not> fingerprint_ok (g_expectedCatalogHash g) (p_catalogHash r)
        then Inr (Denied ''incompatible_confirmation''
               ''The action catalog changed after this preview. Run a fresh preview.'')
        else Inr Gate_ok))"

datatype 'a gated = Allowed 'a | Refused string string

definition confirmPending ::
  "(string \<Rightarrow> string) \<Rightarrow> ConfirmationGateInput \<Rightarrow> string \<Rightarrow> string
   \<Rightarrow> (gate_exn, PendingConfirmationRecord gated) result" where
  "confirmPending sha256 g nonce sessionSecret =
     and_then (checkConfirmationGate sha256 g) (\<lambda>gate.
       case gate of
         Denied c m \<Rightarrow> Inr (Refused c m)
       | Gate_ok \<Rightarrow>
           let r = g_record g in
           if \<not> timingSafeStringEqual (hashNonce sha256 nonce (p_id r) (p_operationHash r) sessionSecret)
                  (p_nonceHash r)
           then Inr (Refused ''invalid_confirmation'' ''Confirmation does not match this preview.'')
           else Inr (Allowed (r\<lparr>p_status := C_executing, p_usedAt := Some (g_now g)\<rparr>)))"

definition rotatePendingNonce ::
  "(string \<Rightarrow> string) \<Rightarrow> ConfirmationGateInput \<Rightarrow> string \<Rightarrow> string
   \<Rightarrow> (gate_exn, (PendingConfirmationRecord \<times> string) gated) result" where
  "rotatePendingNonce sha256 g nonce sessionSecret =
     and_then (checkConfirmationGate sha256
         (g\<lparr>g_expectedActionFingerprint := None, g_expectedCatalogHash := None\<rparr>)) (\<lambda>gate.
       case gate of
         Denied c m \<Rightarrow> Inr (Refused c m)
       | Gate_ok \<Rightarrow>
           let r = g_record g in
           Inr (Allowed (r\<lparr>p_nonceHash := hashNonce sha256 nonce (p_id r) (p_operationHash r) sessionSecret\<rparr>,
                         nonce)))"

definition cancelPending ::
  "PendingConfirmationRecord \<Rightarrow> string \<Rightarrow> string \<Rightarrow> string \<Rightarrow> int \<Rightarrow> PendingConfirmationRecord gated" where
  "cancelPending r sessionId workspaceId adminUserId nowMs =
     (if p_sessionId r \<noteq> sessionId \<or> p_workspaceId r \<noteq> workspaceId \<or> p_adminUserId r \<noteq> adminUserId
      then Refused ''forbidden'' ''This preview belongs to a different session.''
      else if p_status r \<noteq> C_pending
      then Refused ''not_pending'' ''This preview is no longer pending.''
      else Allowed (r\<lparr>p_status := C_cancelled, p_usedAt := Some nowMs\<rparr>))"


section \<open>The comparison is string equality\<close>

lemma or_eq_0_iff_nat: "or m n = 0 \<longleftrightarrow> m = 0 \<and> n = (0 :: nat)"
  by (auto simp: bit_eq_iff bit_or_iff)

lemma xor_eq_0_iff_nat: "xor m n = 0 \<longleftrightarrow> m = (n :: nat)"
  by (auto simp: bit_eq_iff bit_xor_iff)

lemma mismatch_acc_0:
  "length as = length bs \<Longrightarrow> mismatch_acc m as bs = 0 \<longleftrightarrow> m = 0 \<and> as = bs"
  by (induction as bs arbitrary: m rule: list_induct2)
    (auto simp: or_eq_0_iff_nat xor_eq_0_iff_nat)

lemma timingSafeStringEqual_iff [simp]: "timingSafeStringEqual a b \<longleftrightarrow> a = b"
  by (auto simp: timingSafeStringEqual_def mismatch_acc_0)

section \<open>What passing the gate means\<close>

definition bound_to :: "ConfirmationGateInput \<Rightarrow> bool" where
  "bound_to g \<longleftrightarrow> p_sessionId (g_record g) = g_sessionId g
     \<and> p_workspaceId (g_record g) = g_workspaceId g \<and> p_adminUserId (g_record g) = g_adminUserId g"

definition live_at :: "PendingConfirmationRecord \<Rightarrow> int \<Rightarrow> bool" where
  "live_at r t \<longleftrightarrow> p_status r = C_pending \<and> (case p_expiresAt r of None \<Rightarrow> False | Some e \<Rightarrow> t < e)"

lemma checkConfirmationGate_ok_iff:
  "checkConfirmationGate sha256 g = Inr Gate_ok \<longleftrightarrow>
     bound_to g \<and> live_at (g_record g) (g_now g)
     \<and> confirmationOperationBindingHash sha256 (g_record g) = Inr (p_operationHash (g_record g))
     \<and> fingerprint_ok (g_expectedActionFingerprint g) (p_actionFingerprint (g_record g))
     \<and> fingerprint_ok (g_expectedCatalogHash g) (p_catalogHash (g_record g))"
  by (auto simp: checkConfirmationGate_def Let_def bound_to_def live_at_def split: option.splits)

text \<open>A caller outside the binding learns nothing but \<open>forbidden\<close>.\<close>

lemma checkConfirmationGate_foreign:
  "\<not> bound_to g \<Longrightarrow>
   checkConfirmationGate sha256 g
     = Inr (Denied ''forbidden'' ''This preview belongs to a different session.'')"
  by (auto simp: checkConfirmationGate_def Let_def bound_to_def)

lemma confirmPending_allowed_iff:
  "confirmPending sha256 g nonce secret = Inr (Allowed r') \<longleftrightarrow>
     checkConfirmationGate sha256 g = Inr Gate_ok
     \<and> hashNonce sha256 nonce (p_id (g_record g)) (p_operationHash (g_record g)) secret
       = p_nonceHash (g_record g)
     \<and> r' = (g_record g)\<lparr>p_status := C_executing, p_usedAt := Some (g_now g)\<rparr>"
proof (cases "checkConfirmationGate sha256 g")
  case (Inr gate)
  then show ?thesis by (cases gate) (auto simp: confirmPending_def Let_def)
qed (simp add: confirmPending_def)

lemma rotatePendingNonce_allowed_iff:
  "rotatePendingNonce sha256 g nonce secret = Inr (Allowed (r', n)) \<longleftrightarrow>
     checkConfirmationGate sha256 (g\<lparr>g_expectedActionFingerprint := None, g_expectedCatalogHash := None\<rparr>)
       = Inr Gate_ok
     \<and> r' = (g_record g)\<lparr>p_nonceHash :=
          hashNonce sha256 nonce (p_id (g_record g)) (p_operationHash (g_record g)) secret\<rparr>
     \<and> n = nonce"
proof (cases "checkConfirmationGate sha256
    (g\<lparr>g_expectedActionFingerprint := None, g_expectedCatalogHash := None\<rparr>)")
  case (Inr gate)
  then show ?thesis by (cases gate) (auto simp: rotatePendingNonce_def Let_def)
qed (simp add: rotatePendingNonce_def)

text \<open>The nonce does not enter the binding hash, so a rotation leaves the gate as it was.\<close>

lemma binding_hash_nonce [simp]:
  "confirmationOperationBindingHash sha256 (r\<lparr>p_nonceHash := h\<rparr>) = confirmationOperationBindingHash sha256 r"
  by (simp add: confirmationOperationBindingHash_def isV2PreviewAuthority_def)

lemma binding_hash_bookkeeping [simp]:
  "confirmationOperationBindingHash sha256 (r\<lparr>p_operationHash := h, p_targetFingerprints := tf,
     p_nonceHash := n, p_expiresAt := e, p_createdAt := c, p_agentState := s\<rparr>)
   = confirmationOperationBindingHash sha256 r"
  by (simp add: confirmationOperationBindingHash_def isV2PreviewAuthority_def)

lemma hashNonce_eq_iff:
  assumes "\<And>x y. sha256 x = sha256 y \<Longrightarrow> x = y"
  shows "hashNonce sha256 n i h s = hashNonce sha256 n' i h s \<longleftrightarrow> n = n'"
  using assms by (auto simp: hashNonce_def)

text \<open>
  After a rotation the new nonce confirms, within the life of the preview, and a different old
  one does not (where SHA-256 has no collision between the two texts).
\<close>

lemma rotation_replaces_nonce:
  assumes rot: "rotatePendingNonce sha256 g nonce secret = Inr (Allowed (r', n))"
    and gate: "checkConfirmationGate sha256 g = Inr Gate_ok"
    and no_collision: "hashNonce sha256 old (p_id (g_record g)) (p_operationHash (g_record g)) secret
        = hashNonce sha256 nonce (p_id (g_record g)) (p_operationHash (g_record g)) secret \<Longrightarrow> old = nonce"
  shows "confirmPending sha256 (g\<lparr>g_record := r'\<rparr>) nonce secret
        = Inr (Allowed (r'\<lparr>p_status := C_executing, p_usedAt := Some (g_now g)\<rparr>))"
    and "old \<noteq> nonce \<Longrightarrow> confirmPending sha256 (g\<lparr>g_record := r'\<rparr>) old secret
        = Inr (Refused ''invalid_confirmation'' ''Confirmation does not match this preview.'')"
proof -
  have r': "r' = (g_record g)\<lparr>p_nonceHash :=
      hashNonce sha256 nonce (p_id (g_record g)) (p_operationHash (g_record g)) secret\<rparr>"
    using rot by (simp add: rotatePendingNonce_allowed_iff)
  have gate': "checkConfirmationGate sha256 (g\<lparr>g_record := r'\<rparr>) = Inr Gate_ok"
    using gate by (simp add: checkConfirmationGate_ok_iff r' bound_to_def live_at_def)
  show "confirmPending sha256 (g\<lparr>g_record := r'\<rparr>) nonce secret
        = Inr (Allowed (r'\<lparr>p_status := C_executing, p_usedAt := Some (g_now g)\<rparr>))"
    using gate' by (simp add: confirmPending_def Let_def r')
  show "confirmPending sha256 (g\<lparr>g_record := r'\<rparr>) old secret
        = Inr (Refused ''invalid_confirmation'' ''Confirmation does not match this preview.'')"
    if "old \<noteq> nonce"
    using gate' no_collision that by (auto simp: confirmPending_def Let_def r')
qed


section \<open>A fresh preview is confirmable by its own nonce\<close>

lemma createPendingConfirmation_facts:
  assumes "createPendingConfirmation sha256 i0 n0 o0 input = Inr cc"
  shows "p_sessionId (cc_record cc) = ci_sessionId input"
    and "p_workspaceId (cc_record cc) = ci_workspaceId input"
    and "p_adminUserId (cc_record cc) = ci_adminUserId input"
    and "p_status (cc_record cc) = C_pending"
    and "p_expiresAt (cc_record cc) = Some (cc_expiresAt cc)"
    and "cc_expiresAt cc = ci_now input + (case ci_ttlMs input of None \<Rightarrow> DEFAULT_TTL_MS | Some t \<Rightarrow> t)"
    and "p_nonceHash (cc_record cc) = hashNonce sha256 (cc_nonce cc) (p_id (cc_record cc))
           (p_operationHash (cc_record cc)) (ci_sessionSecret input)"
    and "ci_operationBindingHash input = Some h \<Longrightarrow> p_operationHash (cc_record cc) = h"
  using assms by (auto simp: createPendingConfirmation_def Let_def split: option.splits)

text \<open>
  The hash is computed before the capability is added to the record: the record hashes to it when there is no
  capability and the caller supplied no hash of its own.
\<close>

lemma fresh_binding_hash:
  assumes "createPendingConfirmation sha256 i0 n0 o0 input = Inr cc"
    and "\<not> truthy (ci_capabilityId input)" and "ci_operationBindingHash input = None"
  shows "confirmationOperationBindingHash sha256 (cc_record cc) = Inr (p_operationHash (cc_record cc))"
  using assms
  by (auto simp: createPendingConfirmation_def Let_def keep_truthy_def
      confirmationOperationBindingHash_def isV2PreviewAuthority_def)

definition own_gate :: "CreateConfirmationInput \<Rightarrow> CreatedConfirmation \<Rightarrow> int \<Rightarrow> ConfirmationGateInput" where
  "own_gate input cc t =
     \<lparr>g_record = cc_record cc, g_sessionId = ci_sessionId input, g_workspaceId = ci_workspaceId input,
      g_adminUserId = ci_adminUserId input, g_now = t,
      g_expectedActionFingerprint = Some (p_actionFingerprint (cc_record cc)),
      g_expectedCatalogHash = Some (p_catalogHash (cc_record cc))\<rparr>"

lemma fresh_confirmation_confirms:
  assumes cc: "createPendingConfirmation sha256 i0 n0 o0 input = Inr cc" and t: "t < cc_expiresAt cc"
  shows "confirmPending sha256 (own_gate input cc t) (cc_nonce cc) (ci_sessionSecret input)
      = Inr (Allowed ((cc_record cc)\<lparr>p_status := C_executing, p_usedAt := Some t\<rparr>))
    \<longleftrightarrow> confirmationOperationBindingHash sha256 (cc_record cc) = Inr (p_operationHash (cc_record cc))"
proof -
  note f = createPendingConfirmation_facts [OF cc]
  show ?thesis
    unfolding confirmPending_allowed_iff checkConfirmationGate_ok_iff
    using t f(1-5) by (simp add: f(7) own_gate_def bound_to_def live_at_def fingerprint_ok_def)
qed

text \<open>An expected fingerprint that is absent or empty is not compared; any other one must be equal.\<close>

lemma fingerprint_ok_iff: "fingerprint_ok expected actual \<longleftrightarrow> expected \<in> {None, Some [], Some actual}"
  by (cases expected) (auto simp: fingerprint_ok_def)

end
