(* ===== verification/StoreInvariant.thy ===== *)
theory StoreInvariant
  imports Database
begin

text \<open>
  The invariant of the durable store and the fact that the statements of \<open>Database\<close> keep it:
  primary keys are unique, no operation owns two results, a confirmation that is not pending
  has lost its nonce, envelope and resume state, and the envelope of a settled confirmed
  operation is erased. The second half gives the rules the operations of the store use: what
  one row update does, and induction over the rows of a multi-row update.
\<close>

section \<open>The invariant\<close>

definition owned_operations :: "ActionResultRow list \<Rightarrow> string option list" where
  "owned_operations as = filter (\<lambda>k. k \<noteq> None) (map a_operation_id as)"

definition envelope_erased :: "OperationRunRow \<Rightarrow> bool" where
  "envelope_erased r \<longleftrightarrow>
     (o_confirmation_id r \<noteq> None \<and> terminal_run (o_status r) \<longrightarrow> stored_text (o_operation r) = ''{}'')"

definition payload_ok :: "PendingRow \<Rightarrow> bool" where
  "payload_ok c \<longleftrightarrow> payload_guard c = Inr ()"

definition store_ok :: "db \<Rightarrow> bool" where
  "store_ok d \<longleftrightarrow>
     distinct (map c_id (confirmations d)) \<and> distinct (map o_id (runs d))
     \<and> distinct (map s_id (steps d)) \<and> distinct (map a_id (results d))
     \<and> distinct (owned_operations (results d))
     \<and> (\<forall>c\<in>set (confirmations d). payload_ok c)
     \<and> (\<forall>r\<in>set (runs d). envelope_erased r)"

text \<open>Every row has moved along its lifecycle.\<close>

definition db_follows :: "db \<Rightarrow> db \<Rightarrow> bool" where
  "db_follows d d' \<longleftrightarrow>
     follows confirmation_move (confirmations d) (confirmations d')
     \<and> follows run_move (runs d) (runs d')
     \<and> follows step_move (steps d) (steps d')"

text \<open>The two halves of what every operation of the store is shown to do.\<close>

definition good_step :: "db \<Rightarrow> db \<Rightarrow> bool" where
  "good_step d d' \<longleftrightarrow> store_ok d' \<and> db_follows d d'"

lemma db_follows_refl [simp]: "db_follows d d"
  by (simp add: db_follows_def confirmation_lc.follows_refl run_lc.follows_refl step_lc.follows_refl)

lemma db_follows_trans: "db_follows d e \<Longrightarrow> db_follows e f \<Longrightarrow> db_follows d f"
  unfolding db_follows_def
  by (meson confirmation_lc.follows_trans run_lc.follows_trans step_lc.follows_trans)

lemma good_step_refl: "store_ok d \<Longrightarrow> good_step d d"
  by (simp add: good_step_def)

lemma good_step_trans: "good_step d e \<Longrightarrow> good_step e f \<Longrightarrow> good_step d f"
  unfolding good_step_def by (meson db_follows_trans)

lemma payload_ok_iff:
  "payload_ok c \<longleftrightarrow>
     (c_status c = C_expired \<longrightarrow> display_payload_scrubbed c \<and> dispatch_payload_scrubbed c)
     \<and> (c_status c \<noteq> C_pending \<longrightarrow> dispatch_payload_scrubbed c)"
  by (auto simp: payload_ok_def payload_guard_def)

lemma payload_ok_scrubbed: "payload_ok c \<Longrightarrow> c_status c \<noteq> C_pending \<Longrightarrow> dispatch_payload_scrubbed c"
  by (simp add: payload_ok_iff)

lemma payload_ok_bookkeeping:
  "payload_ok (c\<lparr>c_action_result_id := x, c_result_summary := y\<rparr>) = payload_ok c"
  "payload_ok (c\<lparr>c_idempotency_key := k\<rparr>) = payload_ok c"
  "payload_ok (c\<lparr>c_batch_id := b\<rparr>) = payload_ok c"
  by (simp_all add: payload_ok_iff display_payload_scrubbed_def dispatch_payload_scrubbed_def)

lemma terminal_scrub_erased: "envelope_erased (terminal_scrub r)"
  by (auto simp: envelope_erased_def terminal_scrub_def emptyObject_def)

lemma terminal_scrub_fields [simp]:
  "o_id (terminal_scrub r) = o_id r" "o_status (terminal_scrub r) = o_status r"
  "o_action_result_id (terminal_scrub r) = o_action_result_id r"
  "o_confirmation_id (terminal_scrub r) = o_confirmation_id r"
  by (simp_all add: terminal_scrub_def)

lemma terminal_scrub_move: "run_move r r' \<Longrightarrow> run_move r (terminal_scrub r')"
  by (auto simp: run_move_def terminal_scrub_def)

section \<open>Single statements\<close>

lemma update_run_status_good:
  assumes ok: "store_ok d"
    and mv: "\<And>r. r \<in> set (runs d) \<Longrightarrow> P r \<Longrightarrow> run_move r (f r)"
  shows "good_step d (fst (update_run_status P f d))"
proof -
  let ?rs = "upd_where P (\<lambda>r. terminal_scrub (f r)) (runs d)"
  have f: "follows run_move (runs d) ?rs"
    by (rule run_lc.follows_upd) (simp add: mv terminal_scrub_move)
  have "map o_id ?rs = map o_id (runs d)"
    using mv by (auto simp: upd_where_def run_move_def)
  moreover have "\<forall>r\<in>set ?rs. envelope_erased r"
    using ok by (auto simp: store_ok_def elim!: in_upd_whereE intro: terminal_scrub_erased)
  ultimately show ?thesis
    using ok f by (simp add: good_step_def store_ok_def update_run_status_def db_follows_def
        confirmation_lc.follows_refl step_lc.follows_refl)
qed

lemma update_run_plain_good:
  assumes ok: "store_ok d"
    and mv: "\<And>r. r \<in> set (runs d) \<Longrightarrow> P r \<Longrightarrow> run_move r (f r) \<and> (envelope_erased r \<longrightarrow> envelope_erased (f r))"
  shows "good_step d (fst (update_run_plain P f d))"
proof -
  have f: "follows run_move (runs d) (upd_where P f (runs d))"
    by (rule run_lc.follows_upd) (simp add: mv)
  have "map o_id (upd_where P f (runs d)) = map o_id (runs d)"
    using mv by (auto simp: upd_where_def run_move_def)
  moreover have "\<forall>r\<in>set (upd_where P f (runs d)). envelope_erased r"
    using ok mv by (auto simp: store_ok_def elim!: in_upd_whereE)
  ultimately show ?thesis
    using ok f by (simp add: good_step_def store_ok_def update_run_plain_def db_follows_def
        confirmation_lc.follows_refl step_lc.follows_refl)
qed

lemma update_steps_good:
  assumes ok: "store_ok d"
    and mv: "\<And>s. s \<in> set (steps d) \<Longrightarrow> P s \<Longrightarrow> step_move s (f s)"
  shows "good_step d (fst (update_steps P f d))"
proof -
  have f: "follows step_move (steps d) (upd_where P f (steps d))"
    by (rule step_lc.follows_upd) (simp add: mv)
  have "map s_id (upd_where P f (steps d)) = map s_id (steps d)"
    using mv by (auto simp: upd_where_def step_move_def)
  with ok f show ?thesis
    by (simp add: good_step_def store_ok_def update_steps_def db_follows_def
        confirmation_lc.follows_refl run_lc.follows_refl)
qed

lemma insert_result_good:
  assumes "store_ok d" "insert_result a d = Inr d'"
  shows "good_step d d'"
proof -
  have "d' = d\<lparr>results := results d @ [a]\<rparr>" "a_id a \<notin> a_id ` set (results d)"
    "a_operation_id a = None \<or> a_operation_id a \<notin> a_operation_id ` set (results d)"
    using assms(2) by (auto simp: insert_result_def split: if_splits)
  with assms(1) show ?thesis
    by (auto simp: good_step_def store_ok_def owned_operations_def db_follows_def
        confirmation_lc.follows_refl run_lc.follows_refl step_lc.follows_refl)
qed

lemma update_results_good:
  assumes "store_ok d" "update_results P f d = Inr (d', n)"
    and "\<And>a. a_id (f a) = a_id a \<and> a_operation_id (f a) = a_operation_id a"
  shows "good_step d d'"
proof -
  have "d' = d\<lparr>results := upd_where P f (results d)\<rparr>"
    using assms(2) by (auto simp: update_results_def Let_def split: if_splits)
  moreover have "map a_id (upd_where P f (results d)) = map a_id (results d)"
    and "map a_operation_id (upd_where P f (results d)) = map a_operation_id (results d)"
    using assms(3) by (auto simp: upd_where_def)
  ultimately show ?thesis
    using assms(1) by (simp add: good_step_def store_ok_def owned_operations_def db_follows_def
        confirmation_lc.follows_refl run_lc.follows_refl step_lc.follows_refl)
qed

lemma insert_step_good:
  assumes "store_ok d" "insert_step s d = Inr d'"
  shows "good_step d d'"
proof -
  have "d' = d\<lparr>steps := steps d @ [s]\<rparr>" "s_id s \<notin> s_id ` set (steps d)"
    using assms(2) by (auto simp: insert_step_def split: if_splits)
  with assms(1) show ?thesis
    by (simp add: good_step_def store_ok_def db_follows_def confirmation_lc.follows_refl
        run_lc.follows_refl step_lc.follows_append)
qed

lemma insert_run_good:
  assumes "store_ok d" "insert_run r d = Inr d'" "o_status r = O_prepared"
  shows "good_step d d'"
proof -
  have "d' = d\<lparr>runs := runs d @ [r]\<rparr>" "o_id r \<notin> o_id ` set (runs d)"
    using assms(2) by (auto simp: insert_run_def split: if_splits)
  with assms(1,3) show ?thesis
    by (simp add: good_step_def store_ok_def db_follows_def confirmation_lc.follows_refl
        step_lc.follows_refl run_lc.follows_append envelope_erased_def terminal_run_def)
qed

lemma insert_confirmation_good:
  assumes "store_ok d" "insert_confirmation c d = Inr d'"
  shows "good_step d d'"
proof -
  have "d' = d\<lparr>confirmations := confirmations d @ [c]\<rparr>" "c_id c \<notin> c_id ` set (confirmations d)"
    "payload_ok c"
    using assms(2) by (auto simp: insert_confirmation_def payload_ok_def split: if_splits)
  with assms(1) show ?thesis
    by (simp add: good_step_def store_ok_def db_follows_def run_lc.follows_refl
        step_lc.follows_refl confirmation_lc.follows_append)
qed

text \<open>Statements on tables the invariant does not mention.\<close>

definition core_same :: "db \<Rightarrow> db \<Rightarrow> bool" where
  "core_same d d' \<longleftrightarrow>
     confirmations d' = confirmations d \<and> runs d' = runs d \<and> steps d' = steps d \<and> results d' = results d"

lemma core_same_good: "store_ok d \<Longrightarrow> core_same d d' \<Longrightarrow> good_step d d'"
  by (simp add: good_step_def store_ok_def db_follows_def core_same_def confirmation_lc.follows_refl
      run_lc.follows_refl step_lc.follows_refl)

lemma update_ledger_core: "update_ledger P f d = Inr (d', n) \<Longrightarrow> core_same d d'"
  by (auto simp: update_ledger_def core_same_def Let_def split: if_splits)

lemma delete_ledger_core: "core_same d (delete_ledger P d)"
  by (simp add: delete_ledger_def core_same_def)

lemma fresh_id_core: "fresh_id E d = (k, d') \<Longrightarrow> core_same d d'"
  by (auto simp: fresh_id_def core_same_def)

lemma update_confirmations_good:
  assumes ok: "store_ok d"
    and mv: "\<And>c. c \<in> set (confirmations d) \<Longrightarrow> P c \<Longrightarrow> confirmation_move c (f c) \<and> payload_ok (f c)"
  shows "good_step d (d\<lparr>confirmations := upd_where P f (confirmations d)\<rparr>)"
proof -
  have f: "follows confirmation_move (confirmations d) (upd_where P f (confirmations d))"
    by (rule confirmation_lc.follows_upd) (simp add: mv)
  have "map c_id (upd_where P f (confirmations d)) = map c_id (confirmations d)"
    using mv by (auto simp: upd_where_def confirmation_move_def)
  moreover have "\<forall>c\<in>set (upd_where P f (confirmations d)). payload_ok c"
    using ok mv by (auto simp: store_ok_def elim!: in_upd_whereE)
  ultimately show ?thesis
    using ok f by (simp add: good_step_def store_ok_def db_follows_def run_lc.follows_refl step_lc.follows_refl)
qed

lemma update_confirmation_key_good:
  "store_ok d \<Longrightarrow> good_step d (fst (update_confirmation_key P k d))"
  using update_confirmations_good [of d P "\<lambda>c. c\<lparr>c_idempotency_key := k\<rparr>"]
  by (simp add: update_confirmation_key_def payload_ok_bookkeeping confirmation_move_def store_ok_def)


section \<open>One row of a confirmation update\<close>

lemma put_confirmation_good:
  assumes ok: "store_ok d" and old: "sel c_id (c_id new) (confirmations d) = Some old"
    and mv: "confirmation_move old new" and guard: "payload_ok new"
  shows "good_step d (put_confirmation new d)"
  unfolding put_confirmation_def
proof (rule update_confirmations_good [OF ok])
  fix c
  assume "c \<in> set (confirmations d)" "c_id c = c_id new"
  with ok old have "c = old"
    using sel_distinct [of c_id "confirmations d" c] by (simp add: store_ok_def)
  with mv guard show "confirmation_move c new \<and> payload_ok new" by simp
qed

lemma pre_dispatch_insert_good:
  assumes "store_ok d" "pre_dispatch_insert E c d = Inr d'"
  shows "good_step d d'"
proof (cases "find (\<lambda>r. o_id r = c_operation_id c \<and> o_status r = O_prepared \<and> o_action_result_id r = None) (runs d)")
  case None
  with assms show ?thesis by (simp add: pre_dispatch_insert_def good_step_refl)
next
  case (Some r)
  obtain aid d1 where f: "fresh_id E d = (aid, d1)" by (cases "fresh_id E d")
  from core_same_good [OF assms(1) fresh_id_core [OF f]] have g: "good_step d d1" .
  moreover have "good_step d1 d'"
    using assms(2) Some f g
    by (auto simp: pre_dispatch_insert_def Let_def good_step_def intro!: insert_result_good [unfolded good_step_def])
  ultimately show ?thesis by (rule good_step_trans)
qed

lemma pre_dispatch_settle_run_good: "store_ok d \<Longrightarrow> good_step d (pre_dispatch_settle_run c d)"
  unfolding pre_dispatch_settle_run_def
  by (rule update_run_status_good) (auto simp: run_move_def)

lemma pre_dispatch_link_good: "store_ok d \<Longrightarrow> good_step d (pre_dispatch_link c d)"
  unfolding pre_dispatch_link_def Let_def
  by (rule update_confirmations_good)
    (auto simp: confirmation_move_def payload_ok_bookkeeping store_ok_def)

lemma pre_dispatch_terminal_good:
  assumes "store_ok d" "pre_dispatch_terminal E c d = Inr d'"
  shows "good_step d d'"
proof -
  from assms(2) obtain d1 where d1: "pre_dispatch_insert E c d = Inr d1"
    and d': "d' = pre_dispatch_link c (pre_dispatch_settle_run c d1)"
    by (auto simp: pre_dispatch_terminal_def)
  have g1: "good_step d d1" by (rule pre_dispatch_insert_good [OF assms(1) d1])
  then have g2: "good_step d1 (pre_dispatch_settle_run c d1)"
    by (simp add: good_step_def pre_dispatch_settle_run_good [unfolded good_step_def])
  then have g3: "good_step (pre_dispatch_settle_run c d1) d'"
    unfolding d' by (simp add: good_step_def pre_dispatch_link_good [unfolded good_step_def])
  from good_step_trans [OF g1 good_step_trans [OF g2 g3]] show ?thesis .
qed

lemma settlement_scrubs_good: "store_ok d \<Longrightarrow> good_step d (settlement_scrubs_operation c d)"
  unfolding settlement_scrubs_operation_def
  by (rule update_run_plain_good) (auto simp: run_move_def envelope_erased_def emptyObject_def)

lemma update_confirmation_row_cases:
  assumes "update_confirmation_row E f k d = Inr d'"
  obtains (absent) "sel c_id k (confirmations d) = None" "d' = d"
  | (terminal) old where "sel c_id k (confirmations d) = Some old" "payload_ok (f old)"
      "pre_dispatch_operation_guard old (f old) d = Inr ()" "summary_column_ok (f old)"
      "pre_dispatch_terminal_move old (f old)"
      "pre_dispatch_terminal E (f old) (put_confirmation (f old) d) = Inr d'"
  | (settlement) old where "sel c_id k (confirmations d) = Some old" "payload_ok (f old)"
      "summary_column_ok (f old)" "\<not> pre_dispatch_terminal_move old (f old)"
      "settlement_move old (f old)"
      "d' = settlement_scrubs_operation (f old) (put_confirmation (f old) d)"
  | (plain) old where "sel c_id k (confirmations d) = Some old" "payload_ok (f old)"
      "summary_column_ok (f old)" "\<not> pre_dispatch_terminal_move old (f old)"
      "\<not> settlement_move old (f old)" "d' = put_confirmation (f old) d"
  using assms
  by (auto simp: update_confirmation_row_def Let_def payload_ok_def split: option.splits if_splits)

lemma update_confirmation_row_good:
  assumes ok: "store_ok d" and upd: "update_confirmation_row E f k d = Inr d'"
    and mv: "\<And>c. sel c_id k (confirmations d) = Some c \<Longrightarrow> confirmation_move c (f c)"
  shows "good_step d d'"
  using upd
proof (cases rule: update_confirmation_row_cases)
  case absent
  with ok show ?thesis by (simp add: good_step_refl)
next
  case (terminal old)
  from mv [OF terminal(1)] sel_SomeD [OF terminal(1)] have k: "c_id (f old) = k"
    by (simp add: confirmation_move_def)
  have g: "good_step d (put_confirmation (f old) d)"
    by (rule put_confirmation_good [OF ok]) (use terminal mv k in auto)
  then have "good_step (put_confirmation (f old) d) d'"
    using terminal(6) by (auto simp: good_step_def intro!: pre_dispatch_terminal_good [unfolded good_step_def])
  from good_step_trans [OF g this] show ?thesis .
next
  case (settlement old)
  from mv [OF settlement(1)] sel_SomeD [OF settlement(1)] have k: "c_id (f old) = k"
    by (simp add: confirmation_move_def)
  have g: "good_step d (put_confirmation (f old) d)"
    by (rule put_confirmation_good [OF ok]) (use settlement mv k in auto)
  then have "good_step (put_confirmation (f old) d) d'"
    unfolding settlement(6) by (simp add: good_step_def settlement_scrubs_good [unfolded good_step_def])
  from good_step_trans [OF g this] show ?thesis .
next
  case (plain old)
  from mv [OF plain(1)] sel_SomeD [OF plain(1)] have k: "c_id (f old) = k"
    by (simp add: confirmation_move_def)
  show ?thesis unfolding plain(6)
    by (rule put_confirmation_good [OF ok]) (use plain mv k in auto)
qed

section \<open>Induction over the rows of an update\<close>

lemma sel_put_confirmation_other:
  "j \<noteq> c_id new \<Longrightarrow> sel c_id j (confirmations (put_confirmation new d)) = sel c_id j (confirmations d)"
  by (simp add: put_confirmation_def sel_upd_where_other)

lemma pre_dispatch_insert_confirmations:
  "pre_dispatch_insert E c d = Inr d' \<Longrightarrow> confirmations d' = confirmations d \<and> runs d' = runs d"
  by (auto simp: pre_dispatch_insert_def fresh_id_def insert_result_def Let_def split: option.splits if_splits)

lemma sel_pre_dispatch_link_other:
  "j \<noteq> c_id c \<Longrightarrow> sel c_id j (confirmations (pre_dispatch_link c d)) = sel c_id j (confirmations d)"
  unfolding pre_dispatch_link_def Let_def by (simp, rule sel_upd_where_other) auto

lemma update_confirmation_row_other:
  assumes upd: "update_confirmation_row E f k d = Inr d'"
    and key: "\<And>c. sel c_id k (confirmations d) = Some c \<Longrightarrow> c_id (f c) = k"
    and other: "j \<noteq> k"
  shows "sel c_id j (confirmations d') = sel c_id j (confirmations d)"
  using upd
proof (cases rule: update_confirmation_row_cases)
  case (terminal old)
  then show ?thesis
    using key other
    by (auto simp: pre_dispatch_terminal_def pre_dispatch_settle_run_def update_run_status_def
        sel_pre_dispatch_link_other sel_put_confirmation_other dest!: pre_dispatch_insert_confirmations)
qed (use key other in \<open>auto simp: sel_put_confirmation_other settlement_scrubs_operation_def update_run_plain_def\<close>)

lemma fold_confirmation_rows:
  assumes "fold_result (update_confirmation_row E f) ks d = Inr d'" and "distinct ks"
    and "\<And>k. k \<in> set ks \<Longrightarrow> sel c_id k (confirmations d) = Some (row k)"
    and "\<And>k. k \<in> set ks \<Longrightarrow> c_id (f (row k)) = k"
    and "\<And>k d1 d2. k \<in> set ks \<Longrightarrow> sel c_id k (confirmations d1) = Some (row k) \<Longrightarrow> Q d1
           \<Longrightarrow> update_confirmation_row E f k d1 = Inr d2 \<Longrightarrow> Q d2"
    and "Q d"
  shows "Q d'"
  using assms
proof (induction ks arbitrary: d)
  case Nil
  then show ?case by simp
next
  case (Cons k ks)
  from Cons.prems(1) obtain e where e: "update_confirmation_row E f k d = Inr e"
    and rest: "fold_result (update_confirmation_row E f) ks e = Inr d'" by auto
  have k: "sel c_id k (confirmations d) = Some (row k)" using Cons.prems(3) by simp
  have "Q e" using Cons.prems(5) [OF _ k Cons.prems(6) e] by simp
  moreover have "sel c_id j (confirmations e) = Some (row j)" if "j \<in> set ks" for j
  proof -
    have "j \<noteq> k" using that Cons.prems(2) by auto
    from update_confirmation_row_other [OF e _ this] k Cons.prems(4) [of k]
    have "sel c_id j (confirmations e) = sel c_id j (confirmations d)" by auto
    with Cons.prems(3) [of j] that show ?thesis by simp
  qed
  moreover have "\<And>j d1 d2. j \<in> set ks \<Longrightarrow> sel c_id j (confirmations d1) = Some (row j) \<Longrightarrow> Q d1
           \<Longrightarrow> update_confirmation_row E f j d1 = Inr d2 \<Longrightarrow> Q d2"
    using Cons.prems(5) by (meson list.set_intros(2))
  ultimately show ?case
    using Cons.IH [OF rest] Cons.prems(2,4) by auto
qed

text \<open>
  To show that \<open>Q\<close> survives an \<open>UPDATE\<close>, show it for one matching row, read as it was when the
  statement started.
\<close>

lemma update_confirmation_status_induct:
  assumes upd: "update_confirmation_status E P f d = Inr (d', n)" and ok: "store_ok d"
    and key: "\<And>c. c \<in> set (confirmations d) \<Longrightarrow> P c \<Longrightarrow> c_id (f c) = c_id c"
    and row: "\<And>c d1 d2. c \<in> set (confirmations d) \<Longrightarrow> P c \<Longrightarrow>
           sel c_id (c_id c) (confirmations d1) = Some c \<Longrightarrow> Q d1
           \<Longrightarrow> update_confirmation_row E f (c_id c) d1 = Inr d2 \<Longrightarrow> Q d2"
    and Q: "Q d"
  shows "Q d'"
proof -
  let ?ks = "map c_id (filter P (confirmations d))"
  have dist: "distinct (map c_id (confirmations d))" using ok by (simp add: store_ok_def)
  have fold: "fold_result (update_confirmation_row E f) ?ks d = Inr d'"
    using upd by (auto simp: update_confirmation_status_def Let_def)
  have rows: "\<exists>c. c \<in> set (confirmations d) \<and> P c \<and> c_id c = k \<and> sel c_id k (confirmations d) = Some c"
    if "k \<in> set ?ks" for k
    using that sel_distinct [OF dist] by auto
  define row_of where "row_of k = the (sel c_id k (confirmations d))" for k
  have ks: "distinct ?ks" using dist by (rule distinct_map_filter)
  show ?thesis
  proof (rule fold_confirmation_rows [OF fold ks, where row = row_of])
    fix k assume k: "k \<in> set ?ks"
    then obtain c where c: "c \<in> set (confirmations d)" "P c" "c_id c = k"
      "sel c_id k (confirmations d) = Some c" using rows by blast
    show "sel c_id k (confirmations d) = Some (row_of k)" by (simp add: row_of_def c)
    show "c_id (f (row_of k)) = k" using key [OF c(1,2)] by (simp add: row_of_def c)
  next
    fix k d1 d2
    assume k: "k \<in> set ?ks" and s: "sel c_id k (confirmations d1) = Some (row_of k)" and "Q d1"
      and "update_confirmation_row E f k d1 = Inr d2"
    from rows [OF k] obtain c where c: "c \<in> set (confirmations d)" "P c" "c_id c = k"
      "sel c_id k (confirmations d) = Some c" by blast
    then have "row_of k = c" by (simp add: row_of_def)
    with row [OF c(1,2)] s \<open>Q d1\<close> \<open>update_confirmation_row E f k d1 = Inr d2\<close> c(3)
    show "Q d2" by simp
  qed (rule Q)
qed

lemma update_confirmation_status_good:
  assumes upd: "update_confirmation_status E P f d = Inr (d', n)" and ok: "store_ok d"
    and mv: "\<And>c. c \<in> set (confirmations d) \<Longrightarrow> P c \<Longrightarrow> confirmation_move c (f c)"
  shows "good_step d d'"
proof (rule update_confirmation_status_induct [OF upd ok])
  fix c assume "c \<in> set (confirmations d)" "P c"
  from mv [OF this] show "c_id (f c) = c_id c" by (simp add: confirmation_move_def)
next
  fix c d1 d2
  assume c: "c \<in> set (confirmations d)" "P c" "sel c_id (c_id c) (confirmations d1) = Some c"
    and g: "good_step d d1" and u: "update_confirmation_row E f (c_id c) d1 = Inr d2"
  have "good_step d1 d2"
    by (rule update_confirmation_row_good [OF _ u]) (use g c mv in \<open>auto simp: good_step_def\<close>)
  with g show "good_step d d2" by (rule good_step_trans)
qed (rule good_step_refl [OF ok])

lemma update_confirmation_nonce_good:
  assumes "update_confirmation_nonce P h d = Inr (d', n)" and "store_ok d"
  shows "good_step d d'"
proof -
  have d': "d' = d\<lparr>confirmations := upd_where P (\<lambda>c. c\<lparr>c_nonce_hash := h\<rparr>) (confirmations d)\<rparr>"
    and g: "\<forall>c\<in>set (confirmations d). P c \<longrightarrow> succeeded (payload_guard (c\<lparr>c_nonce_hash := h\<rparr>))"
    using assms(1) by (auto simp: update_confirmation_nonce_def Let_def list_all_iff split: if_splits)
  show ?thesis unfolding d'
    by (rule update_confirmations_good [OF assms(2)])
      (use g in \<open>auto simp: confirmation_move_def payload_ok_def succeeded_iff\<close>)
qed


section \<open>Updates of the row with a given key\<close>

lemma filter_key_sel:
  "distinct (map key rows) \<Longrightarrow>
   filter (\<lambda>r. key r = k \<and> S r) rows
     = (case sel key k rows of None \<Rightarrow> [] | Some r \<Rightarrow> if S r then [r] else [])"
proof (induction rows)
  case (Cons r rows)
  have "filter (\<lambda>r. key r = k \<and> S r) rows = []" if "key r = k"
    using Cons.prems that by (simp add: filter_empty_conv) (metis imageI)
  with Cons show ?case by (auto simp: sel_Cons)
qed simp

lemma find_key_sel:
  "distinct (map key rows) \<Longrightarrow>
   find (\<lambda>r. key r = k \<and> S r) rows
     = (case sel key k rows of None \<Rightarrow> None | Some r \<Rightarrow> if S r then Some r else None)"
proof (induction rows)
  case (Cons r rows)
  have "find (\<lambda>r. key r = k \<and> S r) rows = None" if "key r = k"
    using Cons.prems that by (simp add: find_None_iff) (metis imageI)
  with Cons show ?case by (auto simp: sel_Cons)
qed simp

lemma store_ok_distinct:
  assumes "store_ok d"
  shows "distinct (map c_id (confirmations d))" "distinct (map o_id (runs d))"
    "distinct (map s_id (steps d))" "distinct (map a_id (results d))"
  using assms by (simp_all add: store_ok_def)

lemma update_confirmation_status_one:
  assumes "store_ok d"
  shows "update_confirmation_status E (\<lambda>r. c_id r = k \<and> S r) f d =
     (case sel c_id k (confirmations d) of
        None \<Rightarrow> Inr (d, 0)
      | Some c \<Rightarrow> if S c then and_then (update_confirmation_row E f k d) (\<lambda>d1. Inr (d1, 1)) else Inr (d, 0))"
proof -
  have "filter (\<lambda>r. c_id r = k \<and> S r) (confirmations d)
      = (case sel c_id k (confirmations d) of None \<Rightarrow> [] | Some r \<Rightarrow> if S r then [r] else [])"
    by (rule filter_key_sel [OF store_ok_distinct(1) [OF assms]])
  note filter = this
  show ?thesis
  proof (cases "sel c_id k (confirmations d)")
    case None
    with filter show ?thesis by (simp add: update_confirmation_status_def)
  next
    case (Some c)
    from sel_SomeD [OF this] have "c_id c = k" by simp
    with Some filter show ?thesis
      by (cases "update_confirmation_row E f k d") (simp_all add: update_confirmation_status_def)
  qed
qed

section \<open>What a pre-dispatch termination does to the operation\<close>

lemma sel_put_confirmation:
  "sel c_id (c_id new) (confirmations d) = Some old \<Longrightarrow>
   sel c_id (c_id new) (confirmations (put_confirmation new d)) = Some new"
  unfolding put_confirmation_def
proof simp
  show "sel c_id (c_id new) rows = Some old \<Longrightarrow>
      sel c_id (c_id new) (upd_where (\<lambda>r. c_id r = c_id new) (\<lambda>r. new) rows) = Some new" for rows
    by (induction rows) (auto simp: upd_where_def sel_Cons)
qed

lemma result_of_operation_append_fresh:
  "Some k \<notin> a_operation_id ` set (results d) \<Longrightarrow> a_operation_id a = Some k \<Longrightarrow>
   result_of_operation k (d\<lparr>results := results d @ [a]\<rparr>) = Some a"
proof -
  assume n: "Some k \<notin> a_operation_id ` set (results d)" and a: "a_operation_id a = Some k"
  have "Some k \<notin> a_operation_id ` set as \<Longrightarrow> find (\<lambda>a. a_operation_id a = Some k) (as @ [a]) = Some a" for as
    using a by (induction as) auto
  with n show ?thesis by (simp add: result_of_operation_def)
qed

lemma pre_dispatch_terminal_effect:
  assumes ok: "store_ok d"
    and c: "sel c_id (c_id c) (confirmations d) = Some c"
    and r: "sel o_id (c_operation_id c) (runs d) = Some r"
    and prepared: "o_status r = O_prepared" "o_action_result_id r = None"
    and t: "pre_dispatch_terminal E c d = Inr d'"
  obtains a r' c' where "results d' = results d @ [a]" "a_operation_id a = Some (o_id r)"
    "a_kind a = R_definitive_failed" "a_result a = pre_dispatch_result (c_status c) (o_action_name r)"
    "sel o_id (c_operation_id c) (runs d') = Some r'" "o_status r' = O_definitive_failed"
    "o_action_result_id r' = Some (a_id a)" "o_operation r' = emptyObject"
    "sel c_id (c_id c) (confirmations d') = Some c'"
    "c_action_result_id c' = (if c_action_result_id c = None then Some (a_id a) else c_action_result_id c)"
    "c' = c\<lparr>c_action_result_id := c_action_result_id c', c_result_summary := c_result_summary c'\<rparr>"
proof -
  have oid: "o_id r = c_operation_id c" using sel_SomeD [OF r] by simp
  have find: "find (\<lambda>r. o_id r = c_operation_id c \<and> o_status r = O_prepared \<and> o_action_result_id r = None)
      (runs d) = Some r"
    using find_key_sel [OF store_ok_distinct(2) [OF ok]] r prepared by simp
  from t obtain d1 where d1: "pre_dispatch_insert E c d = Inr d1"
    and d': "d' = pre_dispatch_link c (pre_dispatch_settle_run c d1)"
    by (auto simp: pre_dispatch_terminal_def)
  from d1 find obtain a where a: "results d1 = results d @ [a]" "a_operation_id a = Some (o_id r)"
    "a_kind a = R_definitive_failed" "a_result a = pre_dispatch_result (c_status c) (o_action_name r)"
    "Some (o_id r) \<notin> a_operation_id ` set (results d)"
    and same: "confirmations d1 = confirmations d" "runs d1 = runs d"
    by (auto simp: pre_dispatch_insert_def fresh_id_def insert_result_def Let_def split: if_splits)
  have roo: "result_of_operation (o_id r) e = Some a" if "results e = results d1" for e
    using result_of_operation_append_fresh [OF a(5,2)] that a(1) by (simp add: result_of_operation_def)
  let ?e = "pre_dispatch_settle_run c d1"
  have res: "results ?e = results d1" "results d' = results d1" "confirmations ?e = confirmations d"
    "runs d' = runs ?e"
    by (simp_all add: pre_dispatch_settle_run_def update_run_status_def d' pre_dispatch_link_def Let_def same)
  have "sel o_id (c_operation_id c) (runs ?e) = map_option
      (\<lambda>r. if o_id r = c_operation_id c \<and> o_status r = O_prepared \<and> o_action_result_id r = None
           then terminal_scrub (r\<lparr>o_status := O_definitive_failed,
              o_action_result_id := map_option a_id (result_of_operation (o_id r) d1),
              o_operation := emptyObject,
              o_updated_at := (case c_used_at c of None \<Rightarrow> c_created_at c | Some t \<Rightarrow> t)\<rparr>)
           else r) (sel o_id (c_operation_id c) (runs d1))"
    unfolding pre_dispatch_settle_run_def update_run_status_def
    by (simp, rule sel_upd_where) simp
  then obtain r' where r': "sel o_id (c_operation_id c) (runs ?e) = Some r'"
    "o_status r' = O_definitive_failed" "o_action_result_id r' = Some (a_id a)" "o_operation r' = emptyObject"
    using roo [of d1] by (simp add: r prepared oid same terminal_scrub_def emptyObject_def)
  have "sel c_id (c_id c) (confirmations d') = map_option
      (\<lambda>x. if c_id x = c_id c \<and> c_action_result_id x = None
           then x\<lparr>c_action_result_id := map_option a_id (result_of_operation (c_operation_id c) ?e),
                  c_result_summary := map_option a_summary (result_of_operation (c_operation_id c) ?e)\<rparr>
           else x) (sel c_id (c_id c) (confirmations ?e))"
    unfolding d' pre_dispatch_link_def Let_def by (simp, rule sel_upd_where) simp
  then obtain c' where c': "sel c_id (c_id c) (confirmations d') = Some c'"
    "c_action_result_id c' = (if c_action_result_id c = None then Some (a_id a) else c_action_result_id c)"
    "c' = c\<lparr>c_action_result_id := c_action_result_id c', c_result_summary := c_result_summary c'\<rparr>"
    using c roo [OF res(1), unfolded oid] by (simp add: res(3))
  show ?thesis
    by (rule that [of a r' c']) (use a r' c' res in auto)
qed

end
