(* ===== verification/Confirmations.thy ===== *)
theory Confirmations
  imports ConfirmationGate StoreInvariant
begin

text \<open>
  The pending-confirmation concern of the store (\<open>src/src/db/store/confirmations.ts\<close>): every
  operation with its transaction, its guards and the triggers it runs into. One clock reading
  \<open>now E\<close> stands for all readings of one call.
\<close>

section \<open>Rows and records\<close>

definition parseStoredAgentState :: "stored_json option \<Rightarrow> jsv" where
  "parseStoredAgentState v =
     (case v of None \<Rightarrow> JUndef
      | Some j \<Rightarrow> if stored_text j = [] then JUndef
                  else case stored_value j of None \<Rightarrow> JUndef | Some x \<Rightarrow> x)"

definition pendingRowToRecord :: "PendingRow \<Rightarrow> PendingConfirmationRecord" where
  "pendingRowToRecord c =
     \<lparr>p_id = c_id c, p_operationId = c_operation_id c, p_sessionId = c_session_id c,
      p_workspaceId = c_workspace_id c, p_adminUserId = c_admin_user_id c, p_status = c_status c,
      p_risk = c_risk c, p_preview = c_preview c,
      p_operation = (case c_operation c of None \<Rightarrow> JObj [] | Some v \<Rightarrow> v),
      p_installationGeneration = c_installation_generation c, p_operationHash = c_operation_hash c,
      p_targetFingerprints = c_target_fingerprints c, p_actionFingerprint = c_action_fingerprint c,
      p_catalogHash = c_catalog_hash c, p_capabilityId = keep_truthy (c_capability_id c),
      p_capabilityHash = keep_truthy (c_capability_hash c), p_nonceHash = c_nonce_hash c,
      p_expiresAt = c_expires_at c, p_createdAt = c_created_at c, p_usedAt = c_used_at c,
      p_agentState = parseStoredAgentState (c_agent_state c), p_actionResultId = c_action_result_id c,
      p_origin = c_origin c, p_registryId = c_registry_id c, p_authorityModel = c_authority_model c,
      p_executorKind = c_executor_kind c, p_runId = keep_truthy (c_run_id c),
      p_batchId = keep_truthy (c_batch_id c)\<rparr>"

definition dispatchUnknownResult :: "string \<Rightarrow> jsv" where
  "dispatchUnknownResult actionName =
     JObj [(''kind'', JStr ''receipt''),
           (''receipt'', JObj
              [(''ok'', JBool False), (''action'', JStr actionName),
               (''code'', JStr ''commit_outcome_unknown''),
               (''message'', JStr ''This confirmation entered the dispatch window without a durable final receipt, so its outcome is unknown.''),
               (''recovery'', JStr ''Verify the result in Clockify before trying the action again.'')])]"

text \<open>\<open>JSON.stringify(v)\<close> bound to a text column, as the value it parses back to.\<close>

definition json_column :: "jsv \<Rightarrow> (string, jsv) result" where
  "json_column v = (case json_clone v of None \<Rightarrow> Inl ''bind_undefined'' | Some w \<Rightarrow> Inr w)"

definition canonical_summary :: "string \<Rightarrow> jsv \<Rightarrow> (string, jsv) result" where
  "canonical_summary aid v =
     (case buildActionResultSummary aid v of
        Inl action_result_not_json \<Rightarrow> Inl ''action_result_not_json''
      | Inr s \<Rightarrow> Inr s)"

definition canonical_result :: "jsv \<Rightarrow> (string, jsv) result" where
  "canonical_result v = (case json_clone v of None \<Rightarrow> Inl ''action_result_not_json'' | Some w \<Rightarrow> Inr w)"

section \<open>Saving a preview\<close>

definition save_discriminator :: "PendingConfirmationRecord \<Rightarrow> DiscriminatorTuple" where
  "save_discriminator r =
     (if p_origin r \<noteq> None
      then \<lparr>d_origin = p_origin r, d_registryId = p_registryId r, d_authorityModel = p_authorityModel r,
            d_executorKind = p_executorKind r, d_runId = p_runId r, d_batchId = p_batchId r,
            d_sourceUndoId = None, d_sourceUndoHash = None,
            d_fieldProvenanceJson = None, d_fieldProvenanceHash = None\<rparr>
      else (v1DiscriminatorFromCapability (p_capabilityId r))
             \<lparr>d_runId := p_runId r, d_batchId := p_batchId r\<rparr>)"

definition save_row :: "PendingConfirmationRecord \<Rightarrow> (string, PendingRow) result" where
  "save_row r =
     (let executable = (p_status r = C_pending);
          scrubPreview = (p_status r = C_cancelled \<or> p_status r = C_expired);
          disc = save_discriminator r in
      and_then (json_column (if scrubPreview then JArr [] else p_risk r)) (\<lambda>risk.
      and_then (json_column (if scrubPreview then JObj [] else p_preview r)) (\<lambda>preview.
      and_then (if executable then map_sum id Some (json_column (p_operation r)) else Inr None) (\<lambda>operation.
      and_then (json_column (if scrubPreview then JArr [] else p_targetFingerprints r)) (\<lambda>targets.
      and_then (if \<not> executable \<or> p_agentState r = JUndef then Inr None
                else map_sum id (\<lambda>v. Some (stored v)) (json_column (p_agentState r))) (\<lambda>agent.
        Inr \<lparr>c_id = p_id r, c_operation_id = p_operationId r, c_session_id = p_sessionId r,
             c_workspace_id = p_workspaceId r, c_admin_user_id = p_adminUserId r,
             c_status = p_status r, c_risk = risk, c_preview = preview, c_operation = operation,
             c_installation_generation = p_installationGeneration r,
             c_operation_hash = p_operationHash r, c_target_fingerprints = targets,
             c_action_fingerprint = p_actionFingerprint r, c_catalog_hash = p_catalogHash r,
             c_capability_id = p_capabilityId r, c_capability_hash = p_capabilityHash r,
             c_nonce_hash = (if executable then p_nonceHash r else []),
             c_expires_at = p_expiresAt r, c_created_at = p_createdAt r, c_used_at = p_usedAt r,
             c_result_summary = None, c_agent_state = agent,
             c_action_result_id = p_actionResultId r, c_idempotency_key = None,
             c_origin = d_origin disc, c_registry_id = d_registryId disc,
             c_authority_model = d_authorityModel disc, c_executor_kind = d_executorKind disc,
             c_run_id = d_runId disc, c_batch_id = d_batchId disc\<rparr>))))))"

definition savePendingConfirmation ::
  "(string \<Rightarrow> string) \<Rightarrow> PendingConfirmationRecord \<Rightarrow> db \<Rightarrow> (string, db) result" where
  "savePendingConfirmation sha256 r d =
     and_then
       (if p_authorityModel r = Some preview_confirmation_v2 \<and> p_registryId r = Some v2_api
        then case confirmationOperationBindingHash sha256 r of
               Inl e \<Rightarrow> Inl ''v2_confirmation_operation_not_hashable''
             | Inr h \<Rightarrow> if h \<noteq> p_operationHash r then Inl ''v2_confirmation_operation_hash_mismatch''
                       else Inr ()
        else Inr ())
       (\<lambda>_. and_then (save_row r) (\<lambda>c. insert_confirmation c d))"

section \<open>Reading with lazy expiry\<close>

text \<open>
  The columns every pre-dispatch termination sets: the dispatch payload and the display payload
  are erased, the nonce is cleared, the idempotency binding is dropped.
\<close>

definition scrub_to :: "PendingStatus \<Rightarrow> int \<Rightarrow> PendingRow \<Rightarrow> PendingRow" where
  "scrub_to status t c =
     c\<lparr>c_status := status, c_used_at := Some t, c_nonce_hash := [], c_risk := JArr [],
       c_preview := JObj [], c_target_fingerprints := JArr [], c_agent_state := None,
       c_operation := None, c_idempotency_key := None\<rparr>"

definition due :: "int \<Rightarrow> PendingRow \<Rightarrow> bool" where
  "due t c = (case c_expires_at c of None \<Rightarrow> True | Some e \<Rightarrow> e \<le> t)"

definition getPendingConfirmation :: "env \<Rightarrow> string \<Rightarrow> PendingConfirmationRecord option tx" where
  "getPendingConfirmation E k d =
     (case sel c_id k (confirmations d) of
        None \<Rightarrow> Inr (d, None)
      | Some c \<Rightarrow>
          if c_status c = C_pending \<and> due (now E) c
          then and_then (update_confirmation_status E (\<lambda>r. c_id r = k \<and> c_status r = C_pending)
                          (scrub_to C_expired (now E)) d) (\<lambda>(d1, n).
               Inr (d1, map_option pendingRowToRecord (sel c_id k (confirmations d1))))
          else Inr (d, Some (pendingRowToRecord c)))"

definition expire_due_in_session :: "env \<Rightarrow> string \<Rightarrow> int \<Rightarrow> nat tx" where
  "expire_due_in_session E sessionId t =
     update_confirmation_status E
       (\<lambda>c. c_session_id c = sessionId \<and> c_status c = C_pending \<and> due t c) (scrub_to C_expired t)"

definition live_in_session :: "string \<Rightarrow> int \<Rightarrow> db \<Rightarrow> PendingRow list" where
  "live_in_session sessionId t d =
     filter (\<lambda>c. c_session_id c = sessionId \<and> c_status c = C_pending \<and> \<not> due t c) (confirmations d)"

definition listPendingConfirmations :: "env \<Rightarrow> string \<Rightarrow> int \<Rightarrow> PendingConfirmationRecord list tx" where
  "listPendingConfirmations E sessionId t d =
     and_then (expire_due_in_session E sessionId t d) (\<lambda>(d1, n).
       Inr (d1, map pendingRowToRecord (sort_key c_created_at (live_in_session sessionId t d1))))"

definition countPendingConfirmations :: "env \<Rightarrow> string \<Rightarrow> int \<Rightarrow> nat tx" where
  "countPendingConfirmations E sessionId t d =
     and_then (expire_due_in_session E sessionId t d) (\<lambda>(d1, n).
       Inr (d1, length (live_in_session sessionId t d1)))"

definition updateConfirmationNonceHash :: "string \<Rightarrow> string \<Rightarrow> bool tx" where
  "updateConfirmationNonceHash k nonceHash d =
     and_then (update_confirmation_nonce (\<lambda>c. c_id c = k \<and> c_status c = C_pending) nonceHash d)
       (\<lambda>(d1, n). Inr (d1, n = 1))"

section \<open>The one-use claim\<close>

definition claim_action_name :: "PendingRow \<Rightarrow> db \<Rightarrow> string" where
  "claim_action_name c d =
     (let runName = (case sel o_id (c_operation_id c) (runs d) of None \<Rightarrow> [] | Some r \<Rightarrow> o_action_name r) in
      if runName \<noteq> [] then runName
      else case c_operation c of
             None \<Rightarrow> ''unknown_action''
           | Some v \<Rightarrow> (case getp ''actionName'' v of
                          JStr s \<Rightarrow> if s \<noteq> [] then s else ''unknown_action''
                        | _ \<Rightarrow> ''unknown_action''))"

definition claim_update :: "int \<Rightarrow> string \<Rightarrow> jsv \<Rightarrow> PendingRow \<Rightarrow> PendingRow" where
  "claim_update t aid summary c =
     c\<lparr>c_status := C_executing, c_used_at := Some t, c_action_result_id := Some aid,
       c_result_summary := Some summary, c_nonce_hash := [], c_agent_state := None,
       c_operation := None\<rparr>"

definition unknown_result_row :: "int \<Rightarrow> string \<Rightarrow> string \<Rightarrow> jsv \<Rightarrow> PendingRow \<Rightarrow> ActionResultRow" where
  "unknown_result_row t aid actionName summary c =
     \<lparr>a_id = aid, a_operation_id = Some (c_operation_id c), a_workspace_id = c_workspace_id c,
      a_admin_user_id = c_admin_user_id c, a_session_id = Some (c_session_id c),
      a_action_name = actionName, a_kind = R_outcome_unknown,
      a_result = dispatchUnknownResult actionName, a_summary = summary, a_created_at = t\<rparr>"

definition claim_run :: "int \<Rightarrow> string \<Rightarrow> string \<Rightarrow> bool tx" where
  "claim_run t aid oid d =
     (case update_run_status (\<lambda>r. o_id r = oid \<and> o_status r = O_prepared)
             (\<lambda>r. r\<lparr>o_status := O_executing, o_action_result_id := Some aid, o_updated_at := t\<rparr>) d of
        (d1, n) \<Rightarrow> if n \<noteq> 1 then Inl ''operation_not_prepared'' else Inr (d1, True))"

definition markConfirmationExecuting :: "env \<Rightarrow> string \<Rightarrow> bool tx" where
  "markConfirmationExecuting E k d =
     (case find (\<lambda>c. c_id c = k \<and> c_status c = C_pending) (confirmations d) of
        None \<Rightarrow> Inr (d, False)
      | Some c \<Rightarrow>
          let actionName = claim_action_name c d in
          case fresh_id E d of (aid, d0) \<Rightarrow>
          and_then (canonical_summary aid (dispatchUnknownResult actionName)) (\<lambda>summary.
          and_then (update_confirmation_status E (\<lambda>r. c_id r = k \<and> c_status r = C_pending)
                      (claim_update (now E) aid summary) d0) (\<lambda>(d1, n).
            if n \<noteq> 1 then Inr (d1, False)
            else and_then (insert_result (unknown_result_row (now E) aid actionName summary c) d1) (\<lambda>d2.
                 claim_run (now E) aid (c_operation_id c) d2))))"

section \<open>Cancellation and expiry\<close>

definition cancelConfirmation :: "env \<Rightarrow> string \<Rightarrow> bool tx" where
  "cancelConfirmation E k d =
     and_then (update_confirmation_status E (\<lambda>r. c_id r = k \<and> c_status r = C_pending)
                 (scrub_to C_cancelled (now E)) d) (\<lambda>(d1, n). Inr (d1, n = 1))"

definition expireConfirmation :: "env \<Rightarrow> string \<Rightarrow> bool tx" where
  "expireConfirmation E k d =
     and_then (update_confirmation_status E
                 (\<lambda>r. c_id r = k \<and> c_status r = C_pending \<and> due (now E) r)
                 (scrub_to C_expired (now E)) d) (\<lambda>(d1, n). Inr (d1, n = 1))"

section \<open>Idempotency binding\<close>

definition owns_key :: "string \<Rightarrow> PendingRow \<Rightarrow> IdempotencyRow \<Rightarrow> bool" where
  "owns_key key c i \<longleftrightarrow>
     i_key i = key \<and> i_workspace_id i = c_workspace_id c \<and> i_admin_user_id i = c_admin_user_id c
     \<and> i_action_result_id i = None"

definition bindConfirmationIdempotencyKey :: "string \<Rightarrow> string \<Rightarrow> db \<Rightarrow> (string, db) result" where
  "bindConfirmationIdempotencyKey k key d =
     (let P = (\<lambda>c. c_id c = k \<and> c_status c = C_executing \<and> c_idempotency_key c = None) in
      case find P (confirmations d) of
        None \<Rightarrow> Inl ''confirmation_not_executing''
      | Some c \<Rightarrow>
          if \<not> list_ex (owns_key key c) (ledger d) then Inl ''idempotency_claim_not_owned''
          else case update_confirmation_key P (Some key) d of
                 (d1, n) \<Rightarrow> if n \<noteq> 1 then Inl ''confirmation_not_executing'' else Inr d1)"

definition releaseConfirmationIdempotencyKey :: "string \<Rightarrow> string \<Rightarrow> db \<Rightarrow> db" where
  "releaseConfirmationIdempotencyKey k key d =
     (let P = (\<lambda>c. c_id c = k \<and> c_idempotency_key c = Some key) in
      case find P (confirmations d) of
        None \<Rightarrow> d
      | Some c \<Rightarrow> fst (update_confirmation_key P None (delete_ledger (owns_key key c) d)))"

section \<open>Settlement\<close>

record ActionResultRef =
  ref_id :: string
  ref_kind :: ActionResultKind
  ref_summary :: jsv

definition canonical_envelope :: "jsv \<Rightarrow> jsv" where
  "canonical_envelope result =
     (if is_object_like result \<and> getp ''kind'' result = JStr ''partial'' then result
      else JObj [(''kind'', JStr ''receipt''), (''receipt'', result)])"

definition settle_update :: "ActionResultKind \<Rightarrow> string \<Rightarrow> jsv \<Rightarrow> PendingRow \<Rightarrow> PendingRow" where
  "settle_update status aid summary c =
     c\<lparr>c_status := confirmation_status_of status, c_action_result_id := Some aid,
       c_result_summary := Some summary, c_nonce_hash := [], c_agent_state := None,
       c_operation := None, c_idempotency_key := None\<rparr>"

definition settle_ledger ::
  "int \<Rightarrow> ActionResultKind \<Rightarrow> string \<Rightarrow> jsv \<Rightarrow> PendingRow \<Rightarrow> db \<Rightarrow> (string, db) result" where
  "settle_ledger t status aid summary c d =
     (case c_idempotency_key c of
        None \<Rightarrow> Inr d
      | Some key \<Rightarrow>
          if key = [] then Inr d
          else if status = R_definitive_failed then Inr (delete_ledger (owns_key key c) d)
          else and_then (update_ledger (owns_key key c)
                 (\<lambda>i. i\<lparr>i_action_result_id := Some aid, i_result_summary := Some summary,
                        i_committed_at := Some t, i_claimed_at := Some t\<rparr>) d) (\<lambda>(d1, n).
               if n \<noteq> 1 then Inl ''idempotency_claim_not_owned'' else Inr d1))"

definition settleConfirmation ::
  "env \<Rightarrow> string \<Rightarrow> ActionResultKind \<Rightarrow> string \<Rightarrow> jsv \<Rightarrow> ActionResultRef tx" where
  "settleConfirmation E k status actionName result d =
     (let t = now E in
      case find (\<lambda>c. c_id c = k \<and> c_status c = C_executing) (confirmations d) of
        None \<Rightarrow> Inl ''confirmation_not_executing''
      | Some c \<Rightarrow>
          if \<not> truthy (c_action_result_id c) then Inl ''confirmation_result_not_found''
          else
          let aid = the (c_action_result_id c); canonicalResult = canonical_envelope result in
          and_then (canonical_summary aid canonicalResult) (\<lambda>summary.
          and_then (canonical_result canonicalResult) (\<lambda>resultJson.
          and_then (update_results (\<lambda>a. a_id a = aid \<and> a_operation_id a = Some (c_operation_id c))
              (\<lambda>a. a\<lparr>a_action_name := actionName, a_kind := status, a_result := resultJson,
                     a_summary := summary, a_created_at := t\<rparr>) d) (\<lambda>(d1, n1).
          if n1 \<noteq> 1 then Inl ''confirmation_result_not_found'' else
          and_then (update_confirmation_status E (\<lambda>r. c_id r = k \<and> c_status r = C_executing)
              (settle_update status aid summary) d1) (\<lambda>(d2, n2).
          if n2 \<noteq> 1 then Inl ''confirmation_not_executing'' else
          case update_run_status
                 (\<lambda>r. o_id r = c_operation_id c \<and> o_status r = O_executing \<and> o_action_result_id r = Some aid)
                 (\<lambda>r. r\<lparr>o_status := run_status_of status, o_action_result_id := Some aid,
                        o_updated_at := t\<rparr>) d2 of
            (d3, n3) \<Rightarrow>
              if n3 \<noteq> 1 then Inl ''operation_not_found''
              else and_then (settle_ledger t status aid summary c d3) (\<lambda>d4.
                   Inr (d4, \<lparr>ref_id = aid, ref_kind = status, ref_summary = summary\<rparr>)))))))"

definition getActionResult :: "string \<Rightarrow> db \<Rightarrow> jsv option" where
  "getActionResult k d = map_option a_result (sel a_id k (results d))"


section \<open>Every operation keeps the store well formed\<close>

lemma scrub_to_move:
  "c_status c = C_pending \<Longrightarrow> confirmation_move c (scrub_to s t c)"
  by (simp add: confirmation_move_def scrub_to_def)

lemma claim_update_move: "c_status c = C_pending \<Longrightarrow> confirmation_move c (claim_update t a s c)"
  by (simp add: confirmation_move_def claim_update_def)

lemma settle_update_move: "c_status c = C_executing \<Longrightarrow> confirmation_move c (settle_update k a s c)"
  by (cases k) (simp_all add: confirmation_move_def settle_update_def)

lemma save_row_status: "save_row r = Inr c \<Longrightarrow> c_status c = p_status r \<and> c_id c = p_id r"
  by (auto simp: save_row_def Let_def)

lemma savePendingConfirmation_good [step_invariants]:
  "store_ok d \<Longrightarrow> savePendingConfirmation sha256 r d = Inr d' \<Longrightarrow> good_step d d'"
  by (auto simp: savePendingConfirmation_def intro: insert_confirmation_good)

lemma getPendingConfirmation_good [step_invariants]:
  assumes "store_ok d" "getPendingConfirmation E k d = Inr (d', r)"
  shows "good_step d d'"
proof -
  have "d' = d \<or> (\<exists>n. update_confirmation_status E (\<lambda>r. c_id r = k \<and> c_status r = C_pending)
      (scrub_to C_expired (now E)) d = Inr (d', n))"
    using assms(2) by (auto simp: getPendingConfirmation_def split: option.splits if_splits)
  then show ?thesis
    using assms(1) by (auto intro: good_step_refl update_confirmation_status_good scrub_to_move)
qed

lemma expire_due_in_session_good:
  "store_ok d \<Longrightarrow> expire_due_in_session E s t d = Inr (d', n) \<Longrightarrow> good_step d d'"
  unfolding expire_due_in_session_def
  by (rule update_confirmation_status_good, assumption+) (simp add: scrub_to_move)

lemma listPendingConfirmations_good [step_invariants]:
  "store_ok d \<Longrightarrow> listPendingConfirmations E s t d = Inr (d', rs) \<Longrightarrow> good_step d d'"
  by (auto simp: listPendingConfirmations_def intro: expire_due_in_session_good)

lemma countPendingConfirmations_good [step_invariants]:
  "store_ok d \<Longrightarrow> countPendingConfirmations E s t d = Inr (d', n) \<Longrightarrow> good_step d d'"
  by (auto simp: countPendingConfirmations_def intro: expire_due_in_session_good)

lemma updateConfirmationNonceHash_good [step_invariants]:
  "store_ok d \<Longrightarrow> updateConfirmationNonceHash k h d = Inr (d', b) \<Longrightarrow> good_step d d'"
  by (auto simp: updateConfirmationNonceHash_def intro: update_confirmation_nonce_good)

lemma cancelConfirmation_good [step_invariants]:
  "store_ok d \<Longrightarrow> cancelConfirmation E k d = Inr (d', b) \<Longrightarrow> good_step d d'"
  by (auto simp: cancelConfirmation_def intro!: update_confirmation_status_good intro: scrub_to_move)

lemma expireConfirmation_good [step_invariants]:
  "store_ok d \<Longrightarrow> expireConfirmation E k d = Inr (d', b) \<Longrightarrow> good_step d d'"
  by (auto simp: expireConfirmation_def intro!: update_confirmation_status_good intro: scrub_to_move)

lemma bindConfirmationIdempotencyKey_good [step_invariants]:
  assumes "store_ok d" "bindConfirmationIdempotencyKey k key d = Inr d'"
  shows "good_step d d'"
proof -
  have "d' = fst (update_confirmation_key
      (\<lambda>c. c_id c = k \<and> c_status c = C_executing \<and> c_idempotency_key c = None) (Some key) d)"
    using assms(2) by (auto simp: bindConfirmationIdempotencyKey_def Let_def split: option.splits if_splits prod.splits)
  then show ?thesis using update_confirmation_key_good [OF assms(1)] by simp
qed

lemma releaseConfirmationIdempotencyKey_good [step_invariants]:
  assumes "store_ok d"
  shows "good_step d (releaseConfirmationIdempotencyKey k key d)"
proof (cases "find (\<lambda>c. c_id c = k \<and> c_idempotency_key c = Some key) (confirmations d)")
  case None
  with assms show ?thesis by (simp add: releaseConfirmationIdempotencyKey_def good_step_refl)
next
  case (Some c)
  have g: "good_step d (delete_ledger (owns_key key c) d)"
    by (rule core_same_good [OF assms delete_ledger_core])
  then have "store_ok (delete_ledger (owns_key key c) d)" by (simp add: good_step_def)
  from good_step_trans [OF g update_confirmation_key_good [OF this]] Some show ?thesis
    by (simp add: releaseConfirmationIdempotencyKey_def)
qed

lemma claim_run_good:
  assumes "store_ok d" "claim_run t aid oid d = Inr (d', b)"
  shows "good_step d d'"
proof -
  have "d' = fst (update_run_status (\<lambda>r. o_id r = oid \<and> o_status r = O_prepared)
      (\<lambda>r. r\<lparr>o_status := O_executing, o_action_result_id := Some aid, o_updated_at := t\<rparr>) d)"
    using assms(2) by (auto simp: claim_run_def split: prod.splits if_splits)
  then show ?thesis by (simp only:) (rule update_run_status_good [OF assms(1)], simp add: run_move_def)
qed

lemma markConfirmationExecuting_cases:
  assumes "markConfirmationExecuting E k d = Inr (d', b)"
  obtains (no_row) "find (\<lambda>c. c_id c = k \<and> c_status c = C_pending) (confirmations d) = None" "d' = d" "\<not> b"
  | (row) c aid d0 summary d1 n where
      "find (\<lambda>c. c_id c = k \<and> c_status c = C_pending) (confirmations d) = Some c"
      "fresh_id E d = (aid, d0)"
      "canonical_summary aid (dispatchUnknownResult (claim_action_name c d)) = Inr summary"
      "update_confirmation_status E (\<lambda>r. c_id r = k \<and> c_status r = C_pending)
         (claim_update (now E) aid summary) d0 = Inr (d1, n)"
      "n \<noteq> 1 \<and> d' = d1 \<and> \<not> b \<or> n = 1 \<and> (\<exists>d2. insert_result
         (unknown_result_row (now E) aid (claim_action_name c d) summary c) d1 = Inr d2
         \<and> claim_run (now E) aid (c_operation_id c) d2 = Inr (d', b))"
  using assms
  by (auto simp: markConfirmationExecuting_def Let_def split: option.splits prod.splits if_splits)

lemma markConfirmationExecuting_good [step_invariants]:
  assumes ok: "store_ok d" and "markConfirmationExecuting E k d = Inr (d', b)"
  shows "good_step d d'"
  using assms(2)
proof (cases rule: markConfirmationExecuting_cases)
  case no_row
  with ok show ?thesis by (simp add: good_step_refl)
next
  case (row c aid d0 summary d1 n)
  have g0: "good_step d d0" by (rule core_same_good [OF ok fresh_id_core [OF row(2)]])
  then have ok0: "store_ok d0" by (simp add: good_step_def)
  have g1: "good_step d0 d1"
    by (rule update_confirmation_status_good [OF row(4) ok0]) (auto simp: claim_update_move)
  then have ok1: "store_ok d1" by (simp add: good_step_def)
  have "good_step d1 d'"
    using row(5)
  proof (elim disjE conjE exE)
    assume "d' = d1"
    with ok1 show ?thesis by (simp add: good_step_refl)
  next
    fix d2
    assume i: "insert_result (unknown_result_row (now E) aid (claim_action_name c d) summary c) d1 = Inr d2"
      and r: "claim_run (now E) aid (c_operation_id c) d2 = Inr (d', b)"
    have g2: "good_step d1 d2" by (rule insert_result_good [OF ok1 i])
    then have "store_ok d2" by (simp add: good_step_def)
    from good_step_trans [OF g2 claim_run_good [OF this r]] show ?thesis .
  qed
  with g0 g1 show ?thesis by (meson good_step_trans)
qed

lemma settle_ledger_core:
  "settle_ledger t status aid summary c d = Inr d' \<Longrightarrow> core_same d d'"
  by (auto simp: settle_ledger_def core_same_def delete_ledger_def split: option.splits if_splits
      dest!: update_ledger_core)

lemma settleConfirmation_cases:
  assumes "settleConfirmation E k status actionName result d = Inr (d', ref)"
  obtains c aid summary resultJson d1 d2 d3 where
    "find (\<lambda>c. c_id c = k \<and> c_status c = C_executing) (confirmations d) = Some c"
    "c_action_result_id c = Some aid"
    "canonical_summary aid (canonical_envelope result) = Inr summary"
    "canonical_result (canonical_envelope result) = Inr resultJson"
    "update_results (\<lambda>a. a_id a = aid \<and> a_operation_id a = Some (c_operation_id c))
       (\<lambda>a. a\<lparr>a_action_name := actionName, a_kind := status, a_result := resultJson,
              a_summary := summary, a_created_at := now E\<rparr>) d = Inr (d1, 1)"
    "update_confirmation_status E (\<lambda>r. c_id r = k \<and> c_status r = C_executing)
       (settle_update status aid summary) d1 = Inr (d2, 1)"
    "update_run_status
       (\<lambda>r. o_id r = c_operation_id c \<and> o_status r = O_executing \<and> o_action_result_id r = Some aid)
       (\<lambda>r. r\<lparr>o_status := run_status_of status, o_action_result_id := Some aid,
              o_updated_at := now E\<rparr>) d2 = (d3, 1)"
    "settle_ledger (now E) status aid summary c d3 = Inr d'"
    "ref = \<lparr>ref_id = aid, ref_kind = status, ref_summary = summary\<rparr>"
proof -
  from assms obtain c where c: "find (\<lambda>c. c_id c = k \<and> c_status c = C_executing) (confirmations d) = Some c"
    by (auto simp: settleConfirmation_def Let_def split: option.splits)
  have "truthy (c_action_result_id c)"
    using assms by (simp add: settleConfirmation_def Let_def c split: if_splits)
  then obtain aid where aid: "c_action_result_id c = Some aid" "aid \<noteq> []"
    by (cases "c_action_result_id c") auto
  from assms obtain summary resultJson where v: "canonical_summary aid (canonical_envelope result) = Inr summary"
    "canonical_result (canonical_envelope result) = Inr resultJson"
    by (auto simp: settleConfirmation_def Let_def c aid)
  from assms obtain d1 where d1: "update_results (\<lambda>a. a_id a = aid \<and> a_operation_id a = Some (c_operation_id c))
       (\<lambda>a. a\<lparr>a_action_name := actionName, a_kind := status, a_result := resultJson,
              a_summary := summary, a_created_at := now E\<rparr>) d = Inr (d1, 1)"
    by (auto simp: settleConfirmation_def Let_def c aid v split: if_splits)
  from assms obtain d2 where d2: "update_confirmation_status E (\<lambda>r. c_id r = k \<and> c_status r = C_executing)
       (settle_update status aid summary) d1 = Inr (d2, 1)"
    by (auto simp: settleConfirmation_def Let_def c aid v d1 split: if_splits)
  obtain d3 n3 where d3: "update_run_status
       (\<lambda>r. o_id r = c_operation_id c \<and> o_status r = O_executing \<and> o_action_result_id r = Some aid)
       (\<lambda>r. r\<lparr>o_status := run_status_of status, o_action_result_id := Some aid,
              o_updated_at := now E\<rparr>) d2 = (d3, n3)" by fastforce
  have n3: "n3 = 1" and l: "settle_ledger (now E) status aid summary c d3 = Inr d'"
    and r: "ref = \<lparr>ref_id = aid, ref_kind = status, ref_summary = summary\<rparr>"
    using assms by (auto simp: settleConfirmation_def Let_def c aid v d1 d2 d3 split: if_splits)
  show ?thesis by (rule that [OF c aid(1) v d1 d2 d3 [unfolded n3] l r])
qed

lemma settleConfirmation_good [step_invariants]:
  assumes ok: "store_ok d" and "settleConfirmation E k status actionName result d = Inr (d', ref)"
  shows "good_step d d'"
  using assms(2)
proof (cases rule: settleConfirmation_cases)
  case (1 c aid summary resultJson d1 d2 d3)
  have g1: "good_step d d1" by (rule update_results_good [OF ok 1(5)]) simp
  then have ok1: "store_ok d1" by (simp add: good_step_def)
  have g2: "good_step d1 d2"
    by (rule update_confirmation_status_good [OF 1(6) ok1]) (auto simp: settle_update_move)
  then have ok2: "store_ok d2" by (simp add: good_step_def)
  have "good_step d2 (fst (update_run_status
       (\<lambda>r. o_id r = c_operation_id c \<and> o_status r = O_executing \<and> o_action_result_id r = Some aid)
       (\<lambda>r. r\<lparr>o_status := run_status_of status, o_action_result_id := Some aid,
              o_updated_at := now E\<rparr>) d2))"
    by (rule update_run_status_good [OF ok2]) (cases status; simp add: run_move_def)
  then have g3: "good_step d2 d3" by (simp add: 1(7))
  then have ok3: "store_ok d3" by (simp add: good_step_def)
  have "good_step d3 d'" by (rule core_same_good [OF ok3 settle_ledger_core [OF 1(8)]])
  with g1 g2 g3 show ?thesis by (meson good_step_trans)
qed


section \<open>What the claim does\<close>

lemma core_same_sel:
  "core_same d d' \<Longrightarrow> sel c_id k (confirmations d') = sel c_id k (confirmations d)"
  by (simp add: core_same_def)

lemma claim_row:
  assumes ok: "store_ok d" and c: "sel c_id k (confirmations d) = Some c" "c_status c = C_pending"
    and u: "update_confirmation_row E (claim_update t aid summary) k d = Inr d'"
  shows "sel c_id k (confirmations d') = Some (claim_update t aid summary c)"
    and "runs d' = runs d" and "results d' = results d" and "steps d' = steps d"
proof -
  have k: "c_id (claim_update t aid summary c) = k"
    using sel_SomeD [OF c(1)] by (simp add: claim_update_def)
  have "d' = put_confirmation (claim_update t aid summary c) d"
    using u c
    by (auto simp: update_confirmation_row_def Let_def pre_dispatch_terminal_move_def settlement_move_def
        claim_update_def split: if_splits)
  then show "sel c_id k (confirmations d') = Some (claim_update t aid summary c)"
    "runs d' = runs d" "results d' = results d" "steps d' = steps d"
    using sel_put_confirmation [of "claim_update t aid summary c" d c] k c(1)
    by (simp_all add: put_confirmation_def)
qed

lemma claim_run_effect:
  assumes ok: "store_ok d" and u: "claim_run t aid oid d = Inr (d', b)"
  obtains r where "sel o_id oid (runs d) = Some r" "o_status r = O_prepared" "b"
    "sel o_id oid (runs d') = Some (r\<lparr>o_status := O_executing, o_action_result_id := Some aid, o_updated_at := t\<rparr>)"
    "confirmations d' = confirmations d" "results d' = results d" "steps d' = steps d"
proof -
  let ?P = "\<lambda>r. o_id r = oid \<and> o_status r = O_prepared"
  let ?f = "\<lambda>r. r\<lparr>o_status := O_executing, o_action_result_id := Some aid, o_updated_at := t\<rparr>"
  have n: "length (filter ?P (runs d)) = 1" and b: "b"
    and d': "d' = d\<lparr>runs := upd_where ?P (\<lambda>r. terminal_scrub (?f r)) (runs d)\<rparr>"
    using u by (auto simp: claim_run_def update_run_status_def split: if_splits)
  from n obtain r where r: "sel o_id oid (runs d) = Some r" "o_status r = O_prepared"
    unfolding filter_key_sel [OF store_ok_distinct(2) [OF ok], of oid "\<lambda>r. o_status r = O_prepared"]
    by (auto split: option.splits if_splits)
  have "sel o_id oid (runs d') = Some (?f r)"
    unfolding d' using r sel_SomeD [OF r(1)]
    by (simp, subst sel_upd_where) (auto simp: terminal_scrub_def terminal_run_def)
  with r b show ?thesis by (intro that) (auto simp: d')
qed

text \<open>
  A claim that succeeds found the preview pending and its operation prepared, and leaves both
  executing, linked to a durable \<open>outcome_unknown\<close> result written before any dispatch.
\<close>

lemma markConfirmationExecuting_effect:
  assumes ok: "store_ok d" and m: "markConfirmationExecuting E k d = Inr (d', True)"
  obtains c summary r a where
    "sel c_id k (confirmations d) = Some c" "c_status c = C_pending"
    "sel c_id k (confirmations d') = Some (claim_update (now E) (uuid E (entropy d)) summary c)"
    "sel o_id (c_operation_id c) (runs d) = Some r" "o_status r = O_prepared"
    "sel o_id (c_operation_id c) (runs d')
       = Some (r\<lparr>o_status := O_executing, o_action_result_id := Some (uuid E (entropy d)), o_updated_at := now E\<rparr>)"
    "results d' = results d @ [a]" "a_id a = uuid E (entropy d)" "a_kind a = R_outcome_unknown"
    "a_operation_id a = Some (c_operation_id c)" "steps d' = steps d"
  using m
proof (cases rule: markConfirmationExecuting_cases)
  case no_row
  then show ?thesis by simp
next
  case (row c aid d0 summary d1 n)
  have aid: "aid = uuid E (entropy d)" and d0: "core_same d d0"
    using row(2) fresh_id_core [OF row(2)] by (auto simp: fresh_id_def)
  then have ok0: "store_ok d0" using core_same_good [OF ok] by (simp add: good_step_def)
  have c: "sel c_id k (confirmations d) = Some c" "c_status c = C_pending"
    using row(1) by (auto simp: find_key_sel [OF store_ok_distinct(1) [OF ok]] split: option.splits if_splits)
  then have c0: "sel c_id k (confirmations d0) = Some c" by (simp add: core_same_sel [OF d0])
  have u: "update_confirmation_row E (claim_update (now E) aid summary) k d0 = Inr d1"
    using row(4) c0 c(2) by (auto simp: update_confirmation_status_one [OF ok0])
  note r1 = claim_row [OF ok0 c0 c(2) u]
  have ok1: "store_ok d1"
    using update_confirmation_status_good [OF row(4) ok0] by (auto simp: good_step_def claim_update_move)
  from row(5) obtain d2 where i: "insert_result (unknown_result_row (now E) aid (claim_action_name c d) summary c) d1 = Inr d2"
    and cr: "claim_run (now E) aid (c_operation_id c) d2 = Inr (d', True)" by auto
  have ok2: "store_ok d2" using insert_result_good [OF ok1 i] by (simp add: good_step_def)
  have d2: "d2 = d1\<lparr>results := results d1 @ [unknown_result_row (now E) aid (claim_action_name c d) summary c]\<rparr>"
    using i by (auto simp: insert_result_def split: if_splits)
  from claim_run_effect [OF ok2 cr] obtain r where
    r: "sel o_id (c_operation_id c) (runs d2) = Some r" "o_status r = O_prepared"
    "sel o_id (c_operation_id c) (runs d') = Some (r\<lparr>o_status := O_executing, o_action_result_id := Some aid, o_updated_at := now E\<rparr>)"
    "confirmations d' = confirmations d2" "results d' = results d2" "steps d' = steps d2" by metis
  show ?thesis
    by (rule that [of c summary r "unknown_result_row (now E) aid (claim_action_name c d) summary c"])
      (use c r r1 d0 in \<open>auto simp: aid d2 core_same_def unknown_result_row_def\<close>)
qed

section \<open>One use\<close>

lemma markConfirmationExecuting_refused:
  assumes ok: "store_ok d" and c: "sel c_id k (confirmations d) = Some c" and s: "c_status c \<noteq> C_pending"
  shows "markConfirmationExecuting E k d = Inr (d, False)"
  using c s by (simp add: markConfirmationExecuting_def find_key_sel [OF store_ok_distinct(1) [OF ok]])

definition claims_confirmation :: "string \<Rightarrow> db \<Rightarrow> db \<Rightarrow> bool" where
  "claims_confirmation k d d' \<longleftrightarrow> (\<exists>E. markConfirmationExecuting E k d = Inr (d', True))"

definition confirmation_spent :: "string \<Rightarrow> db \<Rightarrow> bool" where
  "confirmation_spent k d \<longleftrightarrow>
     (case sel c_id k (confirmations d) of None \<Rightarrow> False | Some c \<Rightarrow> c_status c \<noteq> C_pending)"

lemma confirmation_spent_later:
  assumes "good_step d d'" "confirmation_spent k d"
  shows "confirmation_spent k d'"
proof -
  from assms(2) obtain c where c: "sel c_id k (confirmations d) = Some c" "c_status c \<noteq> C_pending"
    by (auto simp: confirmation_spent_def split: option.splits)
  from assms(1) have "follows confirmation_move (confirmations d) (confirmations d')"
    by (simp add: good_step_def db_follows_def)
  from confirmation_lc.follows_sel [OF this c(1)] obtain c' where
    c': "sel c_id k (confirmations d') = Some c'" "confirmation_move c c'" by blast
  then have "confirmation_reach (c_status c) (c_status c')" by (simp add: confirmation_move_def)
  with c(2) have "c_status c' \<noteq> C_pending" by (cases "c_status c") auto
  with c'(1) show ?thesis by (simp add: confirmation_spent_def)
qed

interpretation confirmation_claim: one_use store_ok good_step claims_confirmation confirmation_spent
proof
  fix d d' k
  assume ok: "store_ok d"
  show "good_step d d'" if "claims_confirmation k d d'"
    using that ok by (auto simp: claims_confirmation_def intro: markConfirmationExecuting_good)
  show "confirmation_spent k d'" if "claims_confirmation k d d'"
  proof -
    from that obtain E where m: "markConfirmationExecuting E k d = Inr (d', True)"
      by (auto simp: claims_confirmation_def)
    obtain c summary where
      "sel c_id k (confirmations d') = Some (claim_update (now E) (uuid E (entropy d)) summary c)"
      by (rule markConfirmationExecuting_effect [OF ok m])
    then show ?thesis by (simp add: confirmation_spent_def claim_update_def)
  qed
  show "\<not> claims_confirmation k d d'" if "confirmation_spent k d"
    using that markConfirmationExecuting_refused [OF ok]
    by (auto simp: claims_confirmation_def confirmation_spent_def split: option.splits)
qed (auto intro: confirmation_spent_later simp: good_step_def)

section \<open>Expiry on read\<close>

lemma expired_row:
  assumes ok: "store_ok d" and c: "sel c_id k (confirmations d) = Some c" "c_status c = C_pending"
    and u: "update_confirmation_row E (scrub_to s t) k d = Inr d'" and s: "s = C_cancelled \<or> s = C_expired"
  obtains c' where "sel c_id k (confirmations d') = Some c'" "c_status c' = s" "payload_ok c'"
    "display_payload_scrubbed c'" "c_idempotency_key c' = None"
proof -
  let ?c = "scrub_to s t c"
  have k: "c_id ?c = k" using sel_SomeD [OF c(1)] by (simp add: scrub_to_def)
  have t: "pre_dispatch_terminal E ?c (put_confirmation ?c d) = Inr d'" and p: "payload_ok ?c"
    using u c s by (auto simp: update_confirmation_row_def Let_def pre_dispatch_terminal_move_def
        scrub_to_def payload_ok_def split: if_splits)
  have put: "sel c_id k (confirmations (put_confirmation ?c d)) = Some ?c"
    using sel_put_confirmation [of ?c d c] k c(1) by simp
  from t obtain d1 where d1: "pre_dispatch_insert E ?c (put_confirmation ?c d) = Inr d1"
    and d': "d' = pre_dispatch_link ?c (pre_dispatch_settle_run ?c d1)"
    by (auto simp: pre_dispatch_terminal_def)
  have e: "sel c_id k (confirmations (pre_dispatch_settle_run ?c d1)) = Some ?c"
    using put pre_dispatch_insert_confirmations [OF d1]
    by (simp add: pre_dispatch_settle_run_def update_run_status_def)
  obtain x y where "sel c_id k (confirmations d') = Some (?c\<lparr>c_action_result_id := x, c_result_summary := y\<rparr>)"
  proof -
    have "sel c_id k (confirmations d') = map_option (\<lambda>z. if c_id z = c_id ?c \<and> c_action_result_id z = None
           then z\<lparr>c_action_result_id := map_option a_id (result_of_operation (c_operation_id ?c) (pre_dispatch_settle_run ?c d1)),
                  c_result_summary := map_option a_summary (result_of_operation (c_operation_id ?c) (pre_dispatch_settle_run ?c d1))\<rparr>
           else z) (sel c_id k (confirmations (pre_dispatch_settle_run ?c d1)))"
      unfolding d' pre_dispatch_link_def Let_def by (simp, rule sel_upd_where) simp
    then show ?thesis
      using that [where x = "c_action_result_id ?c" and y = "c_result_summary ?c"] that by (auto simp: e split: if_splits)
  qed
  then show ?thesis
  proof (rule that)
    show "payload_ok (?c\<lparr>c_action_result_id := x, c_result_summary := y\<rparr>)"
      using p by (simp add: payload_ok_bookkeeping)
  qed (simp_all add: scrub_to_def display_payload_scrubbed_def)
qed

lemma getPendingConfirmation_live:
  assumes ok: "store_ok d" and g: "getPendingConfirmation E k d = Inr (d', Some r)"
    and pending: "p_status r = C_pending"
  shows "d' = d" and "\<exists>e. p_expiresAt r = Some e \<and> now E < e"
proof -
  from g obtain c where c: "sel c_id k (confirmations d) = Some c"
    by (auto simp: getPendingConfirmation_def split: option.splits)
  have "\<not> (c_status c = C_pending \<and> due (now E) c)"
  proof
    assume due: "c_status c = C_pending \<and> due (now E) c"
    with g c obtain d1 n where "update_confirmation_status E (\<lambda>r. c_id r = k \<and> c_status r = C_pending)
        (scrub_to C_expired (now E)) d = Inr (d1, n)" and r: "map_option pendingRowToRecord (sel c_id k (confirmations d1)) = Some r"
      by (auto simp: getPendingConfirmation_def)
    then have "update_confirmation_row E (scrub_to C_expired (now E)) k d = Inr d1"
      using c due by (simp add: update_confirmation_status_one [OF ok])
    from expired_row [OF ok c _ this] due obtain c' where "sel c_id k (confirmations d1) = Some c'" "c_status c' = C_expired"
      by auto
    with r pending show False by (auto simp: pendingRowToRecord_def)
  qed
  with g c have "d' = d" "r = pendingRowToRecord c"
    by (auto simp: getPendingConfirmation_def split: if_splits)
  then show "d' = d" "\<exists>e. p_expiresAt r = Some e \<and> now E < e"
    using pending \<open>\<not> (c_status c = C_pending \<and> due (now E) c)\<close>
    by (auto simp: pendingRowToRecord_def due_def split: option.splits)
qed

section \<open>Cancellation settles the operation\<close>

lemma cancelConfirmation_row:
  assumes ok: "store_ok d" and c: "sel c_id k (confirmations d) = Some c" "c_status c = C_pending"
  shows "cancelConfirmation E k d
    = and_then (update_confirmation_row E (scrub_to C_cancelled (now E)) k d) (\<lambda>d1. Inr (d1, True))"
  using c by (cases "update_confirmation_row E (scrub_to C_cancelled (now E)) k d")
    (simp_all add: cancelConfirmation_def update_confirmation_status_one [OF ok])

lemma cancelConfirmation_blocked:
  assumes ok: "store_ok d" and c: "sel c_id k (confirmations d) = Some c" "c_status c = C_pending"
    and r: "sel o_id (c_operation_id c) (runs d) = Some r"
    and started: "o_status r \<noteq> O_prepared \<or> o_action_result_id r \<noteq> None"
  shows "cancelConfirmation E k d = Inl ''confirmation_operation_not_prepared''"
proof -
  have "r \<in> set (runs d)" "o_id r = c_operation_id c" using sel_SomeD [OF r] by auto
  then have "list_ex (\<lambda>r. o_id r = c_operation_id c \<and> (o_status r \<noteq> O_prepared \<or> o_action_result_id r \<noteq> None)) (runs d)"
    using started by (auto simp: list_ex_iff)
  then show ?thesis
    by (simp add: cancelConfirmation_row [OF ok c] update_confirmation_row_def c payload_guard_def scrub_to_def
        dispatch_payload_scrubbed_def pre_dispatch_operation_guard_def pre_dispatch_terminal_move_def Let_def)
qed

lemma cancelConfirmation_effect:
  assumes ok: "store_ok d" and c: "sel c_id k (confirmations d) = Some c" "c_status c = C_pending"
    and r: "sel o_id (c_operation_id c) (runs d) = Some r"
    and x: "cancelConfirmation E k d = Inr (d', b)"
  obtains a r' c' where "b" "results d' = results d @ [a]" "a_operation_id a = Some (o_id r)"
    "a_kind a = R_definitive_failed" "a_result a = pre_dispatch_result C_cancelled (o_action_name r)"
    "sel o_id (c_operation_id c) (runs d') = Some r'" "o_status r' = O_definitive_failed"
    "o_action_result_id r' = Some (a_id a)" "o_operation r' = emptyObject"
    "sel c_id k (confirmations d') = Some c'" "c_status c' = C_cancelled"
    "c_action_result_id c = None \<longrightarrow> c_action_result_id c' = Some (a_id a)"
proof -
  have prepared: "o_status r = O_prepared" "o_action_result_id r = None"
    using cancelConfirmation_blocked [OF ok c r, of E] x by fastforce+
  let ?c = "scrub_to C_cancelled (now E) c"
  have k: "c_id ?c = k" and oid: "c_operation_id ?c = c_operation_id c"
    using sel_SomeD [OF c(1)] by (simp_all add: scrub_to_def)
  from x have u: "update_confirmation_row E (scrub_to C_cancelled (now E)) k d = Inr d'" and b: "b"
    by (auto simp: cancelConfirmation_row [OF ok c])
  have t: "pre_dispatch_terminal E ?c (put_confirmation ?c d) = Inr d'" and p: "payload_ok ?c"
    using u c by (auto simp: update_confirmation_row_def Let_def pre_dispatch_terminal_move_def
        scrub_to_def payload_ok_def split: if_splits)
  have ok1: "store_ok (put_confirmation ?c d)"
    using put_confirmation_good [OF ok, of ?c c] c k p scrub_to_move by (simp add: good_step_def)
  have put: "sel c_id (c_id ?c) (confirmations (put_confirmation ?c d)) = Some ?c"
    by (rule sel_put_confirmation [of ?c d c]) (use k c in simp)
  have same: "runs (put_confirmation ?c d) = runs d" "results (put_confirmation ?c d) = results d"
    by (simp_all add: put_confirmation_def)
  have r1: "sel o_id (c_operation_id ?c) (runs (put_confirmation ?c d)) = Some r"
    by (simp add: same oid r)
  show ?thesis
  proof (rule pre_dispatch_terminal_effect [OF ok1 put r1 prepared t])
    fix a r' c'
    assume e: "results d' = results (put_confirmation ?c d) @ [a]" "a_operation_id a = Some (o_id r)"
      "a_kind a = R_definitive_failed" "a_result a = pre_dispatch_result (c_status ?c) (o_action_name r)"
      "sel o_id (c_operation_id ?c) (runs d') = Some r'" "o_status r' = O_definitive_failed"
      "o_action_result_id r' = Some (a_id a)" "o_operation r' = emptyObject"
      "sel c_id (c_id ?c) (confirmations d') = Some c'"
      "c_action_result_id c' = (if c_action_result_id ?c = None then Some (a_id a) else c_action_result_id ?c)"
      "c' = ?c\<lparr>c_action_result_id := c_action_result_id c', c_result_summary := c_result_summary c'\<rparr>"
    have "c_status c' = C_cancelled" by (subst e(11)) (simp add: scrub_to_def)
    then show ?thesis
      by (intro that [of a r' c']) (use b e same oid k in \<open>auto simp: scrub_to_def\<close>)
  qed
qed

end
