(* ===== verification/Journal.thy ===== *)
theory Journal
  imports Confirmations
begin

text \<open>
  The operation journal (\<open>src/src/db/store/operation-runs.ts\<close>): durable operation runs, their
  plan-bound steps, dispatch marks, compensation, and the authoritative reconciliation of an
  unknown outcome. A plan is the JSON value persisted with the run; nothing in the journal is
  authorised that the persisted plan does not describe.
\<close>

section \<open>Persisted plans\<close>

record PersistedPlanDescriptor =
  pd_id :: string
  pd_kind :: OperationStepKind
  pd_targetFingerprint :: "string option"

definition RECONCILIATION_STRATEGIES :: "string list" where
  "RECONCILIATION_STRATEGIES = [''create'', ''update'', ''delete'', ''state-command'', ''composed'']"

fun step_kind_of :: "jsv \<Rightarrow> OperationStepKind option" where
  "step_kind_of (JStr s) =
     (if s = ''primary'' then Some Primary else if s = ''compensation'' then Some Compensation else None)"
| "step_kind_of _ = None"

text \<open>One iteration of the loop over \<open>record.steps\<close>; \<open>ids\<close> are the step ids seen so far.\<close>

definition plan_step_descriptor :: "string list \<Rightarrow> jsv \<Rightarrow> PersistedPlanDescriptor option" where
  "plan_step_descriptor ids v =
     (if \<not> is_record v then None
      else case (getp ''id'' v, step_kind_of (getp ''kind'' v)) of
        (JStr i, Some kind) \<Rightarrow>
          if i = [] \<or> i \<in> set ids then None
          else if (case getp ''targetFingerprint'' v of JUndef \<Rightarrow> False | JStr _ \<Rightarrow> False | _ \<Rightarrow> True) then None
          else if (case getp ''reconciliationStrategy'' v of
                     JUndef \<Rightarrow> False
                   | JStr s \<Rightarrow> s \<notin> set RECONCILIATION_STRATEGIES
                   | _ \<Rightarrow> True) then None
          else Some \<lparr>pd_id = i, pd_kind = kind,
                     pd_targetFingerprint = as_string (getp ''targetFingerprint'' v)\<rparr>
      | _ \<Rightarrow> None)"

fun plan_step_descriptors :: "string list \<Rightarrow> jsv list \<Rightarrow> PersistedPlanDescriptor list option" where
  "plan_step_descriptors ids [] = Some []"
| "plan_step_descriptors ids (v # vs) =
     (case plan_step_descriptor ids v of
        None \<Rightarrow> None
      | Some p \<Rightarrow> map_option ((#) p) (plan_step_descriptors (ids @ [pd_id p]) vs))"

definition mutationPlanDescriptors :: "jsv \<Rightarrow> PersistedPlanDescriptor list option" where
  "mutationPlanDescriptors plan =
     (if \<not> is_record plan then None
      else if getp ''mode'' plan \<notin> set (map JStr [''single'', ''curated'', ''batch'']) then None
      else case (getp ''maxHostCalls'' plan, getp ''steps'' plan) of
        (JNum m, JArr xs) \<Rightarrow>
          if m < 1 \<or> HOST_CALL_BUDGET_MAXIMUM < m \<or> xs = [] \<or> m < int (length xs) then None
          else if getp ''mode'' plan = JStr ''single'' \<and> length xs \<noteq> 1 then None
          else plan_step_descriptors [] xs
      | _ \<Rightarrow> None)"

definition persistedPlanDescriptors :: "stored_json \<Rightarrow> PersistedPlanDescriptor list option" where
  "persistedPlanDescriptors operationJson =
     (case stored_value operationJson of
        None \<Rightarrow> None
      | Some v \<Rightarrow> if is_record v then mutationPlanDescriptors (getp ''mutationPlan'' v) else None)"

definition descriptor_at :: "'a list \<Rightarrow> int \<Rightarrow> 'a option" where
  "descriptor_at ds i = (if 0 \<le> i \<and> nat i < length ds then Some (ds ! nat i) else None)"

definition matchesPersistedDescriptor ::
  "PersistedPlanDescriptor list \<Rightarrow> OperationStepRow \<Rightarrow> OperationStepKind \<Rightarrow> bool" where
  "matchesPersistedDescriptor ds s expectedKind =
     (case descriptor_at ds (s_step_index s) of
        None \<Rightarrow> False
      | Some p \<Rightarrow> pd_id p = s_plan_step_id s \<and> pd_kind p = expectedKind \<and> s_kind s = expectedKind
          \<and> (pd_targetFingerprint p = None \<or> pd_targetFingerprint p = s_target_fingerprint s))"

section \<open>Reading a run\<close>

text \<open>\<open>!!v\<close> for a value that \<open>JSON.parse\<close> can return.\<close>

fun js_truthy :: "jsv \<Rightarrow> bool" where
  "js_truthy JUndef = False"
| "js_truthy JNull = False"
| "js_truthy (JBool b) = b"
| "js_truthy (JNum n) = (n \<noteq> 0)"
| "js_truthy (JStr s) = (s \<noteq> [])"
| "js_truthy _ = True"

record OperationRun =
  ru_id :: string
  ru_requestId :: "string option"
  ru_confirmationId :: "string option"
  ru_sessionId :: string
  ru_workspaceId :: string
  ru_adminUserId :: string
  ru_actionName :: string
  ru_actionFingerprint :: string
  ru_catalogHash :: string
  ru_operationHash :: string
  ru_operation :: jsv
  ru_mutationPlan :: jsv
  ru_capabilityId :: "string option"
  ru_capabilityHash :: "string option"
  ru_status :: OperationRunStatus
  ru_actionResultId :: "string option"
  ru_reconciledAt :: "int option"
  ru_reconciliation :: "jsv option"
  ru_disc :: DiscriminatorTuple
  ru_createdAt :: int
  ru_updatedAt :: int

definition persisted_envelope :: "OperationRunRow \<Rightarrow> jsv" where
  "persisted_envelope r =
     (case stored_value (o_operation r) of
        None \<Rightarrow> JObj []
      | Some v \<Rightarrow> if is_object_like v then v else JObj [])"

definition toRun :: "OperationRunRow \<Rightarrow> OperationRun" where
  "toRun r =
     (let persisted = persisted_envelope r; plan = getp ''mutationPlan'' persisted; disc = o_disc r in
      \<lparr>ru_id = o_id r, ru_requestId = keep_truthy (o_request_id r),
       ru_confirmationId = keep_truthy (o_confirmation_id r), ru_sessionId = o_session_id r,
       ru_workspaceId = o_workspace_id r, ru_adminUserId = o_admin_user_id r,
       ru_actionName = o_action_name r, ru_actionFingerprint = o_action_fingerprint r,
       ru_catalogHash = o_catalog_hash r, ru_operationHash = o_operation_hash r,
       ru_operation = getp ''operation'' persisted,
       ru_mutationPlan = (if js_truthy plan then plan else JUndef),
       ru_capabilityId = keep_truthy (o_capability_id r),
       ru_capabilityHash = keep_truthy (o_capability_hash r), ru_status = o_status r,
       ru_actionResultId = keep_truthy (o_action_result_id r), ru_reconciledAt = o_reconciled_at r,
       ru_reconciliation = o_reconciliation r,
       ru_disc = disc\<lparr>d_runId := keep_truthy (d_runId disc), d_batchId := keep_truthy (d_batchId disc),
                      d_fieldProvenanceHash := keep_truthy (d_fieldProvenanceHash disc),
                      d_sourceUndoId := keep_truthy (d_sourceUndoId disc),
                      d_sourceUndoHash := keep_truthy (d_sourceUndoHash disc)\<rparr>,
       ru_createdAt = o_created_at r, ru_updatedAt = o_updated_at r\<rparr>)"

definition hasValidPersistedOperationHash ::
  "(string \<Rightarrow> string) \<Rightarrow> OperationRun \<Rightarrow> (gate_exn, bool) result" where
  "hasValidPersistedOperationHash sha256 run =
     (let operation = ru_operation run; confirmed = (ru_confirmationId run \<noteq> None);
          same_hash = (\<lambda>v. and_then (hashOperation sha256 v) (\<lambda>h. Inr (h = ru_operationHash run))) in
      if d_authorityModel (ru_disc run) = Some preview_confirmation_v2 \<and> d_registryId (ru_disc run) = Some v2_api
      then same_hash operation
      else if confirmed \<and> (\<not> is_object_like operation
             \<or> getp ''operationId'' operation \<noteq> JStr (ru_id run)
             \<or> getp ''actionName'' operation \<noteq> JStr (ru_actionName run))
      then Inr False
      else and_then
        (if confirmed
         then and_then (hashOperation sha256 (JObj [(''mutationPlan'', getp ''mutationPlan'' operation)])) (\<lambda>a.
              and_then (hashOperation sha256 (JObj [(''mutationPlan'', ru_mutationPlan run)])) (\<lambda>b. Inr (a = b)))
         else Inr True)
        (\<lambda>plan_ok.
           if \<not> plan_ok then Inr False
           else if confirmed then same_hash operation
           else same_hash (JObj [(''actionName'', JStr (ru_actionName run)), (''operation'', operation),
                                 (''mutationPlan'', ru_mutationPlan run)])))"

definition preparedAssistantPreviewMatchesConfirmation ::
  "OperationRun \<Rightarrow> PendingConfirmationRecord \<Rightarrow> bool" where
  "preparedAssistantPreviewMatchesConfirmation run r \<longleftrightarrow>
     ru_status run = O_prepared
     \<and> p_authorityModel r = Some preview_confirmation_v2 \<and> p_registryId r = Some v2_api
     \<and> d_runId (ru_disc run) = p_runId r \<and> d_registryId (ru_disc run) = p_registryId r
     \<and> d_authorityModel (ru_disc run) = p_authorityModel r
     \<and> d_executorKind (ru_disc run) = p_executorKind r
     \<and> ru_actionFingerprint run = p_actionFingerprint r \<and> ru_catalogHash run = p_catalogHash r
     \<and> ru_operationHash run = p_operationHash r"

section \<open>Runs\<close>

record PrepareOperationRunInput =
  pi_id :: "string option"
  pi_requestId :: "string option"
  pi_confirmationId :: "string option"
  pi_sessionId :: string
  pi_workspaceId :: string
  pi_adminUserId :: string
  pi_actionName :: string
  pi_actionFingerprint :: string
  pi_catalogHash :: string
  pi_operationHash :: string
  pi_operation :: jsv
  pi_mutationPlan :: jsv
  pi_capabilityId :: "string option"
  pi_capabilityHash :: "string option"
  pi_discriminator :: "DiscriminatorTuple option"

definition id_or_fresh :: "env \<Rightarrow> string option \<Rightarrow> db \<Rightarrow> string \<times> db" where
  "id_or_fresh E given d = (case given of Some k \<Rightarrow> (k, d) | None \<Rightarrow> fresh_id E d)"

definition operation_envelope :: "PrepareOperationRunInput \<Rightarrow> jsv" where
  "operation_envelope input =
     JObj ((if pi_operation input \<noteq> JUndef then [(''operation'', pi_operation input)] else [])
           @ (if js_truthy (pi_mutationPlan input) then [(''mutationPlan'', pi_mutationPlan input)] else []))"

definition prepared_run_row ::
  "int \<Rightarrow> string \<Rightarrow> jsv \<Rightarrow> PrepareOperationRunInput \<Rightarrow> OperationRunRow" where
  "prepared_run_row t k envelope input =
     \<lparr>o_id = k, o_request_id = pi_requestId input, o_confirmation_id = pi_confirmationId input,
      o_session_id = pi_sessionId input, o_workspace_id = pi_workspaceId input,
      o_admin_user_id = pi_adminUserId input, o_action_name = pi_actionName input,
      o_action_fingerprint = pi_actionFingerprint input, o_catalog_hash = pi_catalogHash input,
      o_operation_hash = pi_operationHash input, o_status = O_prepared, o_action_result_id = None,
      o_operation = stored envelope, o_reconciled_at = None, o_reconciliation = None,
      o_capability_id = pi_capabilityId input, o_capability_hash = pi_capabilityHash input,
      o_disc = (case pi_discriminator input of
                  Some t \<Rightarrow> t | None \<Rightarrow> v1DiscriminatorFromCapability (pi_capabilityId input)),
      o_created_at = t, o_updated_at = t\<rparr>"

definition prepareOperationRun :: "env \<Rightarrow> PrepareOperationRunInput \<Rightarrow> string tx" where
  "prepareOperationRun E input d =
     (if js_truthy (pi_mutationPlan input) \<and> mutationPlanDescriptors (pi_mutationPlan input) = None
      then Inl ''invalid_mutation_plan''
      else case id_or_fresh E (pi_id input) d of (k, d1) \<Rightarrow>
        case exactNonsecretJson (operation_envelope input) 1000000 of
          Inl e \<Rightarrow> Inl ''durable_evidence''
        | Inr envelope \<Rightarrow>
            and_then (insert_run (prepared_run_row (now E) k envelope input) d1) (\<lambda>d2. Inr (d2, k)))"

definition markOperationExecuting :: "env \<Rightarrow> string \<Rightarrow> db \<Rightarrow> db \<times> bool" where
  "markOperationExecuting E k d =
     (case update_run_status (\<lambda>r. o_id r = k \<and> o_status r = O_prepared)
             (\<lambda>r. r\<lparr>o_status := O_executing, o_updated_at := now E\<rparr>) d of
        (d1, n) \<Rightarrow> (d1, n = 1))"

definition settleOperationRun :: "env \<Rightarrow> string \<Rightarrow> ActionResultKind \<Rightarrow> string option \<Rightarrow> db \<Rightarrow> db" where
  "settleOperationRun E k status actionResultId d =
     fst (update_run_status (\<lambda>r. o_id r = k)
       (\<lambda>r. r\<lparr>o_status := run_status_of status, o_action_result_id := actionResultId, o_updated_at := now E\<rparr>) d)"

definition run_result_row ::
  "int \<Rightarrow> string \<Rightarrow> ActionResultKind \<Rightarrow> jsv \<Rightarrow> jsv \<Rightarrow> OperationRunRow \<Rightarrow> ActionResultRow" where
  "run_result_row t aid status resultJson summary r =
     \<lparr>a_id = aid, a_operation_id = Some (o_id r), a_workspace_id = o_workspace_id r,
      a_admin_user_id = o_admin_user_id r, a_session_id = Some (o_session_id r),
      a_action_name = o_action_name r, a_kind = status, a_result = resultJson, a_summary = summary,
      a_created_at = t\<rparr>"

definition settleOperationResult :: "env \<Rightarrow> string \<Rightarrow> ActionResultKind \<Rightarrow> jsv \<Rightarrow> ActionResultRef tx" where
  "settleOperationResult E k status result d =
     (case sel o_id k (runs d) of
        None \<Rightarrow> Inl ''operation_not_found''
      | Some r \<Rightarrow>
          if truthy (o_action_result_id r)
          then case sel a_id (the (o_action_result_id r)) (results d) of
                 None \<Rightarrow> Inl ''operation_result_not_found''
               | Some a \<Rightarrow> Inr (d, \<lparr>ref_id = the (o_action_result_id r), ref_kind = a_kind a,
                                    ref_summary = a_summary a\<rparr>)
          else if o_status r \<noteq> O_executing \<and> \<not> (o_status r = O_prepared \<and> status = R_definitive_failed)
          then Inl ''operation_not_executing''
          else case fresh_id E d of (aid, d0) \<Rightarrow>
            and_then (canonical_summary aid result) (\<lambda>summary.
            and_then (canonical_result result) (\<lambda>resultJson.
            and_then (insert_result (run_result_row (now E) aid status resultJson summary r) d0) (\<lambda>d1.
            case update_run_status
                   (\<lambda>x. o_id x = k \<and> o_status x = o_status r \<and> o_action_result_id x = None)
                   (\<lambda>x. x\<lparr>o_status := run_status_of status, o_action_result_id := Some aid,
                          o_updated_at := now E\<rparr>) d1 of
              (d2, n) \<Rightarrow>
                if n \<noteq> 1 then Inl ''operation_not_executing''
                else Inr (d2, \<lparr>ref_id = aid, ref_kind = status, ref_summary = summary\<rparr>)))))"

definition getOperationRun :: "string \<Rightarrow> db \<Rightarrow> OperationRun option" where
  "getOperationRun k d = map_option toRun (sel o_id k (runs d))"

record RecordActionResultInput =
  ra_workspaceId :: string
  ra_adminUserId :: string
  ra_sessionId :: "string option"
  ra_actionName :: string
  ra_status :: ActionResultKind
  ra_result :: jsv
  ra_operationId :: "string option"

definition recordActionResult :: "env \<Rightarrow> RecordActionResultInput \<Rightarrow> ActionResultRef tx" where
  "recordActionResult E input d =
     (case fresh_id E d of (aid, d0) \<Rightarrow>
        and_then (canonical_result (ra_result input)) (\<lambda>resultJson.
        and_then (canonical_summary aid (ra_result input)) (\<lambda>summary.
        and_then (insert_result
            \<lparr>a_id = aid, a_operation_id = ra_operationId input, a_workspace_id = ra_workspaceId input,
             a_admin_user_id = ra_adminUserId input, a_session_id = ra_sessionId input,
             a_action_name = ra_actionName input, a_kind = ra_status input, a_result = resultJson,
             a_summary = summary, a_created_at = now E\<rparr> d0) (\<lambda>d1.
          Inr (d1, \<lparr>ref_id = aid, ref_kind = ra_status input, ref_summary = summary\<rparr>)))))"


section \<open>Steps\<close>

text \<open>\<open>(? IS NULL OR operation_id = ?)\<close>.\<close>

definition in_operation :: "string option \<Rightarrow> OperationStepRow \<Rightarrow> bool" where
  "in_operation operationId s = (case operationId of None \<Rightarrow> True | Some k \<Rightarrow> s_operation_id s = k)"

record PrepareOperationStepInput =
  ps_id :: "string option"
  ps_operationId :: string
  ps_planStepId :: string
  ps_index :: int
  ps_name :: string
  ps_kind :: OperationStepKind
  ps_targetFingerprint :: "string option"
  ps_compensatesStepId :: "string option"
  ps_preparedDetail :: jsv

definition prepared_step_row ::
  "int \<Rightarrow> string \<Rightarrow> OperationStepKind \<Rightarrow> jsv option \<Rightarrow> PrepareOperationStepInput \<Rightarrow> OperationStepRow" where
  "prepared_step_row t k kind detail input =
     \<lparr>s_id = k, s_operation_id = ps_operationId input, s_step_index = ps_index input,
      s_plan_step_id = ps_planStepId input, s_name = ps_name input, s_kind = kind,
      s_status = S_prepared, s_external_id = None, s_target_fingerprint = ps_targetFingerprint input,
      s_effect = None, s_detail = detail, s_queued_at = None, s_dispatched_at = None,
      s_settled_at = None, s_compensates_step_id = ps_compensatesStepId input,
      s_created_at = t, s_updated_at = t\<rparr>"

definition prepareOperationStep :: "env \<Rightarrow> PrepareOperationStepInput \<Rightarrow> string tx" where
  "prepareOperationStep E input d =
     (if ps_kind input \<noteq> Primary then Inl ''compensation_requires_eligibility''
      else case id_or_fresh E (ps_id input) d of (k, d1) \<Rightarrow>
        and_then (if ps_preparedDetail input = JUndef then Inr None
                  else case exactNonsecretJson (ps_preparedDetail input) 65536 of
                         Inl e \<Rightarrow> Inl ''durable_evidence'' | Inr v \<Rightarrow> Inr (Some v)) (\<lambda>detail.
        and_then (insert_step (prepared_step_row (now E) k Primary detail input) d1) (\<lambda>d2. Inr (d2, k))))"

definition run_executing :: "string \<Rightarrow> db \<Rightarrow> bool" where
  "run_executing oid d = list_ex (\<lambda>r. o_id r = oid \<and> o_status r = O_executing) (runs d)"

definition markOperationStepExecuting :: "env \<Rightarrow> string \<Rightarrow> string option \<Rightarrow> db \<Rightarrow> db \<times> bool" where
  "markOperationStepExecuting E k operationId d =
     (case update_steps
             (\<lambda>s. s_id s = k \<and> in_operation operationId s \<and> s_status s = S_prepared \<and> s_kind s = Primary
                  \<and> run_executing (s_operation_id s) d)
             (\<lambda>s. s\<lparr>s_status := S_executing, s_queued_at := Some (now E), s_updated_at := now E\<rparr>) d of
        (d1, n) \<Rightarrow> (d1, n = 1))"

definition markOperationStepDispatched :: "env \<Rightarrow> string \<Rightarrow> string option \<Rightarrow> db \<Rightarrow> db \<times> bool" where
  "markOperationStepDispatched E k operationId d =
     (case update_steps
             (\<lambda>s. s_id s = k \<and> in_operation operationId s \<and> s_status s = S_executing
                  \<and> s_dispatched_at s = None)
             (\<lambda>s. s\<lparr>s_dispatched_at := Some (now E), s_updated_at := now E\<rparr>) d of
        (d1, n) \<Rightarrow> (d1, n = 1))"

definition cancelOperationStepBeforeDispatch ::
  "env \<Rightarrow> string \<Rightarrow> jsv \<Rightarrow> string option \<Rightarrow> db \<Rightarrow> db \<times> bool" where
  "cancelOperationStepBeforeDispatch E k detail operationId d =
     (let safeDetail = boundedCompleteSanitizedJson detail 8000 in
      case update_steps
             (\<lambda>s. s_id s = k \<and> in_operation operationId s \<and> s_status s = S_executing
                  \<and> s_dispatched_at s = None)
             (\<lambda>s. s\<lparr>s_status := S_definitive_failed, s_detail := Some safeDetail,
                    s_settled_at := Some (now E), s_updated_at := now E\<rparr>) d of
        (d1, n) \<Rightarrow> (d1, n = 1))"

record StepDetail =
  sd_externalId :: "string option"
  sd_effect :: jsv
  sd_detail :: jsv

text \<open>The merge of a new detail over the persisted one: two objects are spread, else it replaces.\<close>

definition merge_detail :: "jsv option \<Rightarrow> jsv \<Rightarrow> jsv option" where
  "merge_detail prior detail =
     (if detail = JUndef then prior
      else case (prior, detail) of
             (Some (JObj es), JObj fs) \<Rightarrow> Some (JObj (spread es fs))
           | (Some (JObj es), JBytes bs) \<Rightarrow> Some (JObj (spread es (byte_entries bs)))
           | _ \<Rightarrow> Some detail)"

definition bounded_effect :: "jsv \<Rightarrow> jsv option" where
  "bounded_effect v = (if v = JUndef then None else Some (boundedSanitizedJson v 65536))"

definition bounded_detail :: "jsv option \<Rightarrow> jsv option" where
  "bounded_detail v = map_option (\<lambda>x. boundedCompleteSanitizedJson x 65536) v"

text \<open>The statuses a primary step can settle with.\<close>

datatype step_settlement = Settle_succeeded | Settle_definitive_failed | Settle_outcome_unknown

fun settled_status :: "step_settlement \<Rightarrow> OperationStepStatus" where
  "settled_status Settle_succeeded = S_succeeded"
| "settled_status Settle_definitive_failed = S_definitive_failed"
| "settled_status Settle_outcome_unknown = S_outcome_unknown"

definition settle_primary ::
  "env \<Rightarrow> string \<Rightarrow> string option \<Rightarrow> (OperationStepRow \<Rightarrow> OperationStepRow) \<Rightarrow> db \<Rightarrow> (string, db) result" where
  "settle_primary E k operationId f d =
     (case update_steps
             (\<lambda>s. s_id s = k \<and> in_operation operationId s \<and> s_status s = S_executing \<and> s_kind s = Primary) f d of
        (d1, n) \<Rightarrow> if n \<noteq> 1 then Inl ''operation_step_not_executing'' else Inr d1)"

definition settleOperationStep ::
  "env \<Rightarrow> string \<Rightarrow> step_settlement \<Rightarrow> StepDetail \<Rightarrow> string option \<Rightarrow> db \<Rightarrow> (string, db) result" where
  "settleOperationStep E k status detail operationId d =
     (case find (\<lambda>s. s_id s = k \<and> in_operation operationId s \<and> s_status s = S_executing \<and> s_kind s = Primary)
             (steps d) of
        None \<Rightarrow> Inl ''operation_step_not_executing''
      | Some prior \<Rightarrow>
          let nextDetail = merge_detail (s_detail prior) (sd_detail detail) in
          settle_primary E k operationId
            (\<lambda>s. s\<lparr>s_status := settled_status status, s_external_id := sd_externalId detail,
                   s_effect := bounded_effect (sd_effect detail), s_detail := bounded_detail nextDetail,
                   s_settled_at := Some (now E), s_updated_at := now E\<rparr>) d)"

definition degradation_entries :: "jsv \<Rightarrow> (string \<times> jsv) list" where
  "degradation_entries detail =
     [(''journalDegraded'', JBool True), (''fullEffectPersisted'', JBool False)]
     @ (case getp ''dispatchStatus'' detail of JStr s \<Rightarrow> [(''dispatchStatus'', JStr (take 64 s))] | _ \<Rightarrow> [])
     @ (if getp ''settlementError'' detail = JUndef then []
        else [(''settlementError'', boundedCompleteSanitizedJson (getp ''settlementError'' detail) 4096)])"

definition degraded_detail :: "jsv option \<Rightarrow> jsv \<Rightarrow> jsv" where
  "degraded_detail prior detail =
     (case prior of
        Some (JObj es) \<Rightarrow> JObj (spread es (degradation_entries detail))
      | Some v \<Rightarrow> JObj ((''preDispatch'', v) # degradation_entries detail)
      | None \<Rightarrow> JObj (degradation_entries detail))"

definition settleOperationStepDegraded ::
  "env \<Rightarrow> string \<Rightarrow> step_settlement \<Rightarrow> string option \<Rightarrow> jsv \<Rightarrow> string option \<Rightarrow> db \<Rightarrow> (string, db) result" where
  "settleOperationStepDegraded E k status externalId detail operationId d =
     (case find (\<lambda>s. s_id s = k \<and> in_operation operationId s \<and> s_status s = S_executing \<and> s_kind s = Primary)
             (steps d) of
        None \<Rightarrow> Inl ''operation_step_not_executing''
      | Some prior \<Rightarrow>
          settle_primary E k operationId
            (\<lambda>s. s\<lparr>s_status := settled_status status, s_external_id := externalId, s_effect := None,
                   s_detail := Some (boundedCompleteSanitizedJson (degraded_detail (s_detail prior) detail) 65536),
                   s_settled_at := Some (now E), s_updated_at := now E\<rparr>) d)"

section \<open>Reconciliation\<close>

text \<open>\<open>reconciliation?.stepId === id && reconciliation.authoritative === true\<close>.\<close>

definition authoritative_for :: "string \<Rightarrow> jsv option \<Rightarrow> bool" where
  "authoritative_for stepId reconciliation \<longleftrightarrow>
     (case reconciliation of
        None \<Rightarrow> False
      | Some v \<Rightarrow> getp ''stepId'' v = JStr stepId \<and> getp ''authoritative'' v = JBool True)"

definition settleReconciledStep ::
  "env \<Rightarrow> string \<Rightarrow> bool \<Rightarrow> StepDetail \<Rightarrow> string option \<Rightarrow> db \<Rightarrow> (string, db) result" where
  "settleReconciledStep E k success detail operationId d =
     (case find (\<lambda>s. s_id s = k \<and> in_operation operationId s) (steps d) of
        None \<Rightarrow> Inl ''authoritative_reconciliation_required''
      | Some s0 \<Rightarrow>
          (case sel o_id (s_operation_id s0) (runs d) of
             None \<Rightarrow> Inl ''authoritative_reconciliation_required''
           | Some r \<Rightarrow>
               if s_status s0 \<noteq> S_outcome_unknown \<or> \<not> authoritative_for k (o_reconciliation r)
               then Inl ''authoritative_reconciliation_required''
               else
               let merged = merge_detail (s_detail s0) (sd_detail detail) in
               case update_steps
                      (\<lambda>s. s_id s = k \<and> s_operation_id s = s_operation_id s0 \<and> s_status s = S_outcome_unknown
                           \<and> s_kind s = Primary)
                      (\<lambda>s. s\<lparr>s_status := (if success then S_succeeded else S_definitive_failed),
                             s_external_id := sd_externalId detail,
                             s_effect := bounded_effect (sd_effect detail), s_detail := bounded_detail merged,
                             s_settled_at := Some (now E), s_updated_at := now E\<rparr>) d of
                 (d1, n) \<Rightarrow> if n \<noteq> 1 then Inl ''operation_step_not_unknown'' else Inr d1))"

definition STABLE_REASONS :: "string list" where
  "STABLE_REASONS =
     [''authoritative_match'', ''non_unique_or_missing'', ''invalid_evidence'', ''binding_mismatch'',
      ''action_fingerprint_drift'', ''catalog_hash_drift'', ''read_failed'', ''incomplete_evidence'',
      ''evaluation_failed'', ''not_found'', ''non_unique'', ''truncated'', ''post_list_truncated'',
      ''reconciliation_settlement_failed'', ''handler_missing'', ''installation_unavailable'',
      ''candidate_scan_limit'']"

definition reconciliation_scalar :: "string \<times> jsv \<Rightarrow> (string \<times> jsv) option" where
  "reconciliation_scalar e =
     (case e of (key, v) \<Rightarrow>
        if key \<in> set [''binding'', ''evidence'']
           \<or> list_ex (\<lambda>needle. contains needle (map lower_char key))
               [''token'', ''secret'', ''header'', ''authorization'', ''cookie'', ''bytes'', ''binary'']
        then None
        else if key = ''reason'' \<and> as_string v \<noteq> None
        then Some (''reason'', JStr (if the (as_string v) \<in> set STABLE_REASONS then the (as_string v)
                                     else ''invalid_reconciliation_reason''))
        else if key \<in> set [''matches'', ''matchCount'', ''candidateCount'', ''rowCount'', ''complete'', ''compatible'']
             \<and> (case v of JNum _ \<Rightarrow> True | JNonFinite \<Rightarrow> True | JBool _ \<Rightarrow> True | JNull \<Rightarrow> True | _ \<Rightarrow> False)
        then Some (key, v) else None)"

definition BINDING_KEYS :: "string list" where
  "BINDING_KEYS =
     [''operationId'', ''stepId'', ''planStepId'', ''strategy'', ''actionName'', ''actionFingerprint'', ''catalogHash'']"

definition safe_binding :: "jsv \<Rightarrow> jsv" where
  "safe_binding b =
     JObj (List.map_filter (\<lambda>k. case getp k b of JStr s \<Rightarrow> Some (k, JStr (take 256 s)) | _ \<Rightarrow> None) BINDING_KEYS)"

definition safe_reconciliation :: "jsv \<Rightarrow> jsv" where
  "safe_reconciliation result =
     JObj (List.map_filter reconciliation_scalar (take 50 (entries_of result))
           @ (if is_object_like (getp ''binding'' result)
              then [(''binding'', safe_binding (getp ''binding'' result))] else [])
           @ (if getp ''evidence'' result \<noteq> JUndef
              then [(''evidence'', boundedSanitizedJson (getp ''evidence'' result) 50000)] else []))"

definition recordOperationReconciliation ::
  "env \<Rightarrow> string \<Rightarrow> string \<Rightarrow> jsv \<Rightarrow> bool \<Rightarrow> db \<Rightarrow> (string, db) result" where
  "recordOperationReconciliation E k stepId result authoritative d =
     (if \<not> list_ex (\<lambda>s. s_id s = stepId \<and> s_operation_id s = k \<and> s_kind s = Primary
                        \<and> s_status s = S_outcome_unknown) (steps d)
      then Inl ''reconciliation_step_not_unknown''
      else
      let v = boundedSanitizedJson
                (JObj [(''stepId'', JStr (take 256 stepId)), (''authoritative'', JBool authoritative),
                       (''result'', safe_reconciliation result)]) 65536 in
      case update_run_plain (\<lambda>r. o_id r = k)
             (\<lambda>r. r\<lparr>o_reconciled_at := Some (now E), o_reconciliation := Some v, o_updated_at := now E\<rparr>) d of
        (d1, n) \<Rightarrow> if n \<noteq> 1 then Inl ''operation_not_found'' else Inr d1)"

section \<open>Compensation\<close>

definition compensation_bound :: "PersistedPlanDescriptor list \<Rightarrow> PrepareOperationStepInput \<Rightarrow> bool" where
  "compensation_bound ds input =
     (case descriptor_at ds (ps_index input) of
        None \<Rightarrow> False
      | Some p \<Rightarrow> pd_id p = ps_planStepId input \<and> pd_kind p = Compensation
          \<and> (pd_targetFingerprint p = None \<or> pd_targetFingerprint p = ps_targetFingerprint input))"

definition compensation_used :: "PrepareOperationStepInput \<Rightarrow> db \<Rightarrow> bool" where
  "compensation_used input d =
     list_ex (\<lambda>s. s_operation_id s = ps_operationId input
                 \<and> (s_step_index s = ps_index input \<or> s_plan_step_id s = ps_planStepId input
                    \<or> (s_kind s = Compensation \<and> s_compensates_step_id s = ps_compensatesStepId input)))
       (steps d)"

definition later_definitive_failure ::
  "PersistedPlanDescriptor list \<Rightarrow> OperationStepRow \<Rightarrow> db \<Rightarrow> bool" where
  "later_definitive_failure ds source d =
     list_ex (\<lambda>s. s_operation_id s = s_operation_id source \<and> s_step_index source < s_step_index s
                 \<and> s_status s = S_definitive_failed \<and> matchesPersistedDescriptor ds s Primary) (steps d)"

definition compensation_eligible ::
  "PrepareOperationStepInput \<Rightarrow> OperationStepRow \<Rightarrow> OperationRunRow \<Rightarrow> db \<Rightarrow> bool" where
  "compensation_eligible input source r d =
     (case persistedPlanDescriptors (o_operation r) of
        None \<Rightarrow> False
      | Some ds \<Rightarrow>
          matchesPersistedDescriptor ds source Primary \<and> compensation_bound ds input
          \<and> \<not> compensation_used input d \<and> s_status source = S_succeeded
          \<and> (o_status r = O_definitive_failed
             \<or> (o_reconciliation r \<noteq> None \<and> is_record (the (o_reconciliation r))
                \<and> authoritative_for (s_id source) (o_reconciliation r))
             \<or> (o_status r = O_executing \<and> later_definitive_failure ds source d)))"

definition prepareCompensationStep :: "env \<Rightarrow> PrepareOperationStepInput \<Rightarrow> string tx" where
  "prepareCompensationStep E input d =
     (case find (\<lambda>s. Some (s_id s) = ps_compensatesStepId input \<and> s_operation_id s = ps_operationId input
                    \<and> s_kind s = Primary) (steps d) of
        None \<Rightarrow> Inl ''compensation_not_eligible''
      | Some source \<Rightarrow>
          (case sel o_id (s_operation_id source) (runs d) of
             None \<Rightarrow> Inl ''compensation_not_eligible''
           | Some r \<Rightarrow>
               if \<not> compensation_eligible input source r d then Inl ''compensation_not_eligible''
               else case id_or_fresh E (ps_id input) d of (k, d1) \<Rightarrow>
                 and_then (insert_step (prepared_step_row (now E) k Compensation None input) d1)
                   (\<lambda>d2. Inr (d2, k))))"

definition markOperationStepCompensating :: "env \<Rightarrow> string \<Rightarrow> string option \<Rightarrow> bool tx" where
  "markOperationStepCompensating E k operationId d =
     (case find (\<lambda>s. s_id s = k \<and> in_operation operationId s \<and> s_status s = S_prepared \<and> s_kind s = Compensation)
             (steps d) of
        None \<Rightarrow> Inr (d, False)
      | Some row \<Rightarrow>
          if \<not> truthy (s_compensates_step_id row) then Inr (d, False)
          else
          case update_steps (\<lambda>s. s_id s = k \<and> s_status s = S_prepared \<and> s_kind s = Compensation)
                 (\<lambda>s. s\<lparr>s_status := S_executing, s_queued_at := Some (now E), s_updated_at := now E\<rparr>) d of
            (d1, n1) \<Rightarrow>
          case update_steps (\<lambda>s. Some (s_id s) = s_compensates_step_id row \<and> s_status s = S_succeeded \<and> s_kind s = Primary)
                 (\<lambda>s. s\<lparr>s_status := S_compensating, s_updated_at := now E\<rparr>) d1 of
            (d2, n2) \<Rightarrow>
          if n1 \<noteq> 1 \<or> n2 \<noteq> 1 then Inl ''compensation_step_not_prepared'' else Inr (d2, True))"

datatype compensation_settlement = Comp_compensated | Comp_compensation_failed | Comp_outcome_unknown

fun compensation_status :: "compensation_settlement \<Rightarrow> OperationStepStatus" where
  "compensation_status Comp_compensated = S_compensated"
| "compensation_status Comp_compensation_failed = S_compensation_failed"
| "compensation_status Comp_outcome_unknown = S_outcome_unknown"

text \<open>
  The common body of \<open>settleCompensationStep\<close> and its degraded variant: settle the compensation
  row, then resolve its source, whose success is erased only by a successful compensation.
\<close>

definition settle_compensation ::
  "env \<Rightarrow> string \<Rightarrow> compensation_settlement \<Rightarrow> string option \<Rightarrow> jsv option \<Rightarrow> jsv option
   \<Rightarrow> string option \<Rightarrow> db \<Rightarrow> (string, db) result" where
  "settle_compensation E k status externalId effect detail operationId d =
     (case find (\<lambda>s. s_id s = k \<and> in_operation operationId s \<and> s_status s = S_executing \<and> s_kind s = Compensation)
             (steps d) of
        None \<Rightarrow> Inl ''compensation_step_not_executing''
      | Some row \<Rightarrow>
          if \<not> truthy (s_compensates_step_id row) then Inl ''compensation_step_not_executing''
          else
          case update_steps (\<lambda>s. s_id s = k \<and> s_status s = S_executing \<and> s_kind s = Compensation)
                 (\<lambda>s. s\<lparr>s_status := compensation_status status, s_external_id := externalId,
                        s_effect := effect, s_detail := detail,
                        s_settled_at := Some (now E), s_updated_at := now E\<rparr>) d of
            (d1, n1) \<Rightarrow>
          if n1 \<noteq> 1 then Inl ''compensation_step_not_executing'' else
          case update_steps (\<lambda>s. Some (s_id s) = s_compensates_step_id row \<and> s_status s = S_compensating)
                 (\<lambda>s. s\<lparr>s_status := (if status = Comp_compensated then S_compensated else S_succeeded),
                        s_settled_at := (if status = Comp_compensated then Some (now E) else s_settled_at s),
                        s_updated_at := now E\<rparr>) d1 of
            (d2, n2) \<Rightarrow>
          if n2 \<noteq> 1 then Inl ''compensation_source_not_executing'' else Inr d2)"

definition settleCompensationStep ::
  "env \<Rightarrow> string \<Rightarrow> compensation_settlement \<Rightarrow> StepDetail \<Rightarrow> string option \<Rightarrow> db \<Rightarrow> (string, db) result" where
  "settleCompensationStep E k status detail operationId =
     settle_compensation E k status (sd_externalId detail) (bounded_effect (sd_effect detail))
       (if sd_detail detail = JUndef then None else bounded_detail (Some (sd_detail detail))) operationId"

definition settleCompensationStepDegraded ::
  "env \<Rightarrow> string \<Rightarrow> compensation_settlement \<Rightarrow> string option \<Rightarrow> jsv \<Rightarrow> string option \<Rightarrow> db \<Rightarrow> (string, db) result" where
  "settleCompensationStepDegraded E k status externalId detail operationId =
     settle_compensation E k status externalId None
       (Some (boundedCompleteSanitizedJson detail 65536)) operationId"

text \<open>The step as the callers see it: an empty text counts as absent.\<close>

definition toStep :: "OperationStepRow \<Rightarrow> OperationStepRow" where
  "toStep s = s\<lparr>s_target_fingerprint := keep_truthy (s_target_fingerprint s),
                s_compensates_step_id := keep_truthy (s_compensates_step_id s),
                s_external_id := keep_truthy (s_external_id s)\<rparr>"

definition listOperationSteps :: "string \<Rightarrow> db \<Rightarrow> OperationStepRow list" where
  "listOperationSteps operationId d =
     map toStep (sort_key s_step_index (filter (\<lambda>s. s_operation_id s = operationId) (steps d)))"


section \<open>Every operation keeps the store well formed\<close>

lemma id_or_fresh_core: "id_or_fresh E given d = (k, d') \<Longrightarrow> core_same d d'"
  by (auto simp: id_or_fresh_def core_same_def dest: fresh_id_core split: option.splits)

lemma core_same_ok: "store_ok d \<Longrightarrow> core_same d d' \<Longrightarrow> store_ok d'"
  by (simp add: core_same_good [unfolded good_step_def])

lemma good_step_ok: "good_step d d' \<Longrightarrow> store_ok d'"
  by (simp add: good_step_def)

lemma update_steps_result:
  assumes "update_steps P f d = (d', n)" "store_ok d" "\<And>s. s \<in> set (steps d) \<Longrightarrow> P s \<Longrightarrow> step_move s (f s)"
  shows "good_step d d'"
  using update_steps_good [OF assms(2,3), of P] assms(1) by simp

lemma update_run_status_result:
  assumes "update_run_status P f d = (d', n)" "store_ok d" "\<And>r. r \<in> set (runs d) \<Longrightarrow> P r \<Longrightarrow> run_move r (f r)"
  shows "good_step d d'"
  using update_run_status_good [OF assms(2,3), of P] assms(1) by simp

lemma prepareOperationRun_good [step_invariants]:
  assumes ok: "store_ok d" and p: "prepareOperationRun E input d = Inr (d', k)"
  shows "good_step d d'"
proof -
  from p obtain d1 envelope where d1: "id_or_fresh E (pi_id input) d = (k, d1)"
    and i: "insert_run (prepared_run_row (now E) k envelope input) d1 = Inr d'"
    by (auto simp: prepareOperationRun_def split: if_splits prod.splits sum.splits)
  have g: "good_step d d1" by (rule core_same_good [OF ok id_or_fresh_core [OF d1]])
  from good_step_trans [OF g insert_run_good [OF good_step_ok [OF g] i]] show ?thesis
    by (simp add: prepared_run_row_def)
qed

lemma markOperationExecuting_good [step_invariants]:
  "store_ok d \<Longrightarrow> good_step d (fst (markOperationExecuting E k d))"
  unfolding markOperationExecuting_def
  by (auto split: prod.splits intro!: update_run_status_result simp: run_move_def)

lemma settleOperationResult_good [step_invariants]:
  assumes ok: "store_ok d" and s: "settleOperationResult E k status result d = Inr (d', ref)"
  shows "good_step d d'"
proof -
  from s obtain r where r: "sel o_id k (runs d) = Some r"
    by (auto simp: settleOperationResult_def split: option.splits)
  show ?thesis
  proof (cases "truthy (o_action_result_id r)")
    case True
    with s r ok show ?thesis
      by (auto simp: settleOperationResult_def good_step_refl split: option.splits)
  next
    case False
    obtain aid d0 where d0: "fresh_id E d = (aid, d0)" by (cases "fresh_id E d")
    have st: "o_status r = O_executing \<or> o_status r = O_prepared"
      using s r False by (auto simp: settleOperationResult_def split: if_splits)
    let ?u = "\<lambda>d1. update_run_status
             (\<lambda>x. o_id x = k \<and> o_status x = o_status r \<and> o_action_result_id x = None)
             (\<lambda>x. x\<lparr>o_status := run_status_of status, o_action_result_id := Some aid,
                    o_updated_at := now E\<rparr>) d1"
    from s r False d0 obtain resultJson summary d1 where
      d1: "insert_result (run_result_row (now E) aid status resultJson summary r) d0 = Inr d1" and
      c: "(case ?u d1 of (d2, n) \<Rightarrow> if n \<noteq> 1 then Inl ''operation_not_executing''
           else Inr (d2, \<lparr>ref_id = aid, ref_kind = status, ref_summary = summary\<rparr>)) = Inr (d', ref)"
      by (simp add: settleOperationResult_def split: if_splits) blast+
    from c obtain n where d2: "?u d1 = (d', n)" by (cases "?u d1") (auto split: if_splits)
    have g0: "good_step d d0" by (rule core_same_good [OF ok fresh_id_core [OF d0]])
    have g1: "good_step d0 d1" by (rule insert_result_good [OF good_step_ok [OF g0] d1])
    have "good_step d1 d'"
      by (rule update_run_status_result [OF d2 good_step_ok [OF g1]])
        (use st in \<open>cases status; auto simp: run_move_def\<close>)
    with g0 g1 show ?thesis by (meson good_step_trans)
  qed
qed

lemma recordActionResult_good [step_invariants]:
  assumes ok: "store_ok d" and s: "recordActionResult E input d = Inr (d', ref)"
  shows "good_step d d'"
proof -
  from s obtain aid d0 a where d0: "fresh_id E d = (aid, d0)" and i: "insert_result a d0 = Inr d'"
    by (auto simp: recordActionResult_def split: prod.splits)
  have g0: "good_step d d0" by (rule core_same_good [OF ok fresh_id_core [OF d0]])
  from good_step_trans [OF g0 insert_result_good [OF good_step_ok [OF g0] i]] show ?thesis .
qed

lemma prepareOperationStep_good [step_invariants]:
  assumes ok: "store_ok d" and p: "prepareOperationStep E input d = Inr (d', k)"
  shows "good_step d d'"
proof -
  from p obtain d1 detail where d1: "id_or_fresh E (ps_id input) d = (k, d1)"
    and i: "insert_step (prepared_step_row (now E) k Primary detail input) d1 = Inr d'"
    by (auto simp: prepareOperationStep_def split: if_splits prod.splits)
  have g: "good_step d d1" by (rule core_same_good [OF ok id_or_fresh_core [OF d1]])
  from good_step_trans [OF g insert_step_good [OF good_step_ok [OF g] i]] show ?thesis .
qed

lemma markOperationStepExecuting_good [step_invariants]:
  "store_ok d \<Longrightarrow> good_step d (fst (markOperationStepExecuting E k oid d))"
  unfolding markOperationStepExecuting_def
  by (auto split: prod.splits intro!: update_steps_result simp: step_move_def)

lemma markOperationStepDispatched_good [step_invariants]:
  "store_ok d \<Longrightarrow> good_step d (fst (markOperationStepDispatched E k oid d))"
  unfolding markOperationStepDispatched_def
  by (auto split: prod.splits intro!: update_steps_result simp: step_move_def)

lemma cancelOperationStepBeforeDispatch_good [step_invariants]:
  "store_ok d \<Longrightarrow> good_step d (fst (cancelOperationStepBeforeDispatch E k v oid d))"
  unfolding cancelOperationStepBeforeDispatch_def
  by (auto split: prod.splits intro!: update_steps_result simp: step_move_def Let_def)

lemma settle_primary_good:
  assumes "store_ok d" "settle_primary E k oid f d = Inr d'"
    and "\<And>s. s_status s = S_executing \<Longrightarrow> step_move s (f s)"
  shows "good_step d d'"
  using assms(2)
  by (auto simp: settle_primary_def split: prod.splits if_splits
      intro!: update_steps_result [OF _ assms(1)] assms(3))

lemma settleOperationStep_good [step_invariants]:
  "store_ok d \<Longrightarrow> settleOperationStep E k status detail oid d = Inr d' \<Longrightarrow> good_step d d'"
  unfolding settleOperationStep_def
  by (cases status; auto simp: Let_def step_move_def split: option.splits elim!: settle_primary_good [rotated])

lemma settleOperationStepDegraded_good [step_invariants]:
  "store_ok d \<Longrightarrow> settleOperationStepDegraded E k status x v oid d = Inr d' \<Longrightarrow> good_step d d'"
  unfolding settleOperationStepDegraded_def
  by (cases status; auto simp: step_move_def split: option.splits elim!: settle_primary_good [rotated])

lemma settleReconciledStep_good [step_invariants]:
  assumes "store_ok d" "settleReconciledStep E k success detail oid d = Inr d'"
  shows "good_step d d'"
  using assms(2)
  by (auto simp: settleReconciledStep_def Let_def split: option.splits prod.splits if_splits
      intro!: update_steps_result [OF _ assms(1)] simp: step_move_def)

lemma recordOperationReconciliation_good [step_invariants]:
  assumes "store_ok d" "recordOperationReconciliation E k stepId result b d = Inr d'"
  shows "good_step d d'"
proof -
  from assms(2) obtain f where "d' = fst (update_run_plain (\<lambda>r. o_id r = k) f d)"
    and "\<And>r. run_move r (f r) \<and> (envelope_erased r \<longrightarrow> envelope_erased (f r))"
    by (auto simp: recordOperationReconciliation_def Let_def update_run_plain_def run_move_def
        envelope_erased_def split: if_splits)
  with update_run_plain_good [OF assms(1)] show ?thesis by simp
qed

lemma prepareCompensationStep_good [step_invariants]:
  assumes ok: "store_ok d" and p: "prepareCompensationStep E input d = Inr (d', k)"
  shows "good_step d d'"
proof -
  from p obtain d1 where d1: "id_or_fresh E (ps_id input) d = (k, d1)"
    and i: "insert_step (prepared_step_row (now E) k Compensation None input) d1 = Inr d'"
    by (auto simp: prepareCompensationStep_def split: option.splits if_splits prod.splits)
  have g: "good_step d d1" by (rule core_same_good [OF ok id_or_fresh_core [OF d1]])
  from good_step_trans [OF g insert_step_good [OF good_step_ok [OF g] i]] show ?thesis .
qed

lemma markOperationStepCompensating_good [step_invariants]:
  assumes ok: "store_ok d" and m: "markOperationStepCompensating E k oid d = Inr (d', b)"
  shows "good_step d d'"
proof -
  consider "d' = d" | row :: OperationStepRow and d1 n1 n2 where
    "update_steps (\<lambda>s. s_id s = k \<and> s_status s = S_prepared \<and> s_kind s = Compensation)
       (\<lambda>s. s\<lparr>s_status := S_executing, s_queued_at := Some (now E), s_updated_at := now E\<rparr>) d = (d1, n1)"
    "update_steps (\<lambda>s. Some (s_id s) = s_compensates_step_id row \<and> s_status s = S_succeeded \<and> s_kind s = Primary)
       (\<lambda>s. s\<lparr>s_status := S_compensating, s_updated_at := now E\<rparr>) d1 = (d', n2)"
    using m
    by (auto simp: markOperationStepCompensating_def split: option.splits prod.splits if_splits)
  then show ?thesis
  proof cases
    case 1
    with ok show ?thesis by (simp add: good_step_refl)
  next
    case 2
    have g: "good_step d d1" by (rule update_steps_result [OF 2(1) ok]) (auto simp: step_move_def)
    have "good_step d1 d'" by (rule update_steps_result [OF 2(2) good_step_ok [OF g]]) (auto simp: step_move_def)
    with g show ?thesis by (rule good_step_trans)
  qed
qed

lemma settle_compensation_good:
  assumes ok: "store_ok d" and m: "settle_compensation E k status x y z oid d = Inr d'"
  shows "good_step d d'"
proof -
  from m obtain row :: OperationStepRow and d1 n1 n2 where
    1: "update_steps (\<lambda>s. s_id s = k \<and> s_status s = S_executing \<and> s_kind s = Compensation)
         (\<lambda>s. s\<lparr>s_status := compensation_status status, s_external_id := x, s_effect := y, s_detail := z,
                s_settled_at := Some (now E), s_updated_at := now E\<rparr>) d = (d1, n1)" and
    2: "update_steps (\<lambda>s. Some (s_id s) = s_compensates_step_id row \<and> s_status s = S_compensating)
         (\<lambda>s. s\<lparr>s_status := (if status = Comp_compensated then S_compensated else S_succeeded),
                s_settled_at := (if status = Comp_compensated then Some (now E) else s_settled_at s),
                s_updated_at := now E\<rparr>) d1 = (d', n2)"
    by (auto simp: settle_compensation_def split: option.splits prod.splits if_splits)
  have g: "good_step d d1"
    by (rule update_steps_result [OF 1 ok]) (cases status; auto simp: step_move_def)
  have "good_step d1 d'"
    by (rule update_steps_result [OF 2 good_step_ok [OF g]]) (auto simp: step_move_def)
  with g show ?thesis by (rule good_step_trans)
qed

lemma settleCompensationStep_good [step_invariants]:
  "store_ok d \<Longrightarrow> settleCompensationStep E k status detail oid d = Inr d' \<Longrightarrow> good_step d d'"
  unfolding settleCompensationStep_def by (rule settle_compensation_good)

lemma settleCompensationStepDegraded_good [step_invariants]:
  "store_ok d \<Longrightarrow> settleCompensationStepDegraded E k status x v oid d = Inr d' \<Longrightarrow> good_step d d'"
  unfolding settleCompensationStepDegraded_def by (rule settle_compensation_good)


section \<open>Dispatch happens at most once\<close>

definition dispatches_step :: "string \<Rightarrow> db \<Rightarrow> db \<Rightarrow> bool" where
  "dispatches_step k d d' \<longleftrightarrow> (\<exists>E oid. markOperationStepDispatched E k oid d = (d', True))"

definition cancels_step :: "string \<Rightarrow> db \<Rightarrow> db \<Rightarrow> bool" where
  "cancels_step k d d' \<longleftrightarrow> (\<exists>E v oid. cancelOperationStepBeforeDispatch E k v oid d = (d', True))"

text \<open>A step that has been dispatched, or that was cancelled before its dispatch.\<close>

definition dispatch_spent :: "string \<Rightarrow> db \<Rightarrow> bool" where
  "dispatch_spent k d \<longleftrightarrow>
     (case sel s_id k (steps d) of None \<Rightarrow> False
      | Some s \<Rightarrow> s_dispatched_at s \<noteq> None \<or> s_status s = S_definitive_failed)"

definition dispatch_or_cancel :: "string \<Rightarrow> db \<Rightarrow> db \<Rightarrow> bool" where
  "dispatch_or_cancel k d d' \<longleftrightarrow> dispatches_step k d d' \<or> cancels_step k d d'"

lemma update_steps_one:
  assumes ok: "store_ok d" and u: "update_steps (\<lambda>s. s_id s = k \<and> S s) f d = (d', n)" and n: "n = 1"
    and key: "\<And>s. s_id (f s) = s_id s"
  obtains s where "sel s_id k (steps d) = Some s" "S s" "sel s_id k (steps d') = Some (f s)"
proof -
  have l: "length (filter (\<lambda>s. s_id s = k \<and> S s) (steps d)) = 1"
    and d': "d' = d\<lparr>steps := upd_where (\<lambda>s. s_id s = k \<and> S s) f (steps d)\<rparr>"
    using u n by (auto simp: update_steps_def)
  then obtain s where s: "sel s_id k (steps d) = Some s" "S s"
    unfolding filter_key_sel [OF store_ok_distinct(3) [OF ok], of k S]
    by (auto split: option.splits if_splits)
  moreover have "sel s_id k (steps d') = Some (f s)"
    unfolding d' using s sel_SomeD [OF s(1)] key by (simp add: sel_upd_where)
  ultimately show ?thesis by (rule that)
qed

lemma markOperationStepDispatched_effect:
  assumes ok: "store_ok d" and m: "markOperationStepDispatched E k oid d = (d', True)"
  obtains s where "sel s_id k (steps d) = Some s" "s_status s = S_executing" "s_dispatched_at s = None"
    "sel s_id k (steps d') = Some (s\<lparr>s_dispatched_at := Some (now E), s_updated_at := now E\<rparr>)"
proof -
  from m obtain n where "update_steps
             (\<lambda>s. s_id s = k \<and> in_operation oid s \<and> s_status s = S_executing \<and> s_dispatched_at s = None)
             (\<lambda>s. s\<lparr>s_dispatched_at := Some (now E), s_updated_at := now E\<rparr>) d = (d', n)" "n = 1"
    by (auto simp: markOperationStepDispatched_def split: prod.splits)
  from update_steps_one [OF ok this] show ?thesis by (auto intro: that)
qed

lemma cancelOperationStepBeforeDispatch_effect:
  assumes ok: "store_ok d" and m: "cancelOperationStepBeforeDispatch E k v oid d = (d', True)"
  obtains s where "sel s_id k (steps d) = Some s" "s_status s = S_executing" "s_dispatched_at s = None"
    "sel s_id k (steps d') = Some (s\<lparr>s_status := S_definitive_failed,
       s_detail := Some (boundedCompleteSanitizedJson v 8000), s_settled_at := Some (now E), s_updated_at := now E\<rparr>)"
proof -
  from m obtain n where "update_steps
             (\<lambda>s. s_id s = k \<and> in_operation oid s \<and> s_status s = S_executing \<and> s_dispatched_at s = None)
             (\<lambda>s. s\<lparr>s_status := S_definitive_failed, s_detail := Some (boundedCompleteSanitizedJson v 8000),
                    s_settled_at := Some (now E), s_updated_at := now E\<rparr>) d = (d', n)" "n = 1"
    by (auto simp: cancelOperationStepBeforeDispatch_def Let_def split: prod.splits)
  from update_steps_one [OF ok this] show ?thesis by (auto intro: that)
qed

lemma dispatch_refused:
  assumes ok: "store_ok d" and s: "dispatch_spent k d"
  shows "markOperationStepDispatched E k oid d = (d, False)"
    and "cancelOperationStepBeforeDispatch E k v oid d = (d, False)"
proof -
  from s obtain t where t: "sel s_id k (steps d) = Some t" "s_dispatched_at t \<noteq> None \<or> s_status t = S_definitive_failed"
    by (auto simp: dispatch_spent_def split: option.splits)
  have none: "filter (\<lambda>s. s_id s = k \<and> in_operation oid s \<and> s_status s = S_executing \<and> s_dispatched_at s = None) (steps d) = []"
    using filter_key_sel [OF store_ok_distinct(3) [OF ok], of k
        "\<lambda>s. in_operation oid s \<and> s_status s = S_executing \<and> s_dispatched_at s = None"] t by auto
  then have "\<And>s. s \<in> set (steps d) \<Longrightarrow>
      \<not> (s_id s = k \<and> in_operation oid s \<and> s_status s = S_executing \<and> s_dispatched_at s = None)"
    by (simp add: filter_empty_conv)
  from upd_where_none [of "steps d", OF this] none
  show "markOperationStepDispatched E k oid d = (d, False)"
    and "cancelOperationStepBeforeDispatch E k v oid d = (d, False)"
    by (simp_all add: markOperationStepDispatched_def cancelOperationStepBeforeDispatch_def update_steps_def Let_def)
qed

lemma dispatch_spent_later:
  assumes "good_step d d'" "dispatch_spent k d"
  shows "dispatch_spent k d'"
proof -
  from assms(2) obtain s where s: "sel s_id k (steps d) = Some s"
    "s_dispatched_at s \<noteq> None \<or> s_status s = S_definitive_failed"
    by (auto simp: dispatch_spent_def split: option.splits)
  from assms(1) have "follows step_move (steps d) (steps d')"
    by (simp add: good_step_def db_follows_def)
  from step_lc.follows_sel [OF this s(1)] obtain s' where
    "sel s_id k (steps d') = Some s'" "step_move s s'" by blast
  with s(2) show ?thesis by (auto simp: dispatch_spent_def step_move_def)
qed

interpretation dispatch_claim: one_use store_ok good_step dispatch_or_cancel dispatch_spent
proof
  fix d d' k
  assume ok: "store_ok d"
  show "good_step d d'" if "dispatch_or_cancel k d d'"
    using that markOperationStepDispatched_good [OF ok] cancelOperationStepBeforeDispatch_good [OF ok]
    by (metis dispatch_or_cancel_def dispatches_step_def cancels_step_def fst_conv)
  show "dispatch_spent k d'" if "dispatch_or_cancel k d d'"
    using that unfolding dispatch_or_cancel_def dispatches_step_def cancels_step_def
    by (auto simp: dispatch_spent_def elim!: markOperationStepDispatched_effect [OF ok]
        cancelOperationStepBeforeDispatch_effect [OF ok])
  show "\<not> dispatch_or_cancel k d d'" if "dispatch_spent k d"
    using dispatch_refused [OF ok that]
    by (auto simp: dispatch_or_cancel_def dispatches_step_def cancels_step_def)
qed (auto intro: dispatch_spent_later simp: good_step_def)

section \<open>The persisted plan bounds the journal\<close>

lemma plan_step_descriptors_ids:
  "plan_step_descriptors ids vs = Some ps \<Longrightarrow>
     length ps = length vs \<and> distinct (map pd_id ps) \<and> set (map pd_id ps) \<inter> set ids = {}
     \<and> (\<forall>p\<in>set ps. pd_id p \<noteq> [])"
proof (induction ids vs arbitrary: ps rule: plan_step_descriptors.induct)
  case (2 ids v vs)
  from 2(2) obtain p qs where p: "plan_step_descriptor ids v = Some p"
    and qs: "plan_step_descriptors (ids @ [pd_id p]) vs = Some qs" and ps: "ps = p # qs"
    by (auto split: option.splits)
  have "pd_id p \<noteq> []" "pd_id p \<notin> set ids"
    using p by (auto simp: plan_step_descriptor_def split: if_splits option.splits jsv.splits)
  with 2(1) [OF p qs] ps show ?case by auto
qed simp

lemma mutationPlanDescriptors_bounds:
  assumes "mutationPlanDescriptors plan = Some ps"
  shows "1 \<le> length ps" "int (length ps) \<le> HOST_CALL_BUDGET_MAXIMUM" "distinct (map pd_id ps)"
    "getp ''mode'' plan = JStr ''single'' \<longrightarrow> length ps = 1"
proof -
  from assms obtain m xs where f: "getp ''maxHostCalls'' plan = JNum m" "getp ''steps'' plan = JArr xs"
    by (auto simp: mutationPlanDescriptors_def split: if_splits jsv.splits)
  from assms have "plan_step_descriptors [] xs = Some ps" "xs \<noteq> []"
    "m \<le> HOST_CALL_BUDGET_MAXIMUM" "int (length xs) \<le> m"
    "getp ''mode'' plan = JStr ''single'' \<longrightarrow> length xs = 1"
    unfolding mutationPlanDescriptors_def f by (auto split: if_splits)
  with plan_step_descriptors_ids [of "[]" xs ps]
  show "1 \<le> length ps" "int (length ps) \<le> HOST_CALL_BUDGET_MAXIMUM" "distinct (map pd_id ps)"
    "getp ''mode'' plan = JStr ''single'' \<longrightarrow> length ps = 1"
    by (auto simp: Suc_le_eq)
qed

lemma prepareCompensationStep_authorised:
  assumes "prepareCompensationStep E input d = Inr (d', k)"
  obtains source r ds p where "source \<in> set (steps d)" "s_kind source = Primary" "s_status source = S_succeeded"
    "Some (s_id source) = ps_compensatesStepId input" "s_operation_id source = ps_operationId input"
    "sel o_id (ps_operationId input) (runs d) = Some r"
    "persistedPlanDescriptors (o_operation r) = Some ds"
    "descriptor_at ds (ps_index input) = Some p" "pd_id p = ps_planStepId input" "pd_kind p = Compensation"
    "matchesPersistedDescriptor ds source Primary" "\<not> compensation_used input d"
proof -
  from assms obtain source r where
    f: "find (\<lambda>s. Some (s_id s) = ps_compensatesStepId input \<and> s_operation_id s = ps_operationId input
                    \<and> s_kind s = Primary) (steps d) = Some source"
    and r: "sel o_id (s_operation_id source) (runs d) = Some r"
    and e: "compensation_eligible input source r d"
    by (auto simp: prepareCompensationStep_def split: option.splits if_splits)
  from f have source: "source \<in> set (steps d)" "s_kind source = Primary"
    "Some (s_id source) = ps_compensatesStepId input" "s_operation_id source = ps_operationId input" by (auto simp: find_Some_iff)
  from e obtain ds where ds: "persistedPlanDescriptors (o_operation r) = Some ds"
    "matchesPersistedDescriptor ds source Primary" "compensation_bound ds input"
    "\<not> compensation_used input d" "s_status source = S_succeeded"
    by (auto simp: compensation_eligible_def split: option.splits)
  from ds(3) obtain p where "descriptor_at ds (ps_index input) = Some p" "pd_id p = ps_planStepId input"
    "pd_kind p = Compensation"
    by (auto simp: compensation_bound_def split: option.splits)
  with source r ds show ?thesis by (intro that) simp_all
qed

end
