(* ===== verification/Batches.thy ===== *)
theory Batches
  imports Journal
begin

text \<open>
  Confirmation batches (\<open>src/src/db/store/confirmation-batches.ts\<close>): an ordered tuple of
  previews confirmed by one button, its persistence, its progress, the cancellation of what was
  not dispatched, and the recovery of a batch that was executing when the process died.
\<close>

section \<open>The ordered tuple\<close>

fun canonicalJson_batch :: "jsv \<Rightarrow> string option"
  and canonical_batch_elements :: "jsv list \<Rightarrow> string list"
  and canonical_batch_members :: "(string \<times> jsv) list \<Rightarrow> (string \<times> string) list"
where
  "canonicalJson_batch (JArr xs) = Some (''['' @ join '','' (canonical_batch_elements xs) @ '']'')"
| "canonicalJson_batch (JObj es) =
     Some (''{'' @ join '','' (map (\<lambda>(k, t). json_string k @ '':'' @ t)
                              (sort_key fst (canonical_batch_members es))) @ ''}'')"
| "canonicalJson_batch v = stringify v"
| "canonical_batch_elements [] = []"
| "canonical_batch_elements (x # xs) =
     (case canonicalJson_batch x of None \<Rightarrow> [] | Some t \<Rightarrow> t) # canonical_batch_elements xs"
| "canonical_batch_members [] = []"
| "canonical_batch_members ((k, v) # es) =
     (k, case canonicalJson_batch v of None \<Rightarrow> ''undefined'' | Some t \<Rightarrow> t) # canonical_batch_members es"

record ConfirmationBatchItemInput =
  ii_confirmationId :: string
  ii_operationId :: string

definition tuple_value :: "ConfirmationBatchItemInput list \<Rightarrow> jsv" where
  "tuple_value is =
     JArr (map (\<lambda>i. JObj [(''confirmationId'', JStr (ii_confirmationId i)),
                          (''operationId'', JStr (ii_operationId i))]) is)"

definition computeOrderedTupleHash ::
  "(string \<Rightarrow> string) \<Rightarrow> ConfirmationBatchItemInput list \<Rightarrow> string" where
  "computeOrderedTupleHash sha256 is =
     sha256 (case canonicalJson_batch (tuple_value is) of None \<Rightarrow> [] | Some t \<Rightarrow> t)"

section \<open>Statements on the batch tables\<close>

definition active_batch :: "BatchRow \<Rightarrow> bool" where
  "active_batch b \<longleftrightarrow> b_status b = B_pending \<or> b_status b = B_executing"

text \<open>The partial unique index: one active batch per run.\<close>

definition one_active_per_run :: "BatchRow list \<Rightarrow> bool" where
  "one_active_per_run bs = distinct (map (\<lambda>b. (b_session_id b, b_run_id b)) (filter active_batch bs))"

text \<open>The composite foreign key from a batch or an item to its result.\<close>

definition result_in_scope :: "string option \<Rightarrow> string \<Rightarrow> string \<Rightarrow> string \<Rightarrow> db \<Rightarrow> bool" where
  "result_in_scope aid session ws admin d =
     (case aid of None \<Rightarrow> True
      | Some k \<Rightarrow> list_ex (\<lambda>a. a_id a = k \<and> a_session_id a = Some session \<and> a_workspace_id a = ws
                                \<and> a_admin_user_id a = admin) (results d))"

definition insert_batch :: "BatchRow \<Rightarrow> db \<Rightarrow> (string, db) result" where
  "insert_batch b d =
     (if b_id b \<in> b_id ` set (batches d) then Inl ''UNIQUE constraint failed: confirmation_batches.id''
      else if length (b_ordered_tuple_hash b) \<noteq> 64 then Inl ''CHECK constraint failed: ordered_tuple_hash''
      else if \<not> one_active_per_run (batches d @ [b]) then Inl ''UNIQUE constraint failed: one_active_per_run''
      else if \<not> list_ex (\<lambda>r. r_session_id r = b_session_id b \<and> r_run_id r = b_run_id b
                            \<and> r_workspace_id r = b_workspace_id b \<and> r_admin_user_id r = b_admin_user_id b)
                 (assistant_runs d)
      then Inl ''FOREIGN KEY constraint failed''
      else Inr (d\<lparr>batches := batches d @ [b]\<rparr>))"

definition update_batches :: "(BatchRow \<Rightarrow> bool) \<Rightarrow> (BatchRow \<Rightarrow> BatchRow) \<Rightarrow> nat tx" where
  "update_batches P f d =
     (let bs = upd_where P f (batches d); matched = filter P (batches d) in
      if \<not> list_all (\<lambda>b. 0 \<le> b_current_index (f b)) matched then Inl ''CHECK constraint failed: current_index''
      else if \<not> one_active_per_run bs then Inl ''UNIQUE constraint failed: one_active_per_run''
      else if \<not> list_all (\<lambda>b. result_in_scope (b_action_result_id (f b)) (b_session_id b) (b_workspace_id b)
                               (b_admin_user_id b) d) matched
      then Inl ''FOREIGN KEY constraint failed''
      else Inr (d\<lparr>batches := bs\<rparr>, length matched))"

definition insert_item :: "BatchItemRow \<Rightarrow> db \<Rightarrow> (string, db) result" where
  "insert_item i d =
     (if list_ex (\<lambda>x. (bi_batch_id x = bi_batch_id i \<and> bi_item_index x = bi_item_index i)
                     \<or> bi_confirmation_id x = bi_confirmation_id i \<or> bi_operation_id x = bi_operation_id i) (items d)
      then Inl ''UNIQUE constraint failed: confirmation_batch_items''
      else if \<not> list_ex (\<lambda>b. b_id b = bi_batch_id i \<and> b_session_id b = bi_session_id i
                            \<and> b_run_id b = bi_run_id i \<and> b_workspace_id b = bi_workspace_id i
                            \<and> b_admin_user_id b = bi_admin_user_id i) (batches d)
      then Inl ''FOREIGN KEY constraint failed''
      else if \<not> list_ex (\<lambda>c. c_id c = bi_confirmation_id i \<and> c_operation_id c = bi_operation_id i
                            \<and> c_session_id c = bi_session_id i \<and> c_run_id c = Some (bi_run_id i)
                            \<and> c_workspace_id c = bi_workspace_id i \<and> c_admin_user_id c = bi_admin_user_id i)
                 (confirmations d)
        \<or> \<not> list_ex (\<lambda>r. o_id r = bi_operation_id i \<and> o_session_id r = bi_session_id i
                        \<and> d_runId (o_disc r) = Some (bi_run_id i) \<and> o_workspace_id r = bi_workspace_id i
                        \<and> o_admin_user_id r = bi_admin_user_id i) (runs d)
      then Inl ''FOREIGN KEY constraint failed''
      else Inr (d\<lparr>items := items d @ [i]\<rparr>))"

definition update_items :: "(BatchItemRow \<Rightarrow> bool) \<Rightarrow> (BatchItemRow \<Rightarrow> BatchItemRow) \<Rightarrow> nat tx" where
  "update_items P f d =
     (let matched = filter P (items d) in
      if \<not> list_all (\<lambda>i. result_in_scope (bi_action_result_id (f i)) (bi_session_id i) (bi_workspace_id i)
                          (bi_admin_user_id i) d) matched
      then Inl ''FOREIGN KEY constraint failed''
      else Inr (d\<lparr>items := upd_where P f (items d)\<rparr>, length matched))"

section \<open>Creation and progress\<close>

record CreateConfirmationBatchInput =
  cb_id :: "string option"
  cb_sessionId :: string
  cb_runId :: string
  cb_workspaceId :: string
  cb_adminUserId :: string
  cb_orderedTupleHash :: string
  cb_expiresAt :: "int option"
  cb_items :: "ConfirmationBatchItemInput list"

definition insert_batch_item ::
  "CreateConfirmationBatchInput \<Rightarrow> string \<Rightarrow> nat \<times> ConfirmationBatchItemInput \<Rightarrow> db \<Rightarrow> (string, db) result" where
  "insert_batch_item input k e d =
     (case e of (n, i) \<Rightarrow>
        and_then (insert_item
          \<lparr>bi_batch_id = k, bi_item_index = int n, bi_session_id = cb_sessionId input, bi_run_id = cb_runId input,
           bi_workspace_id = cb_workspaceId input, bi_admin_user_id = cb_adminUserId input,
           bi_confirmation_id = ii_confirmationId i, bi_operation_id = ii_operationId i,
           bi_status = I_pending, bi_action_result_id = None, bi_started_at = None, bi_completed_at = None\<rparr> d) (\<lambda>d1.
        and_then (update_confirmation_batch k (ii_confirmationId i) d1) (\<lambda>d2.
          update_run_batch k (ii_operationId i) d2)))"

definition insertConfirmationBatchRows ::
  "(string \<Rightarrow> string) \<Rightarrow> CreateConfirmationBatchInput \<Rightarrow> string \<Rightarrow> int \<Rightarrow> BatchRow tx" where
  "insertConfirmationBatchRows sha256 input k t d =
     (if computeOrderedTupleHash sha256 (cb_items input) \<noteq> cb_orderedTupleHash input
      then Inl ''ordered_tuple_hash_mismatch''
      else
      let b = \<lparr>b_id = k, b_session_id = cb_sessionId input, b_run_id = cb_runId input,
               b_workspace_id = cb_workspaceId input, b_admin_user_id = cb_adminUserId input,
               b_ordered_tuple_hash = cb_orderedTupleHash input, b_status = B_pending, b_current_index = 0,
               b_action_result_id = None, b_expires_at = cb_expiresAt input, b_created_at = t,
               b_started_at = None, b_completed_at = None\<rparr> in
      and_then (insert_batch b d) (\<lambda>d1.
      and_then (fold_result (insert_batch_item input k) (List.enumerate 0 (cb_items input)) d1) (\<lambda>d2.
        Inr (d2, b))))"

definition createConfirmationBatch ::
  "(string \<Rightarrow> string) \<Rightarrow> env \<Rightarrow> CreateConfirmationBatchInput \<Rightarrow> BatchRow tx" where
  "createConfirmationBatch sha256 E input d =
     (case id_or_fresh E (cb_id input) d of (k, d1) \<Rightarrow>
        insertConfirmationBatchRows sha256 input k (now E) d1)"

text \<open>The same insertion inside a transaction of the caller.\<close>

definition insertConfirmationBatch ::
  "(string \<Rightarrow> string) \<Rightarrow> env \<Rightarrow> CreateConfirmationBatchInput \<Rightarrow> BatchRow tx" where
  "insertConfirmationBatch sha256 E input d =
     (case id_or_fresh E (cb_id input) d of (k, d1) \<Rightarrow>
        insertConfirmationBatchRows sha256 input k (now E) d1)"

definition getConfirmationBatch :: "string \<Rightarrow> db \<Rightarrow> BatchRow option" where
  "getConfirmationBatch k d = sel b_id k (batches d)"

definition getScopedConfirmationBatch :: "string \<Rightarrow> string \<Rightarrow> string \<Rightarrow> string \<Rightarrow> db \<Rightarrow> BatchRow option" where
  "getScopedConfirmationBatch k ws admin session d =
     find (\<lambda>b. b_id b = k \<and> b_workspace_id b = ws \<and> b_admin_user_id b = admin \<and> b_session_id b = session)
       (batches d)"

definition listConfirmationBatchItems :: "string \<Rightarrow> db \<Rightarrow> BatchItemRow list" where
  "listConfirmationBatchItems k d = sort_key bi_item_index (filter (\<lambda>i. bi_batch_id i = k) (items d))"

definition coalesce :: "'a option \<Rightarrow> 'a option \<Rightarrow> 'a option" where
  "coalesce x y = (case x of None \<Rightarrow> y | Some v \<Rightarrow> Some v)"

definition updateConfirmationBatchStatus ::
  "string \<Rightarrow> ConfirmationBatchStatus \<Rightarrow> int option \<Rightarrow> string option \<Rightarrow> int option \<Rightarrow> int option \<Rightarrow> bool tx" where
  "updateConfirmationBatchStatus k status currentIndex actionResultId startedAt completedAt d =
     and_then (update_batches (\<lambda>b. b_id b = k)
       (\<lambda>b. b\<lparr>b_status := status,
              b_current_index := (case currentIndex of None \<Rightarrow> b_current_index b | Some n \<Rightarrow> n),
              b_action_result_id := coalesce actionResultId (b_action_result_id b),
              b_started_at := coalesce startedAt (b_started_at b),
              b_completed_at := coalesce completedAt (b_completed_at b)\<rparr>) d) (\<lambda>(d1, n). Inr (d1, n = 1))"

definition updateConfirmationBatchItemStatus ::
  "string \<Rightarrow> int \<Rightarrow> ConfirmationBatchItemStatus \<Rightarrow> string option \<Rightarrow> int option \<Rightarrow> int option \<Rightarrow> bool tx" where
  "updateConfirmationBatchItemStatus k itemIndex status actionResultId startedAt completedAt d =
     and_then (update_items (\<lambda>i. bi_batch_id i = k \<and> bi_item_index i = itemIndex)
       (\<lambda>i. i\<lparr>bi_status := status,
              bi_action_result_id := coalesce actionResultId (bi_action_result_id i),
              bi_started_at := coalesce startedAt (bi_started_at i),
              bi_completed_at := coalesce completedAt (bi_completed_at i)\<rparr>) d) (\<lambda>(d1, n). Inr (d1, n = 1))"

definition markConfirmationBatchExecuting :: "env \<Rightarrow> string \<Rightarrow> bool tx" where
  "markConfirmationBatchExecuting E k d =
     and_then (update_batches (\<lambda>b. b_id b = k \<and> b_status b = B_pending)
       (\<lambda>b. b\<lparr>b_status := B_executing, b_started_at := coalesce (b_started_at b) (Some (now E))\<rparr>) d)
       (\<lambda>(d1, n). Inr (d1, n = 1))"

definition advanceConfirmationBatchProgress :: "string \<Rightarrow> int \<Rightarrow> bool tx" where
  "advanceConfirmationBatchProgress k nextIndex d =
     and_then (update_batches (\<lambda>b. b_id b = k \<and> b_status b = B_executing)
       (\<lambda>b. b\<lparr>b_current_index := nextIndex\<rparr>) d) (\<lambda>(d1, n). Inr (d1, n = 1))"

section \<open>Cancelling what was not dispatched\<close>

definition cancel_item :: "int \<Rightarrow> string \<Rightarrow> int \<Rightarrow> db \<Rightarrow> (string, db) result" where
  "cancel_item t k itemIndex d =
     and_then (update_items (\<lambda>i. bi_batch_id i = k \<and> bi_item_index i = itemIndex \<and> bi_status i = I_pending)
       (\<lambda>i. i\<lparr>bi_status := I_cancelled, bi_completed_at := Some t\<rparr>) d) (\<lambda>(d1, n). Inr d1)"

definition cancel_preview :: "env \<Rightarrow> int \<Rightarrow> string \<Rightarrow> db \<Rightarrow> (string, db) result" where
  "cancel_preview E t confirmationId d =
     and_then (update_confirmation_status E (\<lambda>c. c_id c = confirmationId \<and> c_status c = C_pending)
       (scrub_to C_cancelled t) d) (\<lambda>(d1, n). Inr d1)"

definition cancel_undispatched_item :: "env \<Rightarrow> string \<Rightarrow> int \<Rightarrow> BatchItemRow \<Rightarrow> db \<Rightarrow> (string, db) result" where
  "cancel_undispatched_item E k t item d =
     and_then (cancel_item t k (bi_item_index item) d) (\<lambda>d1.
     and_then (cancel_preview E t (bi_confirmation_id item) d1) (\<lambda>d2.
       Inr (fst (update_run_status (\<lambda>r. o_id r = bi_operation_id item \<and> o_status r = O_prepared)
                  (\<lambda>r. r\<lparr>o_status := O_definitive_failed, o_updated_at := t\<rparr>) d2))))"

definition cancelUndispatchedBatchItems :: "env \<Rightarrow> string \<Rightarrow> int \<Rightarrow> int \<Rightarrow> nat tx" where
  "cancelUndispatchedBatchItems E k fromIndex t d =
     (let pending = sort_key bi_item_index
            (filter (\<lambda>i. bi_batch_id i = k \<and> fromIndex \<le> bi_item_index i \<and> bi_status i = I_pending) (items d)) in
      and_then (fold_result (cancel_undispatched_item E k t) pending d) (\<lambda>d1. Inr (d1, length pending)))"

section \<open>Recovery of one batch\<close>

definition operationWasDispatched :: "string \<Rightarrow> db \<Rightarrow> bool" where
  "operationWasDispatched oid d =
     list_ex (\<lambda>s. s_operation_id s = oid \<and> s_dispatched_at s \<noteq> None) (steps d)"

definition batch_restart_result :: jsv where
  "batch_restart_result =
     JObj [(''kind'', JStr ''receipt''),
           (''receipt'', JObj
              [(''ok'', JBool False), (''action'', JStr ''unknown_action''),
               (''code'', JStr ''operation_cancelled_before_dispatch''),
               (''message'', JStr ''The server restarted before this queued action reached Clockify. No change was made.''),
               (''recovery'', JObj [(''hint'', JStr ''Create a fresh request when the service is available.''),
                                    (''retryable'', JBool False)])])]"

text \<open>A dispatched item: the batch is unknown and every later pending item is cancelled.\<close>

definition recover_dispatched_item ::
  "env \<Rightarrow> string \<Rightarrow> int \<Rightarrow> BatchItemRow list \<Rightarrow> BatchItemRow \<Rightarrow> db \<Rightarrow> (string, db) result" where
  "recover_dispatched_item E k t rows item d =
     and_then (update_batches (\<lambda>b. b_id b = k)
       (\<lambda>b. b\<lparr>b_status := B_outcome_unknown, b_completed_at := coalesce (b_completed_at b) (Some t)\<rparr>) d) (\<lambda>(d1, n).
     fold_result (\<lambda>p e. and_then (cancel_item t k (bi_item_index p) e)
                          (\<lambda>e1. cancel_preview E t (bi_confirmation_id p) e1))
       (filter (\<lambda>p. bi_item_index item \<le> bi_item_index p \<and> bi_status p = I_pending) rows) d1)"

text \<open>An executing item that was never dispatched: it fails definitively.\<close>

definition recover_undispatched_item :: "env \<Rightarrow> string \<Rightarrow> int \<Rightarrow> BatchItemRow \<Rightarrow> db \<Rightarrow> (string, db) result" where
  "recover_undispatched_item E k t item d =
     (case fresh_id E d of (aid, d0) \<Rightarrow>
      and_then (canonical_summary aid batch_restart_result) (\<lambda>summary.
      and_then (insert_result
          \<lparr>a_id = aid, a_operation_id = Some (bi_operation_id item), a_workspace_id = bi_workspace_id item,
           a_admin_user_id = bi_admin_user_id item, a_session_id = Some (bi_session_id item),
           a_action_name = ''unknown_action'', a_kind = R_definitive_failed,
           a_result = batch_restart_result, a_summary = summary, a_created_at = t\<rparr> d0) (\<lambda>d1.
      and_then (update_items (\<lambda>i. bi_batch_id i = k \<and> bi_item_index i = bi_item_index item \<and> bi_status i = I_executing)
          (\<lambda>i. i\<lparr>bi_status := I_definitive_failed, bi_action_result_id := Some aid, bi_completed_at := Some t\<rparr>) d1) (\<lambda>(d2, n2).
      and_then (update_confirmation_status E (\<lambda>c. c_id c = bi_confirmation_id item \<and> c_status c = C_executing)
          (\<lambda>c. c\<lparr>c_status := C_definitive_failed, c_action_result_id := Some aid, c_result_summary := Some summary,
                 c_nonce_hash := [], c_operation := None, c_agent_state := None, c_idempotency_key := None,
                 c_used_at := Some t\<rparr>) d2) (\<lambda>(d3, n3).
        Inr (fst (update_run_status (\<lambda>r. o_id r = bi_operation_id item \<and> o_status r = O_executing)
               (\<lambda>r. r\<lparr>o_status := O_definitive_failed, o_action_result_id := Some aid, o_updated_at := t\<rparr>) d3)))))))"

text \<open>The loop over the executing items, which returns at the first dispatched one.\<close>

fun recover_items ::
  "env \<Rightarrow> string \<Rightarrow> int \<Rightarrow> BatchItemRow list \<Rightarrow> BatchItemRow list \<Rightarrow> db \<Rightarrow> (string, db) result" where
  "recover_items E k t rows [] d = Inr d"
| "recover_items E k t rows (item # rest) d =
     (if operationWasDispatched (bi_operation_id item) d then recover_dispatched_item E k t rows item d
      else and_then (recover_undispatched_item E k t item d) (recover_items E k t rows rest))"

definition recoverConfirmationBatch :: "env \<Rightarrow> string \<Rightarrow> int \<Rightarrow> db \<Rightarrow> (string, db) result" where
  "recoverConfirmationBatch E k t d =
     (case sel b_id k (batches d) of
        None \<Rightarrow> Inr d
      | Some b \<Rightarrow>
          if b_status b \<noteq> B_executing then Inr d
          else
          let rows = listConfirmationBatchItems k d in
          if b_current_index b = 0 \<and> filter (\<lambda>i. bi_status i \<noteq> I_pending) rows = []
          then (case b_expires_at b of
                  None \<Rightarrow> Inr d
                | Some e \<Rightarrow>
                    if t < e
                    then and_then (update_batches (\<lambda>x. b_id x = k \<and> b_status x = B_executing)
                           (\<lambda>x. x\<lparr>b_status := B_pending, b_started_at := None\<rparr>) d) (\<lambda>(d1, n). Inr d1)
                    else Inr d)
          else recover_items E k t rows (filter (\<lambda>i. bi_status i = I_executing) rows) d)"


section \<open>Every batch operation keeps the store well formed\<close>

lemma update_batches_core: "update_batches P f d = Inr (d', n) \<Longrightarrow> core_same d d'"
  by (auto simp: update_batches_def Let_def core_same_def split: if_splits)

lemma insert_batch_core: "insert_batch b d = Inr d' \<Longrightarrow> core_same d d'"
  by (auto simp: insert_batch_def core_same_def split: if_splits)

lemma update_items_core: "update_items P f d = Inr (d', n) \<Longrightarrow> core_same d d'"
  by (auto simp: update_items_def Let_def core_same_def split: if_splits)

lemma insert_item_core: "insert_item i d = Inr d' \<Longrightarrow> core_same d d'"
  by (auto simp: insert_item_def core_same_def split: if_splits)

lemma update_confirmation_batch_good:
  assumes "store_ok d" "update_confirmation_batch b k d = Inr d'"
  shows "good_step d d'"
proof -
  have "d' = d\<lparr>confirmations := upd_where (\<lambda>c. c_id c = k) (\<lambda>c. c\<lparr>c_batch_id := Some b\<rparr>) (confirmations d)\<rparr>"
    using assms(2) by (auto simp: update_confirmation_batch_def Let_def split: if_splits)
  then show ?thesis
    using update_confirmations_good [OF assms(1), of "\<lambda>c. c_id c = k" "\<lambda>c. c\<lparr>c_batch_id := Some b\<rparr>"] assms(1)
    by (simp add: confirmation_move_def payload_ok_bookkeeping store_ok_def)
qed

lemma update_run_batch_good:
  assumes "store_ok d" "update_run_batch b k d = Inr d'"
  shows "good_step d d'"
proof -
  have "d' = fst (update_run_plain (\<lambda>r. o_id r = k)
      (\<lambda>r. r\<lparr>o_disc := (o_disc r)\<lparr>d_batchId := Some b\<rparr>\<rparr>) d)"
    using assms(2) by (auto simp: update_run_batch_def update_run_plain_def Let_def split: if_splits)
  then show ?thesis
    by (simp only:) (rule update_run_plain_good [OF assms(1)], simp add: run_move_def envelope_erased_def)
qed

lemma insert_batch_item_good:
  assumes ok: "store_ok d" and i: "insert_batch_item input k e d = Inr d'"
  shows "good_step d d'"
proof -
  obtain n x where e: "e = (n, x)" by (cases e)
  from i e obtain r d1 d2 where 1: "insert_item r d = Inr d1"
    and 2: "update_confirmation_batch k (ii_confirmationId x) d1 = Inr d2"
    and 3: "update_run_batch k (ii_operationId x) d2 = Inr d'"
    by (auto simp: insert_batch_item_def)
  have g1: "good_step d d1" by (rule core_same_good [OF ok insert_item_core [OF 1]])
  have g2: "good_step d1 d2" by (rule update_confirmation_batch_good [OF good_step_ok [OF g1] 2])
  have g3: "good_step d2 d'" by (rule update_run_batch_good [OF good_step_ok [OF g2] 3])
  from g1 g2 g3 show ?thesis by (meson good_step_trans)
qed

lemma fold_result_good:
  assumes "store_ok d" "fold_result f xs d = Inr d'"
    and "\<And>x e e'. x \<in> set xs \<Longrightarrow> store_ok e \<Longrightarrow> f x e = Inr e' \<Longrightarrow> good_step e e'"
  shows "good_step d d'"
proof (rule fold_result_invariant [OF _ _ assms(2), of "good_step d"])
  show "good_step d d" by (rule good_step_refl [OF assms(1)])
next
  fix x e e'
  assume "x \<in> set xs" "good_step d e" "f x e = Inr e'"
  then show "good_step d e'" using assms(3) good_step_trans good_step_ok by blast
qed

lemma createConfirmationBatch_good [step_invariants]:
  assumes ok: "store_ok d" and c: "createConfirmationBatch sha256 E input d = Inr (d', b)"
  shows "good_step d d'"
proof -
  obtain k d0 where f: "id_or_fresh E (cb_id input) d = (k, d0)" by fastforce
  from c f obtain r d1 where 1: "insert_batch r d0 = Inr d1"
    and 2: "fold_result (insert_batch_item input k) (List.enumerate 0 (cb_items input)) d1 = Inr d'"
    by (auto simp: createConfirmationBatch_def insertConfirmationBatchRows_def Let_def split: if_splits)
  have g0: "good_step d d0" by (rule core_same_good [OF ok id_or_fresh_core [OF f]])
  have g1: "good_step d0 d1" by (rule core_same_good [OF good_step_ok [OF g0] insert_batch_core [OF 1]])
  have g2: "good_step d1 d'"
    by (rule fold_result_good [OF good_step_ok [OF g1] 2]) (rule insert_batch_item_good)
  from g0 g1 g2 show ?thesis by (meson good_step_trans)
qed

lemma insertConfirmationBatch_good [step_invariants]:
  "store_ok d \<Longrightarrow> insertConfirmationBatch sha256 E input d = Inr (d', b) \<Longrightarrow> good_step d d'"
  using createConfirmationBatch_good by (simp add: insertConfirmationBatch_def createConfirmationBatch_def)

lemma updateConfirmationBatchStatus_good [step_invariants]:
  "store_ok d \<Longrightarrow> updateConfirmationBatchStatus k s x y z w d = Inr (d', b) \<Longrightarrow> good_step d d'"
  by (auto simp: updateConfirmationBatchStatus_def intro: core_same_good update_batches_core)

lemma updateConfirmationBatchItemStatus_good [step_invariants]:
  "store_ok d \<Longrightarrow> updateConfirmationBatchItemStatus k j s x y z d = Inr (d', b) \<Longrightarrow> good_step d d'"
  by (auto simp: updateConfirmationBatchItemStatus_def intro: core_same_good update_items_core)

lemma markConfirmationBatchExecuting_good [step_invariants]:
  "store_ok d \<Longrightarrow> markConfirmationBatchExecuting E k d = Inr (d', b) \<Longrightarrow> good_step d d'"
  by (auto simp: markConfirmationBatchExecuting_def intro: core_same_good update_batches_core)

lemma advanceConfirmationBatchProgress_good [step_invariants]:
  "store_ok d \<Longrightarrow> advanceConfirmationBatchProgress k n d = Inr (d', b) \<Longrightarrow> good_step d d'"
  by (auto simp: advanceConfirmationBatchProgress_def intro: core_same_good update_batches_core)

lemma cancel_item_good: "store_ok d \<Longrightarrow> cancel_item t k j d = Inr d' \<Longrightarrow> good_step d d'"
  by (auto simp: cancel_item_def intro: core_same_good update_items_core)

lemma cancel_preview_good: "store_ok d \<Longrightarrow> cancel_preview E t k d = Inr d' \<Longrightarrow> good_step d d'"
  by (auto simp: cancel_preview_def intro!: update_confirmation_status_good intro: scrub_to_move)

lemma cancel_undispatched_item_good:
  assumes ok: "store_ok d" and c: "cancel_undispatched_item E k t item d = Inr d'"
  shows "good_step d d'"
proof -
  from c obtain d1 d2 where 1: "cancel_item t k (bi_item_index item) d = Inr d1"
    and 2: "cancel_preview E t (bi_confirmation_id item) d1 = Inr d2"
    and 3: "d' = fst (update_run_status (\<lambda>r. o_id r = bi_operation_id item \<and> o_status r = O_prepared)
                  (\<lambda>r. r\<lparr>o_status := O_definitive_failed, o_updated_at := t\<rparr>) d2)"
    by (auto simp: cancel_undispatched_item_def)
  have g1: "good_step d d1" by (rule cancel_item_good [OF ok 1])
  have g2: "good_step d1 d2" by (rule cancel_preview_good [OF good_step_ok [OF g1] 2])
  have g3: "good_step d2 d'" unfolding 3
    by (rule update_run_status_good [OF good_step_ok [OF g2]]) (simp add: run_move_def)
  from g1 g2 g3 show ?thesis by (meson good_step_trans)
qed

lemma cancelUndispatchedBatchItems_good [step_invariants]:
  "store_ok d \<Longrightarrow> cancelUndispatchedBatchItems E k j t d = Inr (d', n) \<Longrightarrow> good_step d d'"
  by (auto simp: cancelUndispatchedBatchItems_def Let_def intro: fold_result_good cancel_undispatched_item_good)

lemma recover_dispatched_item_good:
  assumes ok: "store_ok d" and c: "recover_dispatched_item E k t rows item d = Inr d'"
  shows "good_step d d'"
proof -
  from c obtain f n d1 where 1: "update_batches (\<lambda>b. b_id b = k) f d = Inr (d1, n)"
    and 2: "fold_result (\<lambda>p e. and_then (cancel_item t k (bi_item_index p) e)
                          (\<lambda>e1. cancel_preview E t (bi_confirmation_id p) e1))
       (filter (\<lambda>p. bi_item_index item \<le> bi_item_index p \<and> bi_status p = I_pending) rows) d1 = Inr d'"
    by (auto simp: recover_dispatched_item_def)
  have g1: "good_step d d1" by (rule core_same_good [OF ok update_batches_core [OF 1]])
  have g2: "good_step d1 d'"
    by (rule fold_result_good [OF good_step_ok [OF g1] 2])
      (clarsimp, meson good_step_trans cancel_item_good cancel_preview_good good_step_ok)
  from g1 g2 show ?thesis by (rule good_step_trans)
qed

lemma recover_undispatched_item_good:
  assumes ok: "store_ok d" and c: "recover_undispatched_item E k t item d = Inr d'"
  shows "good_step d d'"
proof -
  obtain aid d0 where f: "fresh_id E d = (aid, d0)" by fastforce
  from c f obtain summary a d1 d2 n2 d3 n3 where 1: "insert_result a d0 = Inr d1"
    and 2: "update_items (\<lambda>i. bi_batch_id i = k \<and> bi_item_index i = bi_item_index item \<and> bi_status i = I_executing)
          (\<lambda>i. i\<lparr>bi_status := I_definitive_failed, bi_action_result_id := Some aid, bi_completed_at := Some t\<rparr>) d1
          = Inr (d2, n2)"
    and 3: "update_confirmation_status E (\<lambda>c. c_id c = bi_confirmation_id item \<and> c_status c = C_executing)
          (\<lambda>c. c\<lparr>c_status := C_definitive_failed, c_action_result_id := Some aid, c_result_summary := Some summary,
                 c_nonce_hash := [], c_operation := None, c_agent_state := None, c_idempotency_key := None,
                 c_used_at := Some t\<rparr>) d2 = Inr (d3, n3)"
    and 4: "d' = fst (update_run_status (\<lambda>r. o_id r = bi_operation_id item \<and> o_status r = O_executing)
               (\<lambda>r. r\<lparr>o_status := O_definitive_failed, o_action_result_id := Some aid, o_updated_at := t\<rparr>) d3)"
    by (auto simp: recover_undispatched_item_def)
  have g0: "good_step d d0" by (rule core_same_good [OF ok fresh_id_core [OF f]])
  have g1: "good_step d0 d1" by (rule insert_result_good [OF good_step_ok [OF g0] 1])
  have g2: "good_step d1 d2" by (rule core_same_good [OF good_step_ok [OF g1] update_items_core [OF 2]])
  have g3: "good_step d2 d3"
    by (rule update_confirmation_status_good [OF 3 good_step_ok [OF g2]]) (auto simp: confirmation_move_def)
  have g4: "good_step d3 d'" unfolding 4
    by (rule update_run_status_good [OF good_step_ok [OF g3]]) (auto simp: run_move_def)
  from g0 g1 g2 g3 g4 show ?thesis by (meson good_step_trans)
qed

lemma recover_items_good:
  "store_ok d \<Longrightarrow> recover_items E k t rows is d = Inr d' \<Longrightarrow> good_step d d'"
proof (induction "is" arbitrary: d)
  case Nil
  then show ?case by (simp add: good_step_refl)
next
  case (Cons i "is")
  then show ?case
    by (auto split: if_splits intro: recover_dispatched_item_good
        dest!: recover_undispatched_item_good [OF Cons.prems(1)] intro: good_step_trans good_step_ok)
qed

lemma recoverConfirmationBatch_good [step_invariants]:
  assumes "store_ok d" "recoverConfirmationBatch E k t d = Inr d'"
  shows "good_step d d'"
  using assms
  by (auto simp: recoverConfirmationBatch_def Let_def good_step_refl split: option.splits if_splits
      intro: core_same_good update_batches_core recover_items_good)

section \<open>The batch claim\<close>

definition claims_batch :: "string \<Rightarrow> db \<Rightarrow> db \<Rightarrow> bool" where
  "claims_batch k d d' \<longleftrightarrow> (\<exists>E. markConfirmationBatchExecuting E k d = Inr (d', True))"

lemma markConfirmationBatchExecuting_effect:
  assumes d: "distinct (map b_id (batches d))" and m: "markConfirmationBatchExecuting E k d = Inr (d', True)"
  obtains b b' where "sel b_id k (batches d) = Some b" "b_status b = B_pending"
    "sel b_id k (batches d') = Some b'" "b_status b' = B_executing"
proof -
  let ?f = "\<lambda>b. b\<lparr>b_status := B_executing, b_started_at := coalesce (b_started_at b) (Some (now E))\<rparr>"
  let ?P = "\<lambda>b. b_id b = k \<and> b_status b = B_pending"
  have n: "length (filter ?P (batches d)) = 1" and d': "d' = d\<lparr>batches := upd_where ?P ?f (batches d)\<rparr>"
    using m by (auto simp: markConfirmationBatchExecuting_def update_batches_def Let_def split: if_splits)
  from n obtain b where b: "sel b_id k (batches d) = Some b" "b_status b = B_pending"
    unfolding filter_key_sel [OF d, of k "\<lambda>b. b_status b = B_pending"] by (auto split: option.splits if_splits)
  moreover have "sel b_id k (batches d') = Some (?f b)"
    unfolding d' using b sel_SomeD [OF b(1)] by (simp, subst sel_upd_where) auto
  ultimately show ?thesis by (intro that [of b "?f b"]) auto
qed

lemma markConfirmationBatchExecuting_refused:
  assumes d: "distinct (map b_id (batches d))" and b: "sel b_id k (batches d) = Some b" "b_status b \<noteq> B_pending"
    and m: "markConfirmationBatchExecuting E k d = Inr (d', r)"
  shows "\<not> r \<and> d' = d"
proof -
  let ?f = "\<lambda>b. b\<lparr>b_status := B_executing, b_started_at := coalesce (b_started_at b) (Some (now E))\<rparr>"
  let ?P = "\<lambda>b. b_id b = k \<and> b_status b = B_pending"
  have none: "filter ?P (batches d) = []"
    using b by (simp add: filter_key_sel [OF d])
  then have "upd_where ?P ?f (batches d) = batches d"
    by (intro upd_where_none) (auto simp: filter_empty_conv)
  with m none show ?thesis
    by (auto simp: markConfirmationBatchExecuting_def update_batches_def Let_def split: if_splits)
qed

section \<open>Recovery of a claimed but undispatched item\<close>

text \<open>
  The item's operation already owns the result that the claim wrote, so the insert of a second
  result for the same operation violates the unique index and the recovery aborts.
\<close>

lemma recover_undispatched_claimed_aborts:
  assumes owned: "Some (bi_operation_id item) \<in> a_operation_id ` set (results d)"
  shows "\<exists>e. recover_undispatched_item E k t item d = Inl e"
proof -
  obtain aid d0 where f: "fresh_id E d = (aid, d0)" by fastforce
  then have r: "results d0 = results d" by (auto simp: fresh_id_def)
  show ?thesis
  proof (cases "canonical_summary aid batch_restart_result")
    case (Inl e)
    with f show ?thesis by (simp add: recover_undispatched_item_def)
  next
    case (Inr summary)
    with f owned r show ?thesis
      by (auto simp: recover_undispatched_item_def insert_result_def)
  qed
qed

lemma recoverConfirmationBatch_claimed_aborts:
  assumes b: "sel b_id k (batches d) = Some b" "b_status b = B_executing"
    and i: "filter (\<lambda>i. bi_status i = I_executing) (listConfirmationBatchItems k d) = item # rest"
    and undispatched: "\<not> operationWasDispatched (bi_operation_id item) d"
    and owned: "Some (bi_operation_id item) \<in> a_operation_id ` set (results d)"
  shows "\<exists>e. recoverConfirmationBatch E k t d = Inl e"
proof -
  have "item \<in> set (filter (\<lambda>i. bi_status i = I_executing) (listConfirmationBatchItems k d))"
    by (simp only: i list.set_intros)
  then have "item \<in> set (listConfirmationBatchItems k d)" "bi_status item \<noteq> I_pending" by simp_all
  then have "filter (\<lambda>i. bi_status i \<noteq> I_pending) (listConfirmationBatchItems k d) \<noteq> []"
    by (auto simp only: filter_empty_conv)
  with recover_undispatched_claimed_aborts [OF owned, of E k t] b undispatched show ?thesis
    by (auto simp: recoverConfirmationBatch_def Let_def i)
qed

end
