(* ===== verification/Idempotency.thy ===== *)
theory Idempotency
  imports Confirmations
begin

text \<open>
  The idempotency ledger (\<open>src/src/db/store/idempotency.ts\<close>): a key is claimed by one caller,
  filled with the canonical result, replayed to later callers, and released or aged out.
\<close>

section \<open>The operations\<close>

definition is_ledger_key :: "string \<Rightarrow> string \<Rightarrow> string \<Rightarrow> IdempotencyRow \<Rightarrow> bool" where
  "is_ledger_key key ws admin i \<longleftrightarrow> i_key i = key \<and> i_workspace_id i = ws \<and> i_admin_user_id i = admin"

text \<open>The shape test on a stored canonical result; \<open>None\<close> is \<open>undefined\<close>.\<close>

definition commitResultFromCanonical :: "jsv \<Rightarrow> jsv option" where
  "commitResultFromCanonical v =
     (if \<not> is_object_like v then None
      else if getp ''kind'' v = JStr ''partial'' \<and> has_own ''receipt'' v
              \<and> getp ''ok'' (getp ''receipt'' v) = JBool True
      then Some v
      else let candidate = (if has_own ''receipt'' v then getp ''receipt'' v else v) in
           if is_object_like candidate \<and> getp ''ok'' candidate = JBool True then Some candidate else None)"

definition loadCommitResult :: "string \<Rightarrow> string \<Rightarrow> string \<Rightarrow> int option \<Rightarrow> db \<Rightarrow> jsv option" where
  "loadCommitResult key ws admin notBefore d =
     (case find (\<lambda>i. is_ledger_key key ws admin i \<and> i_action_result_id i \<noteq> None
                    \<and> (case notBefore of None \<Rightarrow> True
                       | Some t \<Rightarrow> (case i_committed_at i of None \<Rightarrow> False | Some c \<Rightarrow> t \<le> c))) (ledger d) of
        None \<Rightarrow> None
      | Some i \<Rightarrow>
          (case sel a_id (the (i_action_result_id i)) (results d) of
             None \<Rightarrow> None
           | Some a \<Rightarrow> commitResultFromCanonical (a_result a)))"

definition recordIdempotency ::
  "string \<Rightarrow> string \<Rightarrow> string \<Rightarrow> ActionResultRef \<Rightarrow> int \<Rightarrow> db \<Rightarrow> (string, db) result" where
  "recordIdempotency key ws admin ref t d =
     (if \<not> summary_fits (ref_summary ref) then Inl ''CHECK constraint failed: result_summary_json''
      else if list_ex (is_ledger_key key ws admin) (ledger d)
      then Inr (d\<lparr>ledger := upd_where (is_ledger_key key ws admin)
             (\<lambda>i. i\<lparr>i_action_result_id := Some (ref_id ref), i_result_summary := Some (ref_summary ref),
                    i_committed_at := Some t, i_claimed_at := Some t\<rparr>) (ledger d)\<rparr>)
      else Inr (d\<lparr>ledger := ledger d @
             [\<lparr>i_key = key, i_workspace_id = ws, i_admin_user_id = admin,
               i_action_result_id = Some (ref_id ref), i_result_summary = Some (ref_summary ref),
               i_committed_at = Some t, i_claimed_at = Some t\<rparr>]\<rparr>))"

definition lookupIdempotency :: "string \<Rightarrow> string \<Rightarrow> string \<Rightarrow> int \<Rightarrow> db \<Rightarrow> jsv option" where
  "lookupIdempotency key ws admin notBefore d =
     (case loadCommitResult key ws admin (Some notBefore) d of
        None \<Rightarrow> None
      | Some v \<Rightarrow> if \<not> has_own ''kind'' v \<and> getp ''ok'' v = JBool True then Some v else None)"

datatype ClaimState = won | replay | in_flight | stale_unknown

text \<open>The rows the claim deletes first: completed or claimed too long ago.\<close>

definition aged_out :: "int \<Rightarrow> IdempotencyRow \<Rightarrow> bool" where
  "aged_out notBefore i \<longleftrightarrow>
     (i_action_result_id i \<noteq> None \<and> (case i_committed_at i of None \<Rightarrow> False | Some t \<Rightarrow> t < notBefore))
     \<or> (i_action_result_id i = None \<and> (case i_claimed_at i of None \<Rightarrow> False | Some t \<Rightarrow> t < notBefore))"

text \<open>What the claim reports about a row that is already there.\<close>

definition existing_claim :: "int \<Rightarrow> IdempotencyRow \<Rightarrow> db \<Rightarrow> ClaimState" where
  "existing_claim claimNotBefore i d =
     (case i_action_result_id i of
        Some aid \<Rightarrow>
          (if map_option a_kind (sel a_id aid (results d)) = Some R_outcome_unknown then stale_unknown else replay)
      | None \<Rightarrow>
          (case i_claimed_at i of
             None \<Rightarrow> (if 0 < claimNotBefore then stale_unknown else in_flight)
           | Some t \<Rightarrow> if t < claimNotBefore then stale_unknown else in_flight))"

definition claimIdempotency ::
  "string \<Rightarrow> string \<Rightarrow> string \<Rightarrow> int \<Rightarrow> int \<Rightarrow> int \<Rightarrow> db \<Rightarrow> db \<times> ClaimState" where
  "claimIdempotency key ws admin claimedAt completedNotBefore claimNotBefore d =
     (let d1 = delete_ledger (\<lambda>i. is_ledger_key key ws admin i \<and> aged_out completedNotBefore i) d in
      case find (is_ledger_key key ws admin) (ledger d1) of
        None \<Rightarrow>
          (d1\<lparr>ledger := ledger d1 @
             [\<lparr>i_key = key, i_workspace_id = ws, i_admin_user_id = admin, i_action_result_id = None,
               i_result_summary = None, i_committed_at = None, i_claimed_at = Some claimedAt\<rparr>]\<rparr>, won)
      | Some i \<Rightarrow> (d1, existing_claim claimNotBefore i d1))"

definition claimIdempotencyReceipt :: "string \<Rightarrow> string \<Rightarrow> string \<Rightarrow> db \<Rightarrow> jsv option" where
  "claimIdempotencyReceipt key ws admin d = loadCommitResult key ws admin None d"

definition open_ledger_key :: "string \<Rightarrow> string \<Rightarrow> string \<Rightarrow> IdempotencyRow \<Rightarrow> bool" where
  "open_ledger_key key ws admin i \<longleftrightarrow> is_ledger_key key ws admin i \<and> i_action_result_id i = None"

definition fillIdempotency ::
  "string \<Rightarrow> string \<Rightarrow> string \<Rightarrow> ActionResultRef \<Rightarrow> int \<Rightarrow> db \<Rightarrow> (string, db) result" where
  "fillIdempotency key ws admin ref t d =
     and_then (update_ledger (open_ledger_key key ws admin)
       (\<lambda>i. i\<lparr>i_action_result_id := Some (ref_id ref), i_result_summary := Some (ref_summary ref),
              i_committed_at := Some t\<rparr>) d) (\<lambda>(d1, n). Inr d1)"

definition releaseIdempotency :: "string \<Rightarrow> string \<Rightarrow> string \<Rightarrow> db \<Rightarrow> db" where
  "releaseIdempotency key ws admin d = delete_ledger (open_ledger_key key ws admin) d"

definition touchIdempotencyClaim :: "string \<Rightarrow> string \<Rightarrow> string \<Rightarrow> int \<Rightarrow> db \<Rightarrow> db" where
  "touchIdempotencyClaim key ws admin t d =
     d\<lparr>ledger := upd_where (open_ledger_key key ws admin) (\<lambda>i. i\<lparr>i_claimed_at := Some t\<rparr>) (ledger d)\<rparr>"

section \<open>The ledger contract\<close>

definition ledger_key :: "IdempotencyRow \<Rightarrow> string \<times> string \<times> string" where
  "ledger_key i = (i_key i, i_workspace_id i, i_admin_user_id i)"

definition ledger_ok :: "db \<Rightarrow> bool" where
  "ledger_ok d \<longleftrightarrow> distinct (map ledger_key (ledger d))"

lemma is_ledger_key_iff: "is_ledger_key key ws admin i \<longleftrightarrow> ledger_key i = (key, ws, admin)"
  by (auto simp: is_ledger_key_def ledger_key_def)

lemma find_is_ledger_key: "find (is_ledger_key key ws admin) is = sel ledger_key (key, ws, admin) is"
  by (simp add: sel_def is_ledger_key_iff [abs_def])

lemma delete_ledger_ok: "ledger_ok d \<Longrightarrow> ledger_ok (delete_ledger P d)"
  by (simp add: ledger_ok_def delete_ledger_def distinct_map_filter)

lemma claimIdempotency_ok:
  assumes "ledger_ok d"
  shows "ledger_ok (fst (claimIdempotency key ws admin t c n d))"
proof -
  let ?d = "delete_ledger (\<lambda>i. is_ledger_key key ws admin i \<and> aged_out c i) d"
  have ok: "ledger_ok ?d" by (rule delete_ledger_ok [OF assms])
  show ?thesis
  proof (cases "find (is_ledger_key key ws admin) (ledger ?d)")
    case None
    then have "(key, ws, admin) \<notin> ledger_key ` set (ledger ?d)"
      by (simp add: find_is_ledger_key sel_None_iff)
    with None ok show ?thesis
      by (simp add: claimIdempotency_def Let_def ledger_ok_def) (simp add: ledger_key_def)
  next
    case (Some i)
    with ok show ?thesis by (simp add: claimIdempotency_def Let_def)
  qed
qed

lemma claim_won_iff:
  "snd (claimIdempotency key ws admin t c n d) = won \<longleftrightarrow>
     (\<forall>i\<in>set (ledger d). is_ledger_key key ws admin i \<longrightarrow> aged_out c i)"
proof -
  let ?d = "delete_ledger (\<lambda>i. is_ledger_key key ws admin i \<and> aged_out c i) d"
  have "find (is_ledger_key key ws admin) (ledger ?d) = None \<longleftrightarrow>
      (\<forall>i\<in>set (ledger d). is_ledger_key key ws admin i \<longrightarrow> aged_out c i)"
    by (auto simp: find_None_iff delete_ledger_def)
  moreover have "existing_claim n i e \<noteq> won" for i e
    by (simp add: existing_claim_def split: option.splits)
  ultimately show ?thesis
    by (auto simp: claimIdempotency_def Let_def split: option.splits)
qed

text \<open>
  While a claim is young enough not to be aged out, a second claim of the key does not win:
  it is told the work is in flight, or stale once past the claim horizon.
\<close>

lemma second_claim_waits:
  assumes ok: "ledger_ok d" and w: "claimIdempotency key ws admin t c n d = (d1, won)" and young: "c2 \<le> t"
  shows "claimIdempotency key ws admin t2 c2 n2 d1 = (d1, if t < n2 then stale_unknown else in_flight)"
proof -
  let ?d = "delete_ledger (\<lambda>i. is_ledger_key key ws admin i \<and> aged_out c i) d"
  let ?i = "\<lparr>i_key = key, i_workspace_id = ws, i_admin_user_id = admin, i_action_result_id = None,
               i_result_summary = None, i_committed_at = None, i_claimed_at = Some t\<rparr>"
  have none: "find (is_ledger_key key ws admin) (ledger ?d) = None"
  proof (rule ccontr)
    assume "find (is_ledger_key key ws admin) (ledger ?d) \<noteq> None"
    then obtain i where "find (is_ledger_key key ws admin) (ledger ?d) = Some i" by blast
    with w have "existing_claim n i ?d = won" by (auto simp: claimIdempotency_def Let_def)
    then show False by (simp add: existing_claim_def split: option.splits if_splits)
  qed
  then have d1: "d1 = ?d\<lparr>ledger := ledger ?d @ [?i]\<rparr>"
    using w by (simp add: claimIdempotency_def Let_def)
  have fresh: "(key, ws, admin) \<notin> ledger_key ` set (ledger ?d)"
    using none by (simp add: find_is_ledger_key sel_None_iff)
  have keep: "delete_ledger (\<lambda>i. is_ledger_key key ws admin i \<and> aged_out c2 i) d1 = d1"
  proof -
    have "filter (\<lambda>i. \<not> (is_ledger_key key ws admin i \<and> aged_out c2 i)) (ledger d1) = ledger d1"
      using fresh young by (intro filter_True) (auto simp: d1 is_ledger_key_iff aged_out_def image_iff)
    then show ?thesis by (simp add: delete_ledger_def)
  qed
  have "find (is_ledger_key key ws admin) (ledger d1) = Some ?i"
    using none by (simp add: d1 find_is_ledger_key sel_append sel_Cons ledger_key_def)
  then show ?thesis
    using keep by (simp add: claimIdempotency_def existing_claim_def)
qed

text \<open>A filled claim replays the stored result, and a released one is free again.\<close>

lemma fill_then_replay:
  assumes w: "find (is_ledger_key key ws admin) (ledger d) = Some i" and ok: "ledger_ok d"
    and open_row: "i_action_result_id i = None"
    and f: "fillIdempotency key ws admin ref t d = Inr d'"
    and a: "sel a_id (ref_id ref) (results d) = Some a"
  shows "claimIdempotencyReceipt key ws admin d' = commitResultFromCanonical (a_result a)"
proof -
  let ?f = "\<lambda>i. i\<lparr>i_action_result_id := Some (ref_id ref), i_result_summary := Some (ref_summary ref),
              i_committed_at := Some t\<rparr>"
  have d': "d' = d\<lparr>ledger := upd_where (open_ledger_key key ws admin) ?f (ledger d)\<rparr>"
    using f by (auto simp: fillIdempotency_def update_ledger_def Let_def split: if_splits)
  have s: "sel ledger_key (key, ws, admin) (ledger d) = Some i" using w by (simp add: find_is_ledger_key)
  have "sel ledger_key (key, ws, admin) (ledger d') = Some (?f i)"
    unfolding d' using s open_row sel_SomeD [OF s]
    by (simp, subst sel_upd_where) (auto simp: ledger_key_def open_ledger_key_def is_ledger_key_iff)
  moreover have "distinct (map ledger_key (ledger d'))"
    using ok by (simp add: d' ledger_ok_def map_key_upd_where ledger_key_def)
  ultimately have "find (\<lambda>i. ledger_key i = (key, ws, admin) \<and> i_action_result_id i \<noteq> None) (ledger d') = Some (?f i)"
    by (simp add: find_key_sel)
  then show ?thesis
    using a by (simp add: claimIdempotencyReceipt_def loadCommitResult_def is_ledger_key_iff d')
qed

end
