(* ===== verification/Reconciliation.thy ===== *)
theory Reconciliation
  imports Journal Idempotency Receipts
begin

text \<open>
  Startup reconciliation of an unknown outcome (\<open>listStartupReconciliationCandidates\<close> and
  \<open>settleStartupReconciliation\<close> of \<open>src/src/db/store/operation-runs.ts\<close>): only a step whose
  persisted plan, hashes and binding all agree with an authoritative read may be settled.
\<close>

section \<open>Candidates\<close>

definition completeStartupEvidence :: "jsv \<Rightarrow> (string, jsv) result" where
  "completeStartupEvidence v =
     (let safe = sanitizeCompleteJson v in
      if 65536 < jsonByteLength safe then Inl ''startup_evidence_too_large'' else Inr safe)"

definition plan_steps :: "jsv \<Rightarrow> jsv list" where
  "plan_steps plan = (case getp ''steps'' plan of JArr xs \<Rightarrow> xs | _ \<Rightarrow> [])"

record StartupReconciliationStep =
  st_id :: string
  st_planStepId :: string
  st_strategy :: string
  st_targetFingerprint :: "string option"
  st_evidence :: jsv

record StartupReconciliationOperation =
  so_run :: OperationRun
  so_operation :: jsv
  so_mutationPlan :: jsv
  so_targetSnapshots :: "jsv list"
  so_steps :: "StartupReconciliationStep list"

text \<open>The strategy of the plan step a journal row claims to be, if the two agree.\<close>

definition step_strategy :: "jsv \<Rightarrow> OperationStepRow \<Rightarrow> string option" where
  "step_strategy plan s =
     (case descriptor_at (plan_steps plan) (s_step_index s) of
        None \<Rightarrow> None
      | Some v \<Rightarrow>
          if is_object_like v \<and> getp ''id'' v = JStr (s_plan_step_id s) \<and> getp ''kind'' v = JStr ''primary''
          then (case getp ''reconciliationStrategy'' v of
                  JStr strategy \<Rightarrow> if strategy \<in> set RECONCILIATION_STRATEGIES then Some strategy else None
                | _ \<Rightarrow> None)
          else None)"

definition candidate_step ::
  "jsv \<Rightarrow> OperationStepRow \<Rightarrow> (string, StartupReconciliationStep list) result" where
  "candidate_step plan s =
     (case step_strategy plan s of
        None \<Rightarrow> Inr []
      | Some strategy \<Rightarrow>
          and_then (completeStartupEvidence (case s_detail s of None \<Rightarrow> JObj [] | Some v \<Rightarrow> v)) (\<lambda>evidence.
            Inr [\<lparr>st_id = s_id s, st_planStepId = s_plan_step_id s, st_strategy = strategy,
                  st_targetFingerprint = map_option (take 256) (keep_truthy (s_target_fingerprint s)),
                  st_evidence = evidence\<rparr>]))"

definition unknown_primary_steps :: "string \<Rightarrow> db \<Rightarrow> OperationStepRow list" where
  "unknown_primary_steps oid d =
     sort_key s_step_index
       (filter (\<lambda>s. s_operation_id s = oid \<and> s_kind s = Primary \<and> s_status s = S_outcome_unknown) (steps d))"

text \<open>The evidence of a run that is complete and bounded, or nothing when any part is not.\<close>

definition candidate_evidence :: "OperationRun \<Rightarrow> (jsv \<times> jsv \<times> jsv list) option" where
  "candidate_evidence run =
     (case (completeStartupEvidence (ru_operation run), completeStartupEvidence (ru_mutationPlan run)) of
        (Inr safeOperation, Inr safePlan) \<Rightarrow>
          (case getp ''targetSnapshots'' safeOperation of
             JArr xs \<Rightarrow>
               (case completeStartupEvidence (JArr xs) of
                  Inr (JArr ys) \<Rightarrow> Some (safeOperation, safePlan, ys)
                | _ \<Rightarrow> None)
           | _ \<Rightarrow> Some (safeOperation, safePlan, []))
      | _ \<Rightarrow> None)"

text \<open>The ids of the steps of the plan, as the listing collects them.\<close>

definition plan_ids :: "jsv \<Rightarrow> string list" where
  "plan_ids plan =
     concat (map (\<lambda>v. if is_object_like v then (case getp ''id'' v of JStr k \<Rightarrow> [k] | _ \<Rightarrow> []) else []) (plan_steps plan))"

definition candidate_run ::
  "(string \<Rightarrow> string) \<Rightarrow> db \<Rightarrow> OperationRunRow \<Rightarrow> (string, StartupReconciliationOperation list) result" where
  "candidate_run sha256 d r =
     (let run = toRun r; plan = ru_mutationPlan run in
      case hasValidPersistedOperationHash sha256 run of
        Inl e \<Rightarrow> Inl ''hash_failed''
      | Inr valid \<Rightarrow>
          if \<not> valid then Inr []
          else if mutationPlanDescriptors plan = None then Inr []
          else case candidate_evidence run of
                 None \<Rightarrow> Inr []
               | Some (safeOperation, safePlan, snapshots) \<Rightarrow>
                   if length (plan_ids plan) \<noteq> length (plan_steps plan) \<or> \<not> distinct (plan_ids plan) then Inr []
                   else and_then (sequence (map (candidate_step plan) (unknown_primary_steps (o_id r) d))) (\<lambda>ss.
                     if concat ss = [] then Inr []
                     else Inr [\<lparr>so_run = run, so_operation = safeOperation, so_mutationPlan = safePlan,
                                so_targetSnapshots = snapshots, so_steps = concat ss\<rparr>]))"

definition listStartupReconciliationCandidates ::
  "(string \<Rightarrow> string) \<Rightarrow> db \<Rightarrow> (string, StartupReconciliationOperation list) result" where
  "listStartupReconciliationCandidates sha256 d =
     and_then (sequence (map (candidate_run sha256 d)
        (sort_key o_created_at (sort_key o_id
           (filter (\<lambda>r. o_status r = O_outcome_unknown \<and> o_reconciled_at r = None) (runs d))))))
       (\<lambda>css. Inr (concat css))"

section \<open>Settlement\<close>

definition reconciled_receipt :: "bool \<Rightarrow> OperationRun \<Rightarrow> string option \<Rightarrow> string \<Rightarrow> jsv" where
  "reconciled_receipt fully run externalId planStepId =
     successReceipt
       \<lparr>si_action = ru_actionName run, si_entity = Some ''operation'',
        si_ids = Some [(''workspaceId'', Some (ru_workspaceId run)), (''operationId'', Some (ru_id run)),
                       (''externalId'', externalId)],
        si_data = JObj [(''reconciled'', JBool True), (''stepId'', JStr planStepId)],
        si_changed = None,
        si_warnings = Some [if fully
          then warning_json ''startup_reconciled'' ''The prior unknown mutation was verified from complete Clockify evidence.''
          else warning_json ''partial'' ''The dispatched step was reconciled, but later planned mutations were not dispatched.''],
        si_next = None\<rparr>"

definition reconciled_result :: "bool \<Rightarrow> jsv \<Rightarrow> jsv" where
  "reconciled_result fully receipt =
     (if fully then JObj [(''kind'', JStr ''receipt''), (''receipt'', receipt)]
      else JObj [(''kind'', JStr ''partial''), (''receipt'', receipt),
                 (''message'', JStr ''A prior mutation was verified, but the complete mutation plan did not finish.''),
                 (''recovery'', JObj [(''hint'', JStr ''Refresh Clockify and create a fresh preview for any remaining changes.''),
                                      (''retryable'', JBool False)])])"

definition binding_matches :: "OperationRun \<Rightarrow> OperationStepRow \<Rightarrow> jsv \<Rightarrow> bool" where
  "binding_matches run s result \<longleftrightarrow>
     (let binding = getp ''binding'' result in
      is_record result \<and> getp ''authoritative'' result = JBool True
      \<and> getp ''reason'' result = JStr ''authoritative_match'' \<and> is_record binding
      \<and> getp ''operationId'' binding = JStr (ru_id run) \<and> getp ''stepId'' binding = JStr (s_id s)
      \<and> getp ''planStepId'' binding = JStr (s_plan_step_id s)
      \<and> getp ''actionName'' binding = JStr (ru_actionName run)
      \<and> getp ''actionFingerprint'' binding = JStr (ru_actionFingerprint run)
      \<and> getp ''catalogHash'' binding = JStr (ru_catalogHash run))"

definition plan_drift :: "OperationRun \<Rightarrow> OperationStepRow \<Rightarrow> jsv \<Rightarrow> bool" where
  "plan_drift run s result \<longleftrightarrow>
     mutationPlanDescriptors (ru_mutationPlan run) = None
     \<or> (case descriptor_at (plan_steps (ru_mutationPlan run)) (s_step_index s) of
          None \<Rightarrow> True
        | Some v \<Rightarrow> getp ''id'' v \<noteq> JStr (s_plan_step_id s) \<or> getp ''kind'' v \<noteq> JStr ''primary''
            \<or> getp ''reconciliationStrategy'' v \<noteq> getp ''strategy'' (getp ''binding'' result))"

definition fully_applied :: "OperationRun \<Rightarrow> string \<Rightarrow> db \<Rightarrow> bool" where
  "fully_applied run stepId d \<longleftrightarrow>
     (let rows = filter (\<lambda>s. s_operation_id s = ru_id run \<and> s_kind s = Primary) (steps d) in
      length (filter (\<lambda>v. getp ''kind'' v = JStr ''primary'') (plan_steps (ru_mutationPlan run))) = length rows
      \<and> list_all (\<lambda>s. if s_id s = stepId then s_status s = S_outcome_unknown else s_status s = S_succeeded) rows)"

definition evidence_external_id :: "jsv \<Rightarrow> string option" where
  "evidence_external_id result =
     (case getp ''candidates'' (getp ''evidence'' result) of
        JArr [c] \<Rightarrow> if is_object_like c \<and> is_record (getp ''ref'' c)
                    then map_option (take 256) (as_string (getp ''id'' (getp ''ref'' c))) else None
      | _ \<Rightarrow> None)"

definition settle_reconciled_step ::
  "env \<Rightarrow> string \<Rightarrow> OperationStepRow \<Rightarrow> string option \<Rightarrow> jsv \<Rightarrow> db \<Rightarrow> (string, db) result" where
  "settle_reconciled_step E oid s externalId reconciliation d =
     (let detail = boundedCompleteSanitizedJson
            (JObj ((case s_detail s of None \<Rightarrow> [] | Some v \<Rightarrow> [(''preDispatch'', v)])
                   @ [(''startupReconciliation'', reconciliation)])) 65536 in
      case update_steps (\<lambda>x. s_id x = s_id s \<and> s_operation_id x = oid \<and> s_kind x = Primary
                              \<and> s_status x = S_outcome_unknown)
             (\<lambda>x. x\<lparr>s_status := S_succeeded,
                    s_external_id := (case externalId of None \<Rightarrow> s_external_id x | Some k \<Rightarrow> Some k),
                    s_detail := Some detail, s_settled_at := Some (now E), s_updated_at := now E\<rparr>) d of
        (d1, n) \<Rightarrow> if n \<noteq> 1 then Inl ''reconciliation_step_not_unknown'' else Inr d1)"

definition settle_reconciled_result ::
  "env \<Rightarrow> OperationRun \<Rightarrow> ActionResultKind \<Rightarrow> string \<Rightarrow> jsv \<Rightarrow> jsv \<Rightarrow> db \<Rightarrow> (string, db) result" where
  "settle_reconciled_result E run status aid body summary d =
     (if ru_actionResultId run \<noteq> None
      then and_then (update_results
             (\<lambda>a. a_id a = aid \<and> a_operation_id a = Some (ru_id run) \<and> a_workspace_id a = ru_workspaceId run
                  \<and> a_admin_user_id a = ru_adminUserId run \<and> a_session_id a = Some (ru_sessionId run))
             (\<lambda>a. a\<lparr>a_kind := status, a_result := body, a_summary := summary\<rparr>) d) (\<lambda>(d1, n).
           if n \<noteq> 1 then Inl ''reconciliation_result_not_found'' else Inr d1)
      else insert_result
             \<lparr>a_id = aid, a_operation_id = Some (ru_id run), a_workspace_id = ru_workspaceId run,
              a_admin_user_id = ru_adminUserId run, a_session_id = Some (ru_sessionId run),
              a_action_name = ru_actionName run, a_kind = status, a_result = body,
              a_summary = summary, a_created_at = now E\<rparr> d)"

definition settle_reconciled_confirmation ::
  "env \<Rightarrow> OperationRun \<Rightarrow> ActionResultKind \<Rightarrow> string \<Rightarrow> jsv \<Rightarrow> db \<Rightarrow> (string, db) result" where
  "settle_reconciled_confirmation E run status aid summary d =
     (case ru_confirmationId run of
        None \<Rightarrow> Inr d
      | Some k \<Rightarrow>
          and_then (update_confirmation_status E
              (\<lambda>c. c_id c = k \<and> c_operation_id c = ru_id run \<and> c_status c = C_outcome_unknown
                   \<and> c_action_result_id c = Some aid)
              (\<lambda>c. c\<lparr>c_status := confirmation_status_of status, c_result_summary := Some summary,
                     c_nonce_hash := [], c_operation := None, c_agent_state := None,
                     c_idempotency_key := None\<rparr>) d) (\<lambda>(d1, n). Inr d1))"

definition settle_reconciled_run ::
  "env \<Rightarrow> string \<Rightarrow> ActionResultKind \<Rightarrow> string \<Rightarrow> jsv \<Rightarrow> db \<Rightarrow> (string, db) result" where
  "settle_reconciled_run E k status aid reconciliation d =
     (case update_run_status (\<lambda>r. o_id r = k \<and> o_status r = O_outcome_unknown)
             (\<lambda>r. r\<lparr>o_status := run_status_of status, o_action_result_id := Some aid,
                    o_reconciled_at := Some (now E), o_reconciliation := Some reconciliation,
                    o_updated_at := now E\<rparr>) d of
        (d1, n) \<Rightarrow> if n \<noteq> 1 then Inl ''reconciliation_operation_not_unknown'' else Inr d1)"

text \<open>Everything after the checks: the step, the result, the confirmation, the ledger, the run.\<close>

definition apply_reconciliation ::
  "env \<Rightarrow> OperationRun \<Rightarrow> OperationStepRow \<Rightarrow> jsv \<Rightarrow> ActionResultRef tx" where
  "apply_reconciliation E run s result d =
     (let fully = fully_applied run (s_id s) d;
          status = (if fully then R_succeeded else R_partial);
          externalId = evidence_external_id result;
          reconciliation = boundedSanitizedJson
            (JObj [(''stepId'', JStr (take 256 (s_id s))), (''authoritative'', JBool True), (''result'', result)]) 65536;
          body = reconciled_result fully (reconciled_receipt fully run externalId (s_plan_step_id s)) in
      and_then (settle_reconciled_step E (ru_id run) s externalId reconciliation d) (\<lambda>d1.
      case (case ru_actionResultId run of Some k \<Rightarrow> (k, d1) | None \<Rightarrow> fresh_id E d1) of (aid, d2) \<Rightarrow>
      and_then (canonical_summary aid body) (\<lambda>summary.
      and_then (settle_reconciled_result E run status aid body summary d2) (\<lambda>d3.
      and_then (settle_reconciled_confirmation E run status aid summary d3) (\<lambda>d4.
      and_then (update_ledger
          (\<lambda>i. i_workspace_id i = ru_workspaceId run \<and> i_admin_user_id i = ru_adminUserId run
               \<and> i_action_result_id i = Some aid)
          (\<lambda>i. i\<lparr>i_result_summary := Some summary\<rparr>) d4) (\<lambda>(d5, n).
      and_then (settle_reconciled_run E (ru_id run) status aid reconciliation d5) (\<lambda>d6.
        Inr (d6, \<lparr>ref_id = aid, ref_kind = status, ref_summary = summary\<rparr>))))))))"

definition settleStartupReconciliation ::
  "(string \<Rightarrow> string) \<Rightarrow> env \<Rightarrow> string \<Rightarrow> string \<Rightarrow> jsv \<Rightarrow> ActionResultRef tx" where
  "settleStartupReconciliation sha256 E k stepId result d =
     (case sel o_id k (runs d) of
        None \<Rightarrow> Inl ''reconciliation_operation_not_found''
      | Some row \<Rightarrow>
          let run = toRun row in
          if ru_status run \<noteq> O_outcome_unknown then Inl ''reconciliation_operation_not_unknown''
          else case hasValidPersistedOperationHash sha256 run of
            Inl e \<Rightarrow> Inl ''hash_failed''
          | Inr valid \<Rightarrow>
              if \<not> valid then Inl ''reconciliation_operation_not_unknown''
              else case find (\<lambda>s. s_id s = stepId \<and> s_operation_id s = k \<and> s_kind s = Primary
                                 \<and> s_status s = S_outcome_unknown) (steps d) of
                None \<Rightarrow> Inl ''reconciliation_step_not_unknown''
              | Some s \<Rightarrow>
                  if plan_drift run s result then Inl ''reconciliation_plan_drift''
                  else if \<not> binding_matches run s result then Inl ''authoritative_reconciliation_required''
                  else apply_reconciliation E run s result d)"

section \<open>Reconciliation keeps the store well formed\<close>

lemma settle_reconciled_step_good:
  assumes "store_ok d" "settle_reconciled_step E oid s x v d = Inr d'"
  shows "good_step d d'"
  using assms(2)
  by (auto simp: settle_reconciled_step_def Let_def split: prod.splits if_splits
      intro!: update_steps_result [OF _ assms(1)] simp: step_move_def)

lemma settle_reconciled_result_good:
  assumes "store_ok d" "settle_reconciled_result E run status aid body summary d = Inr d'"
  shows "good_step d d'"
proof (cases "ru_actionResultId run")
  case None
  with assms show ?thesis by (auto simp: settle_reconciled_result_def intro: insert_result_good)
next
  case (Some k)
  with assms(2) obtain P n where
    "update_results P (\<lambda>a. a\<lparr>a_kind := status, a_result := body, a_summary := summary\<rparr>) d = Inr (d', n)"
    by (auto simp: settle_reconciled_result_def split: if_splits)
  from update_results_good [OF assms(1) this] show ?thesis by simp
qed

lemma settle_reconciled_confirmation_good:
  assumes "store_ok d" "settle_reconciled_confirmation E run status aid summary d = Inr d'"
    and "status = R_succeeded \<or> status = R_partial"
  shows "good_step d d'"
  using assms
  by (auto simp: settle_reconciled_confirmation_def good_step_refl confirmation_move_def
      split: option.splits elim!: update_confirmation_status_good)

lemma settle_reconciled_run_good:
  assumes "store_ok d" "settle_reconciled_run E k status aid v d = Inr d'"
    and "status = R_succeeded \<or> status = R_partial"
  shows "good_step d d'"
proof -
  from assms(2) obtain n where u: "update_run_status (\<lambda>r. o_id r = k \<and> o_status r = O_outcome_unknown)
      (\<lambda>r. r\<lparr>o_status := run_status_of status, o_action_result_id := Some aid,
             o_reconciled_at := Some (now E), o_reconciliation := Some v, o_updated_at := now E\<rparr>) d = (d', n)"
    by (auto simp: settle_reconciled_run_def split: prod.splits if_splits)
  show ?thesis by (rule update_run_status_result [OF u assms(1)]) (use assms(3) in \<open>auto simp: run_move_def\<close>)
qed

lemma apply_reconciliation_good:
  assumes ok: "store_ok d" and a: "apply_reconciliation E run s result d = Inr (d', ref)"
  shows "good_step d d'"
proof -
  define status where "status = (if fully_applied run (s_id s) d then R_succeeded else R_partial)"
  have st: "status = R_succeeded \<or> status = R_partial" by (simp add: status_def)
  from a obtain x v d1 where 1: "settle_reconciled_step E (ru_id run) s x v d = Inr d1"
    and v: "v = boundedSanitizedJson
            (JObj [(''stepId'', JStr (take 256 (s_id s))), (''authoritative'', JBool True), (''result'', result)]) 65536"
    and x: "x = evidence_external_id result"
    by (auto simp: apply_reconciliation_def Let_def)
  obtain aid d2 where
    2: "(case ru_actionResultId run of Some k \<Rightarrow> (k, d1) | None \<Rightarrow> fresh_id E d1) = (aid, d2)" by fastforce
  from a obtain summary body d3 d4 d5 n where
    3: "settle_reconciled_result E run status aid body summary d2 = Inr d3" and
    4: "settle_reconciled_confirmation E run status aid summary d3 = Inr d4" and
    5: "update_ledger
          (\<lambda>i. i_workspace_id i = ru_workspaceId run \<and> i_admin_user_id i = ru_adminUserId run
               \<and> i_action_result_id i = Some aid)
          (\<lambda>i. i\<lparr>i_result_summary := Some summary\<rparr>) d4 = Inr (d5, n)" and
    6: "settle_reconciled_run E (ru_id run) status aid v d5 = Inr d'"
    by (auto simp: apply_reconciliation_def Let_def status_def [symmetric] 1 [unfolded v x] 2 v x)
  have g1: "good_step d d1" by (rule settle_reconciled_step_good [OF ok 1])
  have "core_same d1 d2"
    using 2 by (auto simp: core_same_def split: option.splits dest: fresh_id_core [unfolded core_same_def])
  then have g2: "good_step d1 d2" by (rule core_same_good [OF good_step_ok [OF g1]])
  have g3: "good_step d2 d3" by (rule settle_reconciled_result_good [OF good_step_ok [OF g2] 3])
  have g4: "good_step d3 d4" by (rule settle_reconciled_confirmation_good [OF good_step_ok [OF g3] 4 st])
  have g5: "good_step d4 d5" by (rule core_same_good [OF good_step_ok [OF g4] update_ledger_core [OF 5]])
  have g6: "good_step d5 d'" by (rule settle_reconciled_run_good [OF good_step_ok [OF g5] 6 st])
  from g1 g2 g3 g4 g5 g6 show ?thesis by (meson good_step_trans)
qed

text \<open>
  What a successful settlement presupposes: an unknown run and an unknown primary step of it,
  a valid plan that names the step at its index, and an authoritative result bound to exactly
  this run, step and action.
\<close>

lemma settleStartupReconciliation_checked:
  assumes "settleStartupReconciliation sha256 E k stepId result d = Inr (d', ref)"
  obtains row s where "sel o_id k (runs d) = Some row" "o_status row = O_outcome_unknown"
    "hasValidPersistedOperationHash sha256 (toRun row) = Inr True"
    "s \<in> set (steps d)" "s_id s = stepId" "s_operation_id s = k" "s_kind s = Primary"
    "s_status s = S_outcome_unknown"
    "\<not> plan_drift (toRun row) s result" "binding_matches (toRun row) s result"
    "apply_reconciliation E (toRun row) s result d = Inr (d', ref)"
proof -
  from assms obtain row where row: "sel o_id k (runs d) = Some row"
    by (auto simp: settleStartupReconciliation_def split: option.splits)
  have st: "ru_status (toRun row) = o_status row" by (simp add: toRun_def Let_def)
  from assms row st have "o_status row = O_outcome_unknown"
    "hasValidPersistedOperationHash sha256 (toRun row) = Inr True"
    by (auto simp: settleStartupReconciliation_def Let_def split: if_splits sum.splits)
  with assms row st obtain s where
    "find (\<lambda>s. s_id s = stepId \<and> s_operation_id s = k \<and> s_kind s = Primary \<and> s_status s = S_outcome_unknown)
      (steps d) = Some s" "\<not> plan_drift (toRun row) s result" "binding_matches (toRun row) s result"
    "apply_reconciliation E (toRun row) s result d = Inr (d', ref)"
    by (auto simp: settleStartupReconciliation_def Let_def split: if_splits option.splits)
  with row \<open>o_status row = O_outcome_unknown\<close> \<open>hasValidPersistedOperationHash sha256 (toRun row) = Inr True\<close>
  show ?thesis by (intro that) (auto simp: find_Some_iff)
qed

text \<open>The fields that the authoritative binding of an accepted result has to name.\<close>

lemma settleStartupReconciliation_binding:
  assumes "settleStartupReconciliation sha256 E k stepId result d = Inr (d', ref)"
  obtains row s v where "sel o_id k (runs d) = Some row" "o_status row = O_outcome_unknown"
    "hasValidPersistedOperationHash sha256 (toRun row) = Inr True"
    "s \<in> set (steps d)" "s_id s = stepId" "s_operation_id s = k" "s_kind s = Primary" "s_status s = S_outcome_unknown"
    "getp ''authoritative'' result = JBool True" "getp ''reason'' result = JStr ''authoritative_match''"
    "getp ''operationId'' (getp ''binding'' result) = JStr k" "getp ''stepId'' (getp ''binding'' result) = JStr stepId"
    "getp ''planStepId'' (getp ''binding'' result) = JStr (s_plan_step_id s)"
    "getp ''actionName'' (getp ''binding'' result) = JStr (o_action_name row)"
    "getp ''actionFingerprint'' (getp ''binding'' result) = JStr (o_action_fingerprint row)"
    "getp ''catalogHash'' (getp ''binding'' result) = JStr (o_catalog_hash row)"
    "descriptor_at (plan_steps (ru_mutationPlan (toRun row))) (s_step_index s) = Some v"
    "getp ''id'' v = JStr (s_plan_step_id s)" "getp ''kind'' v = JStr ''primary''"
    "getp ''reconciliationStrategy'' v = getp ''strategy'' (getp ''binding'' result)"
proof -
  from settleStartupReconciliation_checked [OF assms] obtain row s where
    r: "sel o_id k (runs d) = Some row" "o_status row = O_outcome_unknown" "hasValidPersistedOperationHash sha256 (toRun row) = Inr True"
    and s: "s \<in> set (steps d)" "s_id s = stepId" "s_operation_id s = k" "s_kind s = Primary" "s_status s = S_outcome_unknown"
    and p: "\<not> plan_drift (toRun row) s result" and b: "binding_matches (toRun row) s result"
    by blast
  have "o_id row = k" using sel_SomeD [OF r(1)] by simp
  moreover have "ru_id (toRun row) = o_id row" "ru_actionName (toRun row) = o_action_name row"
    "ru_actionFingerprint (toRun row) = o_action_fingerprint row" "ru_catalogHash (toRun row) = o_catalog_hash row"
    by (simp_all add: toRun_def Let_def)
  ultimately have "getp ''authoritative'' result = JBool True" "getp ''reason'' result = JStr ''authoritative_match''"
    "getp ''operationId'' (getp ''binding'' result) = JStr k" "getp ''stepId'' (getp ''binding'' result) = JStr stepId"
    "getp ''planStepId'' (getp ''binding'' result) = JStr (s_plan_step_id s)"
    "getp ''actionName'' (getp ''binding'' result) = JStr (o_action_name row)"
    "getp ''actionFingerprint'' (getp ''binding'' result) = JStr (o_action_fingerprint row)"
    "getp ''catalogHash'' (getp ''binding'' result) = JStr (o_catalog_hash row)"
    using b s(2) by (simp_all add: binding_matches_def Let_def)
  moreover from p obtain v where "descriptor_at (plan_steps (ru_mutationPlan (toRun row))) (s_step_index s) = Some v"
    "getp ''id'' v = JStr (s_plan_step_id s)" "getp ''kind'' v = JStr ''primary''"
    "getp ''reconciliationStrategy'' v = getp ''strategy'' (getp ''binding'' result)"
    by (auto simp: plan_drift_def split: option.splits)
  ultimately show thesis using r s by (intro that)
qed

lemma settleStartupReconciliation_good [step_invariants]:
  "store_ok d \<Longrightarrow> settleStartupReconciliation sha256 E k stepId result d = Inr (d', ref) \<Longrightarrow> good_step d d'"
  by (erule settleStartupReconciliation_checked) (rule apply_reconciliation_good)

end
