(* ===== verification/Recovery.thy ===== *)
theory Recovery
  imports Batches Reconciliation
begin

text \<open>
  Startup recovery (\<open>recoverOrphanedRuns\<close> of \<open>src/src/db/store.ts\<close>), the transaction every
  store runs before it serves a request: what was executing when the process died is settled
  from the durable evidence of dispatch, and nothing is dispatched again.
\<close>

section \<open>Steps and results\<close>

definition recover_turns :: "int \<Rightarrow> db \<Rightarrow> db \<times> nat" where
  "recover_turns t d =
     (d\<lparr>turns := upd_where (\<lambda>r. t_status r = T_executing)
          (\<lambda>r. r\<lparr>t_status := T_outcome_unknown, t_updated_at := t\<rparr>) (turns d)\<rparr>,
      length (filter (\<lambda>r. t_status r = T_executing) (turns d)))"

text \<open>The three updates of \<open>operation_steps\<close>; the count is that of the ambiguous ones.\<close>

definition recover_steps :: "int \<Rightarrow> db \<Rightarrow> db \<times> nat" where
  "recover_steps t d =
     (let d1 = fst (update_steps (\<lambda>s. s_status s = S_compensating)
                     (\<lambda>s. s\<lparr>s_status := S_succeeded, s_updated_at := t\<rparr>) d);
          d2 = fst (update_steps (\<lambda>s. s_status s = S_executing \<and> s_dispatched_at s = None)
                     (\<lambda>s. s\<lparr>s_status := S_definitive_failed, s_settled_at := Some t, s_updated_at := t\<rparr>) d1) in
      update_steps (\<lambda>s. s_status s = S_executing \<and> s_dispatched_at s \<noteq> None)
        (\<lambda>s. s\<lparr>s_status := S_outcome_unknown, s_settled_at := Some t, s_updated_at := t\<rparr>) d2)"

definition recovery_result :: "string \<Rightarrow> ActionResultKind \<Rightarrow> jsv" where
  "recovery_result actionName kind =
     (let undispatched = (kind = R_definitive_failed) in
      JObj [(''kind'', JStr ''receipt''),
            (''receipt'', JObj
               [(''ok'', JBool False), (''action'', JStr actionName),
                (''code'', JStr (if undispatched then ''operation_cancelled_before_dispatch''
                                 else ''commit_outcome_unknown'')),
                (''message'', JStr (if undispatched
                   then ''The server restarted before this queued action reached Clockify. No change was made.''
                   else ''The server restarted while this action was executing, so its outcome is unknown.'')),
                (''recovery'', JStr (if undispatched
                   then ''Create a fresh request when the service is available.''
                   else ''Verify the result in Clockify before trying the action again.''))])])"

record recovery_row =
  rr_session_id :: string
  rr_workspace_id :: string
  rr_admin_user_id :: string
  rr_action_name :: string

definition insertRecoveryResult ::
  "env \<Rightarrow> int \<Rightarrow> recovery_row \<Rightarrow> string option \<Rightarrow> ActionResultKind \<Rightarrow> ActionResultRef tx" where
  "insertRecoveryResult E t row operationId kind d =
     (case fresh_id E d of (aid, d0) \<Rightarrow>
        let v = recovery_result (rr_action_name row) kind in
        and_then (canonical_summary aid v) (\<lambda>summary.
        and_then (insert_result
            \<lparr>a_id = aid, a_operation_id = operationId, a_workspace_id = rr_workspace_id row,
             a_admin_user_id = rr_admin_user_id row, a_session_id = Some (rr_session_id row),
             a_action_name = rr_action_name row, a_kind = kind, a_result = v, a_summary = summary,
             a_created_at = t\<rparr> d0) (\<lambda>d1.
          Inr (d1, \<lparr>ref_id = aid, ref_kind = kind, ref_summary = summary\<rparr>))))"

definition operationResult :: "string \<Rightarrow> db \<Rightarrow> ActionResultRef option" where
  "operationResult oid d =
     map_option (\<lambda>a. \<lparr>ref_id = a_id a, ref_kind = a_kind a, ref_summary = a_summary a\<rparr>)
       (result_of_operation oid d)"

text \<open>\<open>operationResult(id) ?? insertRecoveryResult(row, id, recoveryKind)\<close>.\<close>

definition operation_ref ::
  "env \<Rightarrow> int \<Rightarrow> recovery_row \<Rightarrow> string \<Rightarrow> ActionResultKind \<Rightarrow> ActionResultRef tx" where
  "operation_ref E t row oid kind d =
     (case operationResult oid d of
        Some ref \<Rightarrow> Inr (d, ref)
      | None \<Rightarrow> insertRecoveryResult E t row (Some oid) kind d)"

definition recovery_kind :: "string \<Rightarrow> db \<Rightarrow> ActionResultKind" where
  "recovery_kind oid d = (if operationWasDispatched oid d then R_outcome_unknown else R_definitive_failed)"

section \<open>The passes\<close>

record recovery_counts =
  n_operations :: nat
  n_ambiguous :: nat
  n_undos :: nat

definition settle_run_as :: "int \<Rightarrow> string \<Rightarrow> ActionResultRef \<Rightarrow> db \<Rightarrow> db \<times> nat" where
  "settle_run_as t oid ref d =
     update_run_status (\<lambda>r. o_id r = oid \<and> o_status r = O_executing)
       (\<lambda>r. r\<lparr>o_status := run_status_of (ref_kind ref), o_action_result_id := Some (ref_id ref),
              o_updated_at := t\<rparr>) d"

definition count_operations :: "ActionResultKind \<Rightarrow> nat \<Rightarrow> recovery_counts \<Rightarrow> recovery_counts" where
  "count_operations kind n c =
     c\<lparr>n_operations := n_operations c + n,
       n_ambiguous := n_ambiguous c + (if kind = R_outcome_unknown then n else 0)\<rparr>"

definition confirmation_recovery_row :: "PendingRow \<Rightarrow> db \<Rightarrow> recovery_row" where
  "confirmation_recovery_row c d =
     \<lparr>rr_session_id = c_session_id c, rr_workspace_id = c_workspace_id c,
      rr_admin_user_id = c_admin_user_id c,
      rr_action_name = (case sel o_id (c_operation_id c) (runs d) of
                          None \<Rightarrow> ''unknown_action'' | Some r \<Rightarrow> o_action_name r)\<rparr>"

definition settle_confirmation_as :: "env \<Rightarrow> string \<Rightarrow> ActionResultRef \<Rightarrow> nat tx" where
  "settle_confirmation_as E k ref =
     update_confirmation_status E (\<lambda>c. c_id c = k \<and> c_status c = C_executing)
       (\<lambda>c. c\<lparr>c_status := confirmation_status_of (ref_kind ref), c_action_result_id := Some (ref_id ref),
              c_result_summary := Some (ref_summary ref), c_nonce_hash := [], c_operation := None,
              c_agent_state := None, c_idempotency_key := None\<rparr>)"

definition recover_confirmation ::
  "env \<Rightarrow> int \<Rightarrow> PendingRow \<times> recovery_row \<Rightarrow> db \<times> recovery_counts \<Rightarrow> (string, db \<times> recovery_counts) result" where
  "recover_confirmation E t e s =
     (case (e, s) of ((c, row), (d, n)) \<Rightarrow>
        let kind = recovery_kind (c_operation_id c) d in
        and_then (operation_ref E t row (c_operation_id c) kind d) (\<lambda>(d1, ref).
        and_then (settle_confirmation_as E (c_id c) ref d1) (\<lambda>(d2, _).
        case settle_run_as t (c_operation_id c) ref d2 of (d3, settled) \<Rightarrow>
        and_then (if truthy (c_idempotency_key c)
                  then update_ledger (owns_key (the (c_idempotency_key c)) c)
                         (\<lambda>i. i\<lparr>i_action_result_id := Some (ref_id ref), i_result_summary := Some (ref_summary ref),
                                i_committed_at := Some (now E), i_claimed_at := Some (now E)\<rparr>) d3
                  else Inr (d3, 0)) (\<lambda>(d4, _).
          Inr (d4, count_operations kind settled n)))))"

definition undo_of_envelope :: "OperationRunRow \<Rightarrow> jsv" where
  "undo_of_envelope r =
     (case stored_value (o_operation r) of None \<Rightarrow> JUndef
      | Some v \<Rightarrow> getp ''undoId'' (getp ''operation'' v))"

definition linked_undos :: "db \<Rightarrow> (UndoRow \<times> OperationRunRow) list" where
  "linked_undos d =
     filter (\<lambda>(u, r). u_status u = U_executing \<and> o_session_id r = u_session_id u
               \<and> o_workspace_id r = u_workspace_id u \<and> o_admin_user_id r = u_admin_user_id u
               \<and> o_action_name r = ''undo'' \<and> o_status r = O_executing
               \<and> undo_of_envelope r = JStr (u_id u))
       (List.product (undos d) (runs d))"

definition settle_undo_as :: "int \<Rightarrow> string \<Rightarrow> UndoStatus \<Rightarrow> ActionResultRef \<Rightarrow> db \<Rightarrow> db \<times> nat" where
  "settle_undo_as t k status ref d =
     (let P = (\<lambda>u. u_id u = k \<and> u_status u = U_executing) in
      (d\<lparr>undos := upd_where P (\<lambda>u. u\<lparr>u_status := status, u_action_result_id := Some (ref_id ref),
                                    u_result_summary := Some (ref_summary ref), u_undone_at := Some t\<rparr>) (undos d)\<rparr>,
       length (filter P (undos d))))"

definition recover_linked_undo ::
  "env \<Rightarrow> int \<Rightarrow> UndoRow \<times> OperationRunRow \<Rightarrow> db \<times> recovery_counts \<Rightarrow> (string, db \<times> recovery_counts) result" where
  "recover_linked_undo E t e s =
     (case (e, s) of ((u, r), (d, n)) \<Rightarrow>
        let kind = recovery_kind (o_id r) d;
            row = \<lparr>rr_session_id = u_session_id u, rr_workspace_id = u_workspace_id u,
                   rr_admin_user_id = u_admin_user_id u, rr_action_name = o_action_name r\<rparr> in
        and_then (operation_ref E t row (o_id r) kind d) (\<lambda>(d1, ref).
        case settle_run_as t (o_id r) ref d1 of (d2, settled) \<Rightarrow>
        case settle_undo_as t (u_id u) (if kind = R_outcome_unknown then U_outcome_unknown else U_failed) ref d2 of
          (d3, m) \<Rightarrow> Inr (d3, (count_operations kind settled n)\<lparr>n_undos := n_undos n + m\<rparr>)))"

definition recover_run ::
  "env \<Rightarrow> int \<Rightarrow> OperationRunRow \<Rightarrow> db \<times> recovery_counts \<Rightarrow> (string, db \<times> recovery_counts) result" where
  "recover_run E t r s =
     (case s of (d, n) \<Rightarrow>
        let kind = recovery_kind (o_id r) d;
            row = \<lparr>rr_session_id = o_session_id r, rr_workspace_id = o_workspace_id r,
                   rr_admin_user_id = o_admin_user_id r, rr_action_name = o_action_name r\<rparr> in
        and_then (operation_ref E t row (o_id r) kind d) (\<lambda>(d1, ref).
        case settle_run_as t (o_id r) ref d1 of (d2, settled) \<Rightarrow>
          Inr (d2, count_operations kind settled n)))"

definition recover_undo ::
  "env \<Rightarrow> int \<Rightarrow> UndoRow \<Rightarrow> db \<times> recovery_counts \<Rightarrow> (string, db \<times> recovery_counts) result" where
  "recover_undo E t u s =
     (case s of (d, n) \<Rightarrow>
        let row = \<lparr>rr_session_id = u_session_id u, rr_workspace_id = u_workspace_id u,
                   rr_admin_user_id = u_admin_user_id u, rr_action_name = ''undo''\<rparr> in
        and_then (insertRecoveryResult E t row None R_outcome_unknown d) (\<lambda>(d1, ref).
        case settle_undo_as t (u_id u) U_outcome_unknown ref d1 of (d2, m) \<Rightarrow>
          Inr (d2, n\<lparr>n_undos := n_undos n + m, n_ambiguous := n_ambiguous n + m\<rparr>)))"

section \<open>Runs of the assistant\<close>

definition orphaned_phase :: "RunPhase \<Rightarrow> bool" where
  "orphaned_phase p \<longleftrightarrow> p \<in> {P_model, P_discovering, P_executing_reads, P_preparing_writes}"

definition next_sequence :: "AssistantRunRow \<Rightarrow> db \<Rightarrow> int" where
  "next_sequence r d =
     Max (set (0 # map e_sequence (filter (\<lambda>e. e_session_id e = r_session_id r \<and> e_run_id e = r_run_id r)
                                   (run_events d)))) + 1"

definition fail_orphan :: "int \<Rightarrow> AssistantRunRow \<Rightarrow> db \<Rightarrow> db" where
  "fail_orphan t r d =
     d\<lparr>run_events := run_events d @
         [\<lparr>e_session_id = r_session_id r, e_run_id = r_run_id r, e_sequence = next_sequence r d,
           e_workspace_id = r_workspace_id r, e_admin_user_id = r_admin_user_id r,
           e_event_type = ''run.failed'',
           e_payload = JObj [(''code'', JStr ''interrupted_before_durable_completion'')], e_created_at = t\<rparr>]\<rparr>"

definition recover_assistant_runs :: "int \<Rightarrow> db \<Rightarrow> db \<times> nat" where
  "recover_assistant_runs t d =
     (let orphans = filter (\<lambda>r. orphaned_phase (r_phase r)) (assistant_runs d);
          d1 = fold (fail_orphan t) orphans d;
          d2 = d1\<lparr>assistant_runs := upd_where (\<lambda>r. orphaned_phase (r_phase r))
                    (\<lambda>r. r\<lparr>r_phase := P_failed, r_updated_at := t\<rparr>) (assistant_runs d1)\<rparr> in
      (if orphans = [] then d2
       else d2\<lparr>turns := upd_where
                 (\<lambda>x. (t_status x = T_prepared \<or> t_status x = T_executing)
                      \<and> t_request_id x \<in> r_run_id ` set (filter (\<lambda>r. r_phase r = P_failed \<and> r_updated_at r = t) (assistant_runs d2)))
                 (\<lambda>x. x\<lparr>t_status := T_failed, t_updated_at := t\<rparr>) (turns d2)\<rparr>,
       length orphans))"

section \<open>The whole transaction\<close>

record recovery_report =
  rep_turns :: nat
  rep_operations :: nat
  rep_confirmations :: nat
  rep_undos :: nat
  rep_assistantRuns :: nat
  rep_ambiguousSteps :: nat
  rep_ambiguousOperations :: nat

definition executing_confirmations :: "db \<Rightarrow> (PendingRow \<times> recovery_row) list" where
  "executing_confirmations d =
     map (\<lambda>c. (c, confirmation_recovery_row c d)) (filter (\<lambda>c. c_status c = C_executing) (confirmations d))"

definition recoverOrphanedRuns :: "env \<Rightarrow> recovery_report tx" where
  "recoverOrphanedRuns E d =
     (let t = now E in
      case recover_turns t d of (d1, n_turns) \<Rightarrow>
      case recover_steps t d1 of (d2, ambiguousSteps) \<Rightarrow>
      let rows = executing_confirmations d2 in
      and_then (fold_result (recover_confirmation E t) rows
                  (d2, \<lparr>n_operations = 0, n_ambiguous = 0, n_undos = 0\<rparr>)) (\<lambda>(d3, n3).
      and_then (fold_result (recover_linked_undo E t) (linked_undos d3) (d3, n3)) (\<lambda>(d4, n4).
      and_then (fold_result (recover_run E t) (filter (\<lambda>r. o_status r = O_executing) (runs d4)) (d4, n4)) (\<lambda>(d5, n5).
      and_then (fold_result (recover_undo E t) (filter (\<lambda>u. u_status u = U_executing) (undos d5)) (d5, n5)) (\<lambda>(d6, n6).
      and_then (fold_result (\<lambda>b e. recoverConfirmationBatch E (b_id b) t e)
                  (filter (\<lambda>b. b_status b = B_executing) (batches d6)) d6) (\<lambda>d7.
      case recover_assistant_runs t d7 of (d8, assistantRuns) \<Rightarrow>
        Inr (d8, \<lparr>rep_turns = n_turns, rep_operations = n_operations n6, rep_confirmations = length rows,
                  rep_undos = n_undos n6, rep_assistantRuns = assistantRuns,
                  rep_ambiguousSteps = ambiguousSteps, rep_ambiguousOperations = n_ambiguous n6\<rparr>)))))))"


section \<open>Nothing starts executing during recovery\<close>

definition executing_ids :: "db \<Rightarrow> string set" where
  "executing_ids d = c_id ` {c \<in> set (confirmations d). c_status c = C_executing}"

definition executing_runs :: "db \<Rightarrow> string set" where
  "executing_runs d = o_id ` {r \<in> set (runs d). o_status r = O_executing}"

text \<open>The set of executing confirmations and runs only shrinks, and no step is touched.\<close>

definition drains :: "db \<Rightarrow> db \<Rightarrow> bool" where
  "drains d d' \<longleftrightarrow>
     executing_ids d' \<subseteq> executing_ids d \<and> executing_runs d' \<subseteq> executing_runs d \<and> steps d' = steps d"

lemma drains_refl [simp]: "drains d d"
  by (simp add: drains_def)

lemma drains_trans: "drains d e \<Longrightarrow> drains e f \<Longrightarrow> drains d f"
  by (auto simp: drains_def)

lemma frame_drains:
  "confirmations d' = confirmations d \<Longrightarrow> runs d' = runs d \<Longrightarrow> steps d' = steps d \<Longrightarrow> drains d d'"
  by (simp add: drains_def executing_ids_def executing_runs_def)

lemma core_same_drains: "core_same d d' \<Longrightarrow> drains d d'"
  by (simp add: core_same_def drains_def executing_ids_def executing_runs_def)

lemma insert_result_drains: "insert_result a d = Inr d' \<Longrightarrow> drains d d'"
  by (auto simp: insert_result_def drains_def executing_ids_def executing_runs_def split: if_splits)

lemma upd_where_shrinks:
  assumes "\<And>r. P r \<Longrightarrow> Q (f r) \<Longrightarrow> Q r" "\<And>r. key (f r) = key r"
  shows "key ` {r \<in> set (upd_where P f rows). Q r} \<subseteq> key ` {r \<in> set rows. Q r}"
proof
  fix k
  assume "k \<in> key ` {r \<in> set (upd_where P f rows). Q r}"
  then obtain r where r: "r \<in> set (upd_where P f rows)" "Q r" "k = key r" by blast
  then obtain r0 where "r0 \<in> set rows" "r = (if P r0 then f r0 else r0)"
    by (auto simp: upd_where_def)
  with r assms have "r0 \<in> {r \<in> set rows. Q r}" "k = key r0" by (auto split: if_splits)
  then show "k \<in> key ` {r \<in> set rows. Q r}" by blast
qed

lemma upd_where_clears:
  assumes "\<And>r. key r = k \<Longrightarrow> Q r \<Longrightarrow> P r" "\<And>r. P r \<Longrightarrow> \<not> Q (f r)"
  shows "k \<notin> key ` {r \<in> set (upd_where P f rows). Q r}"
proof
  assume "k \<in> key ` {r \<in> set (upd_where P f rows). Q r}"
  then obtain r where r: "r \<in> set (upd_where P f rows)" "Q r" "k = key r" by blast
  then obtain r0 where "r0 \<in> set rows" "r = (if P r0 then f r0 else r0)" by (auto simp: upd_where_def)
  with r assms show False by (metis (full_types))
qed

lemma terminal_scrub_keeps [simp]: "o_status (terminal_scrub r) = o_status r" "o_id (terminal_scrub r) = o_id r"
  by (simp_all add: terminal_scrub_def)

lemma upd_runs_drains:
  assumes "\<And>r. P r \<Longrightarrow> o_status (f r) = O_executing \<Longrightarrow> o_status r = O_executing" "\<And>r. o_id (f r) = o_id r"
  shows "drains d (d\<lparr>runs := upd_where P f (runs d)\<rparr>)"
proof -
  have "executing_runs (d\<lparr>runs := upd_where P f (runs d)\<rparr>) \<subseteq> executing_runs d"
    using upd_where_shrinks [of P "\<lambda>r. o_status r = O_executing" f o_id "runs d"] assms
    by (simp add: executing_runs_def)
  then show ?thesis by (simp add: drains_def executing_ids_def)
qed

lemma upd_confirmations_drains:
  assumes "\<And>c. P c \<Longrightarrow> c_status (f c) = C_executing \<Longrightarrow> c_status c = C_executing" "\<And>c. c_id (f c) = c_id c"
  shows "drains d (d\<lparr>confirmations := upd_where P f (confirmations d)\<rparr>)"
proof -
  have "executing_ids (d\<lparr>confirmations := upd_where P f (confirmations d)\<rparr>) \<subseteq> executing_ids d"
    using upd_where_shrinks [of P "\<lambda>c. c_status c = C_executing" f c_id "confirmations d"] assms
    by (simp add: executing_ids_def)
  then show ?thesis by (simp add: drains_def executing_runs_def)
qed

lemma update_run_status_drains:
  assumes "\<And>r. o_status (f r) \<noteq> O_executing \<and> o_id (f r) = o_id r"
  shows "drains d (fst (update_run_status P f d))"
  unfolding update_run_status_def fst_conv
  by (rule upd_runs_drains) (simp_all add: assms)

lemma put_confirmation_executing:
  assumes "c_status new \<noteq> C_executing"
  shows "executing_ids (put_confirmation new d) \<subseteq> executing_ids d - {c_id new}"
  using assms by (auto simp: put_confirmation_def executing_ids_def elim!: in_upd_whereE)

lemma put_confirmation_frame [simp]:
  "runs (put_confirmation new d) = runs d" "steps (put_confirmation new d) = steps d"
  by (simp_all add: put_confirmation_def)

lemma pre_dispatch_terminal_drains:
  assumes "pre_dispatch_terminal E c d = Inr d'"
  shows "drains d d'"
proof -
  from assms obtain d1 where d1: "pre_dispatch_insert E c d = Inr d1"
    and d': "d' = pre_dispatch_link c (pre_dispatch_settle_run c d1)"
    by (auto simp: pre_dispatch_terminal_def)
  have "drains d d1"
    by (rule frame_drains) (use d1 in \<open>auto simp: pre_dispatch_insert_def fresh_id_def
        insert_result_def Let_def split: option.splits if_splits\<close>)
  moreover have "drains d1 (pre_dispatch_settle_run c d1)"
    unfolding pre_dispatch_settle_run_def by (rule update_run_status_drains) simp
  moreover have "drains (pre_dispatch_settle_run c d1) d'"
    unfolding d' pre_dispatch_link_def Let_def by (rule upd_confirmations_drains) simp_all
  ultimately show ?thesis by (meson drains_trans)
qed

lemma update_confirmation_row_drains:
  assumes u: "update_confirmation_row E f k d = Inr d'"
    and f: "\<And>c. c_status (f c) \<noteq> C_executing \<and> c_id (f c) = c_id c"
  shows "drains d d' \<and> k \<notin> executing_ids d'"
  using u
proof (cases rule: update_confirmation_row_cases)
  case absent
  then show ?thesis by (auto simp: executing_ids_def sel_None_iff)
next
  case (terminal old)
  have k: "c_id (f old) = k" using f sel_SomeD [OF terminal(1)] by simp
  have p: "executing_ids (put_confirmation (f old) d) \<subseteq> executing_ids d - {k}"
    using put_confirmation_executing [of "f old" d] f k by simp
  have "drains (put_confirmation (f old) d) d'" by (rule pre_dispatch_terminal_drains [OF terminal(6)])
  with p show ?thesis by (auto simp: drains_def executing_runs_def)
next
  case (settlement old)
  have k: "c_id (f old) = k" using f sel_SomeD [OF settlement(1)] by simp
  have p: "executing_ids (put_confirmation (f old) d) \<subseteq> executing_ids d - {k}"
    using put_confirmation_executing [of "f old" d] f k by simp
  have "drains (put_confirmation (f old) d) d'"
    unfolding settlement(6) settlement_scrubs_operation_def update_run_plain_def fst_conv
    by (rule upd_runs_drains) simp_all
  with p show ?thesis by (auto simp: drains_def executing_runs_def)
next
  case (plain old)
  have k: "c_id (f old) = k" using f sel_SomeD [OF plain(1)] by simp
  have p: "executing_ids (put_confirmation (f old) d) \<subseteq> executing_ids d - {k}"
    using put_confirmation_executing [of "f old" d] f k by simp
  with plain(6) show ?thesis by (auto simp: drains_def executing_runs_def)
qed

lemma update_confirmation_status_drains:
  assumes ok: "store_ok d" and u: "update_confirmation_status E P f d = Inr (d', n)"
    and f: "\<And>c. c_status (f c) \<noteq> C_executing \<and> c_id (f c) = c_id c"
  shows "drains d d'"
  by (rule update_confirmation_status_induct [OF u ok, of "drains d"])
    (use f in \<open>auto dest!: update_confirmation_row_drains intro: drains_trans\<close>)

lemma settle_confirmation_as_drains:
  assumes ok: "store_ok d" and u: "settle_confirmation_as E k ref d = Inr (d', n)"
  shows "drains d d' \<and> k \<notin> executing_ids d'"
proof -
  let ?f = "\<lambda>c. c\<lparr>c_status := confirmation_status_of (ref_kind ref), c_action_result_id := Some (ref_id ref),
              c_result_summary := Some (ref_summary ref), c_nonce_hash := [], c_operation := None,
              c_agent_state := None, c_idempotency_key := None\<rparr>"
  have f: "\<And>c. c_status (?f c) \<noteq> C_executing \<and> c_id (?f c) = c_id c" by (cases "ref_kind ref") auto
  have u': "update_confirmation_status E (\<lambda>c. c_id c = k \<and> c_status c = C_executing) ?f d = Inr (d', n)"
    using u by (simp add: settle_confirmation_as_def)
  have "k \<notin> executing_ids d'"
  proof (cases "\<exists>c. sel c_id k (confirmations d) = Some c \<and> c_status c = C_executing")
    case True
    then have "update_confirmation_row E ?f k d = Inr d'"
      using u' by (auto simp: update_confirmation_status_one [OF ok])
    from update_confirmation_row_drains [OF this f] show ?thesis by simp
  next
    case False
    then have "d' = d" using u' by (auto simp: update_confirmation_status_one [OF ok] split: option.splits if_splits)
    moreover have "k \<notin> executing_ids d"
      using False sel_distinct [OF store_ok_distinct(1) [OF ok]] by (auto simp: executing_ids_def)
    ultimately show ?thesis by simp
  qed
  with update_confirmation_status_drains [OF ok u' f] show ?thesis by simp
qed

lemma settle_run_as_drains:
  assumes "settle_run_as t oid ref d = (d', n)"
  shows "drains d d' \<and> oid \<notin> executing_runs d'"
proof -
  have "drains d (fst (settle_run_as t oid ref d))"
    unfolding settle_run_as_def by (rule update_run_status_drains) (cases "ref_kind ref"; simp)
  moreover have "oid \<notin> executing_runs (fst (settle_run_as t oid ref d))"
  proof -
    have "run_status_of (ref_kind ref) \<noteq> O_executing" by (cases "ref_kind ref") simp_all
    then show ?thesis
      using upd_where_clears [of o_id oid "\<lambda>r. o_status r = O_executing" "\<lambda>r. o_id r = oid \<and> o_status r = O_executing"
          "\<lambda>r. terminal_scrub (r\<lparr>o_status := run_status_of (ref_kind ref), o_action_result_id := Some (ref_id ref),
              o_updated_at := t\<rparr>)" "runs d"]
      by (simp add: settle_run_as_def update_run_status_def executing_runs_def)
  qed
  ultimately show ?thesis using assms by simp
qed

section \<open>The passes keep the invariant and drain\<close>

definition recovers :: "db \<Rightarrow> db \<Rightarrow> bool" where
  "recovers d d' \<longleftrightarrow> good_step d d' \<and> drains d d'"

lemma recovers_refl: "store_ok d \<Longrightarrow> recovers d d"
  by (simp add: recovers_def good_step_refl)

lemma recovers_trans: "recovers d e \<Longrightarrow> recovers e f \<Longrightarrow> recovers d f"
  unfolding recovers_def by (meson good_step_trans drains_trans)

lemma recovers_ok: "recovers d d' \<Longrightarrow> store_ok d'"
  by (simp add: recovers_def good_step_def)

lemma core_same_recovers: "store_ok d \<Longrightarrow> core_same d d' \<Longrightarrow> recovers d d'"
  by (simp add: recovers_def core_same_good core_same_drains)

lemma insertRecoveryResult_recovers:
  assumes ok: "store_ok d" and i: "insertRecoveryResult E t row oid kind d = Inr (d', ref)"
  shows "recovers d d'"
proof -
  obtain aid d0 where f: "fresh_id E d = (aid, d0)" by fastforce
  from i f obtain a where a: "insert_result a d0 = Inr d'"
    by (auto simp: insertRecoveryResult_def Let_def)
  have r0: "recovers d d0" by (rule core_same_recovers [OF ok fresh_id_core [OF f]])
  have "recovers d0 d'"
    using insert_result_good [OF recovers_ok [OF r0] a] insert_result_drains [OF a] by (simp add: recovers_def)
  with r0 show ?thesis by (rule recovers_trans)
qed

lemma operation_ref_recovers:
  "store_ok d \<Longrightarrow> operation_ref E t row oid kind d = Inr (d', ref) \<Longrightarrow> recovers d d'"
  by (auto simp: operation_ref_def recovers_refl split: option.splits intro: insertRecoveryResult_recovers)

lemma settle_run_as_recovers:
  assumes "store_ok d" "settle_run_as t oid ref d = (d', n)"
  shows "recovers d d'"
proof -
  have "good_step d (fst (settle_run_as t oid ref d))"
    unfolding settle_run_as_def
    by (rule update_run_status_good [OF assms(1)]) (cases "ref_kind ref"; simp add: run_move_def)
  with settle_run_as_drains [OF assms(2)] assms(2) show ?thesis by (simp add: recovers_def)
qed

lemma settle_confirmation_as_recovers:
  assumes "store_ok d" "settle_confirmation_as E k ref d = Inr (d', n)"
  shows "recovers d d'"
proof -
  have "good_step d d'"
    by (rule update_confirmation_status_good [OF assms(2) [unfolded settle_confirmation_as_def] assms(1)])
      (cases "ref_kind ref"; simp add: confirmation_move_def)
  with settle_confirmation_as_drains [OF assms] show ?thesis by (simp add: recovers_def)
qed

lemma settle_undo_as_core: "settle_undo_as t k s ref d = (d', n) \<Longrightarrow> core_same d d'"
  by (auto simp: settle_undo_as_def Let_def core_same_def)

lemma recover_confirmation_recovers:
  assumes ok: "store_ok d" and r: "recover_confirmation E t (c, row) (d, n) = Inr (d', n')"
  shows "recovers d d' \<and> c_id c \<notin> executing_ids d'"
proof -
  from r obtain d1 ref d2 m where
    1: "operation_ref E t row (c_operation_id c) (recovery_kind (c_operation_id c) d) d = Inr (d1, ref)" and
    2: "settle_confirmation_as E (c_id c) ref d1 = Inr (d2, m)"
    by (auto simp: recover_confirmation_def Let_def)
  obtain d3 settled where 3: "settle_run_as t (c_operation_id c) ref d2 = (d3, settled)" by fastforce
  have 4: "core_same d3 d'"
    using r by (auto simp: recover_confirmation_def Let_def 1 2 3 core_same_def split: if_splits
        dest!: update_ledger_core)
  have r1: "recovers d d1" by (rule operation_ref_recovers [OF ok 1])
  have r2: "recovers d1 d2" by (rule settle_confirmation_as_recovers [OF recovers_ok [OF r1] 2])
  have r3: "recovers d2 d3" by (rule settle_run_as_recovers [OF recovers_ok [OF r2] 3])
  have r4: "recovers d3 d'" by (rule core_same_recovers [OF recovers_ok [OF r3] 4])
  have "c_id c \<notin> executing_ids d2"
    using settle_confirmation_as_drains [OF recovers_ok [OF r1] 2] by simp
  with r3 r4 have "c_id c \<notin> executing_ids d'" by (auto simp: recovers_def drains_def)
  with r1 r2 r3 r4 show ?thesis by (meson recovers_trans)
qed

lemma recover_linked_undo_recovers:
  assumes ok: "store_ok d" and r: "recover_linked_undo E t (u, x) (d, n) = Inr (d', n')"
  shows "recovers d d'"
proof -
  from r obtain row d1 ref where
    1: "operation_ref E t row (o_id x) (recovery_kind (o_id x) d) d = Inr (d1, ref)"
    and row: "row = \<lparr>rr_session_id = u_session_id u, rr_workspace_id = u_workspace_id u,
                   rr_admin_user_id = u_admin_user_id u, rr_action_name = o_action_name x\<rparr>"
    by (auto simp: recover_linked_undo_def Let_def)
  obtain d2 settled where 2: "settle_run_as t (o_id x) ref d1 = (d2, settled)" by fastforce
  have 3: "core_same d2 d'"
    using r by (auto simp: recover_linked_undo_def Let_def 1 [unfolded row] 2 split: prod.splits dest!: settle_undo_as_core)
  have r1: "recovers d d1" by (rule operation_ref_recovers [OF ok 1])
  have r2: "recovers d1 d2" by (rule settle_run_as_recovers [OF recovers_ok [OF r1] 2])
  have r3: "recovers d2 d'" by (rule core_same_recovers [OF recovers_ok [OF r2] 3])
  from r1 r2 r3 show ?thesis by (meson recovers_trans)
qed

lemma recover_run_recovers:
  assumes ok: "store_ok d" and r: "recover_run E t x (d, n) = Inr (d', n')"
  shows "recovers d d' \<and> o_id x \<notin> executing_runs d'"
proof -
  from r obtain row d1 ref where
    1: "operation_ref E t row (o_id x) (recovery_kind (o_id x) d) d = Inr (d1, ref)"
    and row: "row = \<lparr>rr_session_id = o_session_id x, rr_workspace_id = o_workspace_id x,
                   rr_admin_user_id = o_admin_user_id x, rr_action_name = o_action_name x\<rparr>"
    by (auto simp: recover_run_def Let_def)
  obtain d2 settled where 2: "settle_run_as t (o_id x) ref d1 = (d2, settled)" by fastforce
  have 3: "d' = d2" using r by (auto simp: recover_run_def Let_def 1 [unfolded row] 2)
  have r1: "recovers d d1" by (rule operation_ref_recovers [OF ok 1])
  have r2: "recovers d1 d2" by (rule settle_run_as_recovers [OF recovers_ok [OF r1] 2])
  from r1 r2 settle_run_as_drains [OF 2] show ?thesis by (auto simp: 3 intro: recovers_trans)
qed

lemma recover_undo_recovers:
  assumes ok: "store_ok d" and r: "recover_undo E t u (d, n) = Inr (d', n')"
  shows "recovers d d'"
proof -
  from r obtain row d1 ref where 1: "insertRecoveryResult E t row None R_outcome_unknown d = Inr (d1, ref)"
    and row: "row = \<lparr>rr_session_id = u_session_id u, rr_workspace_id = u_workspace_id u,
                   rr_admin_user_id = u_admin_user_id u, rr_action_name = ''undo''\<rparr>"
    by (auto simp: recover_undo_def Let_def)
  have 2: "core_same d1 d'"
    using r by (auto simp: recover_undo_def Let_def 1 [unfolded row] split: prod.splits dest!: settle_undo_as_core)
  have r1: "recovers d d1" by (rule insertRecoveryResult_recovers [OF ok 1])
  from recovers_trans [OF r1 core_same_recovers [OF recovers_ok [OF r1] 2]] show ?thesis .
qed

section \<open>Batches during recovery\<close>

lemma cancel_preview_recovers:
  assumes ok: "store_ok d" and c: "cancel_preview E t k d = Inr d'"
  shows "recovers d d'"
proof -
  from c obtain n where "update_confirmation_status E (\<lambda>c. c_id c = k \<and> c_status c = C_pending)
      (scrub_to C_cancelled t) d = Inr (d', n)"
    by (auto simp: cancel_preview_def)
  from update_confirmation_status_drains [OF ok this] cancel_preview_good [OF ok c] show ?thesis
    by (simp add: recovers_def scrub_to_def)
qed

lemma cancel_item_recovers: "store_ok d \<Longrightarrow> cancel_item t k j d = Inr d' \<Longrightarrow> recovers d d'"
  by (auto simp: cancel_item_def intro: core_same_recovers update_items_core)

lemma fold_recovers:
  assumes "store_ok (h s)" "fold_result f xs s = Inr s'"
    and "\<And>x e e'. x \<in> set xs \<Longrightarrow> store_ok (h e) \<Longrightarrow> f x e = Inr e' \<Longrightarrow> recovers (h e) (h e')"
  shows "recovers (h s) (h s')"
proof (rule fold_result_invariant [OF _ _ assms(2), of "\<lambda>e. recovers (h s) (h e)"])
  show "recovers (h s) (h s)" by (rule recovers_refl [OF assms(1)])
next
  fix x e e'
  assume "x \<in> set xs" "recovers (h s) (h e)" "f x e = Inr e'"
  then show "recovers (h s) (h e')" using assms(3) recovers_trans recovers_ok by blast
qed

text \<open>A pass that clears the row it is at, in a system where cleared rows stay cleared, clears all.\<close>

lemma fold_clears:
  assumes "store_ok (h s)" "fold_result f xs s = Inr s'"
    and step: "\<And>x e e'. x \<in> set xs \<Longrightarrow> store_ok (h e) \<Longrightarrow> f x e = Inr e' \<Longrightarrow>
                 recovers (h e) (h e') \<and> key x \<notin> busy (h e')"
    and mono: "\<And>e e'. recovers e e' \<Longrightarrow> busy e' \<subseteq> busy e"
  shows "recovers (h s) (h s') \<and> busy (h s') \<inter> key ` set xs = {}"
  using assms(1,2) step
proof (induction xs arbitrary: s)
  case Nil
  then show ?case by (simp add: recovers_refl)
next
  case (Cons x xs)
  from Cons.prems(2) obtain m where m: "f x s = Inr m" "fold_result f xs m = Inr s'" by auto
  have 1: "recovers (h s) (h m)" "key x \<notin> busy (h m)"
    using Cons.prems(3) [OF _ Cons.prems(1) m(1)] by auto
  have 2: "recovers (h m) (h s') \<and> busy (h s') \<inter> key ` set xs = {}"
    by (rule Cons.IH [OF recovers_ok [OF 1(1)] m(2)]) (use Cons.prems(3) in auto)
  with 1 mono [of "h m" "h s'"] show ?case by (auto intro: recovers_trans)
qed

lemma recover_dispatched_item_recovers:
  assumes ok: "store_ok d" and c: "recover_dispatched_item E k t rows item d = Inr d'"
  shows "recovers d d'"
proof -
  from c obtain f n d1 where 1: "update_batches (\<lambda>b. b_id b = k) f d = Inr (d1, n)"
    and 2: "fold_result (\<lambda>p e. and_then (cancel_item t k (bi_item_index p) e)
                          (\<lambda>e1. cancel_preview E t (bi_confirmation_id p) e1))
       (filter (\<lambda>p. bi_item_index item \<le> bi_item_index p \<and> bi_status p = I_pending) rows) d1 = Inr d'"
    by (auto simp: recover_dispatched_item_def)
  have r1: "recovers d d1" by (rule core_same_recovers [OF ok update_batches_core [OF 1]])
  have "recovers d1 d'"
    by (rule fold_recovers [where h = "\<lambda>e. e", OF recovers_ok [OF r1] 2])
      (clarsimp, meson recovers_trans cancel_item_recovers cancel_preview_recovers recovers_ok)
  with r1 show ?thesis by (rule recovers_trans)
qed

lemma recover_undispatched_item_drains:
  assumes ok: "store_ok d" and c: "recover_undispatched_item E k t item d = Inr d'"
  shows "drains d d'"
proof -
  obtain aid d0 where f: "fresh_id E d = (aid, d0)" by fastforce
  from c f obtain summary a d1 d2 n2 d3 n3 where 1: "insert_result a d0 = Inr d1"
    and 2: "update_items (\<lambda>i. bi_batch_id i = k \<and> bi_item_index i = bi_item_index item \<and> bi_status i = I_executing)
          (\<lambda>i. i\<lparr>bi_status := I_definitive_failed, bi_action_result_id := Some aid, bi_completed_at := Some t\<rparr>) d1
          = Inr (d2, n2)"
    and 3: "update_confirmation_status E (\<lambda>c. c_id c = bi_confirmation_id item \<and> c_status c = C_executing)
          (\<lambda>c. c\<lparr>c_status := C_definitive_failed, c_action_result_id := Some aid, c_result_summary := Some summary,
                 c_nonce_hash := [], c_operation := None, c_agent_state := None, c_idempotency_key := None,
                 c_used_at := Some t\<rparr>) d2 = Inr (d3, n3)"
    and 4: "d' = fst (update_run_status (\<lambda>r. o_id r = bi_operation_id item \<and> o_status r = O_executing)
               (\<lambda>r. r\<lparr>o_status := O_definitive_failed, o_action_result_id := Some aid, o_updated_at := t\<rparr>) d3)"
    by (auto simp: recover_undispatched_item_def)
  have r0: "recovers d d0" by (rule core_same_recovers [OF ok fresh_id_core [OF f]])
  have r1: "recovers d0 d1"
    using insert_result_good [OF recovers_ok [OF r0] 1] insert_result_drains [OF 1] by (simp add: recovers_def)
  have r2: "recovers d1 d2" by (rule core_same_recovers [OF recovers_ok [OF r1] update_items_core [OF 2]])
  have r3: "drains d2 d3" by (rule update_confirmation_status_drains [OF recovers_ok [OF r2] 3]) simp
  have r4: "drains d3 d'" unfolding 4 by (rule update_run_status_drains) simp
  from r0 r1 r2 r3 r4 show ?thesis unfolding recovers_def by (meson drains_trans)
qed

lemma recover_items_recovers:
  "store_ok d \<Longrightarrow> recover_items E k t rows is d = Inr d' \<Longrightarrow> recovers d d'"
proof (induction "is" arbitrary: d)
  case Nil
  then show ?case by (simp add: recovers_refl)
next
  case (Cons i "is")
  show ?case
  proof (cases "operationWasDispatched (bi_operation_id i) d")
    case True
    with Cons.prems show ?thesis by (simp add: recover_dispatched_item_recovers)
  next
    case False
    with Cons.prems obtain m where m: "recover_undispatched_item E k t i d = Inr m"
      "recover_items E k t rows is m = Inr d'" by auto
    have r: "recovers d m"
      using recover_undispatched_item_good [OF Cons.prems(1) m(1)]
        recover_undispatched_item_drains [OF Cons.prems(1) m(1)] by (simp add: recovers_def)
    from recovers_trans [OF r Cons.IH [OF recovers_ok [OF r] m(2)]] show ?thesis .
  qed
qed

lemma recoverConfirmationBatch_recovers:
  assumes "store_ok d" "recoverConfirmationBatch E k t d = Inr d'"
  shows "recovers d d'"
  using assms
  by (auto simp: recoverConfirmationBatch_def Let_def recovers_refl split: option.splits if_splits
      intro: core_same_recovers update_batches_core recover_items_recovers)

section \<open>What recovery leaves behind\<close>

text \<open>The fate of one step: only the evidence of dispatch decides.\<close>

definition settled_step :: "int \<Rightarrow> OperationStepRow \<Rightarrow> OperationStepRow" where
  "settled_step t s =
     (if s_status s = S_compensating then s\<lparr>s_status := S_succeeded, s_updated_at := t\<rparr>
      else if s_status s = S_executing
      then (if s_dispatched_at s = None
            then s\<lparr>s_status := S_definitive_failed, s_settled_at := Some t, s_updated_at := t\<rparr>
            else s\<lparr>s_status := S_outcome_unknown, s_settled_at := Some t, s_updated_at := t\<rparr>)
      else s)"

lemma recover_steps_settled: "steps (fst (recover_steps t d)) = map (settled_step t) (steps d)"
  by (auto simp: recover_steps_def update_steps_def Let_def upd_where_def settled_step_def)

lemma recover_steps_good:
  assumes ok: "store_ok d"
  shows "good_step d (fst (recover_steps t d))"
proof -
  define d1 where "d1 = fst (update_steps (\<lambda>s. s_status s = S_compensating)
                     (\<lambda>s. s\<lparr>s_status := S_succeeded, s_updated_at := t\<rparr>) d)"
  define d2 where "d2 = fst (update_steps (\<lambda>s. s_status s = S_executing \<and> s_dispatched_at s = None)
                     (\<lambda>s. s\<lparr>s_status := S_definitive_failed, s_settled_at := Some t, s_updated_at := t\<rparr>) d1)"
  have g1: "good_step d d1" unfolding d1_def by (rule update_steps_good [OF ok]) (auto simp: step_move_def)
  have g2: "good_step d1 d2" unfolding d2_def
    by (rule update_steps_good [OF good_step_ok [OF g1]]) (auto simp: step_move_def)
  have g3: "good_step d2 (fst (recover_steps t d))"
    unfolding recover_steps_def Let_def d1_def [symmetric] d2_def [symmetric]
    by (rule update_steps_good [OF good_step_ok [OF g2]]) (auto simp: step_move_def)
  from g1 g2 g3 show ?thesis by (meson good_step_trans)
qed

lemma recover_steps_frame:
  "confirmations (fst (recover_steps t d)) = confirmations d" "runs (fst (recover_steps t d)) = runs d"
  by (simp_all add: recover_steps_def update_steps_def Let_def)

lemma recover_turns_core: "core_same d (fst (recover_turns t d))"
  by (simp add: recover_turns_def core_same_def)

lemma fail_orphans_frame: "core_same d (fold (fail_orphan t) rs d)"
  by (induction rs arbitrary: d) (auto simp: core_same_def fail_orphan_def)

lemma fail_orphans_runs: "assistant_runs (fold (fail_orphan t) rs d) = assistant_runs d"
  by (induction rs arbitrary: d) (auto simp: fail_orphan_def)

lemma recover_assistant_runs_core: "core_same d (fst (recover_assistant_runs t d))"
  using fail_orphans_frame [of d t "filter (\<lambda>r. orphaned_phase (r_phase r)) (assistant_runs d)"]
  by (auto simp: recover_assistant_runs_def Let_def core_same_def)

lemma recover_assistant_runs_clears:
  "\<not> list_ex (\<lambda>r. orphaned_phase (r_phase r)) (assistant_runs (fst (recover_assistant_runs t d)))"
  by (auto simp: recover_assistant_runs_def Let_def fail_orphans_runs upd_where_def list_ex_iff orphaned_phase_def)

lemma executing_cleared:
  "recovers d d' \<Longrightarrow> executing_ids d' \<subseteq> executing_ids d"
  "recovers d d' \<Longrightarrow> executing_runs d' \<subseteq> executing_runs d"
  by (simp_all add: recovers_def drains_def)

lemma recover_confirmations_pass:
  assumes ok: "store_ok d"
    and p: "fold_result (recover_confirmation E t) (executing_confirmations d) (d, n) = Inr (d', n')"
  shows "recovers d d' \<and> executing_ids d' = {}"
proof -
  have "recovers (fst (d, n)) (fst (d', n')) \<and>
        executing_ids (fst (d', n')) \<inter> (\<lambda>e. c_id (fst e)) ` set (executing_confirmations d) = {}"
    by (rule fold_clears [where h = fst, OF _ p])
      (auto simp: ok dest: recover_confirmation_recovers executing_cleared)
  moreover have "(\<lambda>e. c_id (fst e)) ` set (executing_confirmations d) = executing_ids d"
    by (force simp: executing_confirmations_def executing_ids_def)
  ultimately show ?thesis using executing_cleared(1) [of d d'] by auto
qed

lemma recover_runs_pass:
  assumes ok: "store_ok d"
    and p: "fold_result (recover_run E t) (filter (\<lambda>r. o_status r = O_executing) (runs d)) (d, n) = Inr (d', n')"
  shows "recovers d d' \<and> executing_runs d' = {}"
proof -
  have "recovers (fst (d, n)) (fst (d', n')) \<and>
        executing_runs (fst (d', n')) \<inter> o_id ` set (filter (\<lambda>r. o_status r = O_executing) (runs d)) = {}"
    by (rule fold_clears [where h = fst, OF _ p])
      (auto simp: ok dest: recover_run_recovers executing_cleared)
  moreover have "o_id ` set (filter (\<lambda>r. o_status r = O_executing) (runs d)) = executing_runs d"
    by (auto simp: executing_runs_def)
  ultimately show ?thesis using executing_cleared(2) [of d d'] by auto
qed

lemma recoverOrphanedRuns_passes:
  assumes "recoverOrphanedRuns E d = Inr (d', rep)"
  obtains d2 d3 d4 d5 d6 d7 n0 n3 n4 n5 n6 where
    "d2 = fst (recover_steps (now E) (fst (recover_turns (now E) d)))"
    "fold_result (recover_confirmation E (now E)) (executing_confirmations d2) (d2, n0) = Inr (d3, n3)"
    "fold_result (recover_linked_undo E (now E)) (linked_undos d3) (d3, n3) = Inr (d4, n4)"
    "fold_result (recover_run E (now E)) (filter (\<lambda>r. o_status r = O_executing) (runs d4)) (d4, n4) = Inr (d5, n5)"
    "fold_result (recover_undo E (now E)) (filter (\<lambda>u. u_status u = U_executing) (undos d5)) (d5, n5) = Inr (d6, n6)"
    "fold_result (\<lambda>b e. recoverConfirmationBatch E (b_id b) (now E) e)
       (filter (\<lambda>b. b_status b = B_executing) (batches d6)) d6 = Inr d7"
    "d' = fst (recover_assistant_runs (now E) d7)"
proof -
  obtain d1 x1 where 1: "recover_turns (now E) d = (d1, x1)" by fastforce
  obtain d2 x2 where 2: "recover_steps (now E) d1 = (d2, x2)" by fastforce
  from assms obtain d3 n3 d4 n4 d5 n5 d6 n6 d7 where p:
    "fold_result (recover_confirmation E (now E)) (executing_confirmations d2)
       (d2, \<lparr>n_operations = 0, n_ambiguous = 0, n_undos = 0\<rparr>) = Inr (d3, n3)"
    "fold_result (recover_linked_undo E (now E)) (linked_undos d3) (d3, n3) = Inr (d4, n4)"
    "fold_result (recover_run E (now E)) (filter (\<lambda>r. o_status r = O_executing) (runs d4)) (d4, n4) = Inr (d5, n5)"
    "fold_result (recover_undo E (now E)) (filter (\<lambda>u. u_status u = U_executing) (undos d5)) (d5, n5) = Inr (d6, n6)"
    "fold_result (\<lambda>b e. recoverConfirmationBatch E (b_id b) (now E) e)
       (filter (\<lambda>b. b_status b = B_executing) (batches d6)) d6 = Inr d7"
    by (auto simp: recoverOrphanedRuns_def Let_def 1 2)
  moreover have "d' = fst (recover_assistant_runs (now E) d7)"
    using assms p by (auto simp: recoverOrphanedRuns_def Let_def 1 2 split: prod.splits)
  ultimately show ?thesis using 1 2 that by simp
qed

lemma recoverOrphanedRuns_settles:
  assumes ok: "store_ok d" and r: "recoverOrphanedRuns E d = Inr (d', rep)"
  shows "good_step d d'" and "executing_ids d' = {}" and "executing_runs d' = {}"
    and "steps d' = map (settled_step (now E)) (steps d)"
    and "\<not> list_ex (\<lambda>r. orphaned_phase (r_phase r)) (assistant_runs d')"
proof -
  from r obtain d2 d3 d4 d5 d6 d7 n0 n3 n4 n5 n6 where
    2: "d2 = fst (recover_steps (now E) (fst (recover_turns (now E) d)))" and
    3: "fold_result (recover_confirmation E (now E)) (executing_confirmations d2) (d2, n0) = Inr (d3, n3)" and
    4: "fold_result (recover_linked_undo E (now E)) (linked_undos d3) (d3, n3) = Inr (d4, n4)" and
    5: "fold_result (recover_run E (now E)) (filter (\<lambda>r. o_status r = O_executing) (runs d4)) (d4, n4) = Inr (d5, n5)" and
    6: "fold_result (recover_undo E (now E)) (filter (\<lambda>u. u_status u = U_executing) (undos d5)) (d5, n5) = Inr (d6, n6)" and
    7: "fold_result (\<lambda>b e. recoverConfirmationBatch E (b_id b) (now E) e)
          (filter (\<lambda>b. b_status b = B_executing) (batches d6)) d6 = Inr d7" and
    8: "d' = fst (recover_assistant_runs (now E) d7)"
    by (rule recoverOrphanedRuns_passes)
  have c1: "core_same d (fst (recover_turns (now E) d))" by (rule recover_turns_core)
  have g1: "good_step d (fst (recover_turns (now E) d))" by (rule core_same_good [OF ok c1])
  have g2: "good_step d d2"
    unfolding 2 by (rule good_step_trans [OF g1 recover_steps_good [OF good_step_ok [OF g1]]])
  have r3: "recovers d2 d3 \<and> executing_ids d3 = {}" by (rule recover_confirmations_pass [OF good_step_ok [OF g2] 3])
  have r4: "recovers d3 d4"
    by (rule fold_recovers [where h = fst, OF _ 4, simplified])
      (use recovers_ok [of d2 d3] r3 in \<open>auto dest: recover_linked_undo_recovers\<close>)
  have r5: "recovers d4 d5 \<and> executing_runs d5 = {}" by (rule recover_runs_pass [OF recovers_ok [OF r4] 5])
  have r6: "recovers d5 d6"
    by (rule fold_recovers [where h = fst, OF _ 6, simplified])
      (use recovers_ok [of d4 d5] r5 in \<open>auto dest: recover_undo_recovers\<close>)
  have r7: "recovers d6 d7"
    by (rule fold_recovers [where h = "\<lambda>e. e", OF recovers_ok [OF r6] 7])
      (rule recoverConfirmationBatch_recovers)
  have r8: "recovers d7 d'"
    unfolding 8 by (rule core_same_recovers [OF recovers_ok [OF r7] recover_assistant_runs_core])
  have r37: "recovers d3 d'" using r4 r5 r6 r7 r8 by (meson recovers_trans)
  have r57: "recovers d5 d'" using r6 r7 r8 by (meson recovers_trans)
  have r27: "recovers d2 d'" using r3 r37 by (meson recovers_trans)
  show "good_step d d'" using g2 r27 by (meson recovers_def good_step_trans)
  show "executing_ids d' = {}" using r3 executing_cleared(1) [OF r37] by simp
  show "executing_runs d' = {}" using r5 executing_cleared(2) [OF r57] by simp
  show "steps d' = map (settled_step (now E)) (steps d)"
    using r27 c1 recover_steps_settled [of "now E" "fst (recover_turns (now E) d)"]
    by (simp add: recovers_def drains_def 2 core_same_def)
  show "\<not> list_ex (\<lambda>r. orphaned_phase (r_phase r)) (assistant_runs d')"
    unfolding 8 by (rule recover_assistant_runs_clears)
qed

section \<open>A claimed confirmation keeps the ambiguity its claim recorded\<close>

lemma settle_confirmation_as_effect:
  assumes ok: "store_ok d" and c: "sel c_id k (confirmations d) = Some c" "c_status c = C_executing"
    and u: "settle_confirmation_as E k ref d = Inr (d', n)"
  shows "\<exists>c'. sel c_id k (confirmations d') = Some c' \<and> c_status c' = confirmation_status_of (ref_kind ref)
              \<and> c_action_result_id c' = Some (ref_id ref)"
proof -
  let ?f = "\<lambda>c. c\<lparr>c_status := confirmation_status_of (ref_kind ref), c_action_result_id := Some (ref_id ref),
              c_result_summary := Some (ref_summary ref), c_nonce_hash := [], c_operation := None,
              c_agent_state := None, c_idempotency_key := None\<rparr>"
  have k: "c_id c = k" using sel_SomeD [OF c(1)] by simp
  have "update_confirmation_row E ?f k d = Inr d'"
    using u c by (auto simp: settle_confirmation_as_def update_confirmation_status_one [OF ok])
  moreover have "sel c_id k (confirmations (put_confirmation (?f c) d)) = Some (?f c)"
    using sel_put_confirmation [of "?f c" d c] c k by simp
  ultimately have "sel c_id k (confirmations d') = Some (?f c)"
    by (cases rule: update_confirmation_row_cases)
      (use c in \<open>auto simp: settlement_scrubs_operation_def update_run_plain_def pre_dispatch_terminal_move_def\<close>)
  then show ?thesis by auto
qed

lemma recover_confirmation_recorded:
  assumes ok: "store_ok d" and c: "sel c_id k (confirmations d) = Some c" "c_status c = C_executing"
    and a: "result_of_operation (c_operation_id c) d = Some a"
    and r: "recover_confirmation E t (c, row) (d, n) = Inr (d', n')"
  shows "\<exists>c'. sel c_id k (confirmations d') = Some c' \<and> c_status c' = confirmation_status_of (a_kind a)
              \<and> c_action_result_id c' = Some (a_id a)"
proof -
  let ?ref = "\<lparr>ref_id = a_id a, ref_kind = a_kind a, ref_summary = a_summary a\<rparr>"
  have k: "c_id c = k" using sel_SomeD [OF c(1)] by simp
  have 1: "operation_ref E t row (c_operation_id c) (recovery_kind (c_operation_id c) d) d = Inr (d, ?ref)"
    by (simp add: operation_ref_def operationResult_def a)
  from r obtain d2 m where 2: "settle_confirmation_as E k ?ref d = Inr (d2, m)"
    by (auto simp: recover_confirmation_def Let_def 1 k)
  obtain d3 x where 3: "settle_run_as t (c_operation_id c) ?ref d2 = (d3, x)" by fastforce
  have "confirmations d3 = confirmations d2"
    using 3 by (auto simp: settle_run_as_def update_run_status_def)
  moreover have "confirmations d' = confirmations d3"
    using r by (auto simp: recover_confirmation_def Let_def 1 2 3 k core_same_def split: if_splits
        dest!: update_ledger_core)
  ultimately show ?thesis
    using settle_confirmation_as_effect [OF ok c 2] by simp
qed

end
