(* ===== verification/UndoStore.thy ===== *)
theory UndoStore
  imports Recovery
begin

text \<open>
  The undo ledger (\<open>src/src/db/store/undo.ts\<close> and \<open>startUndoOperation\<close> of \<open>src/src/db/store.ts\<close>): an
  undo record is available for thirty minutes, is claimed once together with the durable operation
  that reverses it, and is settled together with that operation and one canonical result.
\<close>

section \<open>Operations\<close>

definition UNDO_TTL_MS :: int where
  "UNDO_TTL_MS = 30 * 60 * 1000"

record UndoRecordInput =
  ui_sessionId :: string
  ui_workspaceId :: string
  ui_adminUserId :: string
  ui_actionName :: string
  ui_installationGeneration :: "int option"
  ui_reversal :: jsv

text \<open>The column checks and triggers of the table: the primary key, and nothing kept in an expired row.\<close>

definition expired_scrubbed :: "UndoRow \<Rightarrow> bool" where
  "expired_scrubbed u \<longleftrightarrow> (u_status u = U_expired \<longrightarrow> u_reversal u = JArr [] \<and> u_remaining u = JArr [])"

definition insert_undo :: "UndoRow \<Rightarrow> db \<Rightarrow> (string, db) result" where
  "insert_undo u d =
     (if u_id u \<in> u_id ` set (undos d) then Inl ''UNIQUE constraint failed: undo_records.id''
      else if (case u_installation_generation u of None \<Rightarrow> False | Some g \<Rightarrow> g < 1)
      then Inl ''CHECK constraint failed: installation_generation''
      else if \<not> expired_scrubbed u then Inl ''expired_undo_not_scrubbed''
      else Inr (d\<lparr>undos := undos d @ [u]\<rparr>))"

definition available_undo :: "int \<Rightarrow> string \<Rightarrow> UndoRecordInput \<Rightarrow> UndoRow" where
  "available_undo t k input =
     \<lparr>u_id = k, u_session_id = ui_sessionId input, u_workspace_id = ui_workspaceId input,
      u_admin_user_id = ui_adminUserId input, u_action_name = ui_actionName input,
      u_installation_generation = ui_installationGeneration input, u_reversal = ui_reversal input,
      u_remaining = ui_reversal input, u_created_at = t, u_expires_at = t + UNDO_TTL_MS,
      u_status = U_available, u_action_result_id = None, u_result_summary = None, u_undone_at = None\<rparr>"

definition recordUndoable :: "env \<Rightarrow> UndoRecordInput \<Rightarrow> string tx" where
  "recordUndoable E input d =
     (case fresh_id E d of (k, d0) \<Rightarrow>
        and_then (insert_undo (available_undo (now E) k input) d0) (\<lambda>d1. Inr (d1, k)))"

definition expire_undo :: "UndoRow \<Rightarrow> UndoRow" where
  "expire_undo u = u\<lparr>u_status := U_expired, u_reversal := JArr [], u_remaining := JArr []\<rparr>"

text \<open>A read expires the record it finds due.\<close>

definition getUndoRecord :: "env \<Rightarrow> string \<Rightarrow> db \<Rightarrow> db \<times> UndoRow option" where
  "getUndoRecord E k d =
     (case sel u_id k (undos d) of
        None \<Rightarrow> (d, None)
      | Some u \<Rightarrow>
          if u_status u = U_available \<and> u_expires_at u \<le> now E
          then (d\<lparr>undos := upd_where (\<lambda>x. u_id x = k \<and> u_status x = U_available) expire_undo (undos d)\<rparr>, Some (expire_undo u))
          else (d, Some u))"

definition claimable :: "env \<Rightarrow> string \<Rightarrow> UndoRow \<Rightarrow> bool" where
  "claimable E k u \<longleftrightarrow> u_id u = k \<and> u_status u = U_available \<and> now E < u_expires_at u"

definition markUndoExecuting :: "env \<Rightarrow> string \<Rightarrow> db \<Rightarrow> db \<times> bool" where
  "markUndoExecuting E k d =
     (d\<lparr>undos := upd_where (claimable E k) (\<lambda>u. u\<lparr>u_status := U_executing\<rparr>) (undos d)\<rparr>,
      filter (claimable E k) (undos d) \<noteq> [])"

text \<open>The four statuses an undo can settle with, and the result kind each stands for.\<close>

datatype undo_settlement = Undo_partially_undone | Undo_undone | Undo_failed | Undo_outcome_unknown

fun undo_kind :: "undo_settlement \<Rightarrow> ActionResultKind" where
  "undo_kind Undo_partially_undone = R_partial"
| "undo_kind Undo_undone = R_succeeded"
| "undo_kind Undo_outcome_unknown = R_outcome_unknown"
| "undo_kind Undo_failed = R_definitive_failed"

fun undo_status :: "undo_settlement \<Rightarrow> UndoStatus" where
  "undo_status Undo_partially_undone = U_partially_undone"
| "undo_status Undo_undone = U_undone"
| "undo_status Undo_outcome_unknown = U_outcome_unknown"
| "undo_status Undo_failed = U_failed"

definition canonical_receipt :: "jsv \<Rightarrow> jsv" where
  "canonical_receipt result = JObj [(''kind'', JStr ''receipt''), (''receipt'', result)]"

definition undo_result_row ::
  "int \<Rightarrow> string \<Rightarrow> string option \<Rightarrow> string \<Rightarrow> ActionResultKind \<Rightarrow> jsv \<Rightarrow> jsv \<Rightarrow> UndoRow \<Rightarrow> ActionResultRow" where
  "undo_result_row t aid operationId actionName kind resultJson summary u =
     \<lparr>a_id = aid, a_operation_id = operationId, a_workspace_id = u_workspace_id u, a_admin_user_id = u_admin_user_id u,
      a_session_id = Some (u_session_id u), a_action_name = actionName, a_kind = kind, a_result = resultJson,
      a_summary = summary, a_created_at = t\<rparr>"

definition settle_undo_row :: "env \<Rightarrow> string \<Rightarrow> undo_settlement \<Rightarrow> jsv \<Rightarrow> string \<Rightarrow> jsv \<Rightarrow> db \<Rightarrow> db \<times> nat" where
  "settle_undo_row E k status remaining aid summary d =
     (let P = (\<lambda>u. u_id u = k \<and> u_status u = U_executing) in
      (d\<lparr>undos := upd_where P (\<lambda>u. u\<lparr>u_status := undo_status status, u_remaining := remaining,
           u_action_result_id := Some aid, u_result_summary := Some summary, u_undone_at := Some (now E)\<rparr>) (undos d)\<rparr>,
       length (filter P (undos d))))"

text \<open>Both settlements write the result first; a step that changes no row aborts the transaction.\<close>

definition insert_undo_result ::
  "env \<Rightarrow> string option \<Rightarrow> string \<Rightarrow> undo_settlement \<Rightarrow> jsv \<Rightarrow> UndoRow \<Rightarrow> ActionResultRef tx" where
  "insert_undo_result E operationId actionName status result u d =
     (case fresh_id E d of (aid, d0) \<Rightarrow>
        and_then (canonical_summary aid (canonical_receipt result)) (\<lambda>summary.
        and_then (canonical_result (canonical_receipt result)) (\<lambda>resultJson.
        and_then (insert_result (undo_result_row (now E) aid operationId actionName (undo_kind status) resultJson summary u) d0) (\<lambda>d1.
          Inr (d1, \<lparr>ref_id = aid, ref_kind = undo_kind status, ref_summary = summary\<rparr>)))))"

definition settleUndo :: "env \<Rightarrow> string \<Rightarrow> undo_settlement \<Rightarrow> jsv \<Rightarrow> jsv \<Rightarrow> ActionResultRef tx" where
  "settleUndo E k status remaining result d =
     (case find (\<lambda>u. u_id u = k \<and> u_status u = U_executing) (undos d) of
        None \<Rightarrow> Inl ''undo_not_executing''
      | Some u \<Rightarrow>
          and_then (insert_undo_result E None ''undo'' status result u d) (\<lambda>(d1, ref).
          case settle_undo_row E k status remaining (ref_id ref) (ref_summary ref) d1 of
            (d2, n) \<Rightarrow> if n \<noteq> 1 then Inl ''undo_not_executing'' else Inr (d2, ref)))"

text \<open>The owner joins the undo with its executing operation of the same session, workspace and admin.\<close>

definition undo_owner :: "string \<Rightarrow> string \<Rightarrow> db \<Rightarrow> (UndoRow \<times> OperationRunRow) option" where
  "undo_owner k oid d =
     find (\<lambda>(u, r). u_id u = k \<and> u_status u = U_executing \<and> o_id r = oid \<and> o_session_id r = u_session_id u
             \<and> o_workspace_id r = u_workspace_id u \<and> o_admin_user_id r = u_admin_user_id u
             \<and> o_action_name r = ''undo'' \<and> o_status r = O_executing \<and> o_action_result_id r = None)
       (List.product (undos d) (runs d))"

definition settleUndoOperation ::
  "env \<Rightarrow> string \<Rightarrow> string \<Rightarrow> undo_settlement \<Rightarrow> jsv \<Rightarrow> jsv \<Rightarrow> ActionResultRef tx" where
  "settleUndoOperation E k oid status remaining result d =
     (case undo_owner k oid d of
        None \<Rightarrow> Inl ''undo_operation_not_executing''
      | Some (u, r) \<Rightarrow>
          and_then (insert_undo_result E (Some oid) (o_action_name r) status result u d) (\<lambda>(d1, ref).
          case settle_undo_row E k status remaining (ref_id ref) (ref_summary ref) d1 of (d2, n) \<Rightarrow>
            if n \<noteq> 1 then Inl ''undo_not_executing''
            else case update_run_status
                   (\<lambda>x. o_id x = oid \<and> o_status x = O_executing \<and> o_action_result_id x = None)
                   (\<lambda>x. x\<lparr>o_status := run_status_of (undo_kind status), o_action_result_id := Some (ref_id ref),
                          o_updated_at := now E\<rparr>) d2 of
                 (d3, m) \<Rightarrow> if m \<noteq> 1 then Inl ''operation_not_executing'' else Inr (d3, ref)))"

definition startUndoOperation :: "env \<Rightarrow> string \<Rightarrow> PrepareOperationRunInput \<Rightarrow> string option tx" where
  "startUndoOperation E k input d =
     (case markUndoExecuting E k d of (d1, claimed) \<Rightarrow>
        if \<not> claimed then Inr (d1, None)
        else and_then (prepareOperationRun E input d1) (\<lambda>(d2, oid).
             case markOperationExecuting E oid d2 of (d3, started) \<Rightarrow>
               if \<not> started then Inl ''operation_not_prepared'' else Inr (d3, Some oid)))"

section \<open>The life of an undo record\<close>

fun undo_reach :: "UndoStatus \<Rightarrow> UndoStatus \<Rightarrow> bool" where
  "undo_reach U_available t = True"
| "undo_reach U_executing t \<longleftrightarrow> t \<notin> {U_available, U_expired}"
| "undo_reach s t \<longleftrightarrow> s = t"

definition undo_settled :: "UndoStatus \<Rightarrow> bool" where
  "undo_settled s \<longleftrightarrow> s \<notin> {U_available, U_executing, U_expired}"

definition undo_move :: "UndoRow \<Rightarrow> UndoRow \<Rightarrow> bool" where
  "undo_move u u' \<longleftrightarrow>
     u_id u' = u_id u \<and> u_session_id u' = u_session_id u \<and> u_workspace_id u' = u_workspace_id u
     \<and> u_admin_user_id u' = u_admin_user_id u \<and> u_action_name u' = u_action_name u
     \<and> u_installation_generation u' = u_installation_generation u
     \<and> u_created_at u' = u_created_at u \<and> u_expires_at u' = u_expires_at u
     \<and> (u_reversal u' = u_reversal u \<or> u_status u' = U_expired)
     \<and> (undo_settled (u_status u) \<longrightarrow> u' = u)
     \<and> undo_reach (u_status u) (u_status u')"

lemma undo_reach_refl [simp]: "undo_reach s s"
  by (cases s) auto

lemma undo_reach_trans: "undo_reach s t \<Longrightarrow> undo_reach t u \<Longrightarrow> undo_reach s u"
  by (cases s; cases t; simp; cases u; simp)

lemma undo_reach_expired [simp]: "undo_reach U_expired t \<longleftrightarrow> t = U_expired"
  by auto

interpretation undo_lc: lifecycle u_id undo_move
proof
  show "undo_move r r" for r by (simp add: undo_move_def)
  show "u_id s = u_id r" if "undo_move r s" for r s using that by (simp add: undo_move_def)
  show "undo_move r t" if "undo_move r s" "undo_move s t" for r s t
  proof -
    have "undo_reach (u_status r) (u_status t)" using that undo_reach_trans by (auto simp: undo_move_def)
    moreover have "u_reversal t = u_reversal r \<or> u_status t = U_expired"
      using that by (auto simp: undo_move_def)
    ultimately show ?thesis using that by (auto simp: undo_move_def)
  qed
qed

text \<open>
  Every row holds nothing once expired, and carries its result exactly when it is settled.
\<close>

definition undo_row_ok :: "UndoRow \<Rightarrow> bool" where
  "undo_row_ok u \<longleftrightarrow> expired_scrubbed u \<and> (undo_settled (u_status u) \<longleftrightarrow> u_action_result_id u \<noteq> None)"

definition undos_ok :: "db \<Rightarrow> bool" where
  "undos_ok d \<longleftrightarrow> distinct (map u_id (undos d)) \<and> list_all undo_row_ok (undos d)"

definition undos_later :: "db \<Rightarrow> db \<Rightarrow> bool" where
  "undos_later d d' \<longleftrightarrow> undos_ok d' \<and> follows undo_move (undos d) (undos d')"

lemma undos_later_refl: "undos_ok d \<Longrightarrow> undos_later d d"
  by (simp add: undos_later_def undo_lc.follows_refl)

lemma undos_later_trans: "undos_later d e \<Longrightarrow> undos_later e f \<Longrightarrow> undos_later d f"
  unfolding undos_later_def using undo_lc.follows_trans by blast

text \<open>An update of permitted rows; an operation that leaves the table alone.\<close>

lemma undos_later_upd:
  assumes ok: "undos_ok d" and u: "undos d' = upd_where P f (undos d)" and key: "\<And>u. u_id (f u) = u_id u"
    and mv: "\<And>u. u \<in> set (undos d) \<Longrightarrow> P u \<Longrightarrow> undo_row_ok u \<Longrightarrow> undo_move u (f u) \<and> undo_row_ok (f u)"
  shows "undos_later d d'"
proof -
  have mv': "undo_move x (f x)" "undo_row_ok (f x)" if "x \<in> set (undos d)" "P x" for x
    using mv that ok by (auto simp: undos_ok_def list_all_iff)
  have "map u_id (undos d') = map u_id (undos d)"
    unfolding u using key by (rule map_key_upd_where)
  moreover have "list_all undo_row_ok (undos d')"
    using mv'(2) ok by (auto simp: u undos_ok_def list_all_iff elim!: in_upd_whereE)
  ultimately show ?thesis
    using ok undo_lc.follows_upd [of "undos d" P f] mv'(1) by (simp add: undos_later_def undos_ok_def u)
qed

lemma undos_later_same: "undos_ok d \<Longrightarrow> undos d' = undos d \<Longrightarrow> undos_later d d'"
  by (simp add: undos_later_def undos_ok_def undo_lc.follows_refl)

section \<open>Every operation moves records forward\<close>

lemma recordUndoable_later:
  assumes ok: "undos_ok d" and r: "recordUndoable E input d = Inr (d', k)"
  shows "undos_later d d'"
proof -
  let ?d0 = "d\<lparr>entropy := Suc (entropy d)\<rparr>"
  have i: "insert_undo (available_undo (now E) k input) ?d0 = Inr d'"
    using r by (auto simp: recordUndoable_def fresh_id_def)
  define u where "u = available_undo (now E) k input"
  have st: "u_status u = U_available" "u_action_result_id u = None" by (simp_all add: u_def available_undo_def)
  from i [folded u_def] have "undos d' = undos d @ [u]" "u_id u \<notin> u_id ` set (undos d)" "expired_scrubbed u"
    by (auto simp: insert_undo_def split: if_splits)
  with ok st show ?thesis
    by (simp add: undos_later_def undos_ok_def undo_row_ok_def undo_settled_def undo_lc.follows_append)
qed

lemma getUndoRecord_later: "undos_ok d \<Longrightarrow> undos_later d (fst (getUndoRecord E k d))"
  by (auto simp: getUndoRecord_def undos_later_refl undo_move_def undo_row_ok_def expire_undo_def expired_scrubbed_def
      undo_settled_def split: option.splits intro!: undos_later_upd)

lemma markUndoExecuting_later: "undos_ok d \<Longrightarrow> undos_later d (fst (markUndoExecuting E k d))"
  by (rule undos_later_upd [where P = "claimable E k" and f = "\<lambda>u. u\<lparr>u_status := U_executing\<rparr>"])
    (auto simp: markUndoExecuting_def claimable_def undo_move_def undo_row_ok_def expired_scrubbed_def undo_settled_def)

lemma settle_undo_row_later:
  assumes "undos_ok d" "settle_undo_row E k status remaining aid summary d = (d', n)"
  shows "undos_later d d'"
proof (rule undos_later_upd [OF assms(1)])
  show "undos d' = upd_where (\<lambda>u. u_id u = k \<and> u_status u = U_executing)
      (\<lambda>u. u\<lparr>u_status := undo_status status, u_remaining := remaining, u_action_result_id := Some aid,
           u_result_summary := Some summary, u_undone_at := Some (now E)\<rparr>) (undos d)"
    using assms(2) by (auto simp: settle_undo_row_def Let_def)
qed (cases status; auto simp: undo_move_def undo_row_ok_def expired_scrubbed_def undo_settled_def)+

text \<open>The statement with which the recovery at startup settles an undo.\<close>

lemma settle_undo_as_later:
  assumes "undos_ok d" "settle_undo_as t k status ref d = (d', n)" "status = U_failed \<or> status = U_outcome_unknown"
  shows "undos_later d d'"
proof (rule undos_later_upd [OF assms(1)])
  show "undos d' = upd_where (\<lambda>u. u_id u = k \<and> u_status u = U_executing)
      (\<lambda>u. u\<lparr>u_status := status, u_action_result_id := Some (ref_id ref),
           u_result_summary := Some (ref_summary ref), u_undone_at := Some t\<rparr>) (undos d)"
    using assms(2) by (auto simp: settle_undo_as_def Let_def)
qed (use assms(3) in \<open>auto simp: undo_move_def undo_row_ok_def expired_scrubbed_def undo_settled_def\<close>)+

lemma insert_undo_result_frame:
  assumes "insert_undo_result E oid name status result u d = Inr (d', ref)"
  shows "undos d' = undos d \<and> runs d' = runs d \<and> ref_kind ref = undo_kind status
    \<and> (\<exists>v summary. a_kind v = undo_kind status \<and> a_operation_id v = oid \<and> a_id v = ref_id ref \<and> a_summary v = ref_summary ref
         \<and> results d' = results d @ [v])"
  using assms by (auto simp: insert_undo_result_def fresh_id_def insert_result_def undo_result_row_def split: if_splits)

lemma settleUndo_parts:
  assumes "settleUndo E k status remaining result d = Inr (d', ref)"
  obtains u d1 n where "insert_undo_result E None ''undo'' status result u d = Inr (d1, ref)"
    "settle_undo_row E k status remaining (ref_id ref) (ref_summary ref) d1 = (d', n)" "n = 1"
proof -
  from assms obtain u d1 r1 where i: "insert_undo_result E None ''undo'' status result u d = Inr (d1, r1)"
    and s: "(case settle_undo_row E k status remaining (ref_id r1) (ref_summary r1) d1 of
            (d2, n) \<Rightarrow> if n \<noteq> 1 then Inl ''undo_not_executing'' else Inr (d2, r1)) = Inr (d', ref)"
    by (auto simp: settleUndo_def split: option.splits)
  obtain d2 n where "settle_undo_row E k status remaining (ref_id r1) (ref_summary r1) d1 = (d2, n)" by fastforce
  with i s that show thesis by (auto split: if_splits)
qed

lemma settleUndo_later:
  assumes ok: "undos_ok d" and s: "settleUndo E k status remaining result d = Inr (d', ref)"
  shows "undos_later d d'"
proof -
  from s obtain u d1 n where 1: "insert_undo_result E None ''undo'' status result u d = Inr (d1, ref)"
    and 2: "settle_undo_row E k status remaining (ref_id ref) (ref_summary ref) d1 = (d', n)"
    by (rule settleUndo_parts)
  have "undos_later d d1" using insert_undo_result_frame [OF 1] ok by (simp add: undos_later_same)
  with settle_undo_row_later [OF _ 2] show ?thesis using undos_later_trans undos_later_def by blast
qed


lemma undo_owner_SomeD:
  assumes "undo_owner k oid d = Some (u, r)"
  shows "u \<in> set (undos d) \<and> r \<in> set (runs d) \<and> u_id u = k \<and> u_status u = U_executing \<and> o_id r = oid
    \<and> o_session_id r = u_session_id u \<and> o_workspace_id r = u_workspace_id u \<and> o_admin_user_id r = u_admin_user_id u
    \<and> o_action_name r = ''undo'' \<and> o_status r = O_executing \<and> o_action_result_id r = None"
proof -
  from assms obtain i where "i < length (List.product (undos d) (runs d))" "List.product (undos d) (runs d) ! i = (u, r)"
    unfolding undo_owner_def find_Some_iff by auto
  then have "(u, r) \<in> set (List.product (undos d) (runs d))" by (metis nth_mem)
  with assms show ?thesis unfolding undo_owner_def find_Some_iff by auto
qed

lemma settleUndoOperation_parts:
  assumes "settleUndoOperation E k oid status remaining result d = Inr (d', ref)"
  obtains u r d1 d2 n m where "undo_owner k oid d = Some (u, r)"
    "insert_undo_result E (Some oid) ''undo'' status result u d = Inr (d1, ref)"
    "settle_undo_row E k status remaining (ref_id ref) (ref_summary ref) d1 = (d2, n)" "n = 1"
    "update_run_status (\<lambda>x. o_id x = oid \<and> o_status x = O_executing \<and> o_action_result_id x = None)
       (\<lambda>x. x\<lparr>o_status := run_status_of (undo_kind status), o_action_result_id := Some (ref_id ref),
              o_updated_at := now E\<rparr>) d2 = (d', m)" "m = 1"
proof -
  from assms obtain u r where o: "undo_owner k oid d = Some (u, r)"
    by (auto simp: settleUndoOperation_def split: option.splits)
  with undo_owner_SomeD [OF o] assms obtain d1 r1 where
    i: "insert_undo_result E (Some oid) ''undo'' status result u d = Inr (d1, r1)" and
    s: "(case settle_undo_row E k status remaining (ref_id r1) (ref_summary r1) d1 of (d2, n) \<Rightarrow>
            if n \<noteq> 1 then Inl ''undo_not_executing''
            else case update_run_status
                   (\<lambda>x. o_id x = oid \<and> o_status x = O_executing \<and> o_action_result_id x = None)
                   (\<lambda>x. x\<lparr>o_status := run_status_of (undo_kind status), o_action_result_id := Some (ref_id r1),
                          o_updated_at := now E\<rparr>) d2 of
                 (d3, m) \<Rightarrow> if m \<noteq> 1 then Inl ''operation_not_executing'' else Inr (d3, r1)) = Inr (d', ref)"
    by (auto simp: settleUndoOperation_def)
  obtain d2 n where u: "settle_undo_row E k status remaining (ref_id r1) (ref_summary r1) d1 = (d2, n)" by fastforce
  obtain d3 m where r: "update_run_status (\<lambda>x. o_id x = oid \<and> o_status x = O_executing \<and> o_action_result_id x = None)
       (\<lambda>x. x\<lparr>o_status := run_status_of (undo_kind status), o_action_result_id := Some (ref_id r1),
              o_updated_at := now E\<rparr>) d2 = (d3, m)" by fastforce
  from s u r have "n = 1" "m = 1" "d3 = d'" "r1 = ref" by (auto split: if_splits)
  with o i u r that show thesis by blast
qed

lemma settleUndoOperation_later:
  assumes ok: "undos_ok d" and s: "settleUndoOperation E k oid status remaining result d = Inr (d', ref)"
  shows "undos_later d d'"
proof -
  from s obtain u r d1 d2 n m where 1: "insert_undo_result E (Some oid) ''undo'' status result u d = Inr (d1, ref)"
    and 2: "settle_undo_row E k status remaining (ref_id ref) (ref_summary ref) d1 = (d2, n)"
    and 3: "update_run_status (\<lambda>x. o_id x = oid \<and> o_status x = O_executing \<and> o_action_result_id x = None)
       (\<lambda>x. x\<lparr>o_status := run_status_of (undo_kind status), o_action_result_id := Some (ref_id ref),
              o_updated_at := now E\<rparr>) d2 = (d', m)"
    by (rule settleUndoOperation_parts)
  have "undos_later d d1" using insert_undo_result_frame [OF 1] ok by (simp add: undos_later_same)
  moreover from this have "undos_later d1 d2" using settle_undo_row_later [OF _ 2] by (simp add: undos_later_def)
  moreover from this have "undos_later d2 d'"
    using 3 by (intro undos_later_same) (auto simp: update_run_status_def undos_later_def)
  ultimately show ?thesis using undos_later_trans by blast
qed

lemma prepareOperationRun_undos: "prepareOperationRun E input d = Inr (d', k) \<Longrightarrow> undos d' = undos d"
  by (auto simp: prepareOperationRun_def id_or_fresh_def fresh_id_def insert_run_def Let_def
      split: if_splits option.splits sum.splits)

lemma startUndoOperation_cases:
  assumes "startUndoOperation E k input d = Inr (d', oid)"
  obtains (refused) "markUndoExecuting E k d = (d', False)" "oid = None"
  | (started) d1 d2 o' where "markUndoExecuting E k d = (d1, True)" "prepareOperationRun E input d1 = Inr (d2, o')"
      "markOperationExecuting E o' d2 = (d', True)" "oid = Some o'"
proof -
  obtain d1 b where m: "markUndoExecuting E k d = (d1, b)" by fastforce
  show thesis
  proof (cases b)
    case False
    with assms m refused show thesis by (simp add: startUndoOperation_def)
  next
    case True
    with assms m obtain d2 o' where p: "prepareOperationRun E input d1 = Inr (d2, o')" and
      s: "(case markOperationExecuting E o' d2 of (d3, started) \<Rightarrow>
             if \<not> started then Inl ''operation_not_prepared'' else Inr (d3, Some o')) = Inr (d', oid)"
      by (auto simp: startUndoOperation_def)
    obtain d3 b' where x: "markOperationExecuting E o' d2 = (d3, b')" by fastforce
    with s have "b'" "d3 = d'" "oid = Some o'" by (auto split: if_splits)
    with started [of d1 d2 o'] m True p x show thesis by simp
  qed
qed

lemma startUndoOperation_later:
  assumes ok: "undos_ok d" and s: "startUndoOperation E k input d = Inr (d', oid)"
  shows "undos_later d d'"
  using s
proof (cases rule: startUndoOperation_cases)
  case refused
  with markUndoExecuting_later [OF ok, of E k] show ?thesis by simp
next
  case (started d1 d2 o')
  have l: "undos_later d d1" using markUndoExecuting_later [OF ok, of E k] started(1) by simp
  have "undos d' = undos d1"
    using prepareOperationRun_undos [OF started(2)] started(3) by (auto simp: markOperationExecuting_def update_run_status_def)
  with undos_later_trans [OF l undos_later_same] l show ?thesis by (simp add: undos_later_def)
qed

section \<open>One use\<close>

definition claims_undo :: "string \<Rightarrow> db \<Rightarrow> db \<Rightarrow> bool" where
  "claims_undo k d d' \<longleftrightarrow> (\<exists>E input oid. startUndoOperation E k input d = Inr (d', Some oid))"

definition undo_spent :: "string \<Rightarrow> db \<Rightarrow> bool" where
  "undo_spent k d \<longleftrightarrow> (\<exists>u. sel u_id k (undos d) = Some u \<and> u_status u \<noteq> U_available)"

text \<open>A claim finds the record available and live, and leaves it executing.\<close>

lemma markUndoExecuting_effect:
  assumes ok: "undos_ok d" and m: "markUndoExecuting E k d = (d', True)"
  shows "\<exists>u. sel u_id k (undos d) = Some u \<and> u_status u = U_available \<and> now E < u_expires_at u
    \<and> sel u_id k (undos d') = Some (u\<lparr>u_status := U_executing\<rparr>)"
proof -
  have dist: "distinct (map u_id (undos d))" using ok by (simp add: undos_ok_def)
  from m obtain u where u: "u \<in> set (undos d)" "claimable E k u"
    by (auto simp: markUndoExecuting_def filter_empty_conv)
  then have k: "sel u_id k (undos d) = Some u" using sel_distinct [OF dist u(1)] by (simp add: claimable_def)
  have "sel u_id k (undos d') = Some (u\<lparr>u_status := U_executing\<rparr>)"
    using m k u(2) by (auto simp: markUndoExecuting_def sel_upd_where)
  with k u(2) show ?thesis by (auto simp: claimable_def)
qed

lemma undo_spent_later:
  assumes "undos_later d d'" "undo_spent k d"
  shows "undo_spent k d'"
proof -
  from assms(2) obtain u where u: "sel u_id k (undos d) = Some u" "u_status u \<noteq> U_available" by (auto simp: undo_spent_def)
  from undo_lc.follows_sel [OF _ u(1)] assms(1) obtain u' where "sel u_id k (undos d') = Some u'" "undo_move u u'"
    by (auto simp: undos_later_def)
  moreover from this have "u_status u' \<noteq> U_available" using u(2) by (cases "u_status u") (auto simp: undo_move_def)
  ultimately show ?thesis by (auto simp: undo_spent_def)
qed

interpretation undo_claim: one_use undos_ok undos_later claims_undo undo_spent
proof
  fix d d' k
  assume ok: "undos_ok d"
  show "undos_later d d'" if "claims_undo k d d'"
    using that startUndoOperation_later [OF ok] by (auto simp: claims_undo_def)
  show "undo_spent k d'" if "claims_undo k d d'"
  proof -
    from that obtain E input oid where s: "startUndoOperation E k input d = Inr (d', Some oid)" by (auto simp: claims_undo_def)
    from s show ?thesis
    proof (cases rule: startUndoOperation_cases)
      case (started d1 d2 o')
      have "undos d' = undos d1"
        using prepareOperationRun_undos [OF started(2)] started(3) by (auto simp: markOperationExecuting_def update_run_status_def)
      with markUndoExecuting_effect [OF ok started(1)] show ?thesis by (auto simp: undo_spent_def)
    qed simp
  qed
  show "undo_spent k d'" if "undos_later d d'" "undo_spent k d" using that by (rule undo_spent_later)
  show "\<not> claims_undo k d d'" if "undo_spent k d"
  proof
    assume "claims_undo k d d'"
    then obtain E input oid where s: "startUndoOperation E k input d = Inr (d', Some oid)" by (auto simp: claims_undo_def)
    from s show False
    proof (cases rule: startUndoOperation_cases)
      case (started d1 d2 o')
      from markUndoExecuting_effect [OF ok started(1)] that show False by (auto simp: undo_spent_def)
    qed simp
  qed
next
  fix d d'
  show "undos_ok d'" if "undos_later d d'" using that by (simp add: undos_later_def)
qed

section \<open>Settlement\<close>

text \<open>Settling the rows of one key: exactly the one row changes.\<close>

lemma settle_undo_row_effect:
  assumes ok: "undos_ok d" and s: "settle_undo_row E k status remaining aid summary d = (d', n)" and n: "n = 1"
  shows "\<exists>u. sel u_id k (undos d) = Some u \<and> u_status u = U_executing
    \<and> sel u_id k (undos d') = Some (u\<lparr>u_status := undo_status status, u_remaining := remaining,
        u_action_result_id := Some aid, u_result_summary := Some summary, u_undone_at := Some (now E)\<rparr>)"
proof -
  have dist: "distinct (map u_id (undos d))" using ok by (simp add: undos_ok_def)
  have "filter (\<lambda>u. u_id u = k \<and> u_status u = U_executing) (undos d) \<noteq> []"
    using s n by (auto simp: settle_undo_row_def Let_def)
  then obtain u where u: "u \<in> set (undos d)" "u_id u = k" "u_status u = U_executing" by (auto simp: filter_empty_conv)
  then have k: "sel u_id k (undos d) = Some u" using sel_distinct [OF dist u(1)] by simp
  from s k u show ?thesis by (auto simp: settle_undo_row_def Let_def sel_upd_where)
qed

lemma insert_undo_result_good:
  assumes ok: "store_ok d" and i: "insert_undo_result E oid name status result u d = Inr (d', ref)"
  shows "good_step d d'"
proof -
  obtain aid d0 where d0: "fresh_id E d = (aid, d0)" by fastforce
  with i obtain a where a: "insert_result a d0 = Inr d'" by (auto simp: insert_undo_result_def)
  have g: "good_step d d0" by (rule core_same_good [OF ok fresh_id_core [OF d0]])
  from good_step_trans [OF g insert_result_good [OF good_step_ok [OF g] a]] show ?thesis .
qed

lemma settle_undo_row_core: "settle_undo_row E k status remaining aid summary d = (d', n) \<Longrightarrow> core_same d d'"
  by (auto simp: settle_undo_row_def Let_def core_same_def)

lemma undo_run_move:
  "o_status r = O_executing \<Longrightarrow>
   run_move r (r\<lparr>o_status := run_status_of (undo_kind status), o_action_result_id := aid, o_updated_at := t\<rparr>)"
  by (cases status) (simp_all add: run_move_def)

lemma settleUndo_good:
  assumes ok: "store_ok d" and s: "settleUndo E k status remaining result d = Inr (d', ref)"
  shows "good_step d d'"
proof -
  from s obtain u d1 n where 1: "insert_undo_result E None ''undo'' status result u d = Inr (d1, ref)"
    and 2: "settle_undo_row E k status remaining (ref_id ref) (ref_summary ref) d1 = (d', n)"
    by (rule settleUndo_parts)
  have g: "good_step d d1" by (rule insert_undo_result_good [OF ok 1])
  from good_step_trans [OF g core_same_good [OF good_step_ok [OF g] settle_undo_row_core [OF 2]]] show ?thesis .
qed

text \<open>
  The settlement of an undo and its operation is one transition: the record, the run and the new
  result agree, and the record and the run point to that result.
\<close>

lemma settleUndoOperation_effect:
  assumes sok: "store_ok d" and ok: "undos_ok d" and s: "settleUndoOperation E k oid status remaining result d = Inr (d', ref)"
  shows "good_step d d' \<and> ref_kind ref = undo_kind status
    \<and> (\<exists>u. sel u_id k (undos d') = Some u \<and> u_status u = undo_status status \<and> u_remaining u = remaining
         \<and> u_action_result_id u = Some (ref_id ref))
    \<and> (\<exists>r. sel o_id oid (runs d') = Some r \<and> o_status r = run_status_of (undo_kind status)
         \<and> o_action_result_id r = Some (ref_id ref))
    \<and> (\<exists>a\<in>set (results d'). a_id a = ref_id ref \<and> a_kind a = undo_kind status \<and> a_operation_id a = Some oid)"
proof -
  from s obtain u r d1 d2 n m where o: "undo_owner k oid d = Some (u, r)"
    and 1: "insert_undo_result E (Some oid) ''undo'' status result u d = Inr (d1, ref)"
    and 2: "settle_undo_row E k status remaining (ref_id ref) (ref_summary ref) d1 = (d2, n)" "n = 1"
    and 3: "update_run_status (\<lambda>x. o_id x = oid \<and> o_status x = O_executing \<and> o_action_result_id x = None)
       (\<lambda>x. x\<lparr>o_status := run_status_of (undo_kind status), o_action_result_id := Some (ref_id ref),
              o_updated_at := now E\<rparr>) d2 = (d', m)" "m = 1"
    by (rule settleUndoOperation_parts)
  note f = insert_undo_result_frame [OF 1] and ow = undo_owner_SomeD [OF o]
  have g1: "good_step d d1" by (rule insert_undo_result_good [OF sok 1])
  have g2: "good_step d1 d2" by (rule core_same_good [OF good_step_ok [OF g1] settle_undo_row_core [OF 2(1)]])
  have g3: "good_step d2 d'" by (rule update_run_status_result [OF 3(1) good_step_ok [OF g2]]) (auto intro: undo_run_move)
  have ok1: "undos_ok d1" using ok f by (simp add: undos_ok_def)
  have eq: "undos d' = undos d2" "results d' = results d2" "results d2 = results d1" "runs d2 = runs d"
    using 2(1) 3(1) f by (auto simp: settle_undo_row_def update_run_status_def Let_def)
  from settle_undo_row_effect [OF ok1 2] have u': "\<exists>u. sel u_id k (undos d') = Some u \<and> u_status u = undo_status status
      \<and> u_remaining u = remaining \<and> u_action_result_id u = Some (ref_id ref)"
    by (auto simp: eq)
  have r: "sel o_id oid (runs d) = Some r" using sel_distinct [OF store_ok_distinct(2) [OF sok], of r] ow by simp
  have "sel o_id oid (runs d') = Some (terminal_scrub (r\<lparr>o_status := run_status_of (undo_kind status),
      o_action_result_id := Some (ref_id ref), o_updated_at := now E\<rparr>))"
    using 3(1) r ow by (auto simp: update_run_status_def eq sel_upd_where terminal_scrub_fields)
  then have r': "\<exists>r. sel o_id oid (runs d') = Some r \<and> o_status r = run_status_of (undo_kind status)
      \<and> o_action_result_id r = Some (ref_id ref)" by (simp add: terminal_scrub_fields)
  from f eq have "\<exists>a\<in>set (results d'). a_id a = ref_id ref \<and> a_kind a = undo_kind status \<and> a_operation_id a = Some oid" by auto
  with u' r' f good_step_trans [OF good_step_trans [OF g1 g2] g3] show ?thesis by blast
qed

section \<open>Executions of the ledger\<close>

text \<open>
  Any interleaving of the operations that write undo records, with the statement of the recovery, and
  of anything else the store does, which leaves the table alone.
\<close>

inductive undo_step :: "db \<Rightarrow> db \<Rightarrow> bool" where
  records: "recordUndoable E input d = Inr (d', k) \<Longrightarrow> undo_step d d'"
| reads: "undo_step d (fst (getUndoRecord E k d))"
| starts: "startUndoOperation E k input d = Inr (d', oid) \<Longrightarrow> undo_step d d'"
| marks: "undo_step d (fst (markUndoExecuting E k d))"
| settles: "settleUndo E k status remaining result d = Inr (d', ref) \<Longrightarrow> undo_step d d'"
| settles_operation: "settleUndoOperation E k oid status remaining result d = Inr (d', ref) \<Longrightarrow> undo_step d d'"
| recovers: "settle_undo_as t k s ref d = (d', n) \<Longrightarrow> s = U_failed \<or> s = U_outcome_unknown \<Longrightarrow> undo_step d d'"
| elsewhere: "undos d' = undos d \<Longrightarrow> undo_step d d'"

lemma undo_step_later: "undo_step d d' \<Longrightarrow> undos_ok d \<Longrightarrow> undos_later d d'"
  by (erule undo_step.cases)
    (auto intro: recordUndoable_later startUndoOperation_later settleUndo_later settleUndoOperation_later
      settle_undo_as_later undos_later_same simp: getUndoRecord_later markUndoExecuting_later)

interpretation undo_system: step_system "\<lambda>d. undos d = []" undo_step undos_ok
proof
  show "undos_ok s" if "undos s = []" for s using that by (simp add: undos_ok_def)
  show "undos_ok t" if "undos_ok s" "undo_step s t" for s t using undo_step_later [OF that(2,1)] by (simp add: undos_later_def)
qed

lemma undo_steps_later: "undo_step\<^sup>*\<^sup>* d d' \<Longrightarrow> undos_ok d \<Longrightarrow> undos_later\<^sup>*\<^sup>* d d'"
proof (induction rule: rtranclp_induct)
  case (step e f)
  have "undos_ok e" by (rule undo_system.steps_inv [OF step.hyps(1) step.prems])
  with step show ?case by (meson undo_step_later rtranclp.rtrancl_into_rtrancl)
qed simp

lemma undos_later_steps: "undos_later\<^sup>*\<^sup>* d d' \<Longrightarrow> undos_ok d \<Longrightarrow> undos_later d d'"
  by (induction rule: rtranclp_induct) (auto intro: undos_later_refl undos_later_trans)

text \<open>A settled record is final: whatever happens, the row stays exactly as it is.\<close>

lemma settled_undo_final:
  assumes "undo_step\<^sup>*\<^sup>* d d'" "undos_ok d" "sel u_id k (undos d) = Some u" "undo_settled (u_status u)"
  shows "sel u_id k (undos d') = Some u"
proof -
  have "follows undo_move (undos d) (undos d')"
    using undos_later_steps [OF undo_steps_later [OF assms(1,2)] assms(2)] by (simp add: undos_later_def)
  from undo_lc.follows_sel [OF this assms(3)] assms(4) show ?thesis by (auto simp: undo_move_def)
qed

lemma undo_claimed_once:
  assumes "undos_ok d" "startUndoOperation E k input d = Inr (d1, Some oid)" "undo_step\<^sup>*\<^sup>* d1 d2"
    "startUndoOperation E' k input' d2 = Inr (d3, oid')"
  shows "oid' = None"
proof -
  have c: "claims_undo k d d1" using assms(2) by (auto simp: claims_undo_def)
  have "undos_ok d1" using undo_claim.later_ok undo_claim.claim_later [OF assms(1) c] by blast
  from undo_claim.at_most_once [OF assms(1) c undo_steps_later [OF assms(3) this]] have "\<not> claims_undo k d2 d3" .
  with assms(4) show ?thesis by (cases oid') (auto simp: claims_undo_def)
qed

text \<open>A record that is due cannot be claimed, and a read leaves nothing of it.\<close>

lemma expired_undo_refused:
  assumes "undos_ok d" "sel u_id k (undos d) = Some u" "u_expires_at u \<le> now E"
  shows "startUndoOperation E k input d = Inr (d, None)"
    "u_status u = U_available \<Longrightarrow>
     \<exists>v. getUndoRecord E k d = (fst (getUndoRecord E k d), Some v) \<and> u_status v = U_expired \<and> u_reversal v = JArr [] \<and> u_remaining v = JArr []"
proof -
  have dist: "distinct (map u_id (undos d))" using assms(1) by (simp add: undos_ok_def)
  have none: "\<not> claimable E k x" if "x \<in> set (undos d)" for x
    using sel_distinct [OF dist that] assms(2,3) by (auto simp: claimable_def)
  then have "upd_where (claimable E k) (\<lambda>u. u\<lparr>u_status := U_executing\<rparr>) (undos d) = undos d" "filter (claimable E k) (undos d) = []"
    by (auto simp: upd_where_none filter_empty_conv)
  then show "startUndoOperation E k input d = Inr (d, None)"
    by (simp add: startUndoOperation_def markUndoExecuting_def)
  show "\<exists>v. getUndoRecord E k d = (fst (getUndoRecord E k d), Some v) \<and> u_status v = U_expired \<and> u_reversal v = JArr [] \<and> u_remaining v = JArr []"
    if "u_status u = U_available"
    using that assms(2,3) by (simp add: getUndoRecord_def expire_undo_def)
qed

end
