(* ===== verification/MutationWorkflow.thy ===== *)
theory MutationWorkflow
  imports Journal Receipts
begin

text \<open>
  The execution of a mutation plan (\<open>src/src/harness/mutation-workflow.ts\<close>) over the journal of one
  operation (\<open>mutationStepJournal\<close> in \<open>src/src/db/store.ts\<close>): each step is prepared and moved to
  executing in the database, then dispatched, then settled. The dispatch is the argument
  \<open>dispatch\<close>: it runs for a while, during which other requests may change the database, and ends
  with a value or an error. The calls on the journal after a dispatch may also fail for reasons of
  the storage; the record \<open>faults\<close> says whether they do: the settlement, the degraded settlement it
  falls back on, the cancellation of a step that was not sent, and the read-back of the row
  (\<open>listOperationSteps\<close>). A storage failure before the dispatch rejects the promise with the
  database as the calls before it left it, and nothing is sent.
\<close>

section \<open>Errors and their evidence\<close>

datatype thrown =
    T_dispatch_denied jsv
  | T_plan_violation string
  | T_budget_exceeded string
  | T_request_cancelled
  | T_ambiguous string string "int option" string
  | T_definitive string string "int option" string
  | T_error string string
  | T_other string

definition write_outcome_detail :: "string \<Rightarrow> string \<Rightarrow> string \<Rightarrow> int option \<Rightarrow> string \<Rightarrow> jsv" where
  "write_outcome_detail name meth path status message =
     JObj ([(''type'', JStr name), (''method'', JStr meth), (''path'', JStr path)]
           @ (case status of None \<Rightarrow> [] | Some n \<Rightarrow> [(''status'', JNum n)])
           @ [(''message'', JStr message)])"

fun safeFailureDetail :: "thrown \<Rightarrow> jsv" where
  "safeFailureDetail (T_dispatch_denied denial) =
     JObj [(''type'', JStr ''MutationDispatchDenied''), (''code'', JStr ''mutation_dispatch_denied''),
           (''denial'', denial), (''message'', JStr ''mutation_dispatch_denied'')]"
| "safeFailureDetail (T_plan_violation message) =
     JObj [(''type'', JStr ''MutationPlanViolation''), (''code'', JStr ''mutation_plan_violation''),
           (''message'', JStr message)]"
| "safeFailureDetail (T_budget_exceeded message) =
     JObj [(''type'', JStr ''HostCallBudgetExceededError''), (''code'', JStr ''host_call_budget_exceeded''),
           (''message'', JStr message)]"
| "safeFailureDetail T_request_cancelled =
     JObj [(''type'', JStr ''HostRequestCancelledError''), (''code'', JStr ''host_request_cancelled''),
           (''message'', JStr ''Clockify request was cancelled before dispatch.'')]"
| "safeFailureDetail (T_ambiguous meth path status message) =
     write_outcome_detail ''AmbiguousWriteOutcome'' meth path status message"
| "safeFailureDetail (T_definitive meth path status message) =
     write_outcome_detail ''DefinitiveWriteFailure'' meth path status message"
| "safeFailureDetail (T_error name message) = JObj [(''type'', JStr name), (''message'', JStr message)]"
| "safeFailureDetail (T_other message) = JObj [(''type'', JStr ''UnknownError''), (''message'', JStr message)]"

text \<open>The errors that prove that no change was applied.\<close>

fun definitive :: "thrown \<Rightarrow> bool" where
  "definitive (T_definitive _ _ _ _) = True"
| "definitive (T_dispatch_denied _) = True"
| "definitive (T_plan_violation _) = True"
| "definitive (T_budget_exceeded _) = True"
| "definitive T_request_cancelled = True"
| "definitive _ = False"

fun status_text :: "step_settlement \<Rightarrow> string" where
  "status_text Settle_succeeded = ''succeeded''"
| "status_text Settle_definitive_failed = ''definitive_failed''"
| "status_text Settle_outcome_unknown = ''outcome_unknown''"

definition degradation :: "thrown \<Rightarrow> string \<Rightarrow> (string \<times> jsv) list" where
  "degradation settlementError dispatchStatus =
     [(''journalDegraded'', JBool True), (''fullEffectPersisted'', JBool False),
      (''dispatchStatus'', JStr dispatchStatus), (''settlementError'', safeFailureDetail settlementError)]"

definition degradedSettlementDetail :: "thrown \<Rightarrow> string \<Rightarrow> jsv \<Rightarrow> jsv" where
  "degradedSettlementDetail settlementError dispatchStatus dispatchDetail =
     JObj (degradation settlementError dispatchStatus
           @ (if dispatchDetail = JUndef then [] else [(''dispatchDetail'', dispatchDetail)]))"

text \<open>The values that reach this function come from \<open>exactNonsecretJson\<close>, which returns no binary value.\<close>

definition combinePreparedDetail :: "jsv \<Rightarrow> jsv \<Rightarrow> jsv" where
  "combinePreparedDetail prepared dispatched =
     (if prepared = JUndef then dispatched
      else if dispatched = JUndef then prepared
      else case prepared of
             JObj es \<Rightarrow> JObj (spread es [(''dispatch'', dispatched)])
           | _ \<Rightarrow> JObj [(''preDispatch'', prepared), (''dispatch'', dispatched)])"

section \<open>One primary step\<close>

record ExecutableStep =
  es_id :: string
  es_index :: int
  es_name :: string
  es_kind :: OperationStepKind
  es_targetFingerprint :: "string option"
  es_preparedDetail :: jsv
  es_compensatesStepId :: "string option"

record faults =
  settle_fault :: "thrown option"
  fallback_fault :: "thrown option"
  cancel_fault :: "string option"
  read_fault :: "string option"

definition no_faults :: faults where
  "no_faults = \<lparr>settle_fault = None, fallback_fault = None, cancel_fault = None, read_fault = None\<rparr>"

text \<open>A call of the journal that may meet a storage fault; a database error is an \<open>Error\<close> with its message.\<close>

definition journal_call :: "thrown option \<Rightarrow> (string, 'a) result \<Rightarrow> (thrown, 'a) result" where
  "journal_call fault r =
     (case fault of Some e \<Rightarrow> Inl e | None \<Rightarrow> (case r of Inl m \<Rightarrow> Inl (T_error ''Error'' m) | Inr x \<Rightarrow> Inr x))"

definition find_step :: "string \<Rightarrow> string \<Rightarrow> db \<Rightarrow> OperationStepRow option" where
  "find_step operationId stepId d = find (\<lambda>s. s_id s = stepId) (listOperationSteps operationId d)"

definition found_step :: "string \<Rightarrow> string \<Rightarrow> db \<Rightarrow> (string, OperationStepRow) result" where
  "found_step operationId stepId d =
     (case find_step operationId stepId d of None \<Rightarrow> Inl ''operation_step_not_found'' | Some s \<Rightarrow> Inr s)"

text \<open>The read-back after a settlement: \<open>listOperationSteps\<close> may throw, and its error is not caught.\<close>

definition read_back :: "faults \<Rightarrow> string \<Rightarrow> string \<Rightarrow> db \<Rightarrow> (string, OperationStepRow) result" where
  "read_back F operationId stepId d =
     (case read_fault F of Some m \<Rightarrow> Inl m | None \<Rightarrow> found_step operationId stepId d)"

definition runtimeStep :: "OperationStepRow \<Rightarrow> OperationStepStatus \<Rightarrow> StepDetail \<Rightarrow> jsv \<Rightarrow> OperationStepRow" where
  "runtimeStep base status outcome detail =
     base\<lparr>s_status := status,
          s_external_id := (case sd_externalId outcome of None \<Rightarrow> s_external_id base | Some x \<Rightarrow> Some x),
          s_effect := (if sd_effect outcome = JUndef then s_effect base else Some (sd_effect outcome)),
          s_detail := (if detail = JUndef
                       then (if sd_detail outcome = JUndef then s_detail base else Some (sd_detail outcome))
                       else Some detail)\<rparr>"

text \<open>What the caller sees of a step whose settlement could not be stored at all.\<close>

definition unsettled_detail :: "jsv \<Rightarrow> (string \<times> jsv) list \<Rightarrow> jsv" where
  "unsettled_detail prepared degr =
     (case prepared of
        JObj es \<Rightarrow> JObj (spread es degr)
      | _ \<Rightarrow> JObj ((if prepared = JUndef then [] else [(''preDispatch'', prepared)]) @ degr))"

text \<open>
  After a degraded settlement the read-back stands inside the inner \<open>try\<close>: a row that is not found and
  an error of the read both end in the step computed here.
\<close>

definition settle_dispatched ::
  "env \<Rightarrow> faults \<Rightarrow> string \<Rightarrow> OperationStepRow \<Rightarrow> jsv \<Rightarrow> step_settlement \<Rightarrow> StepDetail \<Rightarrow> db
   \<Rightarrow> db \<times> (string, OperationStepRow) result" where
  "settle_dispatched E F operationId executing prepared status outcome0 d =
     (let k = s_id executing;
          outcome = (if prepared = JUndef then outcome0
                     else outcome0\<lparr>sd_detail := combinePreparedDetail prepared
                            (if sd_detail outcome0 = JUndef then JUndef
                             else boundedCompleteSanitizedJson (sd_detail outcome0) 8000)\<rparr>) in
      case journal_call (settle_fault F) (settleOperationStep E k status outcome (Some operationId) d) of
        Inr d1 \<Rightarrow> (d1, read_back F operationId k d1)
      | Inl settlementError \<Rightarrow>
          (let detail = degradedSettlementDetail settlementError (status_text status) (sd_detail outcome);
               runtime = runtimeStep executing (settled_status status) outcome
                 (unsettled_detail prepared (degradation settlementError (status_text status))) in
           case journal_call (fallback_fault F)
                  (settleOperationStepDegraded E k status (sd_externalId outcome) detail (Some operationId) d) of
             Inl e \<Rightarrow> (d, Inr runtime)
           | Inr d1 \<Rightarrow> (case read_back F operationId k d1 of Inr s \<Rightarrow> (d1, Inr s) | Inl e \<Rightarrow> (d1, Inr runtime))))"

definition error_outcome :: "thrown \<Rightarrow> StepDetail" where
  "error_outcome e = \<lparr>sd_externalId = None, sd_effect = JUndef, sd_detail = safeFailureDetail e\<rparr>"

text \<open>The cancellation is called inside the \<open>catch\<close> of the dispatch, so its own error is not caught.\<close>

definition after_dispatch ::
  "env \<Rightarrow> faults \<Rightarrow> string \<Rightarrow> OperationStepRow \<Rightarrow> jsv \<Rightarrow> (thrown, StepDetail) result \<Rightarrow> db
   \<Rightarrow> db \<times> (string, OperationStepRow) result" where
  "after_dispatch E F operationId executing prepared answer d =
     (case answer of
        Inr outcome \<Rightarrow> settle_dispatched E F operationId executing prepared Settle_succeeded outcome d
      | Inl e \<Rightarrow>
          if e = T_request_cancelled
          then (case cancel_fault F of
                  Some m \<Rightarrow> (d, Inl m)
                | None \<Rightarrow>
                   (case cancelOperationStepBeforeDispatch E (s_id executing)
                       (if prepared = JUndef then safeFailureDetail e
                        else combinePreparedDetail prepared (safeFailureDetail e)) (Some operationId) d of
                      (d1, cancelled) \<Rightarrow>
                        if cancelled then (d1, read_back F operationId (s_id executing) d1)
                        else settle_dispatched E F operationId executing prepared Settle_outcome_unknown (error_outcome e) d1))
          else settle_dispatched E F operationId executing prepared
                 (if definitive e then Settle_definitive_failed else Settle_outcome_unknown) (error_outcome e) d)"

definition step_input :: "string \<Rightarrow> ExecutableStep \<Rightarrow> jsv \<Rightarrow> PrepareOperationStepInput" where
  "step_input operationId step prepared =
     \<lparr>ps_id = None, ps_operationId = operationId, ps_planStepId = es_id step, ps_index = es_index step,
      ps_name = es_name step, ps_kind = Primary, ps_targetFingerprint = keep_truthy (es_targetFingerprint step),
      ps_compensatesStepId = None, ps_preparedDetail = prepared\<rparr>"

text \<open>The synchronous part before the dispatch: it yields the executing row and the stored evidence.\<close>

definition before_dispatch ::
  "env \<Rightarrow> string \<Rightarrow> string \<Rightarrow> ExecutableStep \<Rightarrow> db \<Rightarrow> db \<times> (string, OperationStepRow \<times> jsv) result" where
  "before_dispatch E journalOperation operationId step d =
     (if es_kind step \<noteq> Primary then (d, Inl ''compensation_requires_dedicated_executor'')
      else if journalOperation \<noteq> operationId then (d, Inl ''operation_journal_scope_mismatch'')
      else if map_option ru_status (getOperationRun operationId d) \<noteq> Some O_executing
      then (d, Inl ''operation_not_executing'')
      else case (if es_preparedDetail step = JUndef then Inr JUndef
                 else exactNonsecretJson (es_preparedDetail step) 55000) of
             Inl e \<Rightarrow> (d, Inl ''durable_evidence'')
           | Inr prepared \<Rightarrow>
               (case prepareOperationStep E (step_input operationId step prepared) d of
                  Inl e \<Rightarrow> (d, Inl e)
                | Inr (d1, k) \<Rightarrow>
                    (case markOperationStepExecuting E k (Some operationId) d1 of
                       (d2, marked) \<Rightarrow>
                         if \<not> marked then (d2, Inl ''operation_step_not_prepared'')
                         else (d2, and_then (found_step operationId k d2) (\<lambda>s. Inr (s, prepared))))))"

definition executeStep ::
  "env \<Rightarrow> env \<Rightarrow> faults \<Rightarrow> string \<Rightarrow> string \<Rightarrow> ExecutableStep \<Rightarrow> (db \<Rightarrow> db \<times> (thrown, StepDetail) result) \<Rightarrow> db
   \<Rightarrow> db \<times> (string, OperationStepRow) result" where
  "executeStep E E' F journalOperation operationId step dispatch d =
     (case before_dispatch E journalOperation operationId step d of
        (d1, Inl e) \<Rightarrow> (d1, Inl e)
      | (d1, Inr (executing, prepared)) \<Rightarrow>
          (case dispatch d1 of (d2, answer) \<Rightarrow> after_dispatch E' F operationId executing prepared answer d2))"

section \<open>One compensation step\<close>

fun compensation_text :: "compensation_settlement \<Rightarrow> string" where
  "compensation_text Comp_compensated = ''compensated''"
| "compensation_text Comp_compensation_failed = ''compensation_failed''"
| "compensation_text Comp_outcome_unknown = ''outcome_unknown''"

definition settle_compensated ::
  "env \<Rightarrow> faults \<Rightarrow> string \<Rightarrow> OperationStepRow \<Rightarrow> compensation_settlement \<Rightarrow> StepDetail \<Rightarrow> db
   \<Rightarrow> db \<times> (string, OperationStepRow) result" where
  "settle_compensated E F operationId executing status outcome d =
     (let k = s_id executing in
      case journal_call (settle_fault F) (settleCompensationStep E k status outcome (Some operationId) d) of
        Inr d1 \<Rightarrow> (d1, (case read_fault F of
            Some m \<Rightarrow> Inl m
          | None \<Rightarrow> (case find_step operationId k d1 of None \<Rightarrow> Inl ''compensation_step_not_found'' | Some s \<Rightarrow> Inr s)))
      | Inl settlementError \<Rightarrow>
          (let detail = degradedSettlementDetail settlementError (compensation_text status) (sd_detail outcome);
               runtime = runtimeStep executing (compensation_status status) outcome detail in
           case journal_call (fallback_fault F)
                  (settleCompensationStepDegraded E k status (sd_externalId outcome) detail (Some operationId) d) of
             Inl e \<Rightarrow> (d, Inr runtime)
           | Inr d1 \<Rightarrow> (d1, Inr runtime)))"

definition compensation_input :: "string \<Rightarrow> ExecutableStep \<Rightarrow> PrepareOperationStepInput" where
  "compensation_input operationId step =
     \<lparr>ps_id = None, ps_operationId = operationId, ps_planStepId = es_id step, ps_index = es_index step,
      ps_name = es_name step, ps_kind = Compensation, ps_targetFingerprint = keep_truthy (es_targetFingerprint step),
      ps_compensatesStepId = es_compensatesStepId step, ps_preparedDetail = JUndef\<rparr>"

definition executeCompensationStep ::
  "env \<Rightarrow> env \<Rightarrow> faults \<Rightarrow> string \<Rightarrow> string \<Rightarrow> ExecutableStep \<Rightarrow> (db \<Rightarrow> db \<times> (thrown, StepDetail) result) \<Rightarrow> db
   \<Rightarrow> db \<times> (string, OperationStepRow) result" where
  "executeCompensationStep E E' F journalOperation operationId step dispatch d =
     (if journalOperation \<noteq> operationId then (d, Inl ''operation_journal_scope_mismatch'')
      else case prepareCompensationStep E (compensation_input operationId step) d of
             Inl e \<Rightarrow> (d, Inl e)
           | Inr (d1, k) \<Rightarrow>
               (case markOperationStepCompensating E k (Some operationId) d1 of
                  Inl e \<Rightarrow> (d1, Inl e)
                | Inr (d2, marked) \<Rightarrow>
                    if \<not> marked then (d2, Inl ''compensation_step_not_prepared'')
                    else (case find_step operationId k d2 of
                            None \<Rightarrow> (d2, Inl ''compensation_step_not_found'')
                          | Some executing \<Rightarrow>
                              (case dispatch d2 of
                                 (d3, Inr outcome) \<Rightarrow> settle_compensated E' F operationId executing Comp_compensated outcome d3
                               | (d3, Inl e) \<Rightarrow> settle_compensated E' F operationId executing
                                   (if definitive e then Comp_compensation_failed else Comp_outcome_unknown)
                                   (error_outcome e) d3))))"

section \<open>The workflow\<close>

text \<open>A commit result is the JSON object of its receipt, or the partial result a callback builds.\<close>

definition isJournalDegradedStep :: "OperationStepRow \<Rightarrow> bool" where
  "isJournalDegradedStep s =
     (case s_detail s of None \<Rightarrow> False | Some v \<Rightarrow> is_object_like v \<and> getp ''journalDegraded'' v = JBool True)"

definition degraded_warning :: jsv where
  "degraded_warning = JObj [(''code'', JStr ''operation_journal_degraded''),
     (''message'', JStr ''Clockify confirmed the change, but the full local step record could not be saved. The operation will not be retried automatically.'')]"

definition warnings_of :: "jsv \<Rightarrow> jsv list" where
  "warnings_of receipt = (case getp ''warnings'' receipt of JArr ws \<Rightarrow> ws | _ \<Rightarrow> [])"

definition withJournalDegradedWarning :: "jsv \<Rightarrow> jsv" where
  "withJournalDegradedWarning receipt =
     (if list_ex (\<lambda>w. getp ''code'' w = JStr ''operation_journal_degraded'') (warnings_of receipt) then receipt
      else JObj (spread (entries_of receipt) [(''warnings'', JArr (warnings_of receipt @ [degraded_warning]))]))"

record callbacks =
  onSuccess :: "OperationStepRow list \<Rightarrow> jsv"
  onPartial :: "OperationStepRow list \<Rightarrow> OperationStepRow \<Rightarrow> jsv"
  onJournalDegraded :: "OperationStepRow list \<Rightarrow> OperationStepRow \<Rightarrow> jsv"
  onFailure :: "OperationStepRow \<Rightarrow> jsv"

definition unknown_receipt :: "string \<Rightarrow> jsv" where
  "unknown_receipt actionName = errorReceipt actionName ''commit_outcome_unknown''
     ''Clockify did not provide a definitive response, so this change may or may not have been applied. No later step was dispatched.''
     (JObj [(''hint'', JStr ''Verify the recorded step in Clockify before deciding whether to try again.''),
            (''retryable'', JBool False)])"

definition violation_receipt :: "string \<Rightarrow> jsv" where
  "violation_receipt actionName = errorReceipt actionName ''mutation_plan_violation''
     ''A host mutation was blocked because it did not match the exact stored plan.''
     (JObj [(''hint'', JStr ''Create a fresh preview from the current action catalog.''), (''retryable'', JBool False)])"

text \<open>The result of a step that did not succeed: the loop ends with it.\<close>

definition stop_receipt :: "callbacks \<Rightarrow> string \<Rightarrow> OperationStepRow list \<Rightarrow> OperationStepRow \<Rightarrow> jsv" where
  "stop_receipt cb actionName completed s =
     (if s_status s = S_outcome_unknown then unknown_receipt actionName
      else let control = (case s_detail s of None \<Rightarrow> JUndef | Some v \<Rightarrow> v) in
           if completed = [] \<and> getp ''code'' control = JStr ''mutation_dispatch_denied'' \<and> is_object_like (getp ''denial'' control)
           then getp ''denial'' control
           else if completed = [] \<and> getp ''code'' control = JStr ''mutation_plan_violation''
           then violation_receipt actionName
           else if completed \<noteq> [] then onPartial cb completed s else onFailure cb s)"

text \<open>A step to execute, with its clocks, faults and dispatch.\<close>

record planned =
  pl_step :: ExecutableStep
  pl_before :: env
  pl_after :: env
  pl_faults :: faults
  pl_dispatch :: "db \<Rightarrow> db \<times> (thrown, StepDetail) result"

fun run_primaries ::
  "callbacks \<Rightarrow> string \<Rightarrow> string \<Rightarrow> string \<Rightarrow> nat \<Rightarrow> OperationStepRow list \<Rightarrow> planned list \<Rightarrow> db \<Rightarrow> db \<times> (string, jsv) result" where
  "run_primaries cb actionName jop op count completed [] d = (d, Inr (onSuccess cb completed))"
| "run_primaries cb actionName jop op count completed (p # ps) d =
     (if es_kind (pl_step p) \<noteq> Primary then run_primaries cb actionName jop op count completed ps d
      else case executeStep (pl_before p) (pl_after p) (pl_faults p) jop op (pl_step p) (pl_dispatch p) d of
             (d1, Inl e) \<Rightarrow> (d1, Inl e)
           | (d1, Inr s) \<Rightarrow>
               if s_status s = S_succeeded \<and> isJournalDegradedStep s
               then (d1, Inr (if count = 1 then withJournalDegradedWarning (onSuccess cb [s])
                              else onJournalDegraded cb (completed @ [s]) s))
               else if s_status s = S_succeeded
               then run_primaries cb actionName jop op count (completed @ [s]) ps d1
               else (d1, Inr (stop_receipt cb actionName completed s)))"

definition executeMutationWorkflow ::
  "callbacks \<Rightarrow> string \<Rightarrow> string \<Rightarrow> string \<Rightarrow> planned list \<Rightarrow> db \<Rightarrow> db \<times> (string, jsv) result" where
  "executeMutationWorkflow cb actionName jop op ps d =
     (if jop \<noteq> op then (d, Inl ''operation_journal_scope_mismatch'')
      else if map_option ru_status (getOperationRun op d) \<noteq> Some O_executing then (d, Inl ''operation_not_executing'')
      else run_primaries cb actionName jop op (length (filter (\<lambda>p. es_kind (pl_step p) = Primary) ps)) [] ps d)"

section \<open>Reading a step back\<close>

lemma find_step_SomeD:
  assumes "find_step op k d = Some s"
  shows "\<exists>r. r \<in> set (steps d) \<and> s_id r = k \<and> s_operation_id r = op \<and> s = toStep r"
proof -
  have "s \<in> set (listOperationSteps op d)" "s_id s = k" using assms by (auto simp: find_step_def find_Some_iff)
  then show ?thesis by (auto simp: listOperationSteps_def toStep_def)
qed

lemma find_step_sel:
  assumes ok: "store_ok d" and r: "sel s_id k (steps d) = Some r" "s_operation_id r = op"
  shows "find_step op k d = Some (toStep r)"
proof -
  note k = sel_SomeD [OF r(1)]
  have "toStep r \<in> set (listOperationSteps op d)" using k r(2) by (auto simp: listOperationSteps_def)
  then have "find_step op k d \<noteq> None" using k by (auto simp: find_step_def find_None_iff toStep_def)
  then obtain s where s: "find_step op k d = Some s" by blast
  from find_step_SomeD [OF s] obtain r' where r': "r' \<in> set (steps d)" "s_id r' = k" "s = toStep r'" by blast
  have "r' = r" using sel_distinct [OF store_ok_distinct(3) [OF ok] r'(1)] r(1) r'(2) by simp
  with s r'(3) show ?thesis by simp
qed

lemma toStep_simps [simp]:
  "s_id (toStep s) = s_id s" "s_status (toStep s) = s_status s" "s_operation_id (toStep s) = s_operation_id s"
  "s_kind (toStep s) = s_kind s" "s_detail (toStep s) = s_detail s" "s_dispatched_at (toStep s) = s_dispatched_at s"
  "s_plan_step_id (toStep s) = s_plan_step_id s"
  by (simp_all add: toStep_def)

section \<open>Settling\<close>

lemma update_steps_one':
  assumes ok: "store_ok d" and u: "update_steps (\<lambda>s. s_id s = k \<and> S s) f d = (d', n)" and n: "n = 1"
    and key: "\<And>s. s_id (f s) = s_id s"
  shows "\<exists>s. sel s_id k (steps d) = Some s \<and> S s \<and> sel s_id k (steps d') = Some (f s)"
  using update_steps_one [OF assms] by blast

lemma settle_primary_effect:
  assumes ok: "store_ok d" and s: "settle_primary E k oid f d = Inr d'" and key: "\<And>s. s_id (f s) = s_id s"
  shows "\<exists>s. sel s_id k (steps d) = Some s \<and> in_operation oid s \<and> s_status s = S_executing \<and> s_kind s = Primary
    \<and> sel s_id k (steps d') = Some (f s)"
proof -
  from s obtain n where "update_steps
             (\<lambda>s. s_id s = k \<and> in_operation oid s \<and> s_status s = S_executing \<and> s_kind s = Primary) f d = (d', n)" "n = 1"
    by (auto simp: settle_primary_def split: prod.splits if_splits)
  from update_steps_one' [OF ok this key] show ?thesis by blast
qed

lemma settled_status_cases: "settled_status x = S_succeeded \<or> settled_status x = S_definitive_failed \<or> settled_status x = S_outcome_unknown"
  by (cases x) auto

lemma settleOperationStep_effect:
  assumes ok: "store_ok d" and s: "settleOperationStep E k status outcome (Some op) d = Inr d'"
  shows "\<exists>r. sel s_id k (steps d') = Some r \<and> s_status r = settled_status status \<and> s_operation_id r = op"
proof -
  from s obtain f where f: "settle_primary E k (Some op) f d = Inr d'" "\<And>s. s_id (f s) = s_id s"
    "\<And>s. s_status (f s) = settled_status status" "\<And>s. s_operation_id (f s) = s_operation_id s"
    by (auto simp: settleOperationStep_def Let_def split: option.splits)
  from settle_primary_effect [OF ok f(1,2)] f(3,4) show ?thesis by (auto simp: in_operation_def)
qed

lemma settleOperationStepDegraded_effect:
  assumes ok: "store_ok d" and s: "settleOperationStepDegraded E k status x v (Some op) d = Inr d'"
  shows "\<exists>r. sel s_id k (steps d') = Some r \<and> s_status r = settled_status status \<and> s_operation_id r = op"
proof -
  from s obtain f where f: "settle_primary E k (Some op) f d = Inr d'" "\<And>s. s_id (f s) = s_id s"
    "\<And>s. s_status (f s) = settled_status status" "\<And>s. s_operation_id (f s) = s_operation_id s"
    by (auto simp: settleOperationStepDegraded_def Let_def split: option.splits)
  from settle_primary_effect [OF ok f(1,2)] f(3,4) show ?thesis by (auto simp: in_operation_def)
qed

lemma journal_call_InrD: "journal_call fault r = Inr x \<Longrightarrow> fault = None \<and> r = Inr x"
  by (auto simp: journal_call_def split: option.splits sum.splits)

lemma runtimeStep_simps [simp]:
  "s_status (runtimeStep base status outcome detail) = status" "s_id (runtimeStep base status outcome detail) = s_id base"
  by (simp_all add: runtimeStep_def)

text \<open>
  What a settlement leaves: a step with the status of the dispatch, or, when the read-back throws after a
  settlement that was stored, the error of the read with the row settled.
\<close>

definition holds_status :: "string \<Rightarrow> OperationStepStatus \<Rightarrow> db \<Rightarrow> bool" where
  "holds_status k status d \<longleftrightarrow> (\<exists>r. sel s_id k (steps d) = Some r \<and> s_status r = status)"

lemma holds_statusI: "sel s_id k (steps d) = Some r \<Longrightarrow> s_status r = status \<Longrightarrow> holds_status k status d"
  by (auto simp: holds_status_def)

definition returned :: "faults \<Rightarrow> string \<Rightarrow> OperationStepStatus \<Rightarrow> db \<times> (string, OperationStepRow) result \<Rightarrow> bool" where
  "returned F k status x \<longleftrightarrow>
     (case snd x of
        Inr s \<Rightarrow> s_id s = k \<and> s_status s = status
      | Inl m \<Rightarrow> read_fault F = Some m \<and> holds_status k status (fst x))"

lemma returned_simps [simp]:
  "returned F k status (d, Inr s) \<longleftrightarrow> s_id s = k \<and> s_status s = status"
  "returned F k status (d, Inl m) \<longleftrightarrow> read_fault F = Some m \<and> holds_status k status d"
  by (simp_all add: returned_def)

lemma read_back_returned:
  assumes ok: "store_ok d" and r: "sel s_id k (steps d) = Some r" "s_status r = status" "s_operation_id r = op"
  shows "returned F k status (d, read_back F op k d)"
  using find_step_sel [OF ok r(1,3)] sel_SomeD [OF r(1)] r holds_statusI [OF r(1,2)]
  by (auto simp: read_back_def found_step_def split: option.splits)

lemma settle_dispatched_returns:
  assumes ok: "store_ok d"
  shows "good_step d (fst (settle_dispatched E F op executing prepared status outcome d))
    \<and> returned F (s_id executing) (settled_status status) (settle_dispatched E F op executing prepared status outcome d)"
proof -
  let ?k = "s_id executing"
  define o1 where "o1 = (if prepared = JUndef then outcome
                     else outcome\<lparr>sd_detail := combinePreparedDetail prepared
                            (if sd_detail outcome = JUndef then JUndef
                             else boundedCompleteSanitizedJson (sd_detail outcome) 8000)\<rparr>)"
  show ?thesis
  proof (cases "journal_call (settle_fault F) (settleOperationStep E ?k status o1 (Some op) d)")
    case (Inr d1)
    then have s: "settleOperationStep E ?k status o1 (Some op) d = Inr d1" by (simp add: journal_call_InrD)
    from settleOperationStep_effect [OF ok s] obtain r where
      r: "sel s_id ?k (steps d1) = Some r" "s_status r = settled_status status" "s_operation_id r = op" by blast
    note g = settleOperationStep_good [OF ok s]
    from read_back_returned [OF good_step_ok [OF g] r] show ?thesis
      using Inr g by (simp add: settle_dispatched_def o1_def [symmetric])
  next
    case (Inl e)
    let ?v = "degradedSettlementDetail e (status_text status) (sd_detail o1)"
    show ?thesis
    proof (cases "journal_call (fallback_fault F) (settleOperationStepDegraded E ?k status (sd_externalId o1) ?v (Some op) d)")
      case fb: (Inl e')
      with Inl good_step_refl [OF ok] show ?thesis by (simp add: settle_dispatched_def o1_def [symmetric] Let_def)
    next
      case fb: (Inr d1)
      then have s: "settleOperationStepDegraded E ?k status (sd_externalId o1) ?v (Some op) d = Inr d1"
        by (simp add: journal_call_InrD)
      from settleOperationStepDegraded_effect [OF ok s] obtain r where
        r: "sel s_id ?k (steps d1) = Some r" "s_status r = settled_status status" "s_operation_id r = op" by blast
      note g = settleOperationStepDegraded_good [OF ok s]
      from read_back_returned [OF good_step_ok [OF g] r, of F] show ?thesis
        using Inl fb g by (cases "read_back F op ?k d1") (simp_all add: settle_dispatched_def o1_def [symmetric] Let_def)
    qed
  qed
qed

text \<open>The status the answer of a dispatch stands for.\<close>

definition may_cancel :: "string \<Rightarrow> string \<Rightarrow> db \<Rightarrow> bool" where
  "may_cancel op k d \<longleftrightarrow>
     (case sel s_id k (steps d) of None \<Rightarrow> False
      | Some s \<Rightarrow> s_operation_id s = op \<and> s_status s = S_executing \<and> s_dispatched_at s = None)"

definition answer_status :: "string \<Rightarrow> string \<Rightarrow> (thrown, StepDetail) result \<Rightarrow> db \<Rightarrow> OperationStepStatus" where
  "answer_status op k answer d =
     (case answer of
        Inr outcome \<Rightarrow> S_succeeded
      | Inl e \<Rightarrow>
          if e = T_request_cancelled then (if may_cancel op k d then S_definitive_failed else S_outcome_unknown)
          else if definitive e then S_definitive_failed else S_outcome_unknown)"

lemma cancel_iff:
  assumes ok: "store_ok d"
  shows "snd (cancelOperationStepBeforeDispatch E k v (Some op) d) = may_cancel op k d"
proof -
  have "length (filter (\<lambda>s. s_id s = k \<and> in_operation (Some op) s \<and> s_status s = S_executing \<and> s_dispatched_at s = None) (steps d)) = 1
      \<longleftrightarrow> may_cancel op k d"
    using filter_key_sel [OF store_ok_distinct(3) [OF ok], of k
        "\<lambda>s. in_operation (Some op) s \<and> s_status s = S_executing \<and> s_dispatched_at s = None"]
    by (auto simp: may_cancel_def in_operation_def split: option.splits)
  then show ?thesis by (simp add: cancelOperationStepBeforeDispatch_def Let_def update_steps_def)
qed

lemma cancelled_step:
  assumes ok: "store_ok d" and c: "cancelOperationStepBeforeDispatch E k v (Some op) d = (d', True)"
  shows "returned F k S_definitive_failed (d', read_back F op k d')"
proof -
  from cancelOperationStepBeforeDispatch_effect [OF ok c] obtain s where s: "sel s_id k (steps d) = Some s"
    "sel s_id k (steps d') = Some (s\<lparr>s_status := S_definitive_failed,
       s_detail := Some (boundedCompleteSanitizedJson v 8000), s_settled_at := Some (now E), s_updated_at := now E\<rparr>)"
    by blast
  have "may_cancel op k d" using cancel_iff [OF ok, of E k v op] c by simp
  with s(1) have "s_operation_id s = op" by (simp add: may_cancel_def)
  moreover have "store_ok d'"
    using good_step_ok [OF cancelOperationStepBeforeDispatch_good [OF ok, of E k v "Some op"]] c by simp
  ultimately show ?thesis using read_back_returned [OF _ s(2)] by simp
qed

lemma not_cancelled:
  assumes ok: "store_ok d" and c: "cancelOperationStepBeforeDispatch E k v (Some op) d = (d', False)"
  shows "d' = d"
proof -
  let ?S = "\<lambda>s. s_id s = k \<and> in_operation (Some op) s \<and> s_status s = S_executing \<and> s_dispatched_at s = None"
  have "\<not> may_cancel op k d" using cancel_iff [OF ok, of E k v op] c by simp
  then have "filter ?S (steps d) = []"
    using filter_key_sel [OF store_ok_distinct(3) [OF ok], of k
        "\<lambda>s. in_operation (Some op) s \<and> s_status s = S_executing \<and> s_dispatched_at s = None"]
    by (auto simp: may_cancel_def in_operation_def split: option.splits)
  then have "upd_where ?S f (steps d) = steps d" for f
    by (intro upd_where_none) (auto simp: filter_empty_conv)
  with c show ?thesis by (simp add: cancelOperationStepBeforeDispatch_def update_steps_def Let_def)
qed

text \<open>
  After a dispatch the executor returns a step whose status is the one the answer stands for, with two
  exceptions: the error of a cancellation, with nothing changed, and the error of a read-back, with the
  row already in that status.
\<close>

lemma after_dispatch_returns:
  assumes ok: "store_ok d"
  shows "good_step d (fst (after_dispatch E F op executing prepared answer d))
    \<and> (case cancel_fault F of
         Some m \<Rightarrow> if answer = Inl T_request_cancelled then after_dispatch E F op executing prepared answer d = (d, Inl m)
                   else returned F (s_id executing) (answer_status op (s_id executing) answer d)
                          (after_dispatch E F op executing prepared answer d)
       | None \<Rightarrow> returned F (s_id executing) (answer_status op (s_id executing) answer d)
                   (after_dispatch E F op executing prepared answer d))"
proof -
  let ?k = "s_id executing"
  note settle = settle_dispatched_returns [OF ok, of E F op executing prepared Settle_succeeded, unfolded settled_status.simps]
    settle_dispatched_returns [OF ok, of E F op executing prepared Settle_definitive_failed, unfolded settled_status.simps]
    settle_dispatched_returns [OF ok, of E F op executing prepared Settle_outcome_unknown, unfolded settled_status.simps]
  show ?thesis
  proof (cases "answer = Inl T_request_cancelled")
    case False
    with settle show ?thesis
      by (cases answer) (auto simp: after_dispatch_def answer_status_def split: option.split)
  next
    case True
    show ?thesis
    proof (cases "cancel_fault F")
      case (Some m)
      with True good_step_refl [OF ok] show ?thesis by (simp add: after_dispatch_def)
    next
      case None
      let ?e = T_request_cancelled
      define v where "v = (if prepared = JUndef then safeFailureDetail ?e else combinePreparedDetail prepared (safeFailureDetail ?e))"
      obtain d1 b where d1: "cancelOperationStepBeforeDispatch E ?k v (Some op) d = (d1, b)" by fastforce
      have b: "b = may_cancel op ?k d" using cancel_iff [OF ok, of E ?k v op] d1 by simp
      have after: "after_dispatch E F op executing prepared answer d =
        (if b then (d1, read_back F op ?k d1)
         else settle_dispatched E F op executing prepared Settle_outcome_unknown (error_outcome ?e) d1)"
        using True None d1 by (simp add: after_dispatch_def v_def)
      show ?thesis
      proof (cases b)
        case c: True
        have "good_step d d1" using cancelOperationStepBeforeDispatch_good [OF ok, of E ?k v "Some op"] d1 by simp
        with c d1 b True None cancelled_step [OF ok, of E ?k v op d1 F] show ?thesis
          unfolding after by (simp add: answer_status_def)
      next
        case c: False
        with not_cancelled [OF ok, of E ?k v op d1] d1 have "d1 = d" by simp
        with c b True None settle(3) show ?thesis unfolding after by (simp add: answer_status_def)
      qed
    qed
  qed
qed

section \<open>The durable order of one step\<close>

text \<open>A dispatch starts only when its row is committed as executing, with its evidence, under an executing run.\<close>

lemma before_dispatch_executing:
  assumes ok: "store_ok d" and b: "before_dispatch E jop op step d = (d1, Inr (executing, prepared))"
  shows "good_step d d1 \<and> es_kind step = Primary \<and> s_status executing = S_executing \<and> s_dispatched_at executing = None
    \<and> s_plan_step_id executing = es_id step \<and> run_executing op d1
    \<and> find_step op (s_id executing) d1 = Some executing"
proof -
  from b obtain d0 k where p: "prepareOperationStep E (step_input op step prepared) d = Inr (d0, k)"
    and m: "markOperationStepExecuting E k (Some op) d0 = (d1, True)" and f: "find_step op k d1 = Some executing"
    and kind: "es_kind step = Primary"
    by (auto simp: before_dispatch_def found_step_def Let_def split: if_splits sum.splits prod.splits option.splits)
  note g0 = prepareOperationStep_good [OF ok p]
  have g1: "good_step d0 d1" using markOperationStepExecuting_good [OF good_step_ok [OF g0], of E k "Some op"] m by simp
  from p obtain dx detail where i: "insert_step (prepared_step_row (now E) k Primary detail (step_input op step prepared)) dx = Inr d0"
    by (auto simp: prepareOperationStep_def split: if_splits prod.splits)
  let ?row = "prepared_step_row (now E) k Primary detail (step_input op step prepared)"
  have row: "sel s_id k (steps d0) = Some ?row"
  proof -
    have "steps d0 = steps dx @ [?row]" "k \<notin> s_id ` set (steps dx)"
      using i by (auto simp: insert_step_def prepared_step_row_def split: if_splits)
    then show ?thesis by (auto simp: sel_append sel_Cons prepared_step_row_def sel_None_iff [symmetric] split: option.splits)
  qed
  from m obtain n where u: "update_steps
             (\<lambda>s. s_id s = k \<and> (in_operation (Some op) s \<and> s_status s = S_prepared \<and> s_kind s = Primary
                  \<and> run_executing (s_operation_id s) d0))
             (\<lambda>s. s\<lparr>s_status := S_executing, s_queued_at := Some (now E), s_updated_at := now E\<rparr>) d0 = (d1, n)" "n = 1"
    by (auto simp: markOperationStepExecuting_def split: prod.splits)
  from update_steps_one' [OF good_step_ok [OF g0] u] row have
    r1: "sel s_id k (steps d1) = Some (?row\<lparr>s_status := S_executing, s_queued_at := Some (now E), s_updated_at := now E\<rparr>)"
      "in_operation (Some op) ?row" "run_executing op d0"
    by (auto simp: prepared_step_row_def step_input_def)
  have runs: "runs d1 = runs d0" using u(1) by (auto simp: update_steps_def)
  from find_step_sel [OF good_step_ok [OF g1] r1(1), of op] f have
    e: "executing = toStep (?row\<lparr>s_status := S_executing, s_queued_at := Some (now E), s_updated_at := now E\<rparr>)"
    by (simp add: prepared_step_row_def step_input_def)
  then show ?thesis using good_step_trans [OF g0 g1] kind f r1(3) runs
    by (simp add: prepared_step_row_def step_input_def run_executing_def)
qed

lemma before_dispatch_good:
  assumes ok: "store_ok d"
  shows "good_step d (fst (before_dispatch E jop op step d))"
proof -
  have "good_step d d1" if b: "before_dispatch E jop op step d = (d1, r)" for d1 r
  proof (cases "d1 = d")
    case False
    with b obtain d0 k prepared where p: "prepareOperationStep E (step_input op step prepared) d = Inr (d0, k)"
      and m: "fst (markOperationStepExecuting E k (Some op) d0) = d1"
      by (auto simp: before_dispatch_def Let_def split: if_splits sum.splits prod.splits)
    note g0 = prepareOperationStep_good [OF ok p]
    from good_step_trans [OF g0] markOperationStepExecuting_good [OF good_step_ok [OF g0], of E k "Some op"] m
    show ?thesis by simp
  qed (use good_step_refl [OF ok] in simp)
  then show ?thesis by (metis prod.collapse)
qed

text \<open>What the executor assumes of the outside: a dispatch leaves a store that the operations could have made.\<close>

definition follows_store :: "(db \<Rightarrow> db \<times> 'a) \<Rightarrow> bool" where
  "follows_store dispatch \<longleftrightarrow> (\<forall>d. store_ok d \<longrightarrow> good_step d (fst (dispatch d)))"

lemma follows_storeD: "follows_store dispatch \<Longrightarrow> store_ok d \<Longrightarrow> dispatch d = (d', a) \<Longrightarrow> good_step d d'"
  unfolding follows_store_def by (metis fst_conv)

lemma executeStep_good:
  assumes ok: "store_ok d" and disp: "follows_store dispatch"
  shows "good_step d (fst (executeStep E E' F jop op step dispatch d))"
proof -
  obtain d1 r where b: "before_dispatch E jop op step d = (d1, r)" by fastforce
  have g1: "good_step d d1" using before_dispatch_good [OF ok, of E jop op step] b by simp
  show ?thesis
  proof (cases r)
    case (Inl e)
    with b g1 show ?thesis by (simp add: executeStep_def)
  next
    case (Inr x)
    obtain executing prepared where x: "x = (executing, prepared)" by fastforce
    obtain d2 answer where d2: "dispatch d1 = (d2, answer)" by fastforce
    note g2 = follows_storeD [OF disp good_step_ok [OF g1] d2]
    from after_dispatch_returns [OF good_step_ok [OF g2], of E' F op executing prepared answer]
    have "good_step d2 (fst (after_dispatch E' F op executing prepared answer d2))" by blast
    with good_step_trans [OF good_step_trans [OF g1 g2]] show ?thesis by (simp add: executeStep_def b Inr x d2)
  qed
qed

text \<open>
  Either the step is refused before anything is dispatched, or the dispatch runs on a store in which
  the step is executing, and the executor ends with a step whose status is that of the answer, with the
  error of the cancellation of an unsent step, which changed nothing, or with the error of the read-back of
  a row that is stored with that status.
\<close>

lemma executeStep_outcome:
  assumes ok: "store_ok d" and disp: "follows_store dispatch"
    and b: "before_dispatch E jop op step d = (d1, Inr (executing, prepared))" and a: "dispatch d1 = (d2, answer)"
  shows "executeStep E E' F jop op step dispatch d = after_dispatch E' F op executing prepared answer d2"
    and "answer = Inl T_request_cancelled \<Longrightarrow> cancel_fault F = Some m
      \<Longrightarrow> executeStep E E' F jop op step dispatch d = (d2, Inl m)"
    and "answer \<noteq> Inl T_request_cancelled \<or> cancel_fault F = None
      \<Longrightarrow> returned F (s_id executing) (answer_status op (s_id executing) answer d2)
            (executeStep E E' F jop op step dispatch d)"
proof -
  show e: "executeStep E E' F jop op step dispatch d = after_dispatch E' F op executing prepared answer d2"
    by (simp add: executeStep_def b a)
  have "store_ok d1" using before_dispatch_executing [OF ok b] good_step_ok by blast
  note r = after_dispatch_returns [OF good_step_ok [OF follows_storeD [OF disp this a]], of E' F op executing prepared answer]
  from r show "answer = Inl T_request_cancelled \<Longrightarrow> cancel_fault F = Some m
      \<Longrightarrow> executeStep E E' F jop op step dispatch d = (d2, Inl m)" by (simp add: e)
  from r show "answer \<noteq> Inl T_request_cancelled \<or> cancel_fault F = None
      \<Longrightarrow> returned F (s_id executing) (answer_status op (s_id executing) answer d2)
            (executeStep E E' F jop op step dispatch d)" by (auto simp: e split: option.splits)
qed

lemma executeStep_refused:
  "before_dispatch E jop op step d = (d1, Inl e) \<Longrightarrow> executeStep E E' F jop op step dispatch d = (d1, Inl e)"
  by (simp add: executeStep_def)

text \<open>A compensation keeps the store well formed too.\<close>

lemma settle_compensated_good:
  assumes ok: "store_ok d"
  shows "good_step d (fst (settle_compensated E F op executing status outcome d))"
proof -
  let ?k = "s_id executing"
  have "good_step d d1" if "journal_call f (settleCompensationStep E ?k status outcome (Some op) d) = Inr d1" for f d1
    using settleCompensationStep_good [OF ok] journal_call_InrD [OF that] by blast
  moreover have "good_step d d1"
    if "journal_call f (settleCompensationStepDegraded E ?k status x v (Some op) d) = Inr d1" for f x v d1
    using settleCompensationStepDegraded_good [OF ok] journal_call_InrD [OF that] by blast
  ultimately show ?thesis using good_step_refl [OF ok]
    by (auto simp: settle_compensated_def Let_def split: sum.splits)
qed

lemma executeCompensationStep_good:
  assumes ok: "store_ok d" and disp: "follows_store dispatch"
  shows "good_step d (fst (executeCompensationStep E E' F jop op step dispatch d))"
proof (cases "jop = op")
  case False
  then show ?thesis using good_step_refl [OF ok] by (simp add: executeCompensationStep_def)
next
  case [simp]: True
  show ?thesis
  proof (cases "prepareCompensationStep E (compensation_input op step) d")
    case (Inl e)
    then show ?thesis using good_step_refl [OF ok] by (simp add: executeCompensationStep_def)
  next
    case (Inr x)
    obtain d1 k where x [simp]: "x = (d1, k)" by fastforce
    have g1: "good_step d d1" using prepareCompensationStep_good [OF ok] Inr by simp
    show ?thesis
    proof (cases "markOperationStepCompensating E k (Some op) d1")
      case e: (Inl e)
      with Inr g1 show ?thesis by (simp add: executeCompensationStep_def)
    next
      case y: (Inr y)
      obtain d2 b where [simp]: "y = (d2, b)" by fastforce
      have g2: "good_step d d2"
        using good_step_trans [OF g1 markOperationStepCompensating_good [OF good_step_ok [OF g1]]] y by simp
      obtain d3 answer where d3: "dispatch d2 = (d3, answer)" by fastforce
      have g3: "good_step d d3" by (rule good_step_trans [OF g2 follows_storeD [OF disp good_step_ok [OF g2] d3]])
      have g4: "good_step d (fst (settle_compensated E' F op s status out d3))" for s status out
        by (rule good_step_trans [OF g3 settle_compensated_good [OF good_step_ok [OF g3]]])
      show ?thesis using Inr y g2 g4 d3
        by (simp add: executeCompensationStep_def split: option.splits sum.splits)
    qed
  qed
qed

section \<open>A whole workflow\<close>

text \<open>The steps of a prefix executed in order, each successful and stored in full, compensations skipped.\<close>

definition execute_planned :: "string \<Rightarrow> string \<Rightarrow> planned \<Rightarrow> db \<Rightarrow> db \<times> (string, OperationStepRow) result" where
  "execute_planned jop op p d =
     executeStep (pl_before p) (pl_after p) (pl_faults p) jop op (pl_step p) (pl_dispatch p) d"

inductive executed_in_order :: "string \<Rightarrow> string \<Rightarrow> planned list \<Rightarrow> db \<Rightarrow> OperationStepRow list \<Rightarrow> db \<Rightarrow> bool" for jop op where
  executed_none: "executed_in_order jop op [] d [] d"
| executed_skip: "es_kind (pl_step p) \<noteq> Primary \<Longrightarrow> executed_in_order jop op ps d ss d'
    \<Longrightarrow> executed_in_order jop op (p # ps) d ss d'"
| executed_step: "es_kind (pl_step p) = Primary \<Longrightarrow> execute_planned jop op p d = (d1, Inr s)
    \<Longrightarrow> s_status s = S_succeeded \<Longrightarrow> \<not> isJournalDegradedStep s \<Longrightarrow> executed_in_order jop op ps d1 ss d'
    \<Longrightarrow> executed_in_order jop op (p # ps) d (s # ss) d'"

inductive_simps executed_Nil [simp]: "executed_in_order jop op [] d ss d'"

lemma executed_prefix:
  "executed_in_order jop op ps1 d ss d1 \<Longrightarrow>
   run_primaries cb a jop op n completed (ps1 @ ps2) d = run_primaries cb a jop op n (completed @ ss) ps2 d1"
  by (induction arbitrary: completed rule: executed_in_order.induct) (auto simp: execute_planned_def)

lemma executed_succeeded: "executed_in_order jop op ps d ss d' \<Longrightarrow> list_all (\<lambda>s. s_status s = S_succeeded) ss"
  by (induction rule: executed_in_order.induct) auto

lemma executed_primaries:
  "executed_in_order jop op ps d ss d' \<Longrightarrow> length ss = length (filter (\<lambda>p. es_kind (pl_step p) = Primary) ps)"
  by (induction rule: executed_in_order.induct) auto

text \<open>How the step that ends a workflow is reported.\<close>

definition step_report :: "callbacks \<Rightarrow> string \<Rightarrow> nat \<Rightarrow> OperationStepRow list \<Rightarrow> OperationStepRow \<Rightarrow> jsv" where
  "step_report cb actionName count completed s =
     (if s_status s = S_succeeded
      then (if count = 1 then withJournalDegradedWarning (onSuccess cb [s]) else onJournalDegraded cb (completed @ [s]) s)
      else stop_receipt cb actionName completed s)"

definition ends_workflow :: "OperationStepRow \<Rightarrow> bool" where
  "ends_workflow s \<longleftrightarrow> s_status s \<noteq> S_succeeded \<or> isJournalDegradedStep s"

text \<open>
  A run either executes every primary step with success, or ends at the first step that throws, does
  not succeed, or succeeds with a degraded record; the steps after it are never executed.
\<close>

lemma run_primaries_cases:
  assumes "run_primaries cb a jop op n completed ps d = (d', r)"
  shows "(\<exists>ss. executed_in_order jop op ps d ss d' \<and> r = Inr (onSuccess cb (completed @ ss)))
    \<or> (\<exists>ps1 p ps2 ss d1. ps = ps1 @ p # ps2 \<and> executed_in_order jop op ps1 d ss d1 \<and> es_kind (pl_step p) = Primary
        \<and> ((\<exists>e. execute_planned jop op p d1 = (d', Inl e) \<and> r = Inl e)
           \<or> (\<exists>s. execute_planned jop op p d1 = (d', Inr s) \<and> ends_workflow s
                \<and> r = Inr (step_report cb a n (completed @ ss) s))))"
  (is "?all completed ps d \<or> ?stop completed ps d")
  using assms
proof (induction ps arbitrary: completed d)
  case Nil
  then show ?case by auto
next
  case (Cons p ps)
  show ?case
  proof (cases "es_kind (pl_step p) = Primary")
    case False
    with Cons.prems have "run_primaries cb a jop op n completed ps d = (d', r)" by simp
    from Cons.IH [OF this] show ?thesis
    proof
      assume "?all completed ps d"
      with False show ?thesis by (blast intro: executed_skip)
    next
      assume "?stop completed ps d"
      then obtain ps1 q ps2 ss d1 where "ps = ps1 @ q # ps2" "executed_in_order jop op ps1 d ss d1"
        and rest: "es_kind (pl_step q) = Primary" "(\<exists>e. execute_planned jop op q d1 = (d', Inl e) \<and> r = Inl e)
          \<or> (\<exists>s. execute_planned jop op q d1 = (d', Inr s) \<and> ends_workflow s \<and> r = Inr (step_report cb a n (completed @ ss) s))"
        by blast
      then have "p # ps = (p # ps1) @ q # ps2" "executed_in_order jop op (p # ps1) d ss d1"
        using False by (auto intro: executed_skip)
      with rest show ?thesis by blast
    qed
  next
    case prim: True
    obtain d1 x where e: "execute_planned jop op p d = (d1, x)" by fastforce
    have here: ?thesis if "d' = d1" "(\<exists>e. x = Inl e \<and> r = Inl e)
        \<or> (\<exists>s. x = Inr s \<and> ends_workflow s \<and> r = Inr (step_report cb a n completed s))"
      using that e prim by (intro disjI2 exI [of _ "[]"] exI [of _ p] exI [of _ ps] exI [of _ d]) auto
    show ?thesis
    proof (cases x)
      case (Inl err)
      with Cons.prems prim e show ?thesis by (intro here) (auto simp: execute_planned_def)
    next
      case (Inr s)
      show ?thesis
      proof (cases "ends_workflow s")
        case True
        with Cons.prems prim e Inr show ?thesis
          by (intro here) (auto simp: execute_planned_def ends_workflow_def step_report_def split: if_splits)
      next
        case False
        then have s: "s_status s = S_succeeded" "\<not> isJournalDegradedStep s" by (auto simp: ends_workflow_def)
        with Cons.prems prim e Inr have "run_primaries cb a jop op n (completed @ [s]) ps d1 = (d', r)"
          by (simp add: execute_planned_def)
        from Cons.IH [OF this] show ?thesis
        proof
          assume "?all (completed @ [s]) ps d1"
          then obtain ss where "executed_in_order jop op ps d1 ss d'" "r = Inr (onSuccess cb (completed @ s # ss))" by auto
          with executed_step [OF prim e [unfolded Inr] s] show ?thesis by blast
        next
          assume "?stop (completed @ [s]) ps d1"
          then obtain ps1 q ps2 ss d2 where eq: "ps = ps1 @ q # ps2" and x: "executed_in_order jop op ps1 d1 ss d2"
            and q: "es_kind (pl_step q) = Primary" "(\<exists>e. execute_planned jop op q d2 = (d', Inl e) \<and> r = Inl e)
              \<or> (\<exists>s'. execute_planned jop op q d2 = (d', Inr s') \<and> ends_workflow s'
                   \<and> r = Inr (step_report cb a n (completed @ s # ss) s'))"
            by auto
          have "p # ps = (p # ps1) @ q # ps2" "executed_in_order jop op (p # ps1) d (s # ss) d2"
            using eq executed_step [OF prim e [unfolded Inr] s x] by simp_all
          with q show ?thesis by blast
        qed
      qed
    qed
  qed
qed

lemma execute_planned_good:
  "store_ok d \<Longrightarrow> follows_store (pl_dispatch p) \<Longrightarrow> good_step d (fst (execute_planned jop op p d))"
  by (simp add: execute_planned_def executeStep_good)

lemma run_primaries_good:
  "store_ok d \<Longrightarrow> list_all (\<lambda>p. follows_store (pl_dispatch p)) ps
   \<Longrightarrow> good_step d (fst (run_primaries cb a jop op n completed ps d))"
proof (induction ps arbitrary: completed d)
  case (Cons p ps)
  obtain d1 x where e: "execute_planned jop op p d = (d1, x)" by fastforce
  have g: "good_step d d1" using execute_planned_good [OF Cons.prems(1), of p jop op] Cons.prems(2) e by simp
  from Cons.IH [OF good_step_ok [OF g]] Cons.prems(2) good_step_trans [OF g]
  have "good_step d (fst (run_primaries cb a jop op n c ps d1))" for c by simp
  with Cons.IH [OF Cons.prems(1)] Cons.prems(2) e g show ?case by (simp add: execute_planned_def split: sum.splits)
qed (simp add: good_step_refl)

lemma executeMutationWorkflow_good:
  "store_ok d \<Longrightarrow> list_all (\<lambda>p. follows_store (pl_dispatch p)) ps
   \<Longrightarrow> good_step d (fst (executeMutationWorkflow cb a jop op ps d))"
  by (simp add: executeMutationWorkflow_def run_primaries_good good_step_refl)

end
