(* ===== verification/SafetyLimits.thy ===== *)
theory SafetyLimits
  imports ActionResults
begin

text \<open>
  The host-call estimator (\<open>src/src/harness/safety-limits.ts\<close>): the worst-case number of physical
  Clockify calls of a mutation plan, which is bound into the persisted plan and reserved before
  anything is sent, and the batch ceilings shown to the model, which are derived from the same cost
  functions. A plan step matters here only by its identifier.
\<close>

section \<open>Cost functions\<close>

definition TURN_HOST_CALL_LIMIT :: int where
  "TURN_HOST_CALL_LIMIT = HOST_CALL_BUDGET_MAXIMUM"

definition CONFIRMED_REQUEST_PRE_RESERVATION_HOST_CALLS :: int where
  "CONFIRMED_REQUEST_PRE_RESERVATION_HOST_CALLS = 3"

definition INVOICE_CREATE_RECONCILIATION_CANDIDATE_MAX :: int where
  "INVOICE_CREATE_RECONCILIATION_CANDIDATE_MAX = 8"

text \<open>The loop returns the first count whose successor does not fit; it throws when there is none.\<close>

definition deriveMaximumBatchSize :: "(int \<Rightarrow> int) \<Rightarrow> int \<Rightarrow> (string, int) result" where
  "deriveMaximumBatchSize estimateRemainingCalls callsAlreadyConsumed =
     (case find (\<lambda>count. TURN_HOST_CALL_LIMIT < callsAlreadyConsumed + estimateRemainingCalls (count + 1))
             [0..TURN_HOST_CALL_LIMIT - 1] of
        Some count \<Rightarrow> Inr count
      | None \<Rightarrow> Inl ''host_call_estimator_did_not_reach_turn_limit'')"

definition estimateGroupMemberBatchHostCalls :: "int \<Rightarrow> int" where
  "estimateGroupMemberBatchHostCalls memberCount = 4 * memberCount + 1"

definition estimateOnboardGroupBatchHostCalls :: "int \<Rightarrow> int" where
  "estimateOnboardGroupBatchHostCalls groupCount = 4 * groupCount + 4"

definition estimateInvoiceCreateHostCalls :: "int \<Rightarrow> bool \<Rightarrow> int" where
  "estimateInvoiceCreateHostCalls itemCount hasEnrichment =
     (if itemCount = 0 \<and> \<not> hasEnrichment then 4 + INVOICE_CREATE_RECONCILIATION_CANDIDATE_MAX
      else 3 + (if hasEnrichment then 3 else 0) + 2 * itemCount)"

definition estimateApprovePendingBatchHostCalls :: "int \<Rightarrow> int" where
  "estimateApprovePendingBatchHostCalls approvalCount = 3 * approvalCount + 1"

definition estimateSetupProjectHostCalls :: "int \<Rightarrow> int \<Rightarrow> bool \<Rightarrow> int" where
  "estimateSetupProjectHostCalls memberCount rateCount hasClient =
     (let snapshotCount = memberCount + (if hasClient then 1 else 0);
          createAndInitialEvidence = snapshotCount + 5;
          membership = (if 0 < memberCount then snapshotCount + 3 else 0);
          rates = rateCount * (snapshotCount + 3) in
      createAndInitialEvidence + membership + rates)"

section \<open>Ceilings\<close>

text \<open>A ceiling is computed when the module is loaded, which fails if a derivation throws.\<close>

definition derived :: "(int \<Rightarrow> int) \<Rightarrow> (string, int) result" where
  "derived estimate = deriveMaximumBatchSize estimate CONFIRMED_REQUEST_PRE_RESERVATION_HOST_CALLS"

definition GROUP_MEMBER_BATCH_MAX :: "(string, int) result" where
  "GROUP_MEMBER_BATCH_MAX = derived estimateGroupMemberBatchHostCalls"

definition ONBOARD_GROUP_BATCH_MAX :: "(string, int) result" where
  "ONBOARD_GROUP_BATCH_MAX = derived estimateOnboardGroupBatchHostCalls"

definition INVOICE_ITEM_BATCH_MAX :: "(string, int) result" where
  "INVOICE_ITEM_BATCH_MAX = derived (\<lambda>count. estimateInvoiceCreateHostCalls count True)"

definition SETUP_PROJECT_MEMBER_BATCH_MAX :: "(string, int) result" where
  "SETUP_PROJECT_MEMBER_BATCH_MAX = derived (\<lambda>count. estimateSetupProjectHostCalls count 0 True)"

definition SETUP_PROJECT_RATE_BATCH_MAX :: "(string, int) result" where
  "SETUP_PROJECT_RATE_BATCH_MAX = derived (\<lambda>count. estimateSetupProjectHostCalls count count True)"

definition MARK_INVOICED_ENTRY_BATCH_MAX :: "(string, int) result" where
  "MARK_INVOICED_ENTRY_BATCH_MAX = map_sum id (min 21) (derived (\<lambda>count. 2 * count + 2))"

definition INVOICE_IMPORT_PROJECT_BATCH_MAX :: int where
  "INVOICE_IMPORT_PROJECT_BATCH_MAX = 19"

definition SETUP_TASK_ASSIGNEE_BATCH_MAX :: "(string, int) result" where
  "SETUP_TASK_ASSIGNEE_BATCH_MAX = derived (\<lambda>count. 3 * count + 11)"

definition TIME_OFF_BALANCE_USER_MATERIAL_MAX :: int where
  "TIME_OFF_BALANCE_USER_MATERIAL_MAX = 8"

definition TIME_OFF_BALANCE_USER_BATCH_MAX :: "(string, int) result" where
  "TIME_OFF_BALANCE_USER_BATCH_MAX = map_sum id (min TIME_OFF_BALANCE_USER_MATERIAL_MAX) (derived (\<lambda>count. 2 * count + 3))"

definition APPROVAL_PENDING_BATCH_MAX :: "(string, int) result" where
  "APPROVAL_PENDING_BATCH_MAX = derived estimateApprovePendingBatchHostCalls"

section \<open>The estimator\<close>

definition countSteps :: "string list \<Rightarrow> string \<Rightarrow> int" where
  "countSteps steps pre = int (length (filter (starts_with pre) steps))"

definition payload_of :: "jsv \<Rightarrow> jsv" where
  "payload_of operation = (case operation of JObj es \<Rightarrow> operation | _ \<Rightarrow> JObj [])"

definition array_length :: "jsv \<Rightarrow> int" where
  "array_length v = (case v of JArr xs \<Rightarrow> int (length xs) | _ \<Rightarrow> 0)"

fun is_string :: "jsv \<Rightarrow> bool" where
  "is_string (JStr s) = True"
| "is_string _ = False"

definition distinct_strings :: "jsv \<Rightarrow> int" where
  "distinct_strings v = (case v of JArr xs \<Rightarrow> int (length (remdups (filter is_string xs))) | _ \<Rightarrow> 0)"

definition undo_step_cost :: "string \<Rightarrow> int" where
  "undo_step_cost step = (if ends_with ''-transition'' step then 3 else if ends_with ''-delete'' step then 2 else 8)"

definition estimateMutationPlanHostCalls :: "string \<Rightarrow> jsv \<Rightarrow> string list \<Rightarrow> int" where
  "estimateMutationPlanHostCalls actionName operation steps =
     (let n = int (length steps); payload = payload_of operation in
      if actionName = ''clockify_approvals_approve_pending'' then estimateApprovePendingBatchHostCalls n
      else if actionName = ''clockify_groups_add_user'' then estimateGroupMemberBatchHostCalls n
      else if actionName = ''clockify_onboard_user''
      then estimateOnboardGroupBatchHostCalls (countSteps steps ''add-user-to-group-'')
      else if actionName = ''clockify_invoices_create''
      then estimateInvoiceCreateHostCalls (countSteps steps ''add-invoice-item-'') (list_ex (\<lambda>s. s = ''enrich-invoice'') steps)
      else if actionName = ''clockify_setup_project''
      then estimateSetupProjectHostCalls (array_length (getp ''addUserIds'' payload))
             (array_length (getp ''memberRates'' payload)) (is_string (getp ''clientId'' payload))
      else if actionName = ''clockify_projects_create''
      then (if is_string (getp ''clientId'' payload) \<or> is_string (getp ''clientId'' (payload_of (getp ''body'' payload)))
            then 9 else 8)
      else if actionName = ''clockify_invoices_import_time''
      then distinct_strings (getp ''projectIds'' (payload_of (getp ''range'' payload))) + 3
      else if actionName = ''clockify_entries_mark_invoiced'' then 2 * array_length (getp ''ids'' payload) + 2
      else if actionName = ''clockify_setup_task''
      then 3 * array_length (getp ''assigneeIds'' payload) + (if getp ''rate'' payload = JUndef then 7 else 11)
      else if actionName = ''clockify_time_off_balance_update'' then 2 * array_length (getp ''userIds'' payload) + 3
      else if actionName = ''undo'' then sum_list (map undo_step_cost steps)
      else max 1 (n * 8))"

text \<open>What is persisted: the step identifiers with the bound.\<close>

definition bindMutationPlanHostCalls :: "string \<Rightarrow> jsv \<Rightarrow> string list \<Rightarrow> string list \<times> int" where
  "bindMutationPlanHostCalls actionName operation steps =
     (steps, estimateMutationPlanHostCalls actionName operation steps)"

section \<open>The ceilings are exact\<close>

lemma find_upto_Some: "find P [i..j] = Some n \<Longrightarrow> i \<le> n \<and> n \<le> j \<and> P n \<and> (\<forall>m. i \<le> m \<and> m < n \<longrightarrow> \<not> P m)"
proof (induction i j rule: upto.induct)
  case (1 i j)
  then have le: "i \<le> j" by (cases "i \<le> j") auto
  show ?case
  proof (cases "P i")
    case True
    with 1(2) le show ?thesis by (auto simp: upto_rec1)
  next
    case False
    with 1(2) le have "find P [i + 1..j] = Some n" by (simp add: upto_rec1)
    note ih = 1(1) [OF le this]
    have "\<not> P m" if "i \<le> m" "m < n" for m using ih False that by (cases "m = i") auto
    with ih show ?thesis by auto
  qed
qed

text \<open>The derived size is the first count whose successor does not fit; every count up to it fits.\<close>

lemma deriveMaximumBatchSize_exact:
  assumes "deriveMaximumBatchSize f c = Inr n"
  shows "0 \<le> n \<and> TURN_HOST_CALL_LIMIT < c + f (n + 1) \<and> (\<forall>m. 0 < m \<and> m \<le> n \<longrightarrow> c + f m \<le> TURN_HOST_CALL_LIMIT)"
proof -
  have f: "find (\<lambda>count. TURN_HOST_CALL_LIMIT < c + f (count + 1)) [0..TURN_HOST_CALL_LIMIT - 1] = Some n"
    using assms by (simp add: deriveMaximumBatchSize_def split: option.splits)
  note s = find_upto_Some [OF f]
  have "c + f m \<le> TURN_HOST_CALL_LIMIT" if "0 < m" "m \<le> n" for m
    using s that by (force dest: spec [of _ "m - 1"])
  with s show ?thesis by blast
qed

lemma ceilings_eval:
  "GROUP_MEMBER_BATCH_MAX = Inr 14" "ONBOARD_GROUP_BATCH_MAX = Inr 13" "INVOICE_ITEM_BATCH_MAX = Inr 25"
  "SETUP_PROJECT_MEMBER_BATCH_MAX = Inr 23" "SETUP_PROJECT_RATE_BATCH_MAX = Inr 4" "MARK_INVOICED_ENTRY_BATCH_MAX = Inr 21"
  "SETUP_TASK_ASSIGNEE_BATCH_MAX = Inr 15" "TIME_OFF_BALANCE_USER_BATCH_MAX = Inr 8" "APPROVAL_PENDING_BATCH_MAX = Inr 18"
  by code_simp+


section \<open>The ceilings against the estimator\<close>

text \<open>The worst case of a confirmed request: the calls before the reservation and the bound of its plan.\<close>

abbreviation turn_cost :: "string \<Rightarrow> jsv \<Rightarrow> string list \<Rightarrow> int" where
  "turn_cost actionName operation steps \<equiv>
     CONFIRMED_REQUEST_PRE_RESERVATION_HOST_CALLS + estimateMutationPlanHostCalls actionName operation steps"

text \<open>
  \<open>superRefine\<close> of the project setup takes the declared members and rates; after name resolution the
  operation has at most as many of each.
\<close>

definition setup_admitted :: "int \<Rightarrow> int \<Rightarrow> bool \<Rightarrow> bool" where
  "setup_admitted members rates hasClient \<longleftrightarrow>
     CONFIRMED_REQUEST_PRE_RESERVATION_HOST_CALLS + estimateSetupProjectHostCalls (members + rates) rates hasClient
       \<le> TURN_HOST_CALL_LIMIT"

lemmas cost_defs = estimateGroupMemberBatchHostCalls_def estimateOnboardGroupBatchHostCalls_def
  estimateInvoiceCreateHostCalls_def estimateApprovePendingBatchHostCalls_def estimateSetupProjectHostCalls_def
  INVOICE_CREATE_RECONCILIATION_CANDIDATE_MAX_def

lemma turn_limit [simp]: "TURN_HOST_CALL_LIMIT = 60" "CONFIRMED_REQUEST_PRE_RESERVATION_HOST_CALLS = 3"
  by (simp_all add: TURN_HOST_CALL_LIMIT_def HOST_CALL_BUDGET_MAXIMUM_def CONFIRMED_REQUEST_PRE_RESERVATION_HOST_CALLS_def)


lemma array_length_nonneg [simp]: "0 \<le> array_length v"
  by (simp add: array_length_def split: jsv.splits)

text \<open>The ceilings that are derived from the estimator are exact: a batch fits the turn if and only if it respects them.\<close>

lemma derived_ceilings_exact:
  "turn_cost ''clockify_groups_add_user'' operation ids \<le> TURN_HOST_CALL_LIMIT \<longleftrightarrow> int (length ids) \<le> 14"
  "turn_cost ''clockify_approvals_approve_pending'' operation ids \<le> TURN_HOST_CALL_LIMIT \<longleftrightarrow> int (length ids) \<le> 18"
  "turn_cost ''clockify_onboard_user'' operation ids \<le> TURN_HOST_CALL_LIMIT \<longleftrightarrow> countSteps ids ''add-user-to-group-'' \<le> 13"
  "''enrich-invoice'' \<in> set ids \<Longrightarrow>
     turn_cost ''clockify_invoices_create'' operation ids \<le> TURN_HOST_CALL_LIMIT \<longleftrightarrow> countSteps ids ''add-invoice-item-'' \<le> 25"
  "getp ''rate'' (payload_of operation) \<noteq> JUndef \<Longrightarrow>
     turn_cost ''clockify_setup_task'' operation ids \<le> TURN_HOST_CALL_LIMIT
       \<longleftrightarrow> array_length (getp ''assigneeIds'' (payload_of operation)) \<le> 15"
  by (auto simp: estimateMutationPlanHostCalls_def cost_defs Let_def list_ex_iff)

text \<open>The ceilings that are capped below their derivation are sufficient.\<close>

lemma capped_ceilings_fit:
  "array_length (getp ''ids'' (payload_of operation)) \<le> 21
     \<Longrightarrow> turn_cost ''clockify_entries_mark_invoiced'' operation ids \<le> TURN_HOST_CALL_LIMIT"
  "array_length (getp ''userIds'' (payload_of operation)) \<le> 8
     \<Longrightarrow> turn_cost ''clockify_time_off_balance_update'' operation ids \<le> TURN_HOST_CALL_LIMIT"
  "distinct_strings (getp ''projectIds'' (payload_of (getp ''range'' (payload_of operation)))) \<le> 19
     \<Longrightarrow> turn_cost ''clockify_invoices_import_time'' operation ids \<le> TURN_HOST_CALL_LIMIT"
  by (simp_all add: estimateMutationPlanHostCalls_def Let_def)

text \<open>
  The two ceilings of the project setup bound members without rates and rates without further members; taken
  together they overrun the turn, which is why its schema checks the combination.
\<close>

lemma setup_ceilings:
  "0 \<le> n \<Longrightarrow> CONFIRMED_REQUEST_PRE_RESERVATION_HOST_CALLS + estimateSetupProjectHostCalls n 0 True \<le> TURN_HOST_CALL_LIMIT \<longleftrightarrow> n \<le> 23"
  "0 \<le> n \<Longrightarrow> CONFIRMED_REQUEST_PRE_RESERVATION_HOST_CALLS + estimateSetupProjectHostCalls n n True \<le> TURN_HOST_CALL_LIMIT \<longleftrightarrow> n \<le> 4"
  "TURN_HOST_CALL_LIMIT < CONFIRMED_REQUEST_PRE_RESERVATION_HOST_CALLS + estimateSetupProjectHostCalls 23 4 True"
proof -
  show "0 \<le> n \<Longrightarrow> CONFIRMED_REQUEST_PRE_RESERVATION_HOST_CALLS + estimateSetupProjectHostCalls n 0 True \<le> TURN_HOST_CALL_LIMIT \<longleftrightarrow> n \<le> 23"
    by (auto simp: cost_defs Let_def)
  show "TURN_HOST_CALL_LIMIT < CONFIRMED_REQUEST_PRE_RESERVATION_HOST_CALLS + estimateSetupProjectHostCalls 23 4 True"
    by (simp add: cost_defs Let_def)
  assume n: "0 \<le> n"
  have "n * (n + 4) \<le> 4 * 8" if "n \<le> 4" using that n by (intro mult_mono) auto
  moreover have "5 * 9 \<le> n * (n + 4)" if "\<not> n \<le> 4" using that by (intro mult_mono) auto
  ultimately show "CONFIRMED_REQUEST_PRE_RESERVATION_HOST_CALLS + estimateSetupProjectHostCalls n n True \<le> TURN_HOST_CALL_LIMIT \<longleftrightarrow> n \<le> 4"
    using n by (cases "n \<le> 4") (auto simp: cost_defs Let_def algebra_simps)
qed

lemma estimateSetupProject_mono:
  assumes "0 \<le> m" "m \<le> m'" "0 \<le> r" "r \<le> r'"
  shows "estimateSetupProjectHostCalls m r c \<le> estimateSetupProjectHostCalls m' r' c"
proof -
  have "r * (m + k) \<le> r' * (m' + k)" if "0 \<le> k" for k
    using assms that by (intro mult_mono) auto
  from this [of 3] this [of 4] show ?thesis using assms by (auto simp: estimateSetupProjectHostCalls_def Let_def algebra_simps)
qed

lemma admitted_setup_fits:
  assumes "setup_admitted members rates hasClient" and "0 \<le> members" and "0 \<le> rates"
    and "array_length (getp ''addUserIds'' (payload_of operation)) \<le> members + rates"
    and "array_length (getp ''memberRates'' (payload_of operation)) \<le> rates"
    and "is_string (getp ''clientId'' (payload_of operation)) \<longrightarrow> hasClient"
  shows "CONFIRMED_REQUEST_PRE_RESERVATION_HOST_CALLS
    + estimateMutationPlanHostCalls ''clockify_setup_project'' operation steps \<le> TURN_HOST_CALL_LIMIT"
proof -
  note pos = array_length_nonneg
  have c: "estimateSetupProjectHostCalls m r b \<le> estimateSetupProjectHostCalls m r hasClient"
    if "b \<longrightarrow> hasClient" "0 \<le> r" for m r b
    using that by (auto simp: estimateSetupProjectHostCalls_def Let_def algebra_simps)
  let ?p = "payload_of operation"
  have "estimateMutationPlanHostCalls ''clockify_setup_project'' operation steps
    = estimateSetupProjectHostCalls (array_length (getp ''addUserIds'' ?p)) (array_length (getp ''memberRates'' ?p))
        (is_string (getp ''clientId'' ?p))"
    by (simp add: estimateMutationPlanHostCalls_def Let_def)
  also have "\<dots> \<le> estimateSetupProjectHostCalls (array_length (getp ''addUserIds'' ?p)) (array_length (getp ''memberRates'' ?p)) hasClient"
    by (rule c [OF assms(6) pos])
  also have "\<dots> \<le> estimateSetupProjectHostCalls (members + rates) rates hasClient"
    by (rule estimateSetupProject_mono [OF pos assms(4) pos assms(5)])
  finally show ?thesis using assms(1) by (simp add: setup_admitted_def)
qed

end
