(* ===== verification/UndoWorkflow.thy ===== *)
theory UndoWorkflow
  imports Receipts UndoStore MutationWorkflow Policy SafetyLimits
begin

text \<open>
  The undo of a creation (\<open>src/src/harness/undo.ts\<close>): the entities an action created are deleted in
  reverse order, each by one exact journaled step, a project, client or task after a step that
  archives it. The answers of Clockify, the prepared bodies and the answers of the plan gate are
  arguments.
\<close>

section \<open>What can be undone\<close>

definition REVERSIBLE_ENTITY_GROUP :: "(string \<times> string) list" where
  "REVERSIBLE_ENTITY_GROUP =
     [(''project'', ''work_structure''), (''client'', ''work_structure''), (''task'', ''work_structure''),
      (''tag'', ''work_structure''), (''time_entry'', ''time_tracking''), (''invoice'', ''invoices''),
      (''expense'', ''expenses''), (''webhook'', ''webhooks''), (''group'', ''users_groups''),
      (''holiday'', ''time_off_approvals''), (''assignment'', ''scheduling'')]"

definition reversibleCreations :: "ChangeSet option \<Rightarrow> EntityRef list" where
  "reversibleCreations changed =
     filter (\<lambda>e. map_of REVERSIBLE_ENTITY_GROUP (er_type e) \<noteq> None)
       (case changed of None \<Rightarrow> [] | Some c \<Rightarrow> (case cs_created c of None \<Rightarrow> [] | Some rs \<Rightarrow> rs))"

text \<open>A set keeps the first occurrence of each group, in order.\<close>

definition distinct_groups :: "EntityRef list \<Rightarrow> string list" where
  "distinct_groups refs =
     rev (remdups (rev (map the (filter (\<lambda>g. g \<noteq> None) (map (\<lambda>r. map_of REVERSIBLE_ENTITY_GROUP (er_type r)) refs)))))"

definition firstDeniedGroup :: "AdminPolicy \<Rightarrow> EntityRef list \<Rightarrow> string option" where
  "firstDeniedGroup policy refs = find (\<lambda>g. \<not> canWrite policy g) (distinct_groups refs)"

section \<open>The plan\<close>

datatype undo_operation = Transition | Delete

record UndoPlanStep =
  up_id :: string
  up_index :: nat
  up_ref :: EntityRef
  up_operation :: undo_operation

definition has_transition :: "EntityRef \<Rightarrow> bool" where
  "has_transition r \<longleftrightarrow> er_type r = ''project'' \<or> er_type r = ''client'' \<or> er_type r = ''task''"

definition undo_step_id :: "nat \<Rightarrow> EntityRef \<Rightarrow> string \<Rightarrow> string" where
  "undo_step_id refIndex r suffix = ''undo-'' @ nat_digits refIndex @ ''-'' @ er_type r @ suffix"

definition ref_steps :: "nat \<Rightarrow> nat \<Rightarrow> EntityRef \<Rightarrow> UndoPlanStep list" where
  "ref_steps refIndex n r =
     (if has_transition r
      then [\<lparr>up_id = undo_step_id refIndex r ''-transition'', up_index = n, up_ref = r, up_operation = Transition\<rparr>,
            \<lparr>up_id = undo_step_id refIndex r ''-delete'', up_index = n + 1, up_ref = r, up_operation = Delete\<rparr>]
      else [\<lparr>up_id = undo_step_id refIndex r ''-delete'', up_index = n, up_ref = r, up_operation = Delete\<rparr>])"

fun steps_from :: "nat \<Rightarrow> nat \<Rightarrow> EntityRef list \<Rightarrow> UndoPlanStep list" where
  "steps_from refIndex n [] = []"
| "steps_from refIndex n (r # rs) =
     ref_steps refIndex n r @ steps_from (Suc refIndex) (n + length (ref_steps refIndex n r)) rs"

definition undoPlanSteps :: "EntityRef list \<Rightarrow> UndoPlanStep list" where
  "undoPlanSteps refs = steps_from 0 0 (rev refs)"

record undo_plan =
  plan_steps :: "(string \<times> OperationStepKind \<times> string) list"
  plan_maxHostCalls :: int

definition undoMutationPlan :: "EntityRef list \<Rightarrow> undo_plan" where
  "undoMutationPlan refs =
     (let specs = undoPlanSteps refs in
      \<lparr>plan_steps = map (\<lambda>s. (up_id s, Primary, case up_operation s of Delete \<Rightarrow> ''delete'' | Transition \<Rightarrow> ''state-command'')) specs,
       plan_maxHostCalls = snd (bindMutationPlanHostCalls ''undo'' (JObj [(''refs'', JArr (map entity_json refs))]) (map up_id specs))\<rparr>)"

section \<open>Execution\<close>

definition ref_key :: "EntityRef \<Rightarrow> string" where
  "ref_key r = er_type r @ '':'' @ er_id r"

definition remainingAfter :: "EntityRef list \<Rightarrow> EntityRef list \<Rightarrow> EntityRef list" where
  "remainingAfter refs deleted = filter (\<lambda>r. ref_key r \<notin> ref_key ` set deleted) refs"

definition prepared_detail :: "EntityRef \<Rightarrow> jsv option \<Rightarrow> jsv" where
  "prepared_detail r body =
     JObj ((''ref'', JObj ([(''type'', JStr (er_type r)), (''id'', JStr (er_id r))]
             @ (if truthy (er_projectId r) then optional ''projectId'' (er_projectId r) else [])))
           # (case body of None \<Rightarrow> [] | Some b \<Rightarrow> [(''body'', b)]))"

definition executable_undo_step :: "UndoPlanStep \<Rightarrow> jsv option \<Rightarrow> ExecutableStep" where
  "executable_undo_step spec body =
     \<lparr>es_id = up_id spec, es_index = int (up_index spec),
      es_name = (case up_operation spec of Delete \<Rightarrow> ''Delete '' @ er_type (up_ref spec)
                 | Transition \<Rightarrow> ''Prepare '' @ er_type (up_ref spec) @ '' for deletion''),
      es_kind = Primary, es_targetFingerprint = None, es_preparedDetail = prepared_detail (up_ref spec) body,
      es_compensatesStepId = None\<rparr>"

definition undo_outcome :: "UndoPlanStep \<Rightarrow> StepDetail" where
  "undo_outcome spec =
     \<lparr>sd_externalId = Some (er_id (up_ref spec)),
      sd_effect = JObj [(case up_operation spec of Delete \<Rightarrow> ''deleted'' | Transition \<Rightarrow> ''updated'', entity_json (up_ref spec))],
      sd_detail = JUndef\<rparr>"

text \<open>
  What surrounds one step: the clocks, the storage faults, the body that \<open>prepareTransition\<close> reads
  (\<open>None\<close> when it throws) and the host call behind the gate.
\<close>

record undo_call =
  uc_before :: env
  uc_after :: env
  uc_faults :: faults
  uc_prepared :: "jsv option"
  uc_host :: "db \<Rightarrow> db \<times> (thrown, unit) result"

definition undo_dispatch :: "UndoPlanStep \<Rightarrow> undo_call \<Rightarrow> db \<Rightarrow> db \<times> (thrown, StepDetail) result" where
  "undo_dispatch spec c d = (case uc_host c d of (d1, answer) \<Rightarrow> (d1, map_sum id (\<lambda>_. undo_outcome spec) answer))"

record undo_state =
  us_deleted :: "EntityRef list"
  us_transitioned :: "string list"
  us_terminal :: "OperationStepRow option"
  us_preparationFailure :: "string option"

definition undo_start :: undo_state where
  "undo_start = \<lparr>us_deleted = [], us_transitioned = [], us_terminal = None, us_preparationFailure = None\<rparr>"

definition undo_effect :: "UndoPlanStep \<Rightarrow> undo_state \<Rightarrow> undo_state" where
  "undo_effect spec s =
     (case up_operation spec of
        Transition \<Rightarrow> s\<lparr>us_transitioned := List.insert (ref_key (up_ref spec)) (us_transitioned s)\<rparr>
      | Delete \<Rightarrow> s\<lparr>us_deleted := us_deleted s @ [up_ref spec]\<rparr>)"

definition preparation_failure :: "EntityRef \<Rightarrow> string" where
  "preparation_failure r =
     ''Couldn't prepare '' @ er_type r @ '' '' @ (case er_name r of None \<Rightarrow> er_id r | Some n \<Rightarrow> n) @ '' for removal.''"

definition execute_undo_step :: "string \<Rightarrow> string \<Rightarrow> UndoPlanStep \<Rightarrow> undo_call \<Rightarrow> db \<Rightarrow> db \<times> (string, OperationStepRow) result" where
  "execute_undo_step jop op spec c d =
     executeStep (uc_before c) (uc_after c) (uc_faults c) jop op
       (executable_undo_step spec (case up_operation spec of Delete \<Rightarrow> None | Transition \<Rightarrow> uc_prepared c))
       (undo_dispatch spec c) d"

fun undo_loop ::
  "string \<Rightarrow> string \<Rightarrow> (nat \<Rightarrow> undo_call) \<Rightarrow> UndoPlanStep list \<Rightarrow> undo_state \<Rightarrow> db \<Rightarrow> db \<times> (string, undo_state) result" where
  "undo_loop jop op calls [] s d = (d, Inr s)"
| "undo_loop jop op calls (spec # specs) s d =
     (if up_operation spec = Transition \<and> uc_prepared (calls (up_index spec)) = None
      then (d, Inr (s\<lparr>us_preparationFailure := Some (preparation_failure (up_ref spec))\<rparr>))
      else case execute_undo_step jop op spec (calls (up_index spec)) d of
             (d1, Inl e) \<Rightarrow> (d1, Inl e)
           | (d1, Inr step) \<Rightarrow>
               let s1 = s\<lparr>us_terminal := Some step\<rparr> in
               if s_status step \<noteq> S_succeeded then (d1, Inr s1)
               else if isJournalDegradedStep step then (d1, Inr (undo_effect spec s1))
               else undo_loop jop op calls specs (undo_effect spec s1) d1)"

section \<open>The report\<close>

record DurableUndoResult =
  ur_receipt :: jsv
  ur_status :: undo_settlement
  ur_remaining :: "EntityRef list"

definition undo_success :: "string \<Rightarrow> EntityRef list \<Rightarrow> EntityRef list option \<Rightarrow> jsv list option \<Rightarrow> jsv" where
  "undo_success workspaceId deleted updated warnings =
     successReceipt \<lparr>si_action = ''undo'', si_entity = Some ''undo'', si_ids = Some [(''workspaceId'', Some workspaceId)],
       si_data = JUndef, si_changed = Some \<lparr>cs_created = None, cs_updated = updated, cs_deleted = Some deleted, cs_reused = None\<rparr>,
       si_warnings = warnings, si_next = None\<rparr>"

definition transitioned_refs :: "EntityRef list \<Rightarrow> undo_state \<Rightarrow> EntityRef list" where
  "transitioned_refs refs s = filter (\<lambda>r. ref_key r \<in> set (us_transitioned s)) refs"

definition recovery_json :: "string \<Rightarrow> bool \<Rightarrow> jsv" where
  "recovery_json hint retryable = JObj [(''hint'', JStr hint), (''retryable'', JBool retryable)]"

text \<open>\<open>trim\<close> on the message, which starts with a letter.\<close>

definition trim_end :: "string \<Rightarrow> string" where
  "trim_end s = rev (dropWhile js_space (rev s))"

text \<open>The dash of the message, as its UTF-8 bytes.\<close>

definition em_dash :: string where
  "em_dash = [CHR 0xE2, CHR 0x80, CHR 0x94]"

definition failedUndoReceipt :: "EntityRef list \<Rightarrow> string \<Rightarrow> jsv" where
  "failedUndoReceipt refs detail =
     errorReceipt ''undo'' ''undo_failed''
       (trim_end (if length refs = 1
          then ''Couldn't undo '' @ em_dash @ '' the change could not be reversed. '' @ detail
          else ''Couldn't undo '' @ em_dash @ '' none of the '' @ nat_digits (length refs) @ '' created items could be removed. '' @ detail))
       (recovery_json ''Nothing was removed; remove them manually if needed.'' False)"

definition known_effects :: "undo_state \<Rightarrow> nat" where
  "known_effects s = length (us_deleted s) + length (us_transitioned s)"

definition unknown_warning :: string where
  "unknown_warning = ''A Clockify undo step had an unknown outcome. No later removal was dispatched.''"

definition rejected_warning :: string where
  "rejected_warning = ''Clockify definitively rejected an undo step. No later removal was dispatched.''"

definition degraded_undo_warning :: string where
  "degraded_undo_warning = ''Clockify confirmed the undo step, but its full local journal settlement degraded. No later removal was dispatched.''"

definition undo_report :: "string \<Rightarrow> EntityRef list \<Rightarrow> undo_state \<Rightarrow> DurableUndoResult" where
  "undo_report ws refs s =
     (let remaining = remainingAfter refs (us_deleted s);
          status = map_option s_status (us_terminal s) in
      if status = Some S_outcome_unknown
      then (if 0 < known_effects s
            then \<lparr>ur_receipt = undo_success ws (us_deleted s) (Some (transitioned_refs refs s))
                     (Some [warning_json ''undo_outcome_unknown'' unknown_warning]),
                  ur_status = Undo_outcome_unknown, ur_remaining = remaining\<rparr>
            else \<lparr>ur_receipt = errorReceipt ''undo'' ''commit_outcome_unknown'' unknown_warning
                     (recovery_json ''Verify the affected item in Clockify before taking further action.'' False),
                  ur_status = Undo_outcome_unknown, ur_remaining = remaining\<rparr>)
      else if truthy (us_preparationFailure s) \<or> (status \<noteq> None \<and> status \<noteq> Some S_succeeded)
      then (let message = (case us_preparationFailure s of None \<Rightarrow> rejected_warning | Some m \<Rightarrow> m) in
            if known_effects s = 0
            then \<lparr>ur_receipt = failedUndoReceipt refs message, ur_status = Undo_failed, ur_remaining = remaining\<rparr>
            else \<lparr>ur_receipt = undo_success ws (us_deleted s) (Some (transitioned_refs refs s))
                     (Some [warning_json ''undo_failed'' message]),
                  ur_status = Undo_partially_undone, ur_remaining = remaining\<rparr>)
      else if (case us_terminal s of None \<Rightarrow> False | Some t \<Rightarrow> isJournalDegradedStep t)
      then \<lparr>ur_receipt = undo_success ws (us_deleted s) None (Some [warning_json ''operation_journal_degraded'' degraded_undo_warning]),
            ur_status = (if remaining \<noteq> [] then Undo_partially_undone else Undo_undone), ur_remaining = remaining\<rparr>
      else \<lparr>ur_receipt = undo_success ws (us_deleted s) None None, ur_status = Undo_undone, ur_remaining = []\<rparr>)"

text \<open>
  The gate of the plan may refuse to open, and may refuse to close a run that reports completeness;
  both reject the whole call.
\<close>

record undo_gate =
  ug_open :: "string option"
  ug_close :: "string option"

definition undo_complete :: "string \<Rightarrow> UndoPlanStep list \<Rightarrow> undo_state \<Rightarrow> db \<Rightarrow> bool" where
  "undo_complete op specs s d \<longleftrightarrow>
     (case us_terminal s of None \<Rightarrow> False
      | Some t \<Rightarrow> s_status t = S_succeeded \<and> \<not> isJournalDegradedStep t \<and> length (listOperationSteps op d) = length specs)"

definition reverseCreationDurably ::
  "string \<Rightarrow> AdminPolicy \<Rightarrow> string option \<Rightarrow> undo_gate \<Rightarrow> (nat \<Rightarrow> undo_call) \<Rightarrow> EntityRef list \<Rightarrow> string \<Rightarrow> undo_plan \<Rightarrow> db
   \<Rightarrow> db \<times> (string, DurableUndoResult) result" where
  "reverseCreationDurably ws policy journal gate calls refs op plan d =
     (if refs = []
      then (d, Inr \<lparr>ur_receipt = errorReceipt ''undo'' ''not_undoable'' ''There is nothing to undo.'' JUndef,
                   ur_status = Undo_failed, ur_remaining = []\<rparr>)
      else case firstDeniedGroup policy refs of
        Some g \<Rightarrow>
          (d, Inr \<lparr>ur_receipt = errorReceipt ''undo'' ''policy_denied''
                     (''Undo needs write access to '' @ g @ '', which is disabled in your assistant permissions.'')
                     (recovery_json (''Enable write access for '' @ g @ '' and try again.'') True),
                  ur_status = Undo_failed, ur_remaining = refs\<rparr>)
      | None \<Rightarrow>
          if journal \<noteq> Some op then (d, Inl ''undo_operation_journal_required'')
          else let specs = undoPlanSteps refs in
               if map (\<lambda>(k, kind, strategy). (k, kind)) (plan_steps plan) \<noteq> map (\<lambda>s. (up_id s, Primary)) specs
               then (d, Inl ''invalid_undo_mutation_plan'')
               else case ug_open gate of
                 Some e \<Rightarrow> (d, Inl e)
               | None \<Rightarrow>
                   (case undo_loop op op calls specs undo_start d of
                      (d1, Inl e) \<Rightarrow> (d1, Inl e)
                    | (d1, Inr s) \<Rightarrow>
                        (case (if undo_complete op specs s d1 then ug_close gate else None) of
                           Some e \<Rightarrow> (d1, Inl e)
                         | None \<Rightarrow> (d1, Inr (undo_report ws refs s)))))"

section \<open>The plan is exact\<close>

definition deleted_by :: "UndoPlanStep list \<Rightarrow> EntityRef list" where
  "deleted_by specs = map up_ref (filter (\<lambda>s. up_operation s = Delete) specs)"

definition transitioned_by :: "UndoPlanStep list \<Rightarrow> string set" where
  "transitioned_by specs = ref_key ` up_ref ` set (filter (\<lambda>s. up_operation s = Transition) specs)"

lemma deleted_by_simps [simp]:
  "deleted_by [] = []"
  "deleted_by (s # ss) = (if up_operation s = Delete then up_ref s # deleted_by ss else deleted_by ss)"
  "deleted_by (ss @ ts) = deleted_by ss @ deleted_by ts"
  by (simp_all add: deleted_by_def)

lemma steps_from_deleted: "deleted_by (steps_from i n rs) = rs"
  by (induction i n rs rule: steps_from.induct) (simp_all add: ref_steps_def)

lemma steps_from_index: "map up_index (steps_from i n rs) = [n..<n + length (steps_from i n rs)]"
proof (induction i n rs rule: steps_from.induct)
  case (2 i n r rs)
  have "map up_index (ref_steps i n r) = [n..<n + length (ref_steps i n r)]"
    by (simp add: ref_steps_def upt_rec)
  with 2 upt_add_eq_append [of n "n + length (ref_steps i n r)" "length (steps_from (Suc i) (n + length (ref_steps i n r)) rs)"]
  show ?case by (simp add: add.assoc)
qed simp

text \<open>Every entity is deleted once, in the reverse of the order in which it was created.\<close>

lemma undoPlanSteps_deleted: "deleted_by (undoPlanSteps refs) = rev refs"
  by (simp add: undoPlanSteps_def steps_from_deleted)

lemma undoPlanSteps_index: "map up_index (undoPlanSteps refs) = [0..<length (undoPlanSteps refs)]"
  by (simp add: undoPlanSteps_def steps_from_index)

text \<open>An archiving step stands right before the deletion of the same entity.\<close>

lemma steps_from_transition:
  "steps_from i n rs = xs @ s # ys \<Longrightarrow> up_operation s = Transition
   \<Longrightarrow> \<exists>t zs. ys = t # zs \<and> up_operation t = Delete \<and> up_ref t = up_ref s"
proof (induction i n rs arbitrary: xs rule: steps_from.induct)
  case (2 i n r rs)
  show ?case
  proof (cases "length (ref_steps i n r) \<le> length xs")
    case True
    with 2(2) obtain xs' where "xs = ref_steps i n r @ xs'"
      by (auto simp: append_eq_append_conv2)
    with 2 show ?thesis by simp
  next
    case False
    with 2(2,3) show ?thesis
      by (cases xs) (auto simp: ref_steps_def Suc_le_eq split: if_splits)
  qed
qed simp

definition undo_cost :: "EntityRef \<Rightarrow> int" where
  "undo_cost r = (if has_transition r then 5 else 2)"

lemma undo_step_cost_id [simp]:
  "undo_step_cost (undo_step_id i r ''-transition'') = 3" "undo_step_cost (undo_step_id i r ''-delete'') = 2"
  by (simp_all add: undo_step_cost_def undo_step_id_def ends_with_def)

lemma steps_from_cost: "sum_list (map undo_step_cost (map up_id (steps_from i n rs))) = sum_list (map undo_cost rs)"
  by (induction i n rs rule: steps_from.induct) (simp_all add: ref_steps_def undo_cost_def)

lemma undo_plan_cost: "plan_maxHostCalls (undoMutationPlan refs) = sum_list (map undo_cost refs)"
proof -
  have "sum_list (map undo_step_cost (map up_id (undoPlanSteps refs))) = sum_list (map undo_cost (rev refs))"
    unfolding undoPlanSteps_def by (rule steps_from_cost)
  then show ?thesis
    by (simp add: undoMutationPlan_def Let_def bindMutationPlanHostCalls_def estimateMutationPlanHostCalls_def
        rev_map [symmetric])
qed


section \<open>What an undo reports\<close>

text \<open>
  The steps of a prefix of the plan that Clockify confirmed, in order, from one store to the next. Only the
  last of them may have degraded its record, which the flag says: the run ends there.
\<close>

definition undo_ready :: "(nat \<Rightarrow> undo_call) \<Rightarrow> UndoPlanStep \<Rightarrow> bool" where
  "undo_ready calls spec \<longleftrightarrow> up_operation spec = Delete \<or> uc_prepared (calls (up_index spec)) \<noteq> None"

inductive undo_confirmed ::
  "string \<Rightarrow> string \<Rightarrow> (nat \<Rightarrow> undo_call) \<Rightarrow> UndoPlanStep list \<Rightarrow> db \<Rightarrow> bool \<Rightarrow> db \<Rightarrow> bool" for jop op calls where
  confirmed_none: "undo_confirmed jop op calls [] d False d"
| confirmed_step: "undo_ready calls spec \<Longrightarrow> execute_undo_step jop op spec (calls (up_index spec)) d = (d1, Inr t)
    \<Longrightarrow> s_status t = S_succeeded \<Longrightarrow> \<not> isJournalDegradedStep t
    \<Longrightarrow> undo_confirmed jop op calls specs d1 g d' \<Longrightarrow> undo_confirmed jop op calls (spec # specs) d g d'"
| confirmed_degraded: "undo_ready calls spec \<Longrightarrow> execute_undo_step jop op spec (calls (up_index spec)) d = (d', Inr t)
    \<Longrightarrow> s_status t = S_succeeded \<Longrightarrow> isJournalDegradedStep t \<Longrightarrow> undo_confirmed jop op calls [spec] d True d'"

text \<open>
  Why no further step was confirmed: the last record degraded, the plan was at its end, the next step could
  not be prepared, or the next step was executed and not confirmed.
\<close>

definition undo_ended :: "string \<Rightarrow> string \<Rightarrow> (nat \<Rightarrow> undo_call) \<Rightarrow> UndoPlanStep list \<Rightarrow> bool \<Rightarrow> db \<Rightarrow> db \<Rightarrow> bool" where
  "undo_ended jop op calls rest g d1 d' \<longleftrightarrow>
     (if g then d' = d1
      else case rest of
             [] \<Rightarrow> d' = d1
           | spec # later \<Rightarrow>
               (if \<not> undo_ready calls spec then d' = d1
                else \<exists>t. execute_undo_step jop op spec (calls (up_index spec)) d1 = (d', Inr t) \<and> s_status t \<noteq> S_succeeded))"

text \<open>The calls determine how far the run got.\<close>

lemma undo_confirmed_unique:
  "undo_confirmed jop op calls xs d g d1 \<Longrightarrow> undo_ended jop op calls xs' g d1 d'
   \<Longrightarrow> undo_confirmed jop op calls ys d h d2 \<Longrightarrow> undo_ended jop op calls ys' h d2 d''
   \<Longrightarrow> xs @ xs' = ys @ ys' \<Longrightarrow> xs = ys \<and> d1 = d2"
proof (induction arbitrary: ys rule: undo_confirmed.induct)
  case (confirmed_none d)
  from confirmed_none(2) show ?case
    by cases (use confirmed_none in \<open>auto simp: undo_ended_def\<close>)
next
  case (confirmed_step spec d da t specs g db)
  from confirmed_step.prems(2) show ?case
  proof cases
    case confirmed_none
    with confirmed_step.hyps confirmed_step.prems show ?thesis by (auto simp: undo_ended_def)
  next
    case (confirmed_step spec' dc t' specs')
    with confirmed_step.hyps confirmed_step.prems confirmed_step.IH show ?thesis by auto
  next
    case (confirmed_degraded spec' t')
    with confirmed_step.hyps confirmed_step.prems show ?thesis by auto
  qed
next
  case (confirmed_degraded spec d d' t)
  from confirmed_degraded.prems(2) show ?case
    by cases (use confirmed_degraded in \<open>auto simp: undo_ended_def\<close>)
qed

text \<open>Why a run ended before the end of the plan.\<close>

definition undo_stopped :: "undo_state \<Rightarrow> bool" where
  "undo_stopped s \<longleftrightarrow> truthy (us_preparationFailure s)
     \<or> (case us_terminal s of None \<Rightarrow> False | Some t \<Rightarrow> s_status t \<noteq> S_succeeded \<or> isJournalDegradedStep t)"

lemma preparation_failure_nonempty [simp]: "preparation_failure r \<noteq> []"
  by (simp add: preparation_failure_def)

lemma transitioned_by_simps [simp]:
  "transitioned_by [] = {}"
  "transitioned_by (s # ss) = (if up_operation s = Transition then insert (ref_key (up_ref s)) (transitioned_by ss) else transitioned_by ss)"
  by (simp_all add: transitioned_by_def)

lemma undo_effect_simps [simp]:
  "us_terminal (undo_effect spec s) = us_terminal s" "us_preparationFailure (undo_effect spec s) = us_preparationFailure s"
  "us_deleted (undo_effect spec s) = us_deleted s @ deleted_by [spec]"
  "set (us_transitioned (undo_effect spec s)) = set (us_transitioned s) \<union> transitioned_by [spec]"
  by (simp_all add: undo_effect_def split: undo_operation.splits)

lemma undo_loop_result:
  "undo_loop jop op calls specs s d = (d', Inr s') \<Longrightarrow> us_preparationFailure s = None
   \<Longrightarrow> \<exists>confirmed rest g d1. specs = confirmed @ rest \<and> undo_confirmed jop op calls confirmed d g d1
     \<and> undo_ended jop op calls rest g d1 d'
     \<and> us_deleted s' = us_deleted s @ deleted_by confirmed
     \<and> set (us_transitioned s') = set (us_transitioned s) \<union> transitioned_by confirmed
     \<and> (undo_stopped s' \<or> rest = [] \<and> (us_terminal s' = us_terminal s \<and> specs = []
          \<or> (\<exists>t. us_terminal s' = Some t \<and> s_status t = S_succeeded \<and> \<not> isJournalDegradedStep t)))"
proof (induction specs arbitrary: s d)
  case Nil
  then show ?case by (auto simp: undo_ended_def intro: confirmed_none)
next
  case (Cons spec specs)
  let ?goal = "\<lambda>confirmed rest g d1. spec # specs = confirmed @ rest \<and> undo_confirmed jop op calls confirmed d g d1
     \<and> undo_ended jop op calls rest g d1 d'
     \<and> us_deleted s' = us_deleted s @ deleted_by confirmed
     \<and> set (us_transitioned s') = set (us_transitioned s) \<union> transitioned_by confirmed
     \<and> (undo_stopped s' \<or> rest = [] \<and> (us_terminal s' = us_terminal s \<and> spec # specs = []
          \<or> (\<exists>t. us_terminal s' = Some t \<and> s_status t = S_succeeded \<and> \<not> isJournalDegradedStep t)))"
  have none: "?goal [] (spec # specs) False d" if "us_deleted s' = us_deleted s" "us_transitioned s' = us_transitioned s" "undo_stopped s'"
    "undo_ended jop op calls (spec # specs) False d d'"
    using that by (simp add: confirmed_none)
  show ?case
  proof (cases "undo_ready calls spec")
    case False
    with Cons.prems have s': "d' = d" "s' = s\<lparr>us_preparationFailure := Some (preparation_failure (up_ref spec))\<rparr>"
      by (auto simp: undo_ready_def intro: undo_operation.exhaust split: if_splits)
    have "?goal [] (spec # specs) False d" by (rule none) (use False in \<open>simp_all add: s' undo_stopped_def undo_ended_def\<close>)
    then show ?thesis by blast
  next
    case ready: True
    then have step: "\<not> (up_operation spec = Transition \<and> uc_prepared (calls (up_index spec)) = None)"
      by (auto simp: undo_ready_def)
    obtain d1 x where e: "execute_undo_step jop op spec (calls (up_index spec)) d = (d1, x)" by fastforce
    with Cons.prems(1) step obtain t where t: "x = Inr t" by (cases x) auto
    let ?s1 = "s\<lparr>us_terminal := Some t\<rparr>"
    show ?thesis
    proof (cases "s_status t = S_succeeded")
      case fail: False
      with Cons.prems(1) step e t have s': "d' = d1" "s' = ?s1" by auto
      have "?goal [] (spec # specs) False d"
        by (rule none) (use fail ready e t in \<open>simp_all add: s' undo_stopped_def undo_ended_def\<close>)
      then show ?thesis by blast
    next
      case ok: True
      show ?thesis
      proof (cases "isJournalDegradedStep t")
        case True
        have "(d1, Inr (undo_effect spec ?s1)) = (d', Inr s')"
          using Cons.prems(1) step ok True by (simp add: e t Let_def del: undo_effect_simps)
        then have "s' = undo_effect spec ?s1" "d' = d1" by simp_all
        then have "?goal [spec] specs True d1"
          using confirmed_degraded [where calls = calls, OF ready e [unfolded t] ok True] True
          by (simp add: undo_stopped_def undo_ended_def)
        then show ?thesis by blast
      next
        case nd: False
        have "undo_loop jop op calls specs (undo_effect spec ?s1) d1 = (d', Inr s')"
          using Cons.prems(1) step ok nd by (simp add: e t Let_def)
        note more = this
        have "us_preparationFailure (undo_effect spec ?s1) = None" using Cons.prems(2) by simp
        from Cons.IH [OF more this] obtain confirmed rest g d2 where
          ih: "specs = confirmed @ rest" "undo_confirmed jop op calls confirmed d1 g d2" "undo_ended jop op calls rest g d2 d'"
            "us_deleted s' = us_deleted (undo_effect spec ?s1) @ deleted_by confirmed"
            "set (us_transitioned s') = set (us_transitioned (undo_effect spec ?s1)) \<union> transitioned_by confirmed"
            "undo_stopped s' \<or> rest = [] \<and> (us_terminal s' = us_terminal (undo_effect spec ?s1) \<and> specs = []
               \<or> (\<exists>t. us_terminal s' = Some t \<and> s_status t = S_succeeded \<and> \<not> isJournalDegradedStep t))"
          by (elim exE conjE) (rule that)
        have "?goal (spec # confirmed) rest g d2"
          using ih confirmed_step [where calls = calls, OF ready e [unfolded t] ok nd ih(2)] ok nd by auto
        then show ?thesis by blast
      qed
    qed
  qed
qed


lemma remainingAfter_all: "remainingAfter refs (rev refs) = []"
  by (simp add: remainingAfter_def)

text \<open>
  The report names as remaining exactly the entities without a confirmed deletion, and claims the
  undo only when every entity has one.
\<close>

lemma undo_report_deleted:
  assumes "us_deleted s \<noteq> []"
  shows "getp ''deleted'' (getp ''changed'' (ur_receipt (undo_report ws refs s))) = JArr (map entity_json (us_deleted s))"
  using assms
  by (auto simp: undo_report_def Let_def undo_success_def receipt_changed cleanChangeSet_def hasChanges_def CHANGE_BUCKETS_def
      filled_def known_effects_def)

lemma reverseCreationDurably_report:
  assumes r: "reverseCreationDurably ws policy journal gate calls refs op plan d = (d', Inr res)"
    and ne: "refs \<noteq> []" and allowed: "firstDeniedGroup policy refs = None"
  shows "\<exists>confirmed rest g d1. undoPlanSteps refs = confirmed @ rest \<and> undo_confirmed op op calls confirmed d g d1
    \<and> undo_ended op op calls rest g d1 d'
    \<and> ur_remaining res = remainingAfter refs (deleted_by confirmed)
    \<and> (deleted_by confirmed \<noteq> [] \<longrightarrow>
         getp ''deleted'' (getp ''changed'' (ur_receipt res)) = JArr (map entity_json (deleted_by confirmed)))
    \<and> (ur_status res = Undo_undone \<longrightarrow> ur_remaining res = [])"
proof -
  from r ne allowed obtain s where l: "undo_loop op op calls (undoPlanSteps refs) undo_start d = (d', Inr s)"
    and res: "res = undo_report ws refs s"
    by (auto simp: reverseCreationDurably_def Let_def split: if_splits option.splits prod.splits sum.splits)
  have "us_preparationFailure undo_start = None" by (simp add: undo_start_def)
  from undo_loop_result [OF l this] obtain confirmed rest g d1 where
    c: "undoPlanSteps refs = confirmed @ rest" "undo_confirmed op op calls confirmed d g d1" "undo_ended op op calls rest g d1 d'"
      and del: "us_deleted s = us_deleted undo_start @ deleted_by confirmed"
      and fin: "undo_stopped s \<or> rest = [] \<and> (us_terminal s = us_terminal undo_start \<and> undoPlanSteps refs = []
         \<or> (\<exists>t. us_terminal s = Some t \<and> s_status t = S_succeeded \<and> \<not> isJournalDegradedStep t))"
    by (elim exE conjE) (rule that)
  have c4: "us_deleted s = deleted_by confirmed" using del by (simp add: undo_start_def)
  have "undoPlanSteps refs \<noteq> []" using undoPlanSteps_deleted [of refs] ne by auto
  with fin have fin: "undo_stopped s \<or> rest = []" by blast
  have "ur_remaining res = remainingAfter refs (deleted_by confirmed) \<and> (ur_status res = Undo_undone \<longrightarrow> ur_remaining res = [])"
  proof (cases "undo_stopped s")
    case True
    then show ?thesis unfolding res
      by (auto simp: undo_report_def Let_def undo_stopped_def c4 split: option.splits if_splits)
  next
    case False
    with fin c(1) have "deleted_by confirmed = rev refs" using undoPlanSteps_deleted [of refs] by simp
    then show ?thesis unfolding res
      by (auto simp: undo_report_def Let_def c4 remainingAfter_all)
  qed
  with c(1-3) undo_report_deleted [of s ws refs, unfolded c4] res show ?thesis by blast
qed

text \<open>Nothing is sent when the policy denies a group, and nothing is claimed.\<close>

lemma denied_undo_does_nothing:
  assumes "refs \<noteq> []" "firstDeniedGroup policy refs = Some g"
  shows "\<exists>res. reverseCreationDurably ws policy journal gate calls refs op plan d = (d, Inr res)
    \<and> ur_status res = Undo_failed \<and> ur_remaining res = refs \<and> getp ''ok'' (ur_receipt res) = JBool False"
  using assms by (simp add: reverseCreationDurably_def errorReceipt_def getp_def)

text \<open>
  A project that was archived by a step whose record degraded is not reported: the receipt says
  success, names no change, and the status is that of a partial undo.
\<close>

lemma degraded_transition_unreported:
  assumes "us_terminal s = Some t" "s_status t = S_succeeded" "isJournalDegradedStep t"
    and "us_preparationFailure s = None" "us_deleted s = []" "refs \<noteq> []"
  shows "getp ''changed'' (ur_receipt (undo_report ws refs s)) = JUndef \<and> ur_status (undo_report ws refs s) = Undo_partially_undone"
  using assms
  by (simp add: undo_report_def Let_def undo_success_def receipt_changed cleanChangeSet_def hasChanges_def CHANGE_BUCKETS_def
      filled_def remainingAfter_def)

text \<open>The store stays well formed.\<close>

lemma execute_undo_step_good:
  assumes ok: "store_ok d" and h: "follows_store (uc_host c)"
  shows "good_step d (fst (execute_undo_step jop op spec c d))"
proof -
  have "follows_store (undo_dispatch spec c)"
    using h by (auto simp: follows_store_def undo_dispatch_def split: prod.splits)
  then show ?thesis unfolding execute_undo_step_def by (rule executeStep_good [OF ok])
qed

lemma undo_loop_good:
  assumes "\<And>i. follows_store (uc_host (calls i))"
  shows "store_ok d \<Longrightarrow> good_step d (fst (undo_loop jop op calls specs s d))"
proof (induction specs arbitrary: s d)
  case (Cons spec specs)
  obtain d1 x where e: "execute_undo_step jop op spec (calls (up_index spec)) d = (d1, x)" by fastforce
  have g: "good_step d d1" using execute_undo_step_good [OF Cons.prems assms, of jop op spec "up_index spec"] e by simp
  from good_step_trans [OF g Cons.IH [OF good_step_ok [OF g]]] g good_step_refl [OF Cons.prems] e show ?case
    by (simp add: Let_def split: sum.splits)
qed (simp add: good_step_refl)

end
