(* ===== verification/RequestGuards.thy ===== *)
theory RequestGuards
  imports Policy MutationWorkflow Coordinator
begin

text \<open>
  What the services under \<open>src/src/services\<close> share: the session a request speaks for, the installation it is
  checked against, the lease that surrounds its writes, and the settlement that is tried twice. Authority is an
  asynchronous check: while it runs, other requests may change the store and the coordinator.
\<close>

section \<open>Requests\<close>

record session_claims =
  uk_workspaceId :: string
  uk_adminUserId :: string
  uk_sessionId :: string

record installation =
  in_active :: bool
  in_generation :: int

text \<open>
  The outer world of a request: the policy and the installation it reads, the answer of the authority check
  (a status and a code when it refuses) with what happened meanwhile, and whether the caller has gone.
\<close>

record request_world =
  rw_now :: env
  rw_policy :: AdminPolicy
  rw_installation :: "installation option"
  rw_authority :: "coordinator \<Rightarrow> db \<Rightarrow> coordinator \<times> db \<times> (nat \<times> string) option"
  rw_aborted :: bool
  rw_meanwhile :: "coordinator \<Rightarrow> coordinator"

text \<open>\<open>Number.isSafeInteger\<close> on a generation; a row without one is older than the column.\<close>

definition safe_generation :: "int option \<Rightarrow> bool" where
  "safe_generation g = (case g of None \<Rightarrow> False | Some n \<Rightarrow> \<bar>n\<bar> < 2 ^ 53)"

section \<open>The lease of a request\<close>

datatype 'a leased = Lease_revoked | Lease_aborted | Lease_unclaimed | Lease_ran 'a

text \<open>
  A lease is acquired, the request claims what it works on, and only then enters the block whose \<open>finally\<close>
  releases the lease: a claim that throws leaves it held.
\<close>

definition with_lease ::
  "string \<Rightarrow> int \<Rightarrow> request_world \<Rightarrow> bool tx \<Rightarrow> (db \<Rightarrow> db \<times> (string, 'a) result) \<Rightarrow> coordinator \<Rightarrow> db
   \<Rightarrow> coordinator \<times> db \<times> (string, 'a leased) result" where
  "with_lease ws generation w claim body c d =
     (case acquire ws generation c of
        Inl (Revoked x g) \<Rightarrow> (c, d, Inr Lease_revoked)
      | Inl e \<Rightarrow> (c, d, Inl ''coordinator'')
      | Inr (c1, l) \<Rightarrow>
          if lease_aborted l (rw_aborted w) c1 then (release l c1, d, Inr Lease_aborted)
          else (case claim d of
                  Inl e \<Rightarrow> (c1, d, Inl e)
                | Inr (d1, False) \<Rightarrow> (release l c1, d1, Inr Lease_unclaimed)
                | Inr (d1, True) \<Rightarrow>
                    (case body d1 of (d2, r) \<Rightarrow> (release l (rw_meanwhile w c1), d2, map_sum id Lease_ran r))))"

text \<open>The claim of a request that has nothing to claim.\<close>

definition no_claim :: "bool tx" where
  "no_claim d = Inr (d, True)"

lemma with_lease_ran:
  assumes "with_lease ws generation w claim body c d = (c', d', Inr (Lease_ran x))"
  obtains c1 l d1 where "acquire ws generation c = Inr (c1, l)" "\<not> lease_aborted l (rw_aborted w) c1"
    "claim d = Inr (d1, True)" "body d1 = (d', Inr x)" "c' = release l (rw_meanwhile w c1)"
proof -
  from assms obtain c1 l where a: "acquire ws generation c = Inr (c1, l)" "\<not> lease_aborted l (rw_aborted w) c1"
    by (simp add: with_lease_def split: sum.splits coordinator_error.splits prod.splits if_splits)
  with assms obtain d1 where b: "claim d = Inr (d1, True)"
    by (auto simp: with_lease_def split: sum.splits prod.splits bool.splits)
  obtain d2 r where r: "body d1 = (d2, r)" by fastforce
  with assms a b have "c' = release l (rw_meanwhile w c1)" "d2 = d'" "map_sum id Lease_ran r = Inr (Lease_ran x)"
    by (auto simp: with_lease_def)
  with r that [OF a b] show thesis by (cases r) auto
qed

text \<open>A request that does not get to its block changes at most what its claim changed.\<close>

lemma with_lease_not_ran:
  assumes "with_lease ws generation w claim body c d = (c', d', Inr y)" and "\<And>x. y \<noteq> Lease_ran x"
  shows "d' = d \<or> y = Lease_unclaimed \<and> claim d = Inr (d', False)"
  using assms
  by (auto simp: with_lease_def map_sum_def split: sum.splits coordinator_error.splits prod.splits if_splits bool.splits)

text \<open>A claim that throws leaves the lease in the coordinator, where a drain of the workspace waits for it.\<close>

lemma claim_fault_keeps_lease:
  assumes "acquire ws generation c = Inr (c1, l)" "\<not> lease_aborted l (rw_aborted w) c1" "claim d = Inl e"
  shows "with_lease ws generation w claim body c d = (c1, d, Inl e) \<and> \<not> l_released (leases c1 ! l)"
  using assms by (auto simp: with_lease_def acquire_def Let_def split: if_splits prod.splits)

section \<open>Steps of a request\<close>

text \<open>
  The steps of a request are transactions of their own: a step that throws keeps what the steps before it committed.
\<close>

definition perform :: "'a tx \<Rightarrow> db \<Rightarrow> db \<times> (string, 'a) result" where
  "perform act d = (case act d of Inl e \<Rightarrow> (d, Inl e) | Inr (d1, x) \<Rightarrow> (d1, Inr x))"

definition run_then ::
  "(db \<Rightarrow> db \<times> (string, 'a) result) \<Rightarrow> ('a \<Rightarrow> db \<Rightarrow> db \<times> (string, 'b) result) \<Rightarrow> db \<Rightarrow> db \<times> (string, 'b) result" where
  "run_then f g d = (case f d of (d1, Inl e) \<Rightarrow> (d1, Inl e) | (d1, Inr x) \<Rightarrow> g x d1)"

definition answer :: "'a \<Rightarrow> db \<Rightarrow> db \<times> (string, 'a) result" where
  "answer x d = (d, Inr x)"

definition throw :: "string \<Rightarrow> db \<Rightarrow> db \<times> (string, 'a) result" where
  "throw e d = (d, Inl e)"

lemma step_simps [simp]:
  "answer x d = (d, Inr x)" "throw e d = (d, Inl e)"
  "run_then (answer x) g d = g x d" "run_then (throw e) g d = (d, Inl e)"
  by (simp_all add: answer_def throw_def run_then_def)

lemma perform_Inr [simp]: "perform act d = (d', Inr x) \<longleftrightarrow> act d = Inr (d', x)"
  by (auto simp: perform_def split: sum.splits)

lemma run_then_Inr:
  "run_then f g d = (d', Inr y) \<longleftrightarrow> (\<exists>d1 x. f d = (d1, Inr x) \<and> g x d1 = (d', Inr y))"
  by (auto simp: run_then_def split: prod.splits sum.splits)

text \<open>A step is safe when it leads from a well-formed store to a later one, whether it answers or throws.\<close>

lemma follows_perform:
  "(\<And>d d' x. store_ok d \<Longrightarrow> act d = Inr (d', x) \<Longrightarrow> good_step d d') \<Longrightarrow> follows_store (perform act)"
  by (auto simp: follows_store_def perform_def good_step_refl split: sum.splits prod.splits)

lemma follows_run_then:
  assumes "follows_store f" "\<And>x. follows_store (g x)"
  shows "follows_store (run_then f g)"
proof (unfold follows_store_def, intro allI impI)
  fix d assume ok: "store_ok d"
  obtain d1 r where f: "f d = (d1, r)" by fastforce
  from follows_storeD [OF assms(1) ok f] have g1: "good_step d d1" .
  show "good_step d (fst (run_then f g d))"
  proof (cases r)
    case (Inr x)
    obtain d2 y where g: "g x d1 = (d2, y)" by fastforce
    from good_step_trans [OF g1 follows_storeD [OF assms(2) good_step_ok [OF g1] g]] f g Inr show ?thesis
      by (simp add: run_then_def)
  qed (use f g1 in \<open>simp add: run_then_def\<close>)
qed

lemma follows_pure: "follows_store (answer x)" "follows_store (throw e)"
  by (simp_all add: follows_store_def good_step_refl)

section \<open>A settlement that is tried twice\<close>

text \<open>One attempt: a storage fault, or the transaction with its own refusals.\<close>

definition attempt :: "bool \<Rightarrow> 'a tx \<Rightarrow> db \<Rightarrow> db \<times> 'a option" where
  "attempt fault act d =
     (if fault then (d, None) else case act d of Inl e \<Rightarrow> (d, None) | Inr (d1, x) \<Rightarrow> (d1, Some x))"

definition settle_twice :: "env \<times> bool \<Rightarrow> env \<times> bool \<Rightarrow> (env \<Rightarrow> 'a tx) \<Rightarrow> db \<Rightarrow> db \<times> 'a option" where
  "settle_twice a b act d =
     (case attempt (snd a) (act (fst a)) d of
        (d1, Some x) \<Rightarrow> (d1, Some x)
      | (d1, None) \<Rightarrow> attempt (snd b) (act (fst b)) d1)"

lemma settle_twice_None: "settle_twice a b act d = (d', None) \<Longrightarrow> d' = d"
  by (auto simp: settle_twice_def attempt_def split: if_splits sum.splits prod.splits option.splits)

lemma settle_twice_Some:
  assumes "settle_twice a b act d = (d', Some x)"
  obtains E where "act E d = Inr (d', x)"
  using assms that by (auto simp: settle_twice_def attempt_def split: if_splits sum.splits prod.splits option.splits)

end
