(* ===== verification/JournalFrame.thy ===== *)
theory JournalFrame
  imports MutationWorkflow
begin

text \<open>
  What a workflow leaves alone: the calls it makes on its journal write steps and nothing else, so a property of
  the other tables that its host calls keep is kept by the whole workflow.
\<close>

section \<open>The journal calls of a workflow\<close>

definition steps_only :: "db \<Rightarrow> db \<Rightarrow> bool" where
  "steps_only d d' \<longleftrightarrow> undos d' = undos d \<and> confirmations d' = confirmations d \<and> results d' = results d"

lemma steps_only_refl [simp]: "steps_only d d"
  by (simp add: steps_only_def)

lemma steps_only_trans: "steps_only d d1 \<Longrightarrow> steps_only d1 d2 \<Longrightarrow> steps_only d d2"
  by (simp add: steps_only_def)

lemma settle_primary_steps: "settle_primary E k oid f d = Inr d' \<Longrightarrow> steps_only d d'"
  by (auto simp: settle_primary_def update_steps_def steps_only_def split: if_splits)

lemma settle_steps:
  "settleOperationStep E k status outcome oid d = Inr d' \<Longrightarrow> steps_only d d'"
  "settleOperationStepDegraded E k status x v oid d = Inr d' \<Longrightarrow> steps_only d d'"
  by (auto simp: settleOperationStep_def settleOperationStepDegraded_def Let_def dest: settle_primary_steps split: option.splits)

lemma settle_dispatched_steps: "steps_only d (fst (settle_dispatched E F op executing prepared status outcome d))"
proof -
  have call: "steps_only d (case journal_call f r of Inr d1 \<Rightarrow> g d1 | Inl e \<Rightarrow> h e)"
    if "\<And>d1. r = Inr d1 \<Longrightarrow> steps_only d (g d1)" "\<And>e. steps_only d (h e)" for f r g and h :: "_ \<Rightarrow> db"
    using that by (auto split: sum.split dest!: journal_call_InrD)
  show ?thesis
    unfolding settle_dispatched_def Let_def if_distrib [of fst] sum.case_distrib [of fst] option.case_distrib [of fst] fst_conv
    by (rule call) (auto intro!: call intro: settle_steps split: option.split)
qed

lemma after_dispatch_steps: "steps_only d (fst (after_dispatch E F op executing prepared answer d))"
proof -
  have "steps_only d (fst (cancelOperationStepBeforeDispatch E k reason oid d))" for k reason oid
    by (simp add: cancelOperationStepBeforeDispatch_def update_steps_def steps_only_def Let_def split: option.split)
  then have c: "cancelOperationStepBeforeDispatch E k reason oid d = (d1, b) \<Longrightarrow> steps_only d d1" for k reason oid d1 b
    by (metis fst_conv)
  show ?thesis
    by (auto simp: after_dispatch_def settle_dispatched_steps Let_def split: sum.split prod.split option.split dest!: c
        intro: steps_only_trans [OF _ settle_dispatched_steps])
qed

lemma prepareOperationStep_steps: "prepareOperationStep E input d = Inr (d', k) \<Longrightarrow> steps_only d d'"
  by (auto simp: prepareOperationStep_def id_or_fresh_def fresh_id_def insert_step_def steps_only_def
      split: if_splits option.splits sum.splits)

lemma markOperationStepExecuting_steps: "steps_only d (fst (markOperationStepExecuting E k oid d))"
  by (simp add: markOperationStepExecuting_def update_steps_def steps_only_def)

lemma before_dispatch_steps: "steps_only d (fst (before_dispatch E jop op step d))"
proof -
  have "steps_only d (fst (case prepareOperationStep E (step_input op step p) d of
      Inl e \<Rightarrow> (d, Inl e)
    | Inr (d1, k) \<Rightarrow> (case markOperationStepExecuting E k (Some op) d1 of (d2, marked) \<Rightarrow>
        if \<not> marked then (d2, Inl ''operation_step_not_prepared'')
        else (d2, and_then (found_step op k d2) (\<lambda>s. Inr (s, p))))))" for p
  proof (cases "prepareOperationStep E (step_input op step p) d")
    case (Inr x)
    obtain d1 k where x: "x = (d1, k)" by fastforce
    obtain d2 b where m: "markOperationStepExecuting E k (Some op) d1 = (d2, b)" by fastforce
    from prepareOperationStep_steps [of E _ d d1 k] markOperationStepExecuting_steps [of d1 E k "Some op"] Inr x m
    have "steps_only d d2" by (auto intro: steps_only_trans)
    with Inr x m show ?thesis by simp
  qed simp
  then show ?thesis by (simp add: before_dispatch_def split: sum.split)
qed

section \<open>Properties of the other tables\<close>

locale journal_property =
  fixes P :: "db \<Rightarrow> bool"
  assumes steps_only: "steps_only d d' \<Longrightarrow> P d \<Longrightarrow> P d'"
begin

lemma executeStep_keeps:
  assumes "\<And>d. P d \<Longrightarrow> P (fst (dispatch d))" and "P d"
  shows "P (fst (executeStep E E' F jop op step dispatch d))"
proof -
  obtain d1 x where b: "before_dispatch E jop op step d = (d1, x)" by fastforce
  have p1: "P d1" using steps_only [OF before_dispatch_steps assms(2), of E jop op step] b by simp
  obtain d2 answer where a: "dispatch d1 = (d2, answer)" by fastforce
  with assms(1) [OF p1] have "P d2" by simp
  with p1 a b show ?thesis
    by (auto simp: executeStep_def split: sum.splits intro: steps_only [OF after_dispatch_steps])
qed

lemma run_primaries_keeps:
  assumes "list_all (\<lambda>p. \<forall>d. P d \<longrightarrow> P (fst (pl_dispatch p d))) ps"
  shows "P d \<Longrightarrow> P (fst (run_primaries cb a jop op n completed ps d))"
  using assms
proof (induction ps arbitrary: completed d)
  case (Cons p ps)
  obtain d1 x where e: "execute_planned jop op p d = (d1, x)" by fastforce
  have "P d1"
    using executeStep_keeps [of "pl_dispatch p" d "pl_before p" "pl_after p" "pl_faults p" jop op "pl_step p"] Cons.prems e
    by (simp add: execute_planned_def)
  with Cons e show ?case by (simp add: execute_planned_def split: sum.splits)
qed simp

lemma workflow_keeps:
  "list_all (\<lambda>p. \<forall>d. P d \<longrightarrow> P (fst (pl_dispatch p d))) ps \<Longrightarrow> P d \<Longrightarrow> P (fst (executeMutationWorkflow cb a jop op ps d))"
  by (simp add: executeMutationWorkflow_def run_primaries_keeps)

end

interpretation undo_ledger: journal_property "\<lambda>d. undos d = us" for us
  by unfold_locales (simp add: steps_only_def)

end
