(* ===== verification/UndoService.thy ===== *)
theory UndoService
  imports UndoWorkflow RequestGuards JournalFrame
begin

text \<open>
  The undo request (\<open>src/src/services/undo-service.ts\<close> and \<open>executeUndoCommit\<close> of
  \<open>src/src/services/confirmation-service.ts\<close>): the guards in their order, the claim of the record with its
  durable operation, the reversal, and the settlement, which is tried twice.
\<close>

section \<open>The durable operation of an undo\<close>

definition string_or :: "string \<Rightarrow> jsv \<Rightarrow> string" where
  "string_or def v = (case v of JStr s \<Rightarrow> s | _ \<Rightarrow> def)"

definition string_option :: "jsv \<Rightarrow> string option" where
  "string_option v = (case v of JStr s \<Rightarrow> Some s | _ \<Rightarrow> None)"

text \<open>The stored entities of a record, which only \<open>recordUndoable\<close> writes.\<close>

definition entity_of :: "jsv \<Rightarrow> EntityRef" where
  "entity_of v = \<lparr>er_type = string_or [] (getp ''type'' v), er_id = string_or [] (getp ''id'' v),
     er_name = string_option (getp ''name'' v), er_projectId = string_option (getp ''projectId'' v)\<rparr>"

definition entities_of :: "jsv \<Rightarrow> EntityRef list" where
  "entities_of v = (case v of JArr xs \<Rightarrow> map entity_of xs | _ \<Rightarrow> [])"

definition plan_json :: "undo_plan \<Rightarrow> jsv" where
  "plan_json p =
     JObj [(''mode'', JStr ''batch''),
           (''steps'', JArr (map (\<lambda>(k, kind, strategy). JObj [(''id'', JStr k), (''kind'', JStr ''primary''),
                                     (''reconciliationStrategy'', JStr strategy)]) (plan_steps p))),
           (''maxHostCalls'', JNum (plan_maxHostCalls p))]"

definition undo_payload :: "UndoRow \<Rightarrow> jsv" where
  "undo_payload u =
     JObj [(''undoId'', JStr (u_id u)),
           (''installationGeneration'', case u_installation_generation u of None \<Rightarrow> JUndef | Some g \<Rightarrow> JNum g),
           (''reversal'', u_reversal u)]"

text \<open>A value that has no canonical JSON throws before anything is stored.\<close>

definition undo_operation_input ::
  "(string \<Rightarrow> string) \<Rightarrow> string \<Rightarrow> session_claims \<Rightarrow> UndoRow \<Rightarrow> (gate_exn, PrepareOperationRunInput) result" where
  "undo_operation_input sha256 catalogHash claims u =
     (let plan = plan_json (undoMutationPlan (entities_of (u_reversal u))) in
      and_then (hashOperation sha256 (u_reversal u)) (\<lambda>sourceHash.
      and_then (hashOperation sha256 (JObj [(''actionName'', JStr ''undo''), (''version'', JNum 1)])) (\<lambda>fingerprint.
      and_then (hashOperation sha256 (JObj [(''actionName'', JStr ''undo''), (''operation'', undo_payload u),
                                            (''mutationPlan'', plan)])) (\<lambda>operationHash.
        Inr \<lparr>pi_id = None, pi_requestId = None, pi_confirmationId = None, pi_sessionId = uk_sessionId claims,
             pi_workspaceId = uk_workspaceId claims, pi_adminUserId = uk_adminUserId claims, pi_actionName = ''undo'',
             pi_actionFingerprint = fingerprint, pi_catalogHash = catalogHash, pi_operationHash = operationHash,
             pi_operation = undo_payload u, pi_mutationPlan = plan, pi_capabilityId = None, pi_capabilityHash = None,
             pi_discriminator = Some \<lparr>d_origin = Some direct_ui, d_registryId = Some v2_local,
               d_authorityModel = Some undo_v2, d_executorKind = Some undo_commit, d_runId = None, d_batchId = None,
               d_sourceUndoId = Some (u_id u), d_sourceUndoHash = Some sourceHash,
               d_fieldProvenanceJson = None, d_fieldProvenanceHash = None\<rparr>\<rparr>))))"

section \<open>The commit\<close>

record UndoCommitOutcome =
  uo_receipt :: jsv
  uo_remaining :: "EntityRef list"
  uo_status :: undo_settlement
  uo_operationId :: string
  uo_resultRef :: "ActionResultRef option"

text \<open>The settlement of the record and its operation with what the reversal reports.\<close>

definition settle_undo :: "string \<Rightarrow> string \<Rightarrow> DurableUndoResult \<Rightarrow> env \<Rightarrow> ActionResultRef tx" where
  "settle_undo k oid res E =
     settleUndoOperation E k oid (ur_status res) (JArr (map entity_json (ur_remaining res))) (ur_receipt res)"

text \<open>What the commit finds around it: clocks, faults, the gate, the host calls, and the journal of its context.\<close>

record commit_world =
  cw_start :: env
  cw_policy :: AdminPolicy
  cw_gate :: undo_gate
  cw_calls :: "nat \<Rightarrow> undo_call"
  cw_settle1 :: "env \<times> bool"
  cw_settle2 :: "env \<times> bool"

definition refused_undo :: "UndoRow \<Rightarrow> UndoCommitOutcome" where
  "refused_undo u =
     \<lparr>uo_receipt = errorReceipt ''undo'' ''undo_not_available'' ''This undo is no longer available.'' JUndef,
      uo_remaining = entities_of (u_reversal u), uo_status = Undo_failed, uo_operationId = [], uo_resultRef = None\<rparr>"

definition executeUndoCommit ::
  "(string \<Rightarrow> string) \<Rightarrow> string \<Rightarrow> session_claims \<Rightarrow> commit_world \<Rightarrow> UndoRow \<Rightarrow> db \<Rightarrow> db \<times> (string, UndoCommitOutcome) result" where
  "executeUndoCommit sha256 catalogHash claims w u d =
     (case undo_operation_input sha256 catalogHash claims u of
        Inl e \<Rightarrow> (d, Inl ''hash'')
      | Inr input \<Rightarrow>
          (case startUndoOperation (cw_start w) (u_id u) input d of
             Inl e \<Rightarrow> (d, Inl e)
           | Inr (d1, None) \<Rightarrow> (d1, Inr (refused_undo u))
           | Inr (d1, Some oid) \<Rightarrow>
               let refs = entities_of (u_reversal u) in
               (case reverseCreationDurably (uk_workspaceId claims) (cw_policy w) (Some oid) (cw_gate w) (cw_calls w) refs oid
                       (undoMutationPlan refs) d1 of
                  (d2, Inl e) \<Rightarrow> (d2, Inl e)
                | (d2, Inr res) \<Rightarrow>
                    (case settle_twice (cw_settle1 w) (cw_settle2 w) (settle_undo (u_id u) oid res) d2 of
                       (d3, ref) \<Rightarrow>
                         (d3, Inr \<lparr>uo_receipt = ur_receipt res, uo_remaining = ur_remaining res, uo_status = ur_status res,
                                   uo_operationId = oid, uo_resultRef = ref\<rparr>)))))"

section \<open>The request\<close>

datatype undo_response =
    Undo_refused nat string
  | Undo_committed nat jsv bool

text \<open>The answer to a commit that has run; an undo that was no longer available has no operation.\<close>

definition undo_answer :: "UndoCommitOutcome leased \<Rightarrow> undo_response" where
  "undo_answer x =
     (case x of
        Lease_revoked \<Rightarrow> Undo_refused 409 ''installation_changed''
      | Lease_aborted \<Rightarrow> Undo_refused 409 ''request_cancelled''
      | Lease_unclaimed \<Rightarrow> Undo_refused 409 ''undo_not_available''
      | Lease_ran out \<Rightarrow>
          if uo_operationId out = [] then Undo_refused 409 ''undo_not_available''
          else Undo_committed (if getp ''ok'' (uo_receipt out) = JBool True then 200 else 400) (uo_receipt out)
                 (uo_resultRef out \<noteq> None))"

definition executeUndo ::
  "session_claims \<Rightarrow> request_world \<Rightarrow> (UndoRow \<Rightarrow> db \<Rightarrow> db \<times> (string, UndoCommitOutcome) result) \<Rightarrow> string \<Rightarrow> coordinator \<Rightarrow> db
   \<Rightarrow> coordinator \<times> db \<times> (string, undo_response) result" where
  "executeUndo claims w commit undoId c d =
     (case getUndoRecord (rw_now w) undoId d of (d1, found) \<Rightarrow>
      let refuse = (\<lambda>status code. (c, d1, Inr (Undo_refused status code))) in
      case found of
        None \<Rightarrow> refuse 404 ''not_found''
      | Some u \<Rightarrow>
          if u_workspace_id u \<noteq> uk_workspaceId claims \<or> u_admin_user_id u \<noteq> uk_adminUserId claims
          then refuse 404 ''not_found''
          else if u_status u \<noteq> U_available
          then refuse 409 (if u_status u = U_expired then ''undo_expired'' else ''undo_not_available'')
          else if firstDeniedGroup (rw_policy w) (entities_of (u_reversal u)) \<noteq> None then refuse 400 ''policy_denied''
          else case rw_installation w of
            None \<Rightarrow> refuse 400 ''not_installed''
          | Some i \<Rightarrow>
              if \<not> in_active i then refuse 400 ''not_installed''
              else if \<not> safe_generation (u_installation_generation u) \<or> u_installation_generation u \<noteq> Some (in_generation i)
              then refuse 409 ''installation_changed''
              else case rw_authority w c d1 of
                (c2, d2, Some (status, code)) \<Rightarrow> (c2, d2, Inr (Undo_refused status code))
              | (c2, d2, None) \<Rightarrow>
                  (case with_lease (uk_workspaceId claims) (in_generation i) w no_claim (commit u) c2 d2 of
                     (c3, d3, r) \<Rightarrow> (c3, d3, map_sum id undo_answer r)))"

section \<open>What the request guarantees\<close>

lemma entity_of_json [simp]: "entity_of (entity_json r) = r"
  by (cases r) (simp add: entity_of_def entity_json_def getp_def optional_def string_or_def string_option_def split: option.splits)

text \<open>The entities of a stored record are read back as they were written.\<close>

lemma entities_of_json [simp]: "entities_of (JArr (map entity_json refs)) = refs"
  by (simp add: entities_of_def comp_def)

lemma getUndoRecord_available:
  assumes "getUndoRecord E k d = (d', Some u)" "u_status u = U_available"
  shows "d' = d \<and> sel u_id k (undos d) = Some u \<and> now E < u_expires_at u"
  using assms by (auto simp: getUndoRecord_def expire_undo_def split: option.splits if_splits)

text \<open>A commit is reached only through every guard, on the record as it was read, and its lease is released.\<close>

lemma undo_answer_committed:
  "undo_answer x = Undo_committed status receipt persisted
   \<longleftrightarrow> (\<exists>out. x = Lease_ran out \<and> uo_operationId out \<noteq> [] \<and> status = (if getp ''ok'' (uo_receipt out) = JBool True then 200 else 400)
        \<and> receipt = uo_receipt out \<and> persisted = (uo_resultRef out \<noteq> None))"
  by (auto simp: undo_answer_def split: leased.splits)

lemma executeUndo_guards:
  assumes e: "executeUndo claims w commit k c d = (c', d', Inr (Undo_committed status receipt persisted))"
  shows "\<exists>u i c1 d1 c2 l out. sel u_id k (undos d) = Some u \<and> u_status u = U_available \<and> now (rw_now w) < u_expires_at u
    \<and> u_workspace_id u = uk_workspaceId claims \<and> u_admin_user_id u = uk_adminUserId claims
    \<and> firstDeniedGroup (rw_policy w) (entities_of (u_reversal u)) = None
    \<and> rw_installation w = Some i \<and> in_active i \<and> u_installation_generation u = Some (in_generation i)
    \<and> rw_authority w c d = (c1, d1, None) \<and> acquire (uk_workspaceId claims) (in_generation i) c1 = Inr (c2, l)
    \<and> \<not> lease_aborted l (rw_aborted w) c2 \<and> c' = release l (rw_meanwhile w c2) \<and> commit u d1 = (d', Inr out)
    \<and> receipt = uo_receipt out \<and> persisted = (uo_resultRef out \<noteq> None)"
proof -
  obtain d0 found where g: "getUndoRecord (rw_now w) k d = (d0, found)" by fastforce
  from e g obtain u where u: "found = Some u" "u_workspace_id u = uk_workspaceId claims" "u_admin_user_id u = uk_adminUserId claims"
    "u_status u = U_available" "firstDeniedGroup (rw_policy w) (entities_of (u_reversal u)) = None"
    by (auto simp: executeUndo_def Let_def split: option.splits if_splits)
  note r = getUndoRecord_available [OF g [unfolded u(1)] u(4)]
  with e g u obtain i where i: "rw_installation w = Some i" "in_active i" "u_installation_generation u = Some (in_generation i)"
    "safe_generation (u_installation_generation u)"
    by (auto simp: executeUndo_def Let_def split: option.splits if_splits)
  with e g u r obtain c1 d1 where a: "rw_authority w c d = (c1, d1, None)"
    by (auto simp: executeUndo_def Let_def split: prod.splits option.splits)
  obtain c3 d3 x where x: "with_lease (uk_workspaceId claims) (in_generation i) w no_claim (commit u) c1 d1 = (c3, d3, x)"
    by (metis prod_cases3)
  with e g u i r a have "c3 = c'" "d3 = d'" "map_sum id undo_answer x = Inr (Undo_committed status receipt persisted)"
    by (auto simp: executeUndo_def Let_def)
  then obtain out where out: "with_lease (uk_workspaceId claims) (in_generation i) w no_claim (commit u) c1 d1 = (c', d', Inr (Lease_ran out))"
    "receipt = uo_receipt out" "persisted = (uo_resultRef out \<noteq> None)"
    using x by (cases x) (auto simp: undo_answer_committed)
  from out(1) show ?thesis
    by (rule with_lease_ran) (use u i a r out(2,3) in \<open>auto simp: no_claim_def\<close>)
qed

section \<open>What the commit guarantees\<close>

text \<open>A host call works on the journal and leaves the undo ledger alone.\<close>

definition quiet_call :: "(db \<Rightarrow> db \<times> 'a) \<Rightarrow> bool" where
  "quiet_call host \<longleftrightarrow> follows_store host \<and> (\<forall>d. undos (fst (host d)) = undos d)"

lemma undo_loop_undos:
  assumes "\<And>i. quiet_call (uc_host (calls i))"
  shows "undos (fst (undo_loop jop op calls specs s d)) = undos d"
proof (induction specs arbitrary: s d)
  case (Cons spec specs)
  have q: "undos (fst (undo_dispatch spec (calls i) e)) = undos e" for i e
    using assms [of i] by (simp add: quiet_call_def undo_dispatch_def split: prod.split) (metis fst_conv)
  obtain d1 x where e: "execute_undo_step jop op spec (calls (up_index spec)) d = (d1, x)" by fastforce
  have "undos (fst (execute_undo_step jop op spec (calls (up_index spec)) d)) = undos d"
    unfolding execute_undo_step_def using q [of _ d] by (intro undo_ledger.executeStep_keeps) (simp_all add: q)
  then have "undos d1 = undos d" using e by simp
  with Cons.IH e show ?case by (simp add: Let_def split: sum.splits)
qed simp

lemma reverseCreationDurably_store:
  "fst (reverseCreationDurably ws policy journal gate calls refs op plan d) = d
   \<or> fst (reverseCreationDurably ws policy journal gate calls refs op plan d)
     = fst (undo_loop op op calls (undoPlanSteps refs) undo_start d)"
  by (simp add: reverseCreationDurably_def Let_def split: option.split prod.split sum.split)

lemma reverseCreationDurably_keeps:
  assumes ok: "store_ok d" and q: "\<And>i. quiet_call (uc_host (calls i))"
    and r: "reverseCreationDurably ws policy journal gate calls refs op plan d = (d', x)"
  shows "good_step d d' \<and> undos d' = undos d"
proof -
  have f: "follows_store (uc_host (calls i))" for i using q [of i] by (simp add: quiet_call_def)
  note g = undo_loop_good [where calls = calls, OF f ok, of op op "undoPlanSteps refs" undo_start]
  note u = undo_loop_undos [where calls = calls, OF q, of op op "undoPlanSteps refs" undo_start d]
  from reverseCreationDurably_store [of ws policy journal gate calls refs op plan d] r g u good_step_refl [OF ok]
  show ?thesis by auto
qed

lemma startUndoOperation_good:
  assumes ok: "store_ok d" and s: "startUndoOperation E k input d = Inr (d', oid)"
  shows "good_step d d'"
proof -
  have core: "core_same d (fst (markUndoExecuting E k d))" by (simp add: core_same_def markUndoExecuting_def)
  from s show ?thesis
  proof (cases rule: startUndoOperation_cases)
    case refused
    then show ?thesis using core_same_good [OF ok core] by simp
  next
    case (started d1 d2 o')
    have g1: "good_step d d1" using core_same_good [OF ok core] started(1) by simp
    have g2: "good_step d d2" by (rule good_step_trans [OF g1 prepareOperationRun_good [OF good_step_ok [OF g1] started(2)]])
    from good_step_trans [OF g2 markOperationExecuting_good [OF good_step_ok [OF g2], of E o']] started(3) show ?thesis by simp
  qed
qed

text \<open>The states a commit passes through.\<close>

lemma executeUndoCommit_Inr:
  assumes "executeUndoCommit sha256 ch claims w u d = (d', Inr out)"
  obtains (refused) input where "startUndoOperation (cw_start w) (u_id u) input d = Inr (d', None)" "out = refused_undo u"
  | (ran) input d1 oid d2 res where
      "startUndoOperation (cw_start w) (u_id u) input d = Inr (d1, Some oid)"
      "reverseCreationDurably (uk_workspaceId claims) (cw_policy w) (Some oid) (cw_gate w) (cw_calls w)
         (entities_of (u_reversal u)) oid (undoMutationPlan (entities_of (u_reversal u))) d1 = (d2, Inr res)"
      "settle_twice (cw_settle1 w) (cw_settle2 w) (settle_undo (u_id u) oid res) d2 = (d', uo_resultRef out)"
      "uo_receipt out = ur_receipt res" "uo_remaining out = ur_remaining res" "uo_status out = ur_status res" "uo_operationId out = oid"
proof -
  from assms obtain input where i: "undo_operation_input sha256 ch claims u = Inr input"
    by (auto simp: executeUndoCommit_def split: sum.splits)
  with assms obtain d1 x where st: "startUndoOperation (cw_start w) (u_id u) input d = Inr (d1, x)"
    by (cases "startUndoOperation (cw_start w) (u_id u) input d") (auto simp: executeUndoCommit_def)
  show thesis
  proof (cases x)
    case None
    with assms i st refused show thesis by (simp add: executeUndoCommit_def)
  next
    case (Some oid)
    let ?refs = "entities_of (u_reversal u)"
    obtain d2 y where r: "reverseCreationDurably (uk_workspaceId claims) (cw_policy w) (Some oid) (cw_gate w) (cw_calls w)
         ?refs oid (undoMutationPlan ?refs) d1 = (d2, y)" by fastforce
    with assms i st Some obtain res where y: "y = Inr res"
      by (cases y) (auto simp: executeUndoCommit_def Let_def)
    obtain d3 ref where s: "settle_twice (cw_settle1 w) (cw_settle2 w) (settle_undo (u_id u) oid res) d2 = (d3, ref)" by fastforce
    from assms i st Some r y s have out: "d' = d3" "out = \<lparr>uo_receipt = ur_receipt res, uo_remaining = ur_remaining res,
        uo_status = ur_status res, uo_operationId = oid, uo_resultRef = ref\<rparr>"
      by (simp_all add: executeUndoCommit_def Let_def)
    show thesis
      by (rule ran [OF st [unfolded Some] r [unfolded y]]) (use s in \<open>simp_all add: out\<close>)
  qed
qed

text \<open>
  A commit that returns with a result has settled its record, its operation and the result together,
  with the status and the remaining entities of the receipt; without a result the record stays claimed.
\<close>

lemma executeUndoCommit_settles:
  assumes ok: "store_ok d" "undos_ok d" and q: "\<And>i. quiet_call (uc_host (cw_calls w i))"
    and e: "executeUndoCommit sha256 ch claims w u d = (d', Inr out)" and ref: "uo_resultRef out = Some ref"
  shows "store_ok d' \<and> undos_ok d' \<and> ref_kind ref = undo_kind (uo_status out)
    \<and> (\<exists>v. sel u_id (u_id u) (undos d') = Some v \<and> u_status v = undo_status (uo_status out)
         \<and> entities_of (u_remaining v) = uo_remaining out \<and> u_action_result_id v = Some (ref_id ref))
    \<and> (\<exists>r. sel o_id (uo_operationId out) (runs d') = Some r \<and> o_status r = run_status_of (undo_kind (uo_status out))
         \<and> o_action_result_id r = Some (ref_id ref))"
  using e
proof (cases rule: executeUndoCommit_Inr)
  case (refused input)
  with ref show ?thesis by (simp add: refused_undo_def)
next
  case (ran input d1 oid d2 res)
  have g1: "store_ok d1" by (rule good_step_ok [OF startUndoOperation_good [OF ok(1) ran(1)]])
  have u1: "undos_ok d1" using startUndoOperation_later [OF ok(2) ran(1)] by (simp add: undos_later_def)
  from reverseCreationDurably_keeps [OF g1 q ran(2)] have g2: "store_ok d2" "undos_ok d2"
    using u1 good_step_ok by (auto simp: undos_ok_def)
  from settle_twice_Some [OF ran(3) [unfolded ref]] obtain E where "settle_undo (u_id u) oid res E d2 = Inr (d', ref)" .
  then have s: "settleUndoOperation E (u_id u) oid (ur_status res) (JArr (map entity_json (ur_remaining res))) (ur_receipt res) d2
    = Inr (d', ref)" by (simp add: settle_undo_def)
  from settleUndoOperation_effect [OF g2 s] settleUndoOperation_later [OF g2(2) s] show ?thesis
    by (auto simp: ran(4-7) undos_later_def intro: good_step_ok)
qed

end
