(* ===== verification/ConfirmationService.thy ===== *)
theory ConfirmationService
  imports UndoService "HOL-Library.Sublist"
begin

text \<open>
  The confirmation of one preview (\<open>confirmSingle\<close> and \<open>dispatchConfirmedPreview\<close> of
  \<open>src/src/services/confirmation-service.ts\<close>): the gate, the checks of the stored operation against what the
  preview showed, authority and lease, the one-use claim, the write, and the settlement, which is tried twice. The
  write is an argument: it runs the workflow of the action behind the gate of its plan, and ends with a receipt, a
  partial result or an exception.
\<close>

section \<open>The gate of a confirmation\<close>

text \<open>What the process knows: the fingerprint of every registered action, the catalog and the secret.\<close>

record service_deps =
  dp_registry :: "string \<Rightarrow> string option"
  dp_catalogHash :: string
  dp_secret :: string

definition actionFingerprint :: "(string \<Rightarrow> string) \<Rightarrow> service_deps \<Rightarrow> jsv \<Rightarrow> (gate_exn, string) result" where
  "actionFingerprint sha256 deps actionName =
     (case dp_registry deps (string_or [] actionName) of
        Some f \<Rightarrow> Inr f
      | None \<Rightarrow> hashOperation sha256 (JObj [(''actionName'', actionName), (''version'', JNum 1)]))"

definition gate_input :: "service_deps \<Rightarrow> session_claims \<Rightarrow> int \<Rightarrow> PendingConfirmationRecord \<Rightarrow> string \<Rightarrow> ConfirmationGateInput" where
  "gate_input deps claims t r fingerprint =
     \<lparr>g_record = r, g_sessionId = uk_sessionId claims, g_workspaceId = uk_workspaceId claims,
      g_adminUserId = uk_adminUserId claims, g_now = t, g_expectedActionFingerprint = Some fingerprint,
      g_expectedCatalogHash = Some (dp_catalogHash deps)\<rparr>"

definition validate_confirmation ::
  "(string \<Rightarrow> string) \<Rightarrow> service_deps \<Rightarrow> session_claims \<Rightarrow> int \<Rightarrow> PendingConfirmationRecord \<Rightarrow> string
   \<Rightarrow> (gate_exn, PendingConfirmationRecord gated) result" where
  "validate_confirmation sha256 deps claims t r nonce =
     and_then (actionFingerprint sha256 deps (getp ''actionName'' (p_operation r))) (\<lambda>f.
       confirmPending sha256 (gate_input deps claims t r f) nonce (dp_secret deps))"

section \<open>What the stored operation must satisfy\<close>

definition storedPlannedOperation :: "jsv \<Rightarrow> bool" where
  "storedPlannedOperation operation = js_truthy (getp ''mutationPlan'' operation)"

definition generation_json :: "int option \<Rightarrow> jsv" where
  "generation_json g = (case g of None \<Rightarrow> JUndef | Some n \<Rightarrow> JNum n)"

definition own_generation :: "PendingConfirmationRecord \<Rightarrow> bool" where
  "own_generation r \<longleftrightarrow>
     safe_generation (p_installationGeneration r)
     \<and> getp ''installationGeneration'' (p_operation r) = generation_json (p_installationGeneration r)"

definition current_generation :: "installation \<Rightarrow> PendingConfirmationRecord \<Rightarrow> bool" where
  "current_generation i r \<longleftrightarrow>
     p_installationGeneration r = Some (in_generation i)
     \<and> getp ''installationGeneration'' (p_operation r) = JNum (in_generation i)"

definition operation_refusal :: "PendingConfirmationRecord \<Rightarrow> db \<Rightarrow> (nat \<times> string) option" where
  "operation_refusal r d =
     (case getOperationRun (p_operationId r) d of
        None \<Rightarrow> Some (409, ''operation_not_prepared'')
      | Some run \<Rightarrow>
          if ru_status run \<noteq> O_prepared then Some (409, ''operation_not_prepared'')
          else if \<not> preparedAssistantPreviewMatchesConfirmation run r then Some (409, ''operation_mismatch'')
          else None)"

text \<open>\<open>includes\<close> of an array or of a string; anything else throws.\<close>

definition json_includes :: "string \<Rightarrow> jsv \<Rightarrow> (string, bool) result" where
  "json_includes s v =
     (case v of JArr xs \<Rightarrow> Inr (JStr s \<in> set xs) | JStr t \<Rightarrow> Inr (sublist s t) | _ \<Rightarrow> Inl ''type_error'')"

definition policy_refusal :: "AdminPolicy \<Rightarrow> jsv \<Rightarrow> (string, (nat \<times> string) option) result" where
  "policy_refusal policy operation =
     and_then (json_includes ''permission_change'' (getp ''risks'' operation)) (\<lambda>b.
       Inr (if b \<or> canWrite policy (string_or [] (getp ''featureGroup'' operation)) then None
            else Some (400, ''policy_denied'')))"

text \<open>The checks of \<open>confirmSingle\<close> after the gate: a refusal, or the installation the write runs under.\<close>

definition admission ::
  "request_world \<Rightarrow> PendingConfirmationRecord \<Rightarrow> db \<Rightarrow> (string, (nat \<times> string) + installation) result" where
  "admission w r d =
     (let refuse = (\<lambda>status code. Inr (Inl (status, code))) in
      if \<not> storedPlannedOperation (p_operation r) then refuse 400 ''invalid_mutation_plan''
      else if \<not> own_generation r then refuse 409 ''installation_changed''
      else case operation_refusal r d of
        Some (status, code) \<Rightarrow> refuse status code
      | None \<Rightarrow>
          (case rw_installation w of
             None \<Rightarrow> refuse 503 ''role_verification_unavailable''
           | Some i \<Rightarrow>
               if \<not> in_active i then refuse 503 ''role_verification_unavailable''
               else if \<not> current_generation i r then refuse 409 ''installation_changed''
               else and_then (policy_refusal (rw_policy w) (p_operation r)) (\<lambda>p.
                      case p of Some (status, code) \<Rightarrow> refuse status code | None \<Rightarrow> Inr (Inr i))))"

section \<open>The dispatch\<close>

definition replay_warning :: "jsv \<Rightarrow> bool" where
  "replay_warning receipt =
     (case getp ''warnings'' receipt of
        JArr ws \<Rightarrow> list_ex (\<lambda>x. getp ''code'' x = JStr ''idempotent_replay'') ws
      | _ \<Rightarrow> False)"

definition reversible_json :: "jsv \<Rightarrow> jsv list" where
  "reversible_json receipt =
     (case getp ''created'' (getp ''changed'' receipt) of
        JArr es \<Rightarrow> filter (\<lambda>e. map_of REVERSIBLE_ENTITY_GROUP (string_or [] (getp ''type'' e)) \<noteq> None) es
      | _ \<Rightarrow> [])"

text \<open>\<open>recordUndoIfReversible\<close> of \<open>src/src/routes/control-plane.ts\<close>.\<close>

definition recordUndoIfReversible :: "env \<Rightarrow> session_claims \<Rightarrow> int \<Rightarrow> jsv \<Rightarrow> string option tx" where
  "recordUndoIfReversible E claims generation receipt d =
     (if \<not> js_truthy (getp ''ok'' receipt) \<or> replay_warning receipt \<or> reversible_json receipt = [] then Inr (d, None)
      else and_then (recordUndoable E
             \<lparr>ui_sessionId = uk_sessionId claims, ui_workspaceId = uk_workspaceId claims, ui_adminUserId = uk_adminUserId claims,
              ui_actionName = string_or [] (getp ''action'' receipt), ui_installationGeneration = Some generation,
              ui_reversal = JArr (reversible_json receipt)\<rparr> d) (\<lambda>(d1, k). Inr (d1, Some k)))"

text \<open>
  What surrounds a dispatch: the clocks, the write itself, the faults of the two settlements, and the settlement
  of the assistant run, whose failure is swallowed.
\<close>

record confirmed_call =
  cm_claim :: env
  cm_write :: "PendingConfirmationRecord \<Rightarrow> db \<Rightarrow> db \<times> (string, jsv) result"
  cm_settle1 :: "env \<times> bool"
  cm_settle2 :: "env \<times> bool"
  cm_undo :: env
  cm_settleRun :: "string option \<Rightarrow> db \<Rightarrow> (string, db) result"

record dispatched =
  dc_receipt :: jsv
  dc_partial :: "jsv option"
  dc_status :: ActionResultKind
  dc_undoId :: "string option"
  dc_resultRef :: "ActionResultRef option"

definition isPartialCommitResult :: "jsv \<Rightarrow> bool" where
  "isPartialCommitResult v = (getp ''kind'' v = JStr ''partial'')"

definition terminal_status :: "jsv \<Rightarrow> ActionResultKind" where
  "terminal_status commitResult =
     (if isPartialCommitResult commitResult then R_partial
      else if js_truthy (getp ''ok'' commitResult) then R_succeeded
      else if getp ''code'' commitResult = JStr ''commit_outcome_unknown'' then R_outcome_unknown
      else R_definitive_failed)"

definition receipt_of :: "jsv \<Rightarrow> jsv" where
  "receipt_of commitResult = (if isPartialCommitResult commitResult then getp ''receipt'' commitResult else commitResult)"

definition settle_confirmed :: "PendingConfirmationRecord \<Rightarrow> jsv \<Rightarrow> env \<Rightarrow> ActionResultRef tx" where
  "settle_confirmed r commitResult E =
     settleConfirmation E (p_id r) (terminal_status commitResult) (string_or [] (getp ''actionName'' (p_operation r))) commitResult"

definition dispatchConfirmedPreview ::
  "session_claims \<Rightarrow> int \<Rightarrow> confirmed_call \<Rightarrow> PendingConfirmationRecord \<Rightarrow> db \<Rightarrow> db \<times> (string, dispatched) result" where
  "dispatchConfirmedPreview claims generation m r d =
     (case cm_write m r d of
        (d1, Inl e) \<Rightarrow> (d1, Inl e)
      | (d1, Inr commitResult) \<Rightarrow>
          (case settle_twice (cm_settle1 m) (cm_settle2 m) (settle_confirmed r commitResult) d1 of
             (d2, ref) \<Rightarrow>
               let out = (\<lambda>undoId.
                     \<lparr>dc_receipt = receipt_of commitResult,
                      dc_partial = (if isPartialCommitResult commitResult then Some commitResult else None),
                      dc_status = terminal_status commitResult, dc_undoId = undoId, dc_resultRef = ref\<rparr>) in
               if ref = None then (d2, Inr (out None))
               else case recordUndoIfReversible (cm_undo m) claims generation (receipt_of commitResult) d2 of
                      Inl e \<Rightarrow> (d2, Inl e)
                    | Inr (d3, undoId) \<Rightarrow> (d3, Inr (out undoId))))"

section \<open>The confirmation of one preview\<close>

datatype confirm_response = Confirm_rejected nat string | Confirmed dispatched

text \<open>The block behind the claim: the dispatch, then the assistant run, whose settlement is best effort.\<close>

definition confirmed_body ::
  "session_claims \<Rightarrow> int \<Rightarrow> confirmed_call \<Rightarrow> PendingConfirmationRecord \<Rightarrow> db \<Rightarrow> db \<times> (string, dispatched) result" where
  "confirmed_body claims generation m r d =
     (case dispatchConfirmedPreview claims generation m r d of
        (d1, Inl e) \<Rightarrow> (d1, Inl e)
      | (d1, Inr x) \<Rightarrow>
          (case cm_settleRun m (map_option ref_id (dc_resultRef x)) d1 of
             Inl e \<Rightarrow> (d1, Inr x)
           | Inr d2 \<Rightarrow> (d2, Inr x)))"

fun confirm_answer :: "dispatched leased \<Rightarrow> confirm_response" where
  "confirm_answer Lease_revoked = Confirm_rejected 409 ''installation_changed''"
| "confirm_answer Lease_aborted = Confirm_rejected 409 ''request_cancelled''"
| "confirm_answer Lease_unclaimed = Confirm_rejected 409 ''already_used''"
| "confirm_answer (Lease_ran x) = Confirmed x"

text \<open>Behind the gate: the checks, then authority, then the lease with the claim and the dispatch.\<close>

definition confirm_admitted ::
  "session_claims \<Rightarrow> request_world \<Rightarrow> confirmed_call \<Rightarrow> PendingConfirmationRecord \<Rightarrow> coordinator \<Rightarrow> db
   \<Rightarrow> coordinator \<times> db \<times> (string, confirm_response) result" where
  "confirm_admitted claims w m r c d =
     (case admission w r d of
        Inl e \<Rightarrow> (c, d, Inl e)
      | Inr (Inl (status, code)) \<Rightarrow> (c, d, Inr (Confirm_rejected status code))
      | Inr (Inr i) \<Rightarrow>
          (case rw_authority w c d of
             (c1, d1, Some (status, code)) \<Rightarrow> (c1, d1, Inr (Confirm_rejected status code))
           | (c1, d1, None) \<Rightarrow>
               (case with_lease (uk_workspaceId claims) (in_generation i) w (markConfirmationExecuting (cm_claim m) (p_id r))
                       (confirmed_body claims (in_generation i) m r) c1 d1 of
                  (c2, d2, x) \<Rightarrow> (c2, d2, map_sum id confirm_answer x))))"

definition confirmSingle ::
  "(string \<Rightarrow> string) \<Rightarrow> service_deps \<Rightarrow> session_claims \<Rightarrow> request_world \<Rightarrow> confirmed_call \<Rightarrow> PendingConfirmationRecord \<Rightarrow> string
   \<Rightarrow> coordinator \<Rightarrow> db \<Rightarrow> coordinator \<times> db \<times> (string, confirm_response) result" where
  "confirmSingle sha256 deps claims w m r nonce c d =
     (if isBatchOwnedConfirmation r then (c, d, Inr (Confirm_rejected 400 ''batch_confirmation_required''))
      else if \<not> isV2AssistantPreviewConfirmation r then (c, d, Inr (Confirm_rejected 400 ''incompatible_confirmation''))
      else case validate_confirmation sha256 deps claims (now (rw_now w)) r nonce of
        Inl e \<Rightarrow> (c, d, Inl ''gate'')
      | Inr (Refused code message) \<Rightarrow>
          if code = ''expired''
          then (case expireConfirmation (rw_now w) (p_id r) d of
                  Inl e \<Rightarrow> (c, d, Inl e)
                | Inr (d1, n) \<Rightarrow> (c, d1, Inr (Confirm_rejected 400 code)))
          else (c, d, Inr (Confirm_rejected 400 code))
      | Inr (Allowed r') \<Rightarrow> confirm_admitted claims w m r c d)"

section \<open>What a confirmation needs\<close>

lemma not_Some_pair: "(\<forall>a b. x \<noteq> Some (a, b)) \<longleftrightarrow> x = None"
  by (cases x) auto

lemma admission_Inr:
  assumes "admission w r d = Inr (Inr i)"
  shows "storedPlannedOperation (p_operation r) \<and> own_generation r \<and> operation_refusal r d = None
    \<and> rw_installation w = Some i \<and> in_active i \<and> current_generation i r \<and> policy_refusal (rw_policy w) (p_operation r) = Inr None"
  using assms by (auto simp: admission_def Let_def not_Some_pair split: if_splits option.splits prod.splits)

lemma operation_refusal_None:
  "operation_refusal r d = None \<longleftrightarrow>
     (\<exists>run. getOperationRun (p_operationId r) d = Some run \<and> preparedAssistantPreviewMatchesConfirmation run r)"
  by (auto simp: operation_refusal_def preparedAssistantPreviewMatchesConfirmation_def split: option.splits)

lemma confirm_admitted_Confirmed:
  assumes "confirm_admitted claims w m r c d = (c', d', Inr (Confirmed x))"
  obtains i c1 d1 c2 l d2 where "admission w r d = Inr (Inr i)" "rw_authority w c d = (c1, d1, None)"
    "acquire (uk_workspaceId claims) (in_generation i) c1 = Inr (c2, l)" "\<not> lease_aborted l (rw_aborted w) c2"
    "markConfirmationExecuting (cm_claim m) (p_id r) d1 = Inr (d2, True)"
    "confirmed_body claims (in_generation i) m r d2 = (d', Inr x)" "c' = release l (rw_meanwhile w c2)"
proof -
  from assms obtain i where i: "admission w r d = Inr (Inr i)"
    by (auto simp: confirm_admitted_def split: sum.splits prod.splits)
  with assms obtain c1 d1 where a: "rw_authority w c d = (c1, d1, None)"
    by (auto simp: confirm_admitted_def split: prod.splits option.splits)
  obtain c3 d3 y where y: "with_lease (uk_workspaceId claims) (in_generation i) w (markConfirmationExecuting (cm_claim m) (p_id r))
      (confirmed_body claims (in_generation i) m r) c1 d1 = (c3, d3, y)" by (metis prod_cases3)
  with assms i a have "c3 = c'" "d3 = d'" and out: "map_sum id confirm_answer y = Inr (Confirmed x)"
    by (auto simp: confirm_admitted_def)
  from out obtain z where "y = Inr z" "confirm_answer z = Confirmed x" by (cases y) auto
  then have "y = Inr (Lease_ran x)" by (cases z) auto
  with y \<open>c3 = c'\<close> \<open>d3 = d'\<close> show thesis by (auto elim!: with_lease_ran intro: that [OF i a])
qed

lemma confirmSingle_Confirmed:
  assumes "confirmSingle sha256 deps claims w m r nonce c d = (c', d', Inr (Confirmed x))"
  shows "isV2AssistantPreviewConfirmation r" "confirm_admitted claims w m r c d = (c', d', Inr (Confirmed x))"
    "\<exists>r'. validate_confirmation sha256 deps claims (now (rw_now w)) r nonce = Inr (Allowed r')"
  using assms by (auto simp: confirmSingle_def split: if_splits sum.splits gated.splits prod.splits)

text \<open>
  A confirmation that answers with a receipt passed the gate with the nonce of its preview, in the session that owns
  it, on an operation that is still the previewed one, under the policy and the installation it read, with authority
  and a lease, and won the claim; its lease is released.
\<close>

lemma confirmSingle_guards:
  assumes e: "confirmSingle sha256 deps claims w m r nonce c d = (c', d', Inr (Confirmed x))"
  shows "isV2AssistantPreviewConfirmation r
    \<and> (\<exists>r'. validate_confirmation sha256 deps claims (now (rw_now w)) r nonce = Inr (Allowed r'))
    \<and> (\<exists>run. getOperationRun (p_operationId r) d = Some run \<and> preparedAssistantPreviewMatchesConfirmation run r)
    \<and> (\<exists>i c1 d1 c2 l d2. rw_installation w = Some i \<and> in_active i \<and> own_generation r \<and> current_generation i r
         \<and> policy_refusal (rw_policy w) (p_operation r) = Inr None \<and> rw_authority w c d = (c1, d1, None)
         \<and> acquire (uk_workspaceId claims) (in_generation i) c1 = Inr (c2, l) \<and> \<not> lease_aborted l (rw_aborted w) c2
         \<and> markConfirmationExecuting (cm_claim m) (p_id r) d1 = Inr (d2, True)
         \<and> confirmed_body claims (in_generation i) m r d2 = (d', Inr x) \<and> c' = release l (rw_meanwhile w c2))"
proof -
  from confirmSingle_Confirmed(2) [OF e] obtain i c1 d1 c2 l d2 where b: "admission w r d = Inr (Inr i)"
    "rw_authority w c d = (c1, d1, None)" "acquire (uk_workspaceId claims) (in_generation i) c1 = Inr (c2, l)"
    "\<not> lease_aborted l (rw_aborted w) c2" "markConfirmationExecuting (cm_claim m) (p_id r) d1 = Inr (d2, True)"
    "confirmed_body claims (in_generation i) m r d2 = (d', Inr x)" "c' = release l (rw_meanwhile w c2)"
    by (rule confirm_admitted_Confirmed)
  from admission_Inr [OF b(1)] b(2-) confirmSingle_Confirmed(1,3) [OF e] show ?thesis
    by (auto simp: operation_refusal_None)
qed

text \<open>A rejected confirmation has not run the write: with any other write it answers the same.\<close>

lemma with_lease_write_unused:
  assumes "with_lease ws g w claim body c d = (c', d', Inr y)" "\<And>x. y \<noteq> Lease_ran x"
  shows "with_lease ws g w claim body' c d = (c', d', Inr y)"
  using assms
  by (auto simp: with_lease_def map_sum_def split: sum.splits coordinator_error.splits prod.splits if_splits bool.splits)

lemma confirm_answer_rejected: "confirm_answer y = Confirm_rejected status code \<Longrightarrow> y \<noteq> Lease_ran x"
  by (cases y) auto

lemma confirmSingle_rejected:
  assumes "confirmSingle sha256 deps claims w m r nonce c d = (c', d', Inr (Confirm_rejected status code))"
  shows "confirmSingle sha256 deps claims w (m\<lparr>cm_write := other\<rparr>) r nonce c d = (c', d', Inr (Confirm_rejected status code))"
proof -
  have "confirm_admitted claims w (m\<lparr>cm_write := other\<rparr>) r c d = (c', d', Inr (Confirm_rejected status code))"
    if a: "confirm_admitted claims w m r c d = (c', d', Inr (Confirm_rejected status code))"
  proof (cases "\<exists>i c1 d1. admission w r d = Inr (Inr i) \<and> rw_authority w c d = (c1, d1, None)")
    case True
    then obtain i c1 d1 where i: "admission w r d = Inr (Inr i)" "rw_authority w c d = (c1, d1, None)" by blast
    obtain c3 d3 y where y: "with_lease (uk_workspaceId claims) (in_generation i) w (markConfirmationExecuting (cm_claim m) (p_id r))
        (confirmed_body claims (in_generation i) m r) c1 d1 = (c3, d3, y)" by (metis prod_cases3)
    with a i obtain z where z: "y = Inr z" "confirm_answer z = Confirm_rejected status code" "c3 = c'" "d3 = d'"
      by (cases y) (auto simp: confirm_admitted_def)
    from with_lease_write_unused [OF y [unfolded z(1)] confirm_answer_rejected [OF z(2)]] z i show ?thesis
      by (simp add: confirm_admitted_def)
  next
    case False
    with a show ?thesis by (auto simp: confirm_admitted_def split: sum.splits prod.splits option.splits)
  qed
  with assms show ?thesis by (auto simp: confirmSingle_def split: if_splits sum.splits gated.splits prod.splits)
qed

section \<open>What a settlement leaves\<close>

text \<open>A settled preview: its row, its operation and its result agree on one of the four outcomes.\<close>

definition settled_as :: "string \<Rightarrow> ActionResultKind \<Rightarrow> ActionResultRef \<Rightarrow> db \<Rightarrow> bool" where
  "settled_as k kind ref d \<longleftrightarrow>
     ref_kind ref = kind
     \<and> (\<exists>c r a. sel c_id k (confirmations d) = Some c \<and> c_status c = confirmation_status_of kind
          \<and> c_action_result_id c = Some (ref_id ref)
          \<and> sel o_id (c_operation_id c) (runs d) = Some r \<and> o_status r = run_status_of kind
          \<and> o_action_result_id r = Some (ref_id ref)
          \<and> a \<in> set (results d) \<and> a_id a = ref_id ref \<and> a_kind a = kind)"

lemma settled_as_core: "core_same d d' \<Longrightarrow> settled_as k kind ref d' = settled_as k kind ref d"
  by (simp add: settled_as_def core_same_def)

lemma settle_row:
  assumes ok: "store_ok d" and c: "sel c_id k (confirmations d) = Some c" "c_status c = C_executing"
    and u: "update_confirmation_row E (settle_update status aid summary) k d = Inr d'"
  shows "sel c_id k (confirmations d') = Some (settle_update status aid summary c)" "results d' = results d"
    "map (\<lambda>r. (o_id r, o_status r, o_action_result_id r)) (runs d') = map (\<lambda>r. (o_id r, o_status r, o_action_result_id r)) (runs d)"
proof -
  let ?c = "settle_update status aid summary c"
  have k: "c_id ?c = k" using sel_SomeD [OF c(1)] by (simp add: settle_update_def)
  have "d' = put_confirmation ?c d \<or> d' = settlement_scrubs_operation ?c (put_confirmation ?c d)"
    using u c by (auto simp: update_confirmation_row_def Let_def pre_dispatch_terminal_move_def split: if_splits)
  then show "sel c_id k (confirmations d') = Some ?c" "results d' = results d"
    "map (\<lambda>r. (o_id r, o_status r, o_action_result_id r)) (runs d') = map (\<lambda>r. (o_id r, o_status r, o_action_result_id r)) (runs d)"
    using sel_put_confirmation [of ?c d c] k c(1)
    by (auto simp: settlement_scrubs_operation_def update_run_plain_def put_confirmation_def upd_where_def)
qed

lemma settleConfirmation_effect:
  assumes ok: "store_ok d" and s: "settleConfirmation E k status actionName result d = Inr (d', ref)"
  shows "settled_as k status ref d'"
  using s
proof (cases rule: settleConfirmation_cases)
  case (1 c aid summary resultJson d1 d2 d3)
  have c: "sel c_id k (confirmations d) = Some c" "c_status c = C_executing"
    using 1(1) by (auto simp: find_key_sel [OF store_ok_distinct(1) [OF ok]] split: option.splits if_splits)
  have g1: "good_step d d1" by (rule update_results_good [OF ok 1(5)]) simp
  have c1: "sel c_id k (confirmations d1) = Some c" and res: "\<exists>a\<in>set (results d1). a_id a = aid \<and> a_kind a = status"
    using 1(5) c by (auto simp: update_results_def Let_def upd_where_def filter_eq_Cons_iff length_Suc_conv split: if_splits)
  have u: "update_confirmation_row E (settle_update status aid summary) k d1 = Inr d2"
    using 1(6) c1 c(2) by (auto simp: update_confirmation_status_one [OF good_step_ok [OF g1]])
  note r2 = settle_row [OF good_step_ok [OF g1] c1 c(2) u]
  have g2: "good_step d1 d2"
    by (rule update_confirmation_status_good [OF 1(6) good_step_ok [OF g1]]) (auto simp: settle_update_move)
  have n: "length (filter (\<lambda>r. o_id r = c_operation_id c \<and> o_status r = O_executing \<and> o_action_result_id r = Some aid) (runs d2)) = 1"
    and d3: "d3 = d2\<lparr>runs := upd_where (\<lambda>r. o_id r = c_operation_id c \<and> o_status r = O_executing \<and> o_action_result_id r = Some aid)
       (\<lambda>r. terminal_scrub (r\<lparr>o_status := run_status_of status, o_action_result_id := Some aid, o_updated_at := now E\<rparr>)) (runs d2)\<rparr>"
    using 1(7) by (auto simp: update_run_status_def)
  from n obtain r where r: "sel o_id (c_operation_id c) (runs d2) = Some r" "o_status r = O_executing" "o_action_result_id r = Some aid"
    unfolding filter_key_sel [OF store_ok_distinct(2) [OF good_step_ok [OF g2]], of "c_operation_id c"]
    by (auto split: option.splits if_splits)
  have "sel o_id (c_operation_id c) (runs d3) = Some (terminal_scrub (r\<lparr>o_status := run_status_of status,
      o_action_result_id := Some aid, o_updated_at := now E\<rparr>))"
    using r sel_SomeD [OF r(1)] by (simp add: d3 sel_upd_where)
  with r2 res have "settled_as k status ref d3"
    by (auto simp: settled_as_def 1(9) d3 settle_update_def)
  then show ?thesis by (simp add: settled_as_core [OF settle_ledger_core [OF 1(8)]])
qed

lemma recordUndoIfReversible_core:
  "recordUndoIfReversible E claims g receipt d = Inr (d', u) \<Longrightarrow> core_same d d'"
  by (auto simp: recordUndoIfReversible_def recordUndoable_def insert_undo_def fresh_id_def core_same_def split: if_splits)

text \<open>A claimed preview: executing, with the result the claim wrote before anything was dispatched.\<close>

definition claim_open :: "string \<Rightarrow> db \<Rightarrow> bool" where
  "claim_open k d \<longleftrightarrow>
     (\<exists>c a. sel c_id k (confirmations d) = Some c \<and> c_status c = C_executing \<and> c_action_result_id c = Some (a_id a)
        \<and> a \<in> set (results d) \<and> a_kind a = R_outcome_unknown)"

lemma claim_open_core: "core_same d d' \<Longrightarrow> claim_open k d' = claim_open k d"
  by (simp add: claim_open_def core_same_def)

text \<open>The journal of a workflow touches neither previews nor results.\<close>

interpretation open_claim: journal_property "claim_open k" for k
  by unfold_locales (simp add: claim_open_def steps_only_def)

lemma claimed_open:
  assumes "store_ok d" "markConfirmationExecuting E k d = Inr (d', True)"
  shows "claim_open k d'"
proof -
  obtain c summary a where "sel c_id k (confirmations d') = Some (claim_update (now E) (uuid E (entropy d)) summary c)"
    "results d' = results d @ [a]" "a_id a = uuid E (entropy d)" "a_kind a = R_outcome_unknown"
    by (rule markConfirmationExecuting_effect [OF assms])
  then show ?thesis unfolding claim_open_def by (intro exI [of _ "claim_update _ _ _ _"] exI [of _ a]) (simp add: claim_update_def)
qed

section \<open>What a dispatch leaves\<close>

lemma dispatchConfirmedPreview_cases:
  assumes "dispatchConfirmedPreview claims g m r d = (d', y)"
  obtains (threw) e where "cm_write m r d = (d', Inl e)" "y = Inl e"
  | (degraded) v x where "cm_write m r d = (d', Inr v)" "y = Inr x" "dc_resultRef x = None" "dc_undoId x = None"
      "dc_status x = terminal_status v" "dc_receipt x = receipt_of v"
  | (settled) d1 v E ref d2 where "cm_write m r d = (d1, Inr v)" "settle_confirmed r v E d1 = Inr (d2, ref)" "core_same d2 d'"
      "\<And>x. y = Inr x \<Longrightarrow> dc_resultRef x = Some ref \<and> dc_status x = terminal_status v \<and> dc_receipt x = receipt_of v"
proof -
  obtain d1 z where w: "cm_write m r d = (d1, z)" by fastforce
  show thesis
  proof (cases z)
    case (Inl e)
    with w assms threw show thesis by (simp add: dispatchConfirmedPreview_def)
  next
    case (Inr v)
    obtain d2 ref where s: "settle_twice (cm_settle1 m) (cm_settle2 m) (settle_confirmed r v) d1 = (d2, ref)" by fastforce
    show thesis
    proof (cases ref)
      case None
      with s have "d2 = d1" by (blast dest: settle_twice_None)
      with assms w s Inr None show thesis
        by (intro degraded [of v]) (auto simp: dispatchConfirmedPreview_def)
    next
      case (Some x)
      with s obtain E where E: "settle_confirmed r v E d1 = Inr (d2, x)" by (blast elim: settle_twice_Some)
      show thesis
      proof (cases "recordUndoIfReversible (cm_undo m) claims g (receipt_of v) d2")
        case (Inl e)
        with assms w s \<open>z = Inr v\<close> Some have "d' = d2" "y = Inl e" by (auto simp: dispatchConfirmedPreview_def Let_def)
        with w \<open>z = Inr v\<close> E show thesis by (intro settled) (auto simp: core_same_def)
      next
        case (Inr p)
        obtain d3 u where p: "p = (d3, u)" by fastforce
        with assms w s \<open>z = Inr v\<close> Some Inr have "d' = d3" and y: "y = Inr \<lparr>dc_receipt = receipt_of v,
            dc_partial = (if isPartialCommitResult v then Some v else None), dc_status = terminal_status v, dc_undoId = u, dc_resultRef = Some x\<rparr>"
          by (auto simp: dispatchConfirmedPreview_def Let_def)
        with recordUndoIfReversible_core Inr p have "core_same d2 d'" by blast
        with w \<open>z = Inr v\<close> E y show thesis by (intro settled) auto
      qed
    qed
  qed
qed

text \<open>
  What the theorems assume of the world: the authority check and the write are made of operations of the store, of
  which none settles this preview while it is claimed, and the settlement of the assistant run leaves the four
  tables of the journal alone.
\<close>

definition run_settlement_ok :: "(string option \<Rightarrow> db \<Rightarrow> (string, db) result) \<Rightarrow> bool" where
  "run_settlement_ok f \<longleftrightarrow> (\<forall>x d d'. f x d = Inr d' \<longrightarrow> core_same d d')"

definition keeps_claim :: "string \<Rightarrow> (db \<Rightarrow> db \<times> 'a) \<Rightarrow> bool" where
  "keeps_claim k host \<longleftrightarrow> (\<forall>d. claim_open k d \<longrightarrow> claim_open k (fst (host d)))"

definition confirm_world_ok :: "request_world \<Rightarrow> confirmed_call \<Rightarrow> PendingConfirmationRecord \<Rightarrow> bool" where
  "confirm_world_ok w m r \<longleftrightarrow>
     (\<forall>c d. store_ok d \<longrightarrow> good_step d (fst (snd (rw_authority w c d))))
     \<and> follows_store (cm_write m r) \<and> keeps_claim (p_id r) (cm_write m r) \<and> run_settlement_ok (cm_settleRun m)"

lemma confirmed_body_dispatch:
  assumes "confirmed_body claims g m r d = (d', Inr x)" "run_settlement_ok (cm_settleRun m)"
  obtains d1 where "dispatchConfirmedPreview claims g m r d = (d1, Inr x)" "core_same d1 d'"
  using assms by (auto simp: confirmed_body_def run_settlement_ok_def core_same_def split: prod.splits sum.splits)

text \<open>
  Whatever happens behind the claim, the store says so: the preview is settled with the status and the result that
  were reported, or it stays claimed with the unknown outcome, which recovery will find.
\<close>

lemma dispatchConfirmedPreview_records:
  assumes ok: "store_ok d" "claim_open (p_id r) d" and f: "follows_store (cm_write m r)" "keeps_claim (p_id r) (cm_write m r)"
    and e: "dispatchConfirmedPreview claims g m r d = (d', y)"
  shows "store_ok d' \<and> (case y of
      Inr x \<Rightarrow> (case dc_resultRef x of Some ref \<Rightarrow> settled_as (p_id r) (dc_status x) ref d' | None \<Rightarrow> claim_open (p_id r) d')
    | Inl e \<Rightarrow> claim_open (p_id r) d' \<or> (\<exists>kind ref. settled_as (p_id r) kind ref d'))"
  using e
proof (cases rule: dispatchConfirmedPreview_cases)
  case (settled d1 v E ref d2)
  have ok1: "store_ok d1" by (rule good_step_ok [OF follows_storeD [OF f(1) ok(1) settled(1)]])
  note s = settled(2) [unfolded settle_confirmed_def]
  have "settled_as (p_id r) (terminal_status v) ref d'"
    using settleConfirmation_effect [OF ok1 s] settled_as_core [OF settled(3)] by simp
  moreover have "store_ok d'"
    by (rule core_same_ok [OF good_step_ok [OF settleConfirmation_good [OF ok1 s]] settled(3)])
  ultimately show ?thesis using settled(4) by (cases y) auto
qed (use follows_storeD [OF f(1) ok(1)] f(2) ok(2) in \<open>auto simp: keeps_claim_def good_step_def dest!: spec [of _ d]\<close>)

lemma confirmSingle_records:
  assumes ok: "store_ok d" and w: "confirm_world_ok w m r"
    and e: "confirmSingle sha256 deps claims w m r nonce c d = (c', d', Inr (Confirmed x))"
  shows "store_ok d' \<and> (case dc_resultRef x of
      Some ref \<Rightarrow> settled_as (p_id r) (dc_status x) ref d' | None \<Rightarrow> claim_open (p_id r) d')"
proof -
  from confirmSingle_guards [OF e] obtain g c1 d1 d2 where a: "rw_authority w c d = (c1, d1, None)"
    "markConfirmationExecuting (cm_claim m) (p_id r) d1 = Inr (d2, True)" "confirmed_body claims g m r d2 = (d', Inr x)" by blast
  from ok w a(1) have "good_step d d1" by (auto simp: confirm_world_ok_def dest!: spec [of _ c] spec [of _ d])
  then have ok1: "store_ok d1" by (rule good_step_ok)
  have ok2: "store_ok d2" "claim_open (p_id r) d2"
    by (rule good_step_ok [OF markConfirmationExecuting_good [OF ok1 a(2)]]) (rule claimed_open [OF ok1 a(2)])
  from w have w': "run_settlement_ok (cm_settleRun m)" "follows_store (cm_write m r)" "keeps_claim (p_id r) (cm_write m r)"
    by (simp_all add: confirm_world_ok_def)
  from confirmed_body_dispatch [OF a(3) w'(1)] obtain d4 where
    d4: "dispatchConfirmedPreview claims g m r d2 = (d4, Inr x)" "core_same d4 d'" .
  from dispatchConfirmedPreview_records [OF ok2 w'(2,3) d4(1)] core_same_ok [OF _ d4(2)] show ?thesis
    by (cases "dc_resultRef x") (simp_all add: claim_open_core [OF d4(2)] settled_as_core [OF d4(2)])
qed

text \<open>A workflow whose host calls are made of store operations and leave the claim alone is such a write.\<close>

lemma workflow_write:
  assumes "list_all (\<lambda>p. follows_store (pl_dispatch p) \<and> keeps_claim k (pl_dispatch p)) ps"
  shows "follows_store (executeMutationWorkflow cb a jop op ps) \<and> keeps_claim k (executeMutationWorkflow cb a jop op ps)"
proof -
  have "list_all (\<lambda>p. follows_store (pl_dispatch p)) ps" "list_all (\<lambda>p. \<forall>d. claim_open k d \<longrightarrow> claim_open k (fst (pl_dispatch p d))) ps"
    using assms by (auto simp: list_all_iff keeps_claim_def)
  then show ?thesis
    by (auto simp: follows_store_def keeps_claim_def executeMutationWorkflow_good open_claim.workflow_keeps)
qed

text \<open>A write that throws is rethrown after the lease is released, and the preview stays claimed.\<close>

lemma confirm_admitted_throws:
  assumes ok: "store_ok d" and w: "confirm_world_ok w m r" and i: "admission w r d = Inr (Inr i)"
    and a: "rw_authority w c d = (c1, d1, None)" and l: "acquire (uk_workspaceId claims) (in_generation i) c1 = Inr (c2, l)"
    "\<not> lease_aborted l (rw_aborted w) c2" and k: "markConfirmationExecuting (cm_claim m) (p_id r) d1 = Inr (d2, True)"
    and t: "cm_write m r d2 = (d3, Inl e)"
  shows "confirm_admitted claims w m r c d = (release l (rw_meanwhile w c2), d3, Inl e) \<and> claim_open (p_id r) d3"
proof -
  from ok w a have "good_step d d1" by (auto simp: confirm_world_ok_def dest!: spec [of _ c] spec [of _ d])
  from claimed_open [OF good_step_ok [OF this] k] w t have "claim_open (p_id r) d3"
    by (auto simp: confirm_world_ok_def keeps_claim_def dest!: spec [of _ d2])
  then show ?thesis
    by (simp add: confirm_admitted_def i a with_lease_def l k confirmed_body_def dispatchConfirmedPreview_def t)
qed

end
