(* ===== verification/CommitPath.thy ===== *)
theory CommitPath
  imports ConfirmationService Idempotency
begin

text \<open>
  The commit of a confirmed operation (\<open>executeStoredV2Write\<close> and \<open>commitConfirmedOperation\<close> of
  \<open>src/src/harness/actions.ts\<close>, with \<open>src/src/harness/idempotency.ts\<close> and the ledger adapter of the confirmation
  service): the contracts of the stored plan, policy and authority, the claim of the idempotency key before
  anything is sent, the commit itself, and the receipt its errors become. What an action does to the host is an
  argument, as is what its registry entry says of it.
\<close>

section \<open>The key\<close>

definition idempotencyScopeKey :: "(string \<Rightarrow> string) \<Rightarrow> string \<Rightarrow> string \<Rightarrow> string \<Rightarrow> string \<Rightarrow> string" where
  "idempotencyScopeKey sha256 ws admin actionName semantic =
     sha256 (ws @ [CHR 0x00] @ admin @ [CHR 0x00] @ actionName @ [CHR 0x00] @ semantic)"

text \<open>Workspace, admin and action names hold no NUL, so the text under the hash determines its parts.\<close>

lemma nul_split:
  assumes "xs @ [CHR 0x00] @ as = ys @ [CHR 0x00] @ bs" "CHR 0x00 \<notin> set xs" "CHR 0x00 \<notin> set ys"
  shows "xs = ys \<and> as = bs"
  using assms
proof (induction xs arbitrary: ys)
  case Nil
  then show ?case by (cases ys) auto
next
  case (Cons x xs)
  then show ?case by (cases ys) auto
qed

lemma idempotencyScopeKey_inj:
  assumes "idempotencyScopeKey sha256 ws admin a s = idempotencyScopeKey sha256 ws' admin' a' s'" "inj sha256"
    and "CHR 0x00 \<notin> set ws \<union> set admin \<union> set a" "CHR 0x00 \<notin> set ws' \<union> set admin' \<union> set a'"
  shows "ws = ws' \<and> admin = admin' \<and> a = a' \<and> s = s'"
proof -
  from assms(1,2) have e: "ws @ [CHR 0x00] @ (admin @ [CHR 0x00] @ (a @ [CHR 0x00] @ s))
      = ws' @ [CHR 0x00] @ (admin' @ [CHR 0x00] @ (a' @ [CHR 0x00] @ s'))"
    by (simp add: idempotencyScopeKey_def inj_eq)
  from nul_split [OF e] assms(3,4) have w: "ws = ws'" and e2: "admin @ [CHR 0x00] @ (a @ [CHR 0x00] @ s)
      = admin' @ [CHR 0x00] @ (a' @ [CHR 0x00] @ s')" by auto
  from nul_split [OF e2] assms(3,4) have "admin = admin'" and e3: "a @ [CHR 0x00] @ s = a' @ [CHR 0x00] @ s'" by auto
  with w nul_split [OF e3] assms(3,4) show ?thesis by auto
qed

section \<open>Replayed receipts\<close>

definition replay_note :: jsv where
  "replay_note = warning_json ''idempotent_replay''
     (''This request was already completed a moment ago '' @ em_dash @ '' no duplicate was created.'')"

definition with_members :: "jsv \<Rightarrow> (string \<times> jsv) list \<Rightarrow> jsv" where
  "with_members v patch = JObj (spread (case v of JObj es \<Rightarrow> es | _ \<Rightarrow> []) patch)"

text \<open>Stored receipts carry an array of warnings or none.\<close>

definition markReplayed :: "jsv \<Rightarrow> jsv" where
  "markReplayed prior =
     with_members prior
       [(''warnings'', JArr ((case getp ''warnings'' prior of JArr ws \<Rightarrow> ws | _ \<Rightarrow> []) @ [replay_note]))]"

definition markCommitReplayed :: "jsv \<Rightarrow> jsv" where
  "markCommitReplayed prior =
     (if isPartialCommitResult prior then with_members prior [(''receipt'', markReplayed (getp ''receipt'' prior))]
      else if js_truthy (getp ''ok'' prior) then markReplayed prior
      else prior)"

section \<open>Receipts of failures\<close>

fun thrown_message :: "thrown \<Rightarrow> string" where
  "thrown_message (T_dispatch_denied denial) = ''mutation_dispatch_denied''"
| "thrown_message (T_plan_violation m) = m"
| "thrown_message (T_budget_exceeded m) = m"
| "thrown_message T_request_cancelled = ''Clockify request was cancelled before dispatch.''"
| "thrown_message (T_ambiguous v p st m) = m"
| "thrown_message (T_definitive v p st m) = m"
| "thrown_message (T_error n m) = m"
| "thrown_message (T_other m) = m"

fun writeFailureReceipt :: "string \<Rightarrow> thrown \<Rightarrow> jsv" where
  "writeFailureReceipt a (T_budget_exceeded m) =
     errorReceipt a ''host_call_budget_exceeded'' m (recovery_json ''Start a fresh request with a smaller batch.'' True)"
| "writeFailureReceipt a (T_ambiguous v p st m) =
     errorReceipt a ''commit_outcome_unknown''
       ''Clockify did not provide a definitive response, so this change may or may not have been applied. I will not retry it automatically.''
       (recovery_json ''Check Clockify for the intended change before deciding whether to try again.'' False)"
| "writeFailureReceipt a (T_definitive v p st m) =
     errorReceipt a ''definitive_write_failure'' m (recovery_json ''Correct the request or permissions, then run a fresh attempt.'' False)"
| "writeFailureReceipt a e =
     errorReceipt a ''execution_error'' (thrown_message e) (recovery_json ''The action failed during execution.'' True)"

definition ledgerUnavailable :: "string \<Rightarrow> jsv" where
  "ledgerUnavailable a = errorReceipt a ''commit_unavailable''
     (''The change could not be started due to a temporary storage issue '' @ em_dash @ '' nothing was applied. Please try again in a moment.'')
     (recovery_json ''Try again in a moment.'' True)"

definition commitInProgress :: "string \<Rightarrow> jsv" where
  "commitInProgress a = errorReceipt a ''commit_in_progress''
     (''This change is currently being applied in another request; nothing was duplicated '' @ em_dash
      @ '' re-check in a moment or run a fresh preview.'')
     (recovery_json ''Wait a moment, then re-check or run a fresh preview.'' True)"

definition commitOutcomeUnknown :: "string \<Rightarrow> jsv" where
  "commitOutcomeUnknown a = errorReceipt a ''commit_outcome_unknown''
     (''A previous attempt to apply this change was interrupted, so its result is unknown '' @ em_dash
      @ '' it may or may not have gone through. Please check Clockify before retrying; I won't re-run it automatically, to avoid creating a duplicate.'')
     (recovery_json ''Check Clockify to see whether the change applied; if it didn't, try again in a few minutes.'' True)"

text \<open>\<open>runCommit\<close> never throws.\<close>

definition commit_receipt :: "string \<Rightarrow> (thrown, jsv) result \<Rightarrow> jsv" where
  "commit_receipt a r = (case r of Inl e \<Rightarrow> writeFailureReceipt a e | Inr v \<Rightarrow> v)"

definition runCommit :: "string \<Rightarrow> (db \<Rightarrow> db \<times> (thrown, jsv) result) \<Rightarrow> db \<Rightarrow> db \<times> jsv" where
  "runCommit a act d = (case act d of (d1, r) \<Rightarrow> (d1, commit_receipt a r))"

section \<open>The ledger of a confirmation\<close>

definition IDEMPOTENCY_WINDOW_MS :: int where
  "IDEMPOTENCY_WINDOW_MS = 10 * 60 * 1000"

definition CLAIM_TTL_MS :: int where
  "CLAIM_TTL_MS = 5 * 60 * 1000"

text \<open>
  \<open>atomicLedger\<close>: a claim that is won is bound to its confirmation, and given back when the binding throws; the
  settlement of the confirmation fills or deletes it, so \<open>fill\<close> and \<open>record\<close> do nothing here.
\<close>

definition ledger_claim ::
  "session_claims \<Rightarrow> string \<Rightarrow> int \<Rightarrow> string \<Rightarrow> db \<Rightarrow> db \<times> (string, ClaimState) result" where
  "ledger_claim claims confirmationId t key d =
     (case claimIdempotency key (uk_workspaceId claims) (uk_adminUserId claims) t (t - IDEMPOTENCY_WINDOW_MS) (t - CLAIM_TTL_MS) d of
        (d1, state) \<Rightarrow>
          if state \<noteq> won then (d1, Inr state)
          else case bindConfirmationIdempotencyKey confirmationId key d1 of
                 Inl e \<Rightarrow> (releaseIdempotency key (uk_workspaceId claims) (uk_adminUserId claims) d1, Inl e)
               | Inr d2 \<Rightarrow> (d2, Inr won))"

definition ledger_lookup :: "session_claims \<Rightarrow> int \<Rightarrow> string \<Rightarrow> db \<Rightarrow> jsv option" where
  "ledger_lookup claims t key d =
     lookupIdempotency key (uk_workspaceId claims) (uk_adminUserId claims) (t - IDEMPOTENCY_WINDOW_MS) d"

definition ledger_touch :: "session_claims \<Rightarrow> int \<Rightarrow> string \<Rightarrow> db \<Rightarrow> db" where
  "ledger_touch claims t key d = touchIdempotencyClaim key (uk_workspaceId claims) (uk_adminUserId claims) t d"

text \<open>The clock at the claim, and which of the ledger calls fail for reasons of the storage.\<close>

record ledger_call =
  lc_at :: int
  lc_claimFault :: bool
  lc_lookupFault :: bool
  lc_releaseFault :: bool

definition releases_claim :: "jsv \<Rightarrow> bool" where
  "releases_claim receipt \<longleftrightarrow>
     \<not> isPartialCommitResult receipt \<and> \<not> js_truthy (getp ''ok'' receipt)
     \<and> getp ''code'' receipt \<noteq> JStr ''commit_outcome_unknown''"

text \<open>
  The commit under a claim. While \<open>act\<close> runs, a timer refreshes the claim; what it and other requests do to the
  store meanwhile is part of what \<open>act\<close> leaves.
\<close>

definition commitViaAtomicLedger ::
  "session_claims \<Rightarrow> string \<Rightarrow> ledger_call \<Rightarrow> string \<Rightarrow> string \<Rightarrow> (db \<Rightarrow> db \<times> (thrown, jsv) result) \<Rightarrow> db \<Rightarrow> db \<times> jsv" where
  "commitViaAtomicLedger claims confirmationId L a key act d =
     (if lc_claimFault L then (d, ledgerUnavailable a)
      else case ledger_claim claims confirmationId (lc_at L) key d of
        (d1, Inl e) \<Rightarrow> (d1, ledgerUnavailable a)
      | (d1, Inr replay) \<Rightarrow>
          (d1, if lc_lookupFault L then commitInProgress a
               else case claimIdempotencyReceipt key (uk_workspaceId claims) (uk_adminUserId claims) d1 of
                      None \<Rightarrow> commitInProgress a
                    | Some prior \<Rightarrow> markCommitReplayed prior)
      | (d1, Inr in_flight) \<Rightarrow> (d1, commitInProgress a)
      | (d1, Inr stale_unknown) \<Rightarrow> (d1, commitOutcomeUnknown a)
      | (d1, Inr won) \<Rightarrow>
          (case runCommit a act d1 of
             (d2, receipt) \<Rightarrow>
               (if releases_claim receipt \<and> \<not> lc_releaseFault L
                then releaseConfirmationIdempotencyKey confirmationId key d2 else d2, receipt)))"

section \<open>The plan of an action\<close>

record DurableMutationContract =
  dm_strategies :: "string list"
  dm_unreconciled :: "string list"

text \<open>\<open>mutationPlanContractError\<close> of \<open>src/src/harness/action.ts\<close>, on a plan that came out of JSON.\<close>

definition plan_step_error :: "DurableMutationContract \<Rightarrow> string list \<Rightarrow> jsv \<Rightarrow> (string, string) result" where
  "plan_step_error contract ids v =
     (if \<not> js_truthy v then Inl ''invalid_mutation_plan_step''
      else case getp ''id'' v of
        JStr k \<Rightarrow>
          if k = [] \<or> k \<in> set ids
             \<or> (getp ''targetFingerprint'' v \<noteq> JUndef \<and> (case getp ''targetFingerprint'' v of JStr t \<Rightarrow> False | _ \<Rightarrow> True))
             \<or> (getp ''kind'' v \<noteq> JStr ''primary'' \<and> getp ''kind'' v \<noteq> JStr ''compensation'')
          then Inl ''invalid_mutation_plan_step''
          else if \<not> js_truthy (getp ''reconciliationStrategy'' v)
          then (if k \<in> set (dm_unreconciled contract) then Inr k else Inl (''missing_reconciliation_strategy:'' @ k))
          else if (case getp ''reconciliationStrategy'' v of JStr s \<Rightarrow> s \<in> set (dm_strategies contract) | _ \<Rightarrow> False)
          then Inr k
          else Inl (''undeclared_reconciliation_strategy:'' @ k)
      | _ \<Rightarrow> Inl ''invalid_mutation_plan_step'')"

fun plan_steps_error :: "DurableMutationContract \<Rightarrow> string list \<Rightarrow> jsv list \<Rightarrow> string option" where
  "plan_steps_error contract ids [] = None"
| "plan_steps_error contract ids (v # vs) =
     (case plan_step_error contract ids v of
        Inl e \<Rightarrow> Some e
      | Inr k \<Rightarrow> plan_steps_error contract (ids @ [k]) vs)"

definition mutationPlanContractError :: "DurableMutationContract option \<Rightarrow> jsv \<Rightarrow> string option" where
  "mutationPlanContractError contract plan =
     (case contract of
        None \<Rightarrow> Some ''missing_mutation_contract''
      | Some c \<Rightarrow>
          if \<not> js_truthy plan \<or> getp ''mode'' plan \<notin> set (map JStr [''single'', ''curated'', ''batch'']) then Some ''missing_mutation_plan''
          else case getp ''steps'' plan of
            JArr vs \<Rightarrow>
              if vs = [] then Some ''missing_mutation_plan''
              else if getp ''mode'' plan = JStr ''single'' \<and> length vs \<noteq> 1 then Some ''invalid_single_mutation_plan''
              else plan_steps_error c [] vs
          | _ \<Rightarrow> Some ''missing_mutation_plan'')"

section \<open>The stored write\<close>

text \<open>
  What the registry says of an action: its name, its kind, whether it executes safe writes and runs as a durable
  workflow, its plan contract, the check of its reviewed write authority and its semantic key.
\<close>

record action_entry =
  ae_name :: string
  ae_kind :: string
  ae_executes :: bool
  ae_durable :: bool
  ae_contract :: "DurableMutationContract option"
  ae_authorityError :: "jsv \<Rightarrow> jsv \<Rightarrow> string option"
  ae_semantic :: "jsv \<Rightarrow> string option"

text \<open>The context of a commit: what the fresh role check answers, the policy, and the ledger call, if there is one.\<close>

record commit_context =
  ct_claims :: session_claims
  ct_confirmationId :: string
  ct_authorize :: "db \<Rightarrow> db \<times> jsv option"
  ct_policy :: AdminPolicy
  ct_ledger :: "ledger_call option"

definition accessDeniedMessage :: "string \<Rightarrow> string \<Rightarrow> string" where
  "accessDeniedMessage g mode =
     (if mode = ''write'' then ''Write'' else ''Read'') @ '' access to '' @ g @ '' is disabled in your assistant permissions.''"

definition clockify_name :: "string \<Rightarrow> bool" where
  "clockify_name n \<longleftrightarrow> take 9 n = ''clockify_''"

definition unknown_action :: "string \<Rightarrow> string \<Rightarrow> jsv" where
  "unknown_action a hint = errorReceipt a ''unknown_action'' (''No committable action: '' @ a) (recovery_json hint False)"

text \<open>The check of a stored operation against its action, before anything else.\<close>

definition contract_receipt :: "action_entry \<Rightarrow> string \<Rightarrow> jsv \<Rightarrow> string \<Rightarrow> jsv option" where
  "contract_receipt A a operation hint =
     (if mutationPlanContractError (ae_contract A) (getp ''mutationPlan'' operation) \<noteq> None
      then Some (errorReceipt a ''invalid_mutation_plan''
             ''The stored host mutation plan is incompatible with this action's durable contract.'' (recovery_json hint False))
      else None)"

definition authority_receipt :: "action_entry \<Rightarrow> string \<Rightarrow> jsv \<Rightarrow> string \<Rightarrow> jsv option" where
  "authority_receipt A a operation hint =
     (if ae_authorityError A (getp ''payload'' operation) (getp ''mutationPlan'' operation) \<noteq> None
      then Some (errorReceipt a ''intent_capability_denied''
             ''The stored operation exceeds this action's reviewed write authority.'' (recovery_json hint False))
      else None)"

text \<open>The policy at the time of the confirm.\<close>

definition policy_receipt :: "AdminPolicy \<Rightarrow> string \<Rightarrow> jsv \<Rightarrow> (string, jsv option) result" where
  "policy_receipt policy a operation =
     and_then (json_includes ''permission_change'' (getp ''risks'' operation)) (\<lambda>b.
       Inr (let g = string_or [] (getp ''featureGroup'' operation) in
            if b \<or> canWrite policy g then None
            else Some (errorReceipt a ''policy_denied'' (accessDeniedMessage g ''write'')
                   (recovery_json (''Enable write access for '' @ g @ '' and run a fresh preview.'') True))))"

text \<open>The commit of an action that passed every check, with or without a key.\<close>

definition commit_once ::
  "(string \<Rightarrow> string) \<Rightarrow> action_entry \<Rightarrow> commit_context \<Rightarrow> (db \<Rightarrow> db \<times> (thrown, jsv) result) \<Rightarrow> string \<Rightarrow> jsv \<Rightarrow> db \<Rightarrow> db \<times> jsv" where
  "commit_once sha256 A x act a operation =
     (case (ae_semantic A operation, ct_ledger x) of
        (Some semantic, Some L) \<Rightarrow>
          if semantic = [] then runCommit a act
          else commitViaAtomicLedger (ct_claims x) (ct_confirmationId x) L a
                 (idempotencyScopeKey sha256 (uk_workspaceId (ct_claims x)) (uk_adminUserId (ct_claims x)) a semantic) act
      | _ \<Rightarrow> runCommit a act)"

definition commitConfirmedOperation ::
  "(string \<Rightarrow> string) \<Rightarrow> (string \<Rightarrow> action_entry option) \<Rightarrow> commit_context \<Rightarrow> (db \<Rightarrow> db \<times> (thrown, jsv) result) \<Rightarrow> jsv \<Rightarrow> db
   \<Rightarrow> db \<times> (thrown, jsv) result" where
  "commitConfirmedOperation sha256 registry x act operation d =
     (let a = string_or [] (getp ''actionName'' operation); hint = ''Create a fresh preview after the action contract is corrected.'' in
      case registry a of
        None \<Rightarrow> (d, Inr (unknown_action a ''This preview can no longer be executed.''))
      | Some A \<Rightarrow>
          if ae_kind A \<noteq> ''risky_write'' then (d, Inr (unknown_action a ''This preview can no longer be executed.''))
          else case (if ae_durable A then contract_receipt A a operation hint else None) of
            Some r \<Rightarrow> (d, Inr r)
          | None \<Rightarrow>
              (case (if clockify_name (ae_name A) then authority_receipt A a operation hint else None) of
                 Some r \<Rightarrow> (d, Inr r)
               | None \<Rightarrow>
                   (case ct_authorize x d of
                      (d1, Some r) \<Rightarrow> (d1, Inr r)
                    | (d1, None) \<Rightarrow>
                        (case policy_receipt (ct_policy x) a operation of
                           Inl e \<Rightarrow> (d1, Inl (T_error ''TypeError'' e))
                         | Inr (Some r) \<Rightarrow> (d1, Inr r)
                         | Inr None \<Rightarrow>
                             (case commit_once sha256 A x act a operation d1 of (d2, r) \<Rightarrow> (d2, Inr r))))))"

text \<open>A safe write runs its executor without a claim, and an error it throws goes to the caller.\<close>

definition executeStoredV2Write ::
  "(string \<Rightarrow> string) \<Rightarrow> (string \<Rightarrow> action_entry option) \<Rightarrow> commit_context \<Rightarrow> (db \<Rightarrow> db \<times> (thrown, jsv) result) \<Rightarrow> ExecutorKind \<Rightarrow> jsv
   \<Rightarrow> db \<Rightarrow> db \<times> (thrown, jsv) result" where
  "executeStoredV2Write sha256 registry x act executorKind operation d =
     (let a = string_or [] (getp ''actionName'' operation); hint = ''Create a fresh preview.'';
          incompatible = (\<lambda>m. (d, Inr (errorReceipt a ''incompatible_executor'' m (recovery_json hint False)))) in
      case registry a of
        None \<Rightarrow> (d, Inr (unknown_action a ''This preview can no longer be executed.''))
      | Some A \<Rightarrow>
          if executorKind = prepared_safe_write
          then (if ae_kind A \<noteq> ''safe_write'' \<or> \<not> ae_executes A
                then incompatible ''The stored executor does not match this action's safe-write contract.''
                else case contract_receipt A a operation hint of
                  Some r \<Rightarrow> (d, Inr r)
                | None \<Rightarrow>
                    (case authority_receipt A a operation hint of
                       Some r \<Rightarrow> (d, Inr r)
                     | None \<Rightarrow> act d))
          else if ae_kind A \<noteq> ''risky_write''
          then incompatible ''The stored executor does not match this action's risky-write contract.''
          else commitConfirmedOperation sha256 registry x act operation d)"

text \<open>
  The write of \<open>dispatchConfirmedPreview\<close>: anything but a prepared safe write is committed as a risky one.
\<close>

definition stored_write ::
  "(string \<Rightarrow> string) \<Rightarrow> (string \<Rightarrow> action_entry option) \<Rightarrow> commit_context \<Rightarrow> (db \<Rightarrow> db \<times> (thrown, jsv) result)
   \<Rightarrow> PendingConfirmationRecord \<Rightarrow> db \<Rightarrow> db \<times> (string, jsv) result" where
  "stored_write sha256 registry x act r d =
     (case executeStoredV2Write sha256 registry (x\<lparr>ct_confirmationId := p_id r\<rparr>) act
             (if p_executorKind r = Some prepared_safe_write then prepared_safe_write else risky_commit) (p_operation r) d of
        (d1, v) \<Rightarrow> (d1, map_sum thrown_message id v))"

section \<open>Replays mint nothing\<close>

lemma getp_with_members: "map_of (rev patch) k = Some v \<Longrightarrow> getp k (with_members u patch) = v"
  by (simp add: getp_def with_members_def map_of_spread)

lemma markReplayed_warns: "replay_warning (markReplayed v)"
proof -
  have "getp ''warnings'' (markReplayed v) = JArr ((case getp ''warnings'' v of JArr ws \<Rightarrow> ws | _ \<Rightarrow> []) @ [replay_note])"
    unfolding markReplayed_def by (rule getp_with_members) simp
  then show ?thesis by (simp add: replay_warning_def replay_note_def warning_json_def getp_def)
qed

text \<open>A replayed receipt records no second undo.\<close>

lemma replay_records_no_undo: "recordUndoIfReversible E claims g (markReplayed v) d = Inr (d, None)"
  by (simp add: recordUndoIfReversible_def markReplayed_warns)

section \<open>A key commits once\<close>

definition key_guarded :: "int \<Rightarrow> string \<Rightarrow> string \<Rightarrow> string \<Rightarrow> db \<Rightarrow> bool" where
  "key_guarded c key ws admin d \<longleftrightarrow> (\<exists>i\<in>set (ledger d). is_ledger_key key ws admin i \<and> \<not> aged_out c i)"

text \<open>
  What others may do to the ledger meanwhile: claim any key within the window, refresh claims, fill claims with
  results, and delete rows of other keys and rows that have aged out.
\<close>

inductive ledger_env :: "int \<Rightarrow> string \<Rightarrow> string \<Rightarrow> string \<Rightarrow> db \<Rightarrow> db \<Rightarrow> bool" for c key ws admin where
  elsewhere: "ledger d' = ledger d \<Longrightarrow> ledger_env c key ws admin d d'"
| claims: "t - IDEMPOTENCY_WINDOW_MS \<le> c
    \<Longrightarrow> ledger_env c key ws admin d (fst (claimIdempotency k w a t (t - IDEMPOTENCY_WINDOW_MS) (t - CLAIM_TTL_MS) d))"
| touches: "c \<le> t \<Longrightarrow> ledger_env c key ws admin d (touchIdempotencyClaim k w a t d)"
| fills: "c \<le> t \<Longrightarrow> update_ledger P (\<lambda>i. i\<lparr>i_action_result_id := Some aid, i_result_summary := Some summary,
      i_committed_at := Some t, i_claimed_at := Some t\<rparr>) d = Inr (d', n) \<Longrightarrow> ledger_env c key ws admin d d'"
| deletes: "(\<And>i. is_ledger_key key ws admin i \<Longrightarrow> P i \<Longrightarrow> aged_out c i) \<Longrightarrow> ledger_env c key ws admin d (delete_ledger P d)"

lemma aged_out_mono: "aged_out b i \<Longrightarrow> b \<le> c \<Longrightarrow> aged_out c i"
  by (auto simp: aged_out_def split: option.splits)

lemma key_guardedI: "i \<in> set (ledger d) \<Longrightarrow> is_ledger_key key ws admin i \<Longrightarrow> \<not> aged_out c i \<Longrightarrow> key_guarded c key ws admin d"
  by (auto simp: key_guarded_def)

lemma upd_where_mem: "i \<in> set xs \<Longrightarrow> (if P i then f i else i) \<in> set (upd_where P f xs)"
  by (auto simp: upd_where_def)

lemma ledger_env_guarded:
  assumes "ledger_env c key ws admin d d'" "key_guarded c key ws admin d"
  shows "key_guarded c key ws admin d'"
proof -
  from assms(2) obtain i where i: "i \<in> set (ledger d)" "is_ledger_key key ws admin i" "\<not> aged_out c i"
    by (auto simp: key_guarded_def)
  from assms(1) show ?thesis
  proof cases
    case elsewhere
    with i show ?thesis by (auto intro: key_guardedI)
  next
    case (claims t k w a)
    with i(3) aged_out_mono have "\<not> aged_out (t - IDEMPOTENCY_WINDOW_MS) i" by blast
    with i(1) have "i \<in> set (ledger d')"
      by (auto simp: claims claimIdempotency_def Let_def delete_ledger_def split: option.split)
    with i show ?thesis by (blast intro: key_guardedI)
  next
    case (touches t k w a)
    let ?i = "if open_ledger_key k w a i then i\<lparr>i_claimed_at := Some t\<rparr> else i"
    have "?i \<in> set (ledger d')" unfolding touches touchIdempotencyClaim_def by (simp add: upd_where_mem [OF i(1)])
    moreover have "is_ledger_key key ws admin ?i" using i(2) by (simp add: is_ledger_key_def)
    moreover have "\<not> aged_out c ?i" using i(3) touches(2) by (auto simp: aged_out_def open_ledger_key_def)
    ultimately show ?thesis by (rule key_guardedI)
  next
    case (fills t P summary aid n)
    let ?f = "\<lambda>i. i\<lparr>i_action_result_id := Some aid, i_result_summary := Some summary, i_committed_at := Some t, i_claimed_at := Some t\<rparr>"
    from fills(2) have "ledger d' = upd_where P ?f (ledger d)" by (auto simp: update_ledger_def Let_def split: if_splits)
    with upd_where_mem [OF i(1), of P ?f] have "(if P i then ?f i else i) \<in> set (ledger d')" by simp
    moreover have "is_ledger_key key ws admin (if P i then ?f i else i)" using i(2) by (simp add: is_ledger_key_def)
    moreover have "\<not> aged_out c (if P i then ?f i else i)" using i(3) fills(1) by (auto simp: aged_out_def)
    ultimately show ?thesis by (rule key_guardedI)
  next
    case (deletes P)
    with i have "i \<in> set (ledger d')" by (auto simp: delete_ledger_def)
    with i show ?thesis by (blast intro: key_guardedI)
  qed
qed

lemma ledger_envs_guarded:
  "(ledger_env c key ws admin)\<^sup>*\<^sup>* d d' \<Longrightarrow> key_guarded c key ws admin d \<Longrightarrow> key_guarded c key ws admin d'"
  by (induction rule: rtranclp_induct) (auto intro: ledger_env_guarded)

lemma guarded_not_won:
  assumes "key_guarded c key ws admin d" "c' \<le> c"
  shows "snd (claimIdempotency key ws admin t c' n d) \<noteq> won"
  using assms claim_won_iff [of key ws admin t c' n d] aged_out_mono unfolding key_guarded_def by blast

text \<open>Without the claim nothing is sent: the answer does not depend on the write.\<close>

lemma unclaimed_commit_never_writes:
  assumes g: "key_guarded c key (uk_workspaceId claims) (uk_adminUserId claims) d" and "lc_at L - IDEMPOTENCY_WINDOW_MS \<le> c"
  shows "commitViaAtomicLedger claims k L a key act d = commitViaAtomicLedger claims k L a key other d"
proof -
  obtain d1 st where s: "claimIdempotency key (uk_workspaceId claims) (uk_adminUserId claims) (lc_at L)
      (lc_at L - IDEMPOTENCY_WINDOW_MS) (lc_at L - CLAIM_TTL_MS) d = (d1, st)" by fastforce
  with guarded_not_won [OF assms] have "st \<noteq> won" by (metis snd_conv)
  with s show ?thesis by (cases st) (simp_all add: commitViaAtomicLedger_def ledger_claim_def)
qed

text \<open>A claim that was won guards its key from the moment of the claim on.\<close>

lemma ledger_claim_won:
  assumes "ledger_claim claims k t key d = (d1, Inr won)"
  shows "key_guarded t key (uk_workspaceId claims) (uk_adminUserId claims) d1"
proof -
  let ?i = "\<lparr>i_key = key, i_workspace_id = uk_workspaceId claims, i_admin_user_id = uk_adminUserId claims, i_action_result_id = None,
      i_result_summary = None, i_committed_at = None, i_claimed_at = Some t\<rparr>"
  obtain d0 st where c: "claimIdempotency key (uk_workspaceId claims) (uk_adminUserId claims) t
      (t - IDEMPOTENCY_WINDOW_MS) (t - CLAIM_TTL_MS) d = (d0, st)" by fastforce
  with assms have st: "st = won" and b: "bindConfirmationIdempotencyKey k key d0 = Inr d1"
    by (auto simp: ledger_claim_def split: if_splits sum.splits)
  from c st have "?i \<in> set (ledger d0)"
    by (auto simp: claimIdempotency_def Let_def existing_claim_def split: option.splits if_splits)
  moreover have "ledger d1 = ledger d0"
    using b by (auto simp: bindConfirmationIdempotencyKey_def Let_def update_confirmation_key_def split: option.splits if_splits)
  ultimately show ?thesis by (intro key_guardedI [of ?i]) (simp_all add: is_ledger_key_def aged_out_def)
qed

lemma commit_keeps_key:
  assumes "ledger_claim claims k (lc_at L) key d = (d0, Inr won)" "\<not> lc_claimFault L" "act d0 = (dc, r)"
    and "\<not> releases_claim (commit_receipt a r)"
  shows "commitViaAtomicLedger claims k L a key act d = (dc, commit_receipt a r)"
  using assms by (simp add: commitViaAtomicLedger_def runCommit_def)

lemma key_commits_once:
  assumes w: "ledger_claim claims k (lc_at L) key d = (d0, Inr won)" "\<not> lc_claimFault L" and act: "act d0 = (d1, r)"
    and keep: "\<not> releases_claim (commit_receipt a r)"
    and e: "(ledger_env (lc_at L) key (uk_workspaceId claims) (uk_adminUserId claims))\<^sup>*\<^sup>* d0 d1"
      "(ledger_env (lc_at L) key (uk_workspaceId claims) (uk_adminUserId claims))\<^sup>*\<^sup>* d1 d2"
    and again: "lc_at L' \<le> lc_at L + IDEMPOTENCY_WINDOW_MS" "uk_workspaceId claims' = uk_workspaceId claims"
      "uk_adminUserId claims' = uk_adminUserId claims"
  shows "commitViaAtomicLedger claims k L a key act d = (d1, commit_receipt a r)
    \<and> commitViaAtomicLedger claims' k' L' a' key act' d2 = commitViaAtomicLedger claims' k' L' a' key other d2"
proof
  show "commitViaAtomicLedger claims k L a key act d = (d1, commit_receipt a r)"
    using w act keep by (rule commit_keeps_key)
  from ledger_envs_guarded [OF e(2) ledger_envs_guarded [OF e(1) ledger_claim_won [OF w(1)]]]
  have "key_guarded (lc_at L) key (uk_workspaceId claims) (uk_adminUserId claims) d2" .
  then show "commitViaAtomicLedger claims' k' L' a' key act' d2 = commitViaAtomicLedger claims' k' L' a' key other d2"
    using again by (intro unclaimed_commit_never_writes [of "lc_at L"]) simp_all
qed

section \<open>What an unclassified error becomes\<close>

text \<open>
  An error of no known class is taken for a failure: the claim is given back, the preview settles as a definitive
  failure and the receipt invites a retry, whatever the write did before it threw.
\<close>

fun classified :: "thrown \<Rightarrow> bool" where
  "classified (T_ambiguous v p st m) = True"
| "classified _ = False"

lemma receipt_simps [simp]:
  "getp ''ok'' (errorReceipt a c m v) = JBool False" "getp ''code'' (errorReceipt a c m v) = JStr c"
  "getp ''kind'' (errorReceipt a c m v) = JUndef"
  by (simp_all add: errorReceipt_def getp_def)

lemma unclassified_error_is_definitive:
  assumes "\<not> classified e"
  shows "releases_claim (writeFailureReceipt a e) \<and> terminal_status (writeFailureReceipt a e) = R_definitive_failed"
  using assms by (cases e) (simp_all add: releases_claim_def terminal_status_def isPartialCommitResult_def)

text \<open>A workflow as a commit: what the executor throws is an error without a class of its own.\<close>

definition workflow_commit ::
  "callbacks \<Rightarrow> string \<Rightarrow> string \<Rightarrow> string \<Rightarrow> planned list \<Rightarrow> db \<Rightarrow> db \<times> (thrown, jsv) result" where
  "workflow_commit cb a jop op ps d =
     (case executeMutationWorkflow cb a jop op ps d of (d1, r) \<Rightarrow> (d1, map_sum (T_error ''Error'') id r))"

lemma workflow_throws_midway:
  assumes "map_option ru_status (getOperationRun op d) = Some O_executing" "executed_in_order op op ps1 d ss d1"
    and "es_kind (pl_step p) = Primary" "execute_planned op op p d1 = (d', Inl e)"
  shows "executeMutationWorkflow cb a op op (ps1 @ p # ps2) d = (d', Inl e)"
  using assms executed_prefix [OF assms(2), of cb a _ "[]" "p # ps2"]
  by (simp add: executeMutationWorkflow_def execute_planned_def)

lemma midway_fault_receipt:
  assumes "map_option ru_status (getOperationRun op d) = Some O_executing" "executed_in_order op op ps1 d ss d1"
    and "es_kind (pl_step p) = Primary" "execute_planned op op p d1 = (d', Inl e)"
  shows "\<exists>receipt. runCommit a (workflow_commit cb a op op (ps1 @ p # ps2)) d = (d', receipt)
    \<and> getp ''code'' receipt = JStr ''execution_error'' \<and> terminal_status receipt = R_definitive_failed \<and> releases_claim receipt"
  using workflow_throws_midway [OF assms, of cb a ps2] unclassified_error_is_definitive [of "T_error ''Error'' e" a]
  by (simp add: runCommit_def workflow_commit_def commit_receipt_def)

end
