(* ===== verification/BatchConfirmation.thy ===== *)
theory BatchConfirmation
  imports ConfirmationService Batches
begin

text \<open>
  Confirm all (\<open>confirmBatch\<close> of \<open>src/src/services/confirmation-service.ts\<close>): the previews of a batch, confirmed
  in their stored order under one lease. Every member passes its own gate and its own claim; the first unknown
  outcome stops the batch and cancels what was not dispatched. The requests of one session run one at a time
  (\<open>KeyedFifo\<close>), so a batch that is found executing belongs to an earlier request.
\<close>

section \<open>Outcomes of the members\<close>

record batch_item_input =
  bn_confirmationId :: string
  bn_nonce :: "string option"

record item_outcome =
  io_confirmationId :: string
  io_operationId :: string
  io_status :: ActionResultKind
  io_receipt :: jsv
  io_partial :: "jsv option"
  io_undoId :: "string option"
  io_replayed :: bool

fun kind_of_status :: "PendingStatus \<Rightarrow> ActionResultKind" where
  "kind_of_status C_partial = R_partial"
| "kind_of_status C_succeeded = R_succeeded"
| "kind_of_status C_outcome_unknown = R_outcome_unknown"
| "kind_of_status s = R_definitive_failed"

fun item_status_of :: "ActionResultKind \<Rightarrow> ConfirmationBatchItemStatus" where
  "item_status_of R_succeeded = I_succeeded"
| "item_status_of R_partial = I_succeeded"
| "item_status_of R_definitive_failed = I_definitive_failed"
| "item_status_of R_outcome_unknown = I_outcome_unknown"

definition stored_kind :: "string \<Rightarrow> jsv \<Rightarrow> bool" where
  "stored_kind k v \<longleftrightarrow> is_object_like v \<and> getp ''kind'' v = JStr k"

definition terminalItemOutcome :: "BatchItemRow \<Rightarrow> PendingConfirmationRecord \<Rightarrow> db \<Rightarrow> item_outcome option" where
  "terminalItemOutcome item r d =
     (if \<not> truthy (bi_action_result_id item) \<or> p_status r = C_pending \<or> p_status r = C_executing then None
      else case getActionResult (the (bi_action_result_id item)) d of
        None \<Rightarrow> None
      | Some v \<Rightarrow>
          if \<not> js_truthy v then None
          else Some \<lparr>io_confirmationId = bi_confirmation_id item, io_operationId = bi_operation_id item,
                     io_status = kind_of_status (p_status r),
                     io_receipt = (if stored_kind ''partial'' v \<or> stored_kind ''receipt'' v then getp ''receipt'' v else v),
                     io_partial = (if stored_kind ''partial'' v then Some v else None), io_undoId = None,
                     io_replayed = True\<rparr>)"

definition summarizeBatchStatus :: "item_outcome list \<Rightarrow> ConfirmationBatchStatus" where
  "summarizeBatchStatus outs =
     (if list_ex (\<lambda>o'. io_status o' = R_outcome_unknown) outs then B_outcome_unknown
      else if list_ex (\<lambda>o'. io_status o' = R_partial) outs then B_partial
      else let failures = length (filter (\<lambda>o'. io_status o' = R_definitive_failed) outs);
               successes = length (filter (\<lambda>o'. io_status o' = R_succeeded) outs) in
           if 0 < failures \<and> 0 < successes then B_partial
           else if failures = length outs then B_definitive_failed
           else B_succeeded)"

section \<open>One member\<close>

text \<open>What a batch runs under, and what surrounds one of its members.\<close>

record batch_context =
  bx_sha256 :: "string \<Rightarrow> string"
  bx_deps :: service_deps
  bx_claims :: session_claims
  bx_installation :: installation
  bx_batchId :: string
  bx_now :: int

record member_call =
  mc_read :: env
  mc_now :: env
  mc_policy :: AdminPolicy
  mc_call :: confirmed_call
  mc_after :: env

datatype member_step =
    Member_replayed "item_outcome option"
  | Member_rejected nat string
  | Member_done item_outcome bool

definition member_refusal :: "installation \<Rightarrow> AdminPolicy \<Rightarrow> PendingConfirmationRecord \<Rightarrow> db \<Rightarrow> (string, (nat \<times> string) option) result" where
  "member_refusal i policy r d =
     (if \<not> storedPlannedOperation (p_operation r) then Inr (Some (400, ''invalid_mutation_plan''))
      else if \<not> own_generation r \<or> \<not> current_generation i r then Inr (Some (409, ''installation_changed''))
      else case operation_refusal r d of
        Some x \<Rightarrow> Inr (Some x)
      | None \<Rightarrow> policy_refusal policy (p_operation r))"

text \<open>The bookkeeping of a member that has been dispatched; an unknown outcome ends the batch.\<close>

definition member_outcome :: "PendingConfirmationRecord \<Rightarrow> dispatched \<Rightarrow> item_outcome" where
  "member_outcome r x =
     \<lparr>io_confirmationId = p_id r, io_operationId = p_operationId r, io_status = dc_status x, io_receipt = dc_receipt x,
      io_partial = dc_partial x, io_undoId = dc_undoId x, io_replayed = False\<rparr>"

definition record_member ::
  "batch_context \<Rightarrow> env \<Rightarrow> int \<Rightarrow> PendingConfirmationRecord \<Rightarrow> dispatched \<Rightarrow> db \<Rightarrow> db \<times> (string, member_step) result" where
  "record_member X E index r x =
     (let out = answer (Member_done (member_outcome r x) (dc_resultRef x = None)) in
      run_then (perform (getPendingConfirmation E (p_id r))) (\<lambda>found.
      run_then (perform (updateConfirmationBatchItemStatus (bx_batchId X) index (item_status_of (dc_status x))
                  (case found of None \<Rightarrow> None | Some f \<Rightarrow> p_actionResultId f) None (Some (bx_now X)))) (\<lambda>b1.
      run_then (perform (advanceConfirmationBatchProgress (bx_batchId X) (index + 1))) (\<lambda>b2.
        if dc_status x \<noteq> R_outcome_unknown then out
        else run_then (perform (cancelUndispatchedBatchItems E (bx_batchId X) (index + 1) (bx_now X))) (\<lambda>n.
             run_then (perform (updateConfirmationBatchStatus (bx_batchId X) B_outcome_unknown None None None (Some (bx_now X)))) (\<lambda>b3.
               out))))))"

definition dispatch_member ::
  "batch_context \<Rightarrow> member_call \<Rightarrow> int \<Rightarrow> PendingConfirmationRecord \<Rightarrow> db \<Rightarrow> db \<times> (string, member_step) result" where
  "dispatch_member X m index r =
     run_then (perform (markConfirmationExecuting (cm_claim (mc_call m)) (p_id r))) (\<lambda>claimed.
       if \<not> claimed then answer (Member_rejected 409 ''already_used'')
       else run_then (perform (updateConfirmationBatchItemStatus (bx_batchId X) index I_executing None (Some (bx_now X)) None)) (\<lambda>b.
            run_then (dispatchConfirmedPreview (bx_claims X) (in_generation (bx_installation X)) (mc_call m) r) (\<lambda>x.
              record_member X (mc_after m) index r x)))"

definition confirm_live_member ::
  "batch_context \<Rightarrow> member_call \<Rightarrow> int \<Rightarrow> PendingConfirmationRecord \<Rightarrow> string option \<Rightarrow> db \<Rightarrow> db \<times> (string, member_step) result" where
  "confirm_live_member X m index r nonce d =
     (if \<not> isV2AssistantBatchConfirmation r then (d, Inr (Member_rejected 400 ''incompatible_confirmation''))
      else case validate_confirmation (bx_sha256 X) (bx_deps X) (bx_claims X) (now (mc_now m)) r
                  (case nonce of None \<Rightarrow> ''undefined'' | Some n \<Rightarrow> n) of
        Inl e \<Rightarrow> (d, Inl ''gate'')
      | Inr (Refused code message) \<Rightarrow>
          if code = ''expired''
          then run_then (perform (expireConfirmation (mc_now m) (p_id r))) (\<lambda>b. answer (Member_rejected 400 code)) d
          else (d, Inr (Member_rejected 400 code))
      | Inr (Allowed r') \<Rightarrow>
          (case member_refusal (bx_installation X) (mc_policy m) r d of
             Inl e \<Rightarrow> (d, Inl e)
           | Inr (Some (status, code)) \<Rightarrow> (d, Inr (Member_rejected status code))
           | Inr None \<Rightarrow> dispatch_member X m index r d))"

definition confirm_member ::
  "batch_context \<Rightarrow> member_call \<Rightarrow> int \<Rightarrow> BatchItemRow \<Rightarrow> string option \<Rightarrow> db \<Rightarrow> db \<times> (string, member_step) result" where
  "confirm_member X m index item nonce =
     run_then (perform (getPendingConfirmation (mc_read m) (bi_confirmation_id item))) (\<lambda>found.
       case found of
         None \<Rightarrow>
           if bi_status item \<noteq> I_pending \<and> \<not> truthy (bi_action_result_id item) then answer (Member_replayed None)
           else throw ''type_error''
       | Some r \<Rightarrow>
           if bi_status item \<noteq> I_pending then (\<lambda>d. (d, Inr (Member_replayed (terminalItemOutcome item r d))))
           else confirm_live_member X m index r nonce)"

section \<open>The members in order\<close>

datatype batch_loop =
    Loop_rejected nat string
  | Loop_stopped "item_outcome list" bool
  | Loop_done "item_outcome list" bool

type_synonym member = "BatchItemRow \<times> string option \<times> member_call"

fun confirm_members ::
  "batch_context \<Rightarrow> int \<Rightarrow> member list \<Rightarrow> item_outcome list \<Rightarrow> bool \<Rightarrow> db \<Rightarrow> db \<times> (string, batch_loop) result" where
  "confirm_members X index [] outs degraded d = (d, Inr (Loop_done outs degraded))"
| "confirm_members X index ((item, nonce, m) # rest) outs degraded d =
     (case confirm_member X m index item nonce d of
        (d1, Inl e) \<Rightarrow> (d1, Inl e)
      | (d1, Inr (Member_rejected status code)) \<Rightarrow> (d1, Inr (Loop_rejected status code))
      | (d1, Inr (Member_replayed again)) \<Rightarrow>
          confirm_members X (index + 1) rest (case again of None \<Rightarrow> outs | Some x \<Rightarrow> outs @ [x]) degraded d1
      | (d1, Inr (Member_done x lost)) \<Rightarrow>
          if io_status x = R_outcome_unknown then (d1, Inr (Loop_stopped (outs @ [x]) (degraded \<or> lost)))
          else confirm_members X (index + 1) rest (outs @ [x]) (degraded \<or> lost) d1)"

section \<open>The batch\<close>

text \<open>The outcome of a stored member for the answer; a member without a result is never looked at further.\<close>

definition stored_outcome :: "env \<Rightarrow> BatchItemRow \<Rightarrow> db \<Rightarrow> db \<times> (string, item_outcome option) result" where
  "stored_outcome E item =
     run_then (perform (getPendingConfirmation E (bi_confirmation_id item))) (\<lambda>found d.
       case found of
         Some r \<Rightarrow> (d, Inr (terminalItemOutcome item r d))
       | None \<Rightarrow> if truthy (bi_action_result_id item) then (d, Inl ''type_error'') else (d, Inr None))"

fun collect_outcomes :: "(BatchItemRow \<Rightarrow> db \<Rightarrow> db \<times> (string, item_outcome option) result) \<Rightarrow> BatchItemRow list
    \<Rightarrow> db \<Rightarrow> db \<times> (string, item_outcome list) result" where
  "collect_outcomes f [] = answer []"
| "collect_outcomes f (i # is) =
     run_then (f i) (\<lambda>x. run_then (collect_outcomes f is) (\<lambda>xs. answer (case x of None \<Rightarrow> xs | Some y \<Rightarrow> y # xs)))"

record batch_answer =
  ba_status :: ConfirmationBatchStatus
  ba_items :: "item_outcome list"
  ba_degraded :: bool

datatype batch_response = Batch_rejected nat string | Batch_confirmed batch_answer

text \<open>The replay of a batch that has ended: every member must have a stored outcome.\<close>

fun replay_batch :: "env \<Rightarrow> ConfirmationBatchStatus \<Rightarrow> BatchItemRow list \<Rightarrow> item_outcome list \<Rightarrow> db
    \<Rightarrow> db \<times> (string, batch_response) result" where
  "replay_batch E status [] outs = answer (Batch_confirmed \<lparr>ba_status = status, ba_items = outs, ba_degraded = False\<rparr>)"
| "replay_batch E status (i # is) outs =
     run_then (perform (getPendingConfirmation E (bi_confirmation_id i))) (\<lambda>found d.
       case found of
         None \<Rightarrow> (d, Inr (Batch_rejected 409 ''batch_integrity_failed''))
       | Some r \<Rightarrow>
           (case terminalItemOutcome i r d of
              None \<Rightarrow> (d, Inr (Batch_rejected 409 ''batch_incomplete''))
            | Some x \<Rightarrow> replay_batch E status is (outs @ [x]) d))"

text \<open>The pass before authority, over the members that are left: each is live with a nonce, or can be replayed.\<close>

fun check_members :: "env \<Rightarrow> string \<Rightarrow> (BatchItemRow \<times> string option) list \<Rightarrow> db
    \<Rightarrow> db \<times> (string, (nat \<times> string) option) result" where
  "check_members E batchId [] = answer None"
| "check_members E batchId ((i, nonce) # is) =
     run_then (perform (getPendingConfirmation E (bi_confirmation_id i))) (\<lambda>found d.
       case found of
         None \<Rightarrow> (d, Inr (Some (409, ''batch_integrity_failed'')))
       | Some r \<Rightarrow>
           if p_batchId r \<noteq> Some batchId then (d, Inr (Some (409, ''batch_integrity_failed'')))
           else if bi_status i \<noteq> I_pending
           then (if terminalItemOutcome i r d = None then (d, Inr (Some (409, ''batch_incomplete'')))
                 else check_members E batchId is d)
           else if \<not> truthy nonce then (d, Inr (Some (400, ''invalid_confirmation'')))
           else check_members E batchId is d)"

definition ended_status :: "ConfirmationBatchStatus \<Rightarrow> bool" where
  "ended_status s \<longleftrightarrow> s \<noteq> B_pending \<and> s \<noteq> B_executing"

definition tuple_of :: "BatchItemRow list \<Rightarrow> ConfirmationBatchItemInput list" where
  "tuple_of is = map (\<lambda>i. \<lparr>ii_confirmationId = bi_confirmation_id i, ii_operationId = bi_operation_id i\<rparr>) is"

text \<open>
  What surrounds a batch: the world of the request, what happens around each member, and the settlement of the
  assistant run, whose failure is swallowed.
\<close>

record batch_world =
  bw_request :: request_world
  bw_member :: "nat \<Rightarrow> member_call"
  bw_settleRun :: "db \<Rightarrow> (string, db) result"

definition settle_batch_run :: "batch_world \<Rightarrow> db \<Rightarrow> db \<times> (string, unit) result" where
  "settle_batch_run W d = (case bw_settleRun W d of Inl e \<Rightarrow> (d, Inr ()) | Inr d1 \<Rightarrow> (d1, Inr ()))"

text \<open>After the loop: the aggregate status, the assistant run, and the outcome of every member.\<close>

definition finish_batch ::
  "batch_context \<Rightarrow> batch_world \<Rightarrow> BatchItemRow list \<Rightarrow> item_outcome list \<Rightarrow> bool \<Rightarrow> bool \<Rightarrow> db
   \<Rightarrow> db \<times> (string, batch_response) result" where
  "finish_batch X W prior outs degraded stopped =
     (let E = rw_now (bw_request W) in
      run_then
        (if stopped then (\<lambda>d. case getConfirmationBatch (bx_batchId X) d of None \<Rightarrow> (d, Inl ''type_error'') | Some b \<Rightarrow> (d, Inr (b_status b)))
         else run_then (collect_outcomes (stored_outcome E) prior) (\<lambda>ps.
              let final = summarizeBatchStatus (ps @ outs) in
              run_then (perform (updateConfirmationBatchStatus (bx_batchId X) final None None None (Some (bx_now X)))) (\<lambda>b.
                answer final)))
        (\<lambda>final.
      run_then (settle_batch_run W) (\<lambda>u d.
      run_then (collect_outcomes (\<lambda>i. run_then (stored_outcome E i) (\<lambda>x. answer (case x of Some y \<Rightarrow> Some y
                  | None \<Rightarrow> find (\<lambda>y. io_confirmationId y = bi_confirmation_id i) outs)))
                (listConfirmationBatchItems (bx_batchId X) d)) (\<lambda>finalItems.
        answer (Batch_confirmed \<lparr>ba_status = final, ba_items = finalItems, ba_degraded = degraded\<rparr>)) d)))"

definition finish_loop ::
  "batch_context \<Rightarrow> batch_world \<Rightarrow> BatchItemRow list \<Rightarrow> batch_loop leased \<Rightarrow> db \<Rightarrow> db \<times> (string, batch_response) result" where
  "finish_loop X W prior x =
     (case x of
        Lease_revoked \<Rightarrow> answer (Batch_rejected 409 ''installation_changed'')
      | Lease_aborted \<Rightarrow> answer (Batch_rejected 409 ''request_cancelled'')
      | Lease_unclaimed \<Rightarrow> answer (Batch_rejected 409 ''already_used'')
      | Lease_ran (Loop_rejected status code) \<Rightarrow> answer (Batch_rejected status code)
      | Lease_ran (Loop_stopped outs degraded) \<Rightarrow> finish_batch X W prior outs degraded True
      | Lease_ran (Loop_done outs degraded) \<Rightarrow> finish_batch X W prior outs degraded False)"

text \<open>Behind the checks of the stored batch: installation, authority, lease, claim and the members.\<close>

definition confirm_live_batch ::
  "(string \<Rightarrow> string) \<Rightarrow> service_deps \<Rightarrow> session_claims \<Rightarrow> batch_world \<Rightarrow> BatchRow \<Rightarrow> BatchItemRow list \<Rightarrow> string option list
   \<Rightarrow> coordinator \<Rightarrow> db \<Rightarrow> coordinator \<times> db \<times> (string, batch_response) result" where
  "confirm_live_batch sha256 deps claims W b rows nonces c d =
     (let w = bw_request W; start = nat (b_current_index b); pairs = drop start (zip rows nonces) in
      case check_members (rw_now w) (b_id b) pairs d of
        (d1, Inl e) \<Rightarrow> (c, d1, Inl e)
      | (d1, Inr (Some (status, code))) \<Rightarrow> (c, d1, Inr (Batch_rejected status code))
      | (d1, Inr None) \<Rightarrow>
          (case rw_installation w of
             None \<Rightarrow> (c, d1, Inr (Batch_rejected 503 ''role_verification_unavailable''))
           | Some i \<Rightarrow>
               if \<not> in_active i then (c, d1, Inr (Batch_rejected 503 ''role_verification_unavailable''))
               else case rw_authority w c d1 of
                 (c2, d2, Some (status, code)) \<Rightarrow> (c2, d2, Inr (Batch_rejected status code))
               | (c2, d2, None) \<Rightarrow>
                   let X = \<lparr>bx_sha256 = sha256, bx_deps = deps, bx_claims = claims, bx_installation = i, bx_batchId = b_id b,
                            bx_now = now (rw_now w)\<rparr>;
                       members = map (\<lambda>(n, item, nonce). (item, nonce, bw_member W n)) (List.enumerate start pairs) in
                   (case with_lease (uk_workspaceId claims) (in_generation i) w
                           (if b_status b = B_pending then markConfirmationBatchExecuting (rw_now w) (b_id b) else no_claim)
                           (confirm_members X (b_current_index b) members [] False) c2 d2 of
                      (c3, d3, Inl e) \<Rightarrow> (c3, d3, Inl e)
                    | (c3, d3, Inr x) \<Rightarrow>
                        (case finish_loop X W (take start rows) x d3 of (d4, r) \<Rightarrow> (c3, d4, r)))))"

definition confirmBatch ::
  "(string \<Rightarrow> string) \<Rightarrow> service_deps \<Rightarrow> session_claims \<Rightarrow> batch_world \<Rightarrow> string \<Rightarrow> batch_item_input list
   \<Rightarrow> coordinator \<Rightarrow> db \<Rightarrow> coordinator \<times> db \<times> (string, batch_response) result" where
  "confirmBatch sha256 deps claims W batchId body c d =
     (let w = bw_request W; t = now (rw_now w);
          reject = (\<lambda>status code d. (c, d, Inr (Batch_rejected status code))) in
      case getScopedConfirmationBatch batchId (uk_workspaceId claims) (uk_adminUserId claims) (uk_sessionId claims) d of
        None \<Rightarrow> reject 404 ''not_found'' d
      | Some b0 \<Rightarrow>
          (case recoverConfirmationBatch (rw_now w) batchId t d of
             Inl e \<Rightarrow> (c, d, Inl e)
           | Inr d1 \<Rightarrow>
               (case getConfirmationBatch batchId d1 of
                  None \<Rightarrow> (c, d1, Inl ''type_error'')
                | Some b \<Rightarrow>
                    let rows = listConfirmationBatchItems batchId d1 in
                    if map bn_confirmationId body \<noteq> map bi_confirmation_id rows then reject 400 ''batch_items_mismatch'' d1
                    else if computeOrderedTupleHash sha256 (tuple_of rows) \<noteq> b_ordered_tuple_hash b
                    then reject 409 ''batch_integrity_failed'' d1
                    else if (case b_expires_at b of None \<Rightarrow> True | Some e \<Rightarrow> e \<le> t)
                    then (case run_then (perform (updateConfirmationBatchStatus batchId B_expired None None None (Some t)))
                                 (\<lambda>u. settle_batch_run W) d1 of
                            (d2, Inl e) \<Rightarrow> (c, d2, Inl e)
                          | (d2, Inr u) \<Rightarrow> reject 400 ''expired'' d2)
                    else if ended_status (b_status b)
                    then (case replay_batch (rw_now w) (b_status b) rows [] d1 of (d2, r) \<Rightarrow> (c, d2, r))
                    else confirm_live_batch sha256 deps claims W b rows (map bn_nonce body) c d1)))"

section \<open>Cancel all\<close>

text \<open>
  The settlement of the assistant run cancels the members itself and says whether it did; a run that has settled
  already leaves the rows to the fallback.
\<close>

fun cancel_pending_members :: "env \<Rightarrow> BatchItemRow list \<Rightarrow> db \<Rightarrow> db \<times> (string, unit) result" where
  "cancel_pending_members E [] = answer ()"
| "cancel_pending_members E (i # is) =
     run_then (perform (getPendingConfirmation E (bi_confirmation_id i))) (\<lambda>found.
     run_then (if map_option p_status found = Some C_pending then perform (cancelConfirmation E (bi_confirmation_id i))
               else answer False) (\<lambda>b.
       cancel_pending_members E is))"

definition cancelBatch ::
  "session_claims \<Rightarrow> env \<Rightarrow> bool tx \<Rightarrow> string \<Rightarrow> db \<Rightarrow> db \<times> (string, (nat \<times> string) option) result" where
  "cancelBatch claims E settleRun batchId d =
     (case getScopedConfirmationBatch batchId (uk_workspaceId claims) (uk_adminUserId claims) (uk_sessionId claims) d of
        None \<Rightarrow> (d, Inr (Some (404, ''not_found'')))
      | Some b0 \<Rightarrow>
          run_then (perform settleRun) (\<lambda>settled.
            if settled then answer None
            else run_then (\<lambda>d1. cancel_pending_members E (listConfirmationBatchItems batchId d1) d1) (\<lambda>u d2.
              if map_option b_status (getConfirmationBatch batchId d2) = Some B_pending
              then run_then (perform (updateConfirmationBatchStatus batchId B_cancelled None None None (Some (now E))))
                     (\<lambda>b. answer None) d2
              else (d2, Inr None))) d)"

section \<open>Every step keeps the store well formed\<close>

text \<open>What is assumed of the world of a member: its write is made of store operations and leaves its claim open.\<close>

definition member_world_ok :: "member_call \<Rightarrow> bool" where
  "member_world_ok m \<longleftrightarrow> (\<forall>r. follows_store (cm_write (mc_call m) r))"

lemma settle_confirmed_good: "store_ok d \<Longrightarrow> settle_confirmed r v E d = Inr (d', ref) \<Longrightarrow> good_step d d'"
  by (simp add: settle_confirmed_def settleConfirmation_good)

lemma dispatchConfirmedPreview_follows:
  assumes "follows_store (cm_write m r)"
  shows "follows_store (dispatchConfirmedPreview claims g m r)"
proof (unfold follows_store_def, intro allI impI)
  fix d assume ok: "store_ok d"
  obtain d' y where e: "dispatchConfirmedPreview claims g m r d = (d', y)" by fastforce
  from e have "good_step d d'"
  proof (cases rule: dispatchConfirmedPreview_cases)
    case (settled d1 v E ref d2)
    from follows_storeD [OF assms ok settled(1)] have g1: "good_step d d1" .
    from good_step_trans [OF g1 settle_confirmed_good [OF good_step_ok [OF g1] settled(2)]] have g2: "good_step d d2" .
    from good_step_trans [OF g2 core_same_good [OF good_step_ok [OF g2] settled(3)]] show ?thesis .
  qed (use follows_storeD [OF assms ok] in blast)+
  with e show "good_step d (fst (dispatchConfirmedPreview claims g m r d))" by simp
qed

lemmas member_follows = follows_pure follows_run_then follows_perform

lemma record_member_follows: "follows_store (record_member X E index r x)"
  by (auto simp: record_member_def Let_def intro!: member_follows intro: getPendingConfirmation_good
      updateConfirmationBatchItemStatus_good advanceConfirmationBatchProgress_good cancelUndispatchedBatchItems_good
      updateConfirmationBatchStatus_good)

lemma dispatch_member_follows: "member_world_ok m \<Longrightarrow> follows_store (dispatch_member X m index r)"
  unfolding dispatch_member_def member_world_ok_def
  by (auto intro!: member_follows record_member_follows dispatchConfirmedPreview_follows
      intro: markConfirmationExecuting_good updateConfirmationBatchItemStatus_good)

lemma follows_cases: "(\<And>d. store_ok d \<Longrightarrow> \<exists>f. follows_store f \<and> g d = f d) \<Longrightarrow> follows_store g"
  unfolding follows_store_def by metis

lemma confirm_live_member_follows:
  assumes "member_world_ok m"
  shows "follows_store (confirm_live_member X m index r nonce)"
proof (rule follows_cases)
  fix d
  have e: "follows_store (run_then (perform (expireConfirmation (mc_now m) (p_id r))) (\<lambda>b. answer (Member_rejected s c)))" for s c
    by (auto intro!: member_follows intro: expireConfirmation_good)
  note f = follows_pure e dispatch_member_follows [OF assms]
  show "\<exists>f. follows_store f \<and> confirm_live_member X m index r nonce d = f d"
    unfolding confirm_live_member_def
    by (auto split: sum.split gated.split option.split
        intro: f exI [of _ "answer (Member_rejected _ _)"] exI [of _ "throw _"])
qed

lemma confirm_member_follows:
  assumes "member_world_ok m"
  shows "follows_store (confirm_member X m index item nonce)"
proof -
  have "follows_store (\<lambda>d. (d, Inr (Member_replayed (terminalItemOutcome item r d))))" for r
    by (simp add: follows_store_def good_step_refl)
  then show ?thesis unfolding confirm_member_def
    by (auto intro!: member_follows confirm_live_member_follows [OF assms] getPendingConfirmation_good
        split: option.split)
qed

lemma confirm_members_follows:
  "list_all (\<lambda>(item, nonce, m). member_world_ok m) ms \<Longrightarrow> store_ok d \<Longrightarrow> good_step d (fst (confirm_members X n ms outs degraded d))"
proof (induction X n ms outs degraded d rule: confirm_members.induct)
  case (2 X index item nonce m rest outs degraded d)
  obtain d1 y where e: "confirm_member X m index item nonce d = (d1, y)" by fastforce
  from 2(3,4) e have g: "good_step d d1" by (auto dest: follows_storeD [OF confirm_member_follows])
  show ?case
  proof (cases y)
    case (Inr z)
    have "good_step d1 (fst (confirm_members X (index + 1) rest o1 x1 d1))" if "z = Member_replayed again" "o1 = (case again of None \<Rightarrow> outs | Some x \<Rightarrow> outs @ [x])"
      "x1 = degraded" for again o1 x1
      using 2(1) [OF e [symmetric] Inr that(1)] 2(3) good_step_ok [OF g] that by simp
    moreover have "good_step d1 (fst (confirm_members X (index + 1) rest (outs @ [x]) (degraded \<or> lost) d1))"
      if "z = Member_done x lost" "io_status x \<noteq> R_outcome_unknown" for x lost
      using 2(2) [OF e [symmetric] Inr that] 2(3) good_step_ok [OF g] by simp
    ultimately show ?thesis using e Inr g good_step_trans [OF g] by (cases z) auto
  qed (use e g in simp)
qed (simp add: good_step_refl)

section \<open>The members that ran\<close>

text \<open>A stretch of the batch that ran to its end: each member was replayed, or dispatched with a known outcome.\<close>

inductive members_done :: "batch_context \<Rightarrow> int \<Rightarrow> member list \<Rightarrow> db \<Rightarrow> item_outcome list \<Rightarrow> db \<Rightarrow> bool" for X where
  no_member: "members_done X n [] d [] d"
| replayed_member: "confirm_member X m n item nonce d = (d1, Inr (Member_replayed again)) \<Longrightarrow> members_done X (n + 1) ms d1 outs d'
    \<Longrightarrow> members_done X n ((item, nonce, m) # ms) d ((case again of None \<Rightarrow> [] | Some x \<Rightarrow> [x]) @ outs) d'"
| dispatched_member: "confirm_member X m n item nonce d = (d1, Inr (Member_done x lost)) \<Longrightarrow> io_status x \<noteq> R_outcome_unknown
    \<Longrightarrow> members_done X (n + 1) ms d1 outs d' \<Longrightarrow> members_done X n ((item, nonce, m) # ms) d (x # outs) d'"

text \<open>
  A batch that was not rejected ran all its members, or ran those before the first unknown outcome and ended there.
\<close>

lemma confirm_members_cases:
  assumes "confirm_members X n ms acc degraded d = (d', Inr y)"
  shows "case y of
      Loop_done outs lost \<Rightarrow> \<exists>outs1. outs = acc @ outs1 \<and> members_done X n ms d outs1 d'
    | Loop_stopped outs lost \<Rightarrow> \<exists>ms1 item nonce m ms2 outs1 d1 x l. ms = ms1 @ (item, nonce, m) # ms2 \<and> outs = acc @ outs1 @ [x]
        \<and> members_done X n ms1 d outs1 d1 \<and> confirm_member X m (n + int (length ms1)) item nonce d1 = (d', Inr (Member_done x l))
        \<and> io_status x = R_outcome_unknown
    | Loop_rejected status code \<Rightarrow> True"
  using assms
proof (induction X n ms acc degraded d rule: confirm_members.induct)
  case (1 X index outs degraded d)
  then show ?case by (auto intro: no_member)
next
  case (2 X index item nonce m rest outs degraded d)
  obtain d1 v where e: "confirm_member X m index item nonce d = (d1, v)" by fastforce
  with 2(3) obtain z where z: "v = Inr z" by (cases v) auto
  have next_member: "?case"
    if step: "\<And>os o1 d2. members_done X (index + 1) os d1 o1 d2 \<Longrightarrow> members_done X index ((item, nonce, m) # os) d (ys @ o1) d2"
      and rest: "case y of
          Loop_done fs lost \<Rightarrow> \<exists>outs1. fs = (outs @ ys) @ outs1 \<and> members_done X (index + 1) rest d1 outs1 d'
        | Loop_stopped fs lost \<Rightarrow> \<exists>ms1 item' nonce' m' ms2 outs1 d2 x l. rest = ms1 @ (item', nonce', m') # ms2 \<and> fs = (outs @ ys) @ outs1 @ [x]
            \<and> members_done X (index + 1) ms1 d1 outs1 d2
            \<and> confirm_member X m' (index + 1 + int (length ms1)) item' nonce' d2 = (d', Inr (Member_done x l)) \<and> io_status x = R_outcome_unknown
        | Loop_rejected status code \<Rightarrow> True" for ys
  proof (cases y)
    case (Loop_done fs lost)
    with rest step show ?thesis by auto
  next
    case (Loop_stopped fs lost)
    with rest obtain ms1 item' nonce' m' ms2 outs1 d2 x l where r: "rest = ms1 @ (item', nonce', m') # ms2" "fs = (outs @ ys) @ outs1 @ [x]"
      "members_done X (index + 1) ms1 d1 outs1 d2"
      "confirm_member X m' (index + 1 + int (length ms1)) item' nonce' d2 = (d', Inr (Member_done x l))" "io_status x = R_outcome_unknown" by auto
    show ?thesis unfolding Loop_stopped batch_loop.case
      by (rule exI [of _ "(item, nonce, m) # ms1"], intro exI conjI, simp add: r(1), simp add: r(2), rule step [OF r(3)])
        (use r in \<open>simp_all add: algebra_simps\<close>)
  qed simp
  show ?case
  proof (cases z)
    case (Member_rejected status code)
    with 2(3) e z show ?thesis by auto
  next
    case (Member_replayed again)
    let ?ys = "case again of None \<Rightarrow> [] | Some x \<Rightarrow> [x]"
    have acc: "(case again of None \<Rightarrow> outs | Some x \<Rightarrow> outs @ [x]) = outs @ ?ys" by (cases again) simp_all
    with 2(3) e z Member_replayed have "confirm_members X (index + 1) rest (outs @ ?ys) degraded d1 = (d', Inr y)" by simp
    note r = 2(1) [OF e [symmetric] z Member_replayed, unfolded acc, OF this]
    show ?thesis by (rule next_member [OF _ r]) (rule replayed_member [OF e [unfolded z Member_replayed]])
  next
    case (Member_done x lost)
    show ?thesis
    proof (cases "io_status x = R_outcome_unknown")
      case True
      with 2(3) e z Member_done have "y = Loop_stopped (outs @ [x]) (degraded \<or> lost)" "d' = d1" by auto
      with e z Member_done True show ?thesis
        by (auto intro!: exI [of _ "[]"] exI [of _ d] exI [of _ lost] no_member)
    next
      case False
      with 2(3) e z Member_done have "confirm_members X (index + 1) rest (outs @ [x]) (degraded \<or> lost) d1 = (d', Inr y)" by auto
      note r = 2(2) [OF e [symmetric] z Member_done False this]
      show ?thesis by (rule next_member [OF _ r]) (simp add: dispatched_member [OF e [unfolded z Member_done] False])
    qed
  qed
qed

section \<open>What a dispatched member went through\<close>

lemma policy_refusal_None:
  "policy_refusal policy operation = Inr None \<longleftrightarrow>
     (\<exists>b. json_includes ''permission_change'' (getp ''risks'' operation) = Inr b
        \<and> (b \<or> canWrite policy (string_or [] (getp ''featureGroup'' operation))))"
  by (cases "json_includes ''permission_change'' (getp ''risks'' operation)") (auto simp: policy_refusal_def)

text \<open>A member that is not refused has passed every test of a single confirmation.\<close>

lemma member_refusal_None:
  "member_refusal i policy r d = Inr None \<longleftrightarrow>
     storedPlannedOperation (p_operation r) \<and> own_generation r \<and> current_generation i r
     \<and> (\<exists>run. getOperationRun (p_operationId r) d = Some run \<and> preparedAssistantPreviewMatchesConfirmation run r)
     \<and> (\<exists>b. json_includes ''permission_change'' (getp ''risks'' (p_operation r)) = Inr b
          \<and> (b \<or> canWrite policy (string_or [] (getp ''featureGroup'' (p_operation r)))))"
  using operation_refusal_None [of r d]
  by (cases "operation_refusal r d") (auto simp: member_refusal_def policy_refusal_None)

lemma dispatch_member_done:
  assumes "dispatch_member X m index r d = (d', Inr (Member_done o' lost))"
  obtains d1 d2 d3 x where "markConfirmationExecuting (cm_claim (mc_call m)) (p_id r) d = Inr (d1, True)" "core_same d1 d2"
    "dispatchConfirmedPreview (bx_claims X) (in_generation (bx_installation X)) (mc_call m) r d2 = (d3, Inr x)"
    "record_member X (mc_after m) index r x d3 = (d', Inr (Member_done o' lost))" "o' = member_outcome r x" "lost = (dc_resultRef x = None)"
proof -
  from assms obtain d1 b d2 d3 x where m: "markConfirmationExecuting (cm_claim (mc_call m)) (p_id r) d = Inr (d1, True)"
    "updateConfirmationBatchItemStatus (bx_batchId X) index I_executing None (Some (bx_now X)) None d1 = Inr (d2, b)"
    "dispatchConfirmedPreview (bx_claims X) (in_generation (bx_installation X)) (mc_call m) r d2 = (d3, Inr x)"
    "record_member X (mc_after m) index r x d3 = (d', Inr (Member_done o' lost))"
    by (auto simp: dispatch_member_def run_then_Inr split: if_splits)
  moreover have "core_same d1 d2"
    using m(2) by (auto simp: updateConfirmationBatchItemStatus_def dest: update_items_core)
  moreover have "o' = member_outcome r x" "lost = (dc_resultRef x = None)"
    using m(4) by (auto simp: record_member_def Let_def run_then_Inr split: if_splits)
  ultimately show thesis using that by blast
qed

lemma confirm_member_done:
  assumes "confirm_member X m index item nonce d = (d', Inr (Member_done o' lost))"
  obtains r d1 r' where "getPendingConfirmation (mc_read m) (bi_confirmation_id item) d = Inr (d1, Some r)" "bi_status item = I_pending"
    "isV2AssistantBatchConfirmation r"
    "validate_confirmation (bx_sha256 X) (bx_deps X) (bx_claims X) (now (mc_now m)) r (case nonce of None \<Rightarrow> ''undefined'' | Some n \<Rightarrow> n)
       = Inr (Allowed r')"
    "member_refusal (bx_installation X) (mc_policy m) r d1 = Inr None"
    "dispatch_member X m index r d1 = (d', Inr (Member_done o' lost))"
proof -
  from assms obtain r d1 where r: "getPendingConfirmation (mc_read m) (bi_confirmation_id item) d = Inr (d1, Some r)"
    "bi_status item = I_pending" "confirm_live_member X m index r nonce d1 = (d', Inr (Member_done o' lost))"
    by (auto simp: confirm_member_def run_then_Inr split: option.splits if_splits)
  from r(3) have v: "isV2AssistantBatchConfirmation r"
    by (auto simp: confirm_live_member_def split: if_splits)
  with r(3) obtain r' where g: "validate_confirmation (bx_sha256 X) (bx_deps X) (bx_claims X) (now (mc_now m)) r
      (case nonce of None \<Rightarrow> ''undefined'' | Some n \<Rightarrow> n) = Inr (Allowed r')"
    by (auto simp: confirm_live_member_def run_then_Inr split: sum.splits gated.splits if_splits)
  with r(3) v have "member_refusal (bx_installation X) (mc_policy m) r d1 = Inr None"
    "dispatch_member X m index r d1 = (d', Inr (Member_done o' lost))"
    by (auto simp: confirm_live_member_def split: sum.splits option.splits)
  with r(1,2) v g show thesis by (rule that)
qed

section \<open>What an unknown outcome leaves of the batch\<close>

lemma update_confirmation_row_items: "update_confirmation_row E f k d = Inr d' \<Longrightarrow> items d' = items d"
  by (auto simp: update_confirmation_row_def Let_def pre_dispatch_terminal_def pre_dispatch_insert_def pre_dispatch_link_def
      pre_dispatch_settle_run_def insert_result_def fresh_id_def update_run_status_def update_run_plain_def settlement_scrubs_operation_def
      put_confirmation_def split: option.splits if_splits)

lemma update_confirmation_status_items:
  assumes "update_confirmation_status E P f d = Inr (d', n)"
  shows "items d' = items d"
proof -
  have "fold_result (update_confirmation_row E f) ks d = Inr d' \<Longrightarrow> items d' = items d" for ks d
    by (induction ks arbitrary: d) (auto dest: update_confirmation_row_items)
  with assms show ?thesis by (auto simp: update_confirmation_status_def Let_def)
qed

definition live_member :: "string \<Rightarrow> int \<Rightarrow> BatchItemRow \<Rightarrow> bool" where
  "live_member k n i \<longleftrightarrow> bi_batch_id i = k \<and> n \<le> bi_item_index i \<and> bi_status i = I_pending"

definition live_indices :: "string \<Rightarrow> int \<Rightarrow> db \<Rightarrow> int set" where
  "live_indices k n d = bi_item_index ` {i \<in> set (items d). live_member k n i}"

lemma cancel_item_rows:
  assumes "cancel_item t k ix d = Inr d'"
  shows "items d' = upd_where (\<lambda>i. bi_batch_id i = k \<and> bi_item_index i = ix \<and> bi_status i = I_pending)
      (\<lambda>i. i\<lparr>bi_status := I_cancelled, bi_completed_at := Some t\<rparr>) (items d)"
  using assms by (simp add: cancel_item_def update_items_def Let_def split: if_splits) auto

lemma cancel_item_live:
  assumes "cancel_item t k ix d = Inr d'"
  shows "live_indices k n d' \<subseteq> live_indices k n d - {ix}"
proof
  fix x assume "x \<in> live_indices k n d'"
  then obtain i where i: "i \<in> set (items d')" "live_member k n i" "x = bi_item_index i"
    by (auto simp: live_indices_def)
  from i(1) obtain j where j: "j \<in> set (items d)"
    "i = (if bi_batch_id j = k \<and> bi_item_index j = ix \<and> bi_status j = I_pending
          then j\<lparr>bi_status := I_cancelled, bi_completed_at := Some t\<rparr> else j)"
    unfolding cancel_item_rows [OF assms] upd_where_def by auto
  with i(2) have "i = j" "bi_item_index i \<noteq> ix" by (auto simp: live_member_def split: if_splits)
  with i j(1) show "x \<in> live_indices k n d - {ix}" by (auto simp: live_indices_def)
qed

lemma cancel_undispatched_item_live:
  assumes "cancel_undispatched_item E k t item d = Inr d'"
  shows "live_indices k n d' \<subseteq> live_indices k n d - {bi_item_index item}"
proof -
  from assms obtain d1 d2 where a: "cancel_item t k (bi_item_index item) d = Inr d1"
    and c: "cancel_preview E t (bi_confirmation_id item) d1 = Inr d2" and r: "items d' = items d2"
    by (auto simp: cancel_undispatched_item_def update_run_status_def)
  have "items d2 = items d1" using c by (auto simp: cancel_preview_def dest: update_confirmation_status_items)
  with r have "live_indices k n d' = live_indices k n d1" by (simp add: live_indices_def)
  with cancel_item_live [OF a, of n] show ?thesis by simp
qed

lemma cancel_items_live:
  "fold_result (cancel_undispatched_item E k t) rs d = Inr d' \<Longrightarrow> live_indices k n d' \<subseteq> live_indices k n d - bi_item_index ` set rs"
proof (induction rs arbitrary: d)
  case (Cons r rs)
  then obtain d1 where d1: "cancel_undispatched_item E k t r d = Inr d1" "fold_result (cancel_undispatched_item E k t) rs d1 = Inr d'"
    by (auto split: sum.splits)
  show ?case using Cons.IH [OF d1(2)] cancel_undispatched_item_live [OF d1(1), of n]
    unfolding list.set image_insert by blast
qed simp

lemma cancelUndispatchedBatchItems_live:
  assumes "cancelUndispatchedBatchItems E k n t d = Inr (d', c)"
  shows "\<forall>i\<in>set (items d'). \<not> live_member k n i"
proof -
  let ?rows = "sort_key bi_item_index (filter (\<lambda>i. bi_batch_id i = k \<and> n \<le> bi_item_index i \<and> bi_status i = I_pending) (items d))"
  from assms have "fold_result (cancel_undispatched_item E k t) ?rows d = Inr d'"
    by (auto simp: cancelUndispatchedBatchItems_def Let_def)
  from cancel_items_live [OF this] have "live_indices k n d' \<subseteq> live_indices k n d - bi_item_index ` set ?rows" .
  moreover have "live_indices k n d = bi_item_index ` set ?rows" by (simp add: live_indices_def live_member_def)
  ultimately have "live_indices k n d' = {}" by blast
  then show ?thesis by (simp add: live_indices_def)
qed

lemma updateConfirmationBatchStatus_effect:
  assumes "updateConfirmationBatchStatus k status None None None completed d = Inr (d', b)"
  shows "items d' = items d \<and> (\<forall>x. sel b_id k (batches d') = Some x \<longrightarrow> b_status x = status)
    \<and> (b = (length (filter (\<lambda>x. b_id x = k) (batches d)) = 1))"
proof -
  let ?f = "\<lambda>x. x\<lparr>b_status := status, b_action_result_id := coalesce None (b_action_result_id x),
      b_started_at := coalesce None (b_started_at x), b_completed_at := coalesce completed (b_completed_at x)\<rparr>"
  from assms have d': "batches d' = upd_where (\<lambda>x. b_id x = k) ?f (batches d)" "items d' = items d"
    and b: "b = (length (filter (\<lambda>x. b_id x = k) (batches d)) = 1)"
    by (auto simp: updateConfirmationBatchStatus_def update_batches_def Let_def split: if_splits)
  have "b_status x = status" if "sel b_id k (batches d') = Some x" for x
  proof -
    from that obtain y where y: "sel b_id k (batches d) = Some y" "x = (if b_id y = k then ?f y else y)"
      unfolding d' by (subst (asm) sel_upd_where) auto
    with sel_SomeD [OF y(1)] show ?thesis by simp
  qed
  with d'(2) b show ?thesis by blast
qed

text \<open>After an unknown outcome no later member is live and the batch says so.\<close>

lemma member_unknown_effect:
  assumes "confirm_member X m index item nonce d = (d', Inr (Member_done x lost))" "io_status x = R_outcome_unknown"
  shows "(\<forall>i\<in>set (items d'). \<not> live_member (bx_batchId X) (index + 1) i)
    \<and> (\<forall>b. sel b_id (bx_batchId X) (batches d') = Some b \<longrightarrow> b_status b = B_outcome_unknown)"
proof -
  obtain r d1 where "dispatch_member X m index r d1 = (d', Inr (Member_done x lost))"
    by (rule confirm_member_done [OF assms(1)])
  then obtain d3 y where y: "record_member X (mc_after m) index r y d3 = (d', Inr (Member_done x lost))" "x = member_outcome r y"
    by (rule dispatch_member_done)
  with assms(2) have "dc_status y = R_outcome_unknown" by (simp add: member_outcome_def)
  with y(1) obtain da db n b where "cancelUndispatchedBatchItems (mc_after m) (bx_batchId X) (index + 1) (bx_now X) da = Inr (db, n)"
    "updateConfirmationBatchStatus (bx_batchId X) B_outcome_unknown None None None (Some (bx_now X)) db = Inr (d', b)"
    by (auto simp: record_member_def Let_def run_then_Inr)
  with cancelUndispatchedBatchItems_live updateConfirmationBatchStatus_effect show ?thesis by metis
qed

section \<open>What cancelling a batch leaves\<close>

lemma cancel_pending_members_follows: "follows_store (cancel_pending_members E is)"
  by (induction "is") (auto simp del: step_simps intro!: member_follows intro: getPendingConfirmation_good cancelConfirmation_good)

text \<open>The fallback of \<open>cancelBatch\<close> leaves no batch pending.\<close>

lemma cancelBatch_not_pending:
  assumes s: "settleRun d = Inr (d1, False)" and "cancelBatch claims E settleRun k d = (d', Inr None)"
    and b: "getConfirmationBatch k d' = Some b"
  shows "b_status b \<noteq> B_pending"
proof -
  let ?close = "\<lambda>d2. if map_option b_status (getConfirmationBatch k d2) = Some B_pending
      then run_then (perform (updateConfirmationBatchStatus k B_cancelled None None None (Some (now E)))) (\<lambda>b. answer None) d2
      else (d2, Inr (None :: (nat \<times> string) option))"
  from assms(2) have "run_then (\<lambda>d1. cancel_pending_members E (listConfirmationBatchItems k d1) d1) (\<lambda>u. ?close) d1 = (d', Inr None)"
    by (simp add: cancelBatch_def run_then_def perform_def s split: option.splits)
  then obtain d2 where r: "?close d2 = (d', Inr None)" unfolding run_then_Inr by blast
  show ?thesis
  proof (cases "map_option b_status (getConfirmationBatch k d2) = Some B_pending")
    case True
    with r obtain x where "updateConfirmationBatchStatus k B_cancelled None None None (Some (now E)) d2 = Inr (d', x)"
      by (auto simp: run_then_Inr)
    from updateConfirmationBatchStatus_effect [OF this] b show ?thesis by (auto simp: getConfirmationBatch_def)
  next
    case False
    have "d' = d2" using r [unfolded if_not_P [OF False]] by simp
    with False b show ?thesis by simp
  qed
qed

section \<open>The repetition of a batch that has ended\<close>

text \<open>
  A member that was cancelled has no result, so a batch that an unknown outcome ended cannot be replayed; and the
  expiry is looked at first, so a repetition after it turns whatever was recorded into an expiry.
\<close>

lemma cancelled_member_blocks_replay:
  assumes "getPendingConfirmation E (bi_confirmation_id i) d = Inr (d', Some r)" "bi_action_result_id i = None"
  shows "replay_batch E status (i # is) outs d = (d', Inr (Batch_rejected 409 ''batch_incomplete''))"
  using assms by (simp add: run_then_def perform_def terminalItemOutcome_def)

lemma expiry_precedes_replay:
  assumes "getScopedConfirmationBatch k (uk_workspaceId claims) (uk_adminUserId claims) (uk_sessionId claims) d = Some b0"
    and "recoverConfirmationBatch (rw_now (bw_request W)) k (now (rw_now (bw_request W))) d = Inr d1"
    and "getConfirmationBatch k d1 = Some b"
    and "map bn_confirmationId body = map bi_confirmation_id (listConfirmationBatchItems k d1)"
    and "computeOrderedTupleHash sha256 (tuple_of (listConfirmationBatchItems k d1)) = b_ordered_tuple_hash b"
    and "b_expires_at b = Some e" "e \<le> now (rw_now (bw_request W))"
    and u: "updateConfirmationBatchStatus k B_expired None None None (Some (now (rw_now (bw_request W)))) d1 = Inr (d2, x)"
  shows "confirmBatch sha256 deps claims W k body c d = (c, fst (settle_batch_run W d2), Inr (Batch_rejected 400 ''expired''))
    \<and> (\<forall>b'. sel b_id k (batches d2) = Some b' \<longrightarrow> b_status b' = B_expired)"
  using assms updateConfirmationBatchStatus_effect [OF u]
  by (simp add: confirmBatch_def Let_def run_then_def perform_def settle_batch_run_def split: sum.split)

end
