(* ===== verification/StoreSystem.thy ===== *)
theory StoreSystem
  imports Recovery Idempotency
begin

text \<open>
  The store as a transition system: one step is one call of an operation of the confirmation,
  journal, batch, ledger or recovery modules that committed. Requests interleave between calls,
  so the executions of the server are the sequences of these steps. Every step keeps the
  invariant and moves every row along its lifecycle.
\<close>

section \<open>The steps\<close>

inductive confirmation_step :: "db \<Rightarrow> db \<Rightarrow> bool" where
  save: "savePendingConfirmation sha256 r d = Inr d' \<Longrightarrow> confirmation_step d d'"
| get: "getPendingConfirmation E k d = Inr (d', x) \<Longrightarrow> confirmation_step d d'"
| list: "listPendingConfirmations E session t d = Inr (d', xs) \<Longrightarrow> confirmation_step d d'"
| count: "countPendingConfirmations E session t d = Inr (d', n) \<Longrightarrow> confirmation_step d d'"
| nonce: "updateConfirmationNonceHash k h d = Inr (d', b) \<Longrightarrow> confirmation_step d d'"
| claim: "markConfirmationExecuting E k d = Inr (d', b) \<Longrightarrow> confirmation_step d d'"
| cancel: "cancelConfirmation E k d = Inr (d', b) \<Longrightarrow> confirmation_step d d'"
| expire: "expireConfirmation E k d = Inr (d', b) \<Longrightarrow> confirmation_step d d'"
| bind_key: "bindConfirmationIdempotencyKey k key d = Inr d' \<Longrightarrow> confirmation_step d d'"
| release_key: "confirmation_step d (releaseConfirmationIdempotencyKey k key d)"
| settle: "settleConfirmation E k status actionName result d = Inr (d', ref) \<Longrightarrow> confirmation_step d d'"

text \<open>
  \<open>settleOperationRun\<close> writes a status without a guard of its own; the step asks of its caller
  that the run may still move there, as the callers ensure by cancelling the preview first.
\<close>

inductive journal_step :: "db \<Rightarrow> db \<Rightarrow> bool" where
  prepare: "prepareOperationRun E run d = Inr (d', k) \<Longrightarrow> journal_step d d'"
| execute: "journal_step d (fst (markOperationExecuting E k d))"
| settle_run: "\<forall>r\<in>set (runs d). o_id r = k \<longrightarrow> run_reach (o_status r) (run_status_of status) \<Longrightarrow>
    journal_step d (settleOperationRun E k status aid d)"
| settle_result: "settleOperationResult E k status result d = Inr (d', ref) \<Longrightarrow> journal_step d d'"
| record_result: "recordActionResult E input d = Inr (d', ref) \<Longrightarrow> journal_step d d'"
| prepare_step: "prepareOperationStep E stp d = Inr (d', k) \<Longrightarrow> journal_step d d'"
| execute_step: "journal_step d (fst (markOperationStepExecuting E k oid d))"
| dispatch: "journal_step d (fst (markOperationStepDispatched E k oid d))"
| cancel_step: "journal_step d (fst (cancelOperationStepBeforeDispatch E k v oid d))"
| settle_step: "settleOperationStep E k s detail oid d = Inr d' \<Longrightarrow> journal_step d d'"
| settle_degraded: "settleOperationStepDegraded E k s x v oid d = Inr d' \<Longrightarrow> journal_step d d'"
| reconcile_step: "settleReconciledStep E k success detail oid d = Inr d' \<Longrightarrow> journal_step d d'"
| record_reconciliation: "recordOperationReconciliation E k stepId result b d = Inr d' \<Longrightarrow> journal_step d d'"
| prepare_compensation: "prepareCompensationStep E stp d = Inr (d', k) \<Longrightarrow> journal_step d d'"
| compensate: "markOperationStepCompensating E k oid d = Inr (d', b) \<Longrightarrow> journal_step d d'"
| settle_compensation: "settleCompensationStep E k s detail oid d = Inr d' \<Longrightarrow> journal_step d d'"
| settle_compensation_degraded: "settleCompensationStepDegraded E k s x v oid d = Inr d' \<Longrightarrow> journal_step d d'"
| reconcile_startup: "settleStartupReconciliation sha256 E k stepId result d = Inr (d', ref) \<Longrightarrow> journal_step d d'"

inductive batch_step :: "db \<Rightarrow> db \<Rightarrow> bool" where
  create: "createConfirmationBatch sha256 E batch d = Inr (d', b) \<Longrightarrow> batch_step d d'"
| insert: "insertConfirmationBatch sha256 E batch d = Inr (d', b) \<Longrightarrow> batch_step d d'"
| status: "updateConfirmationBatchStatus k bs i aid st ct d = Inr (d', b') \<Longrightarrow> batch_step d d'"
| item_status: "updateConfirmationBatchItemStatus k j istat aid st ct d = Inr (d', b') \<Longrightarrow> batch_step d d'"
| claim_batch: "markConfirmationBatchExecuting E k d = Inr (d', b') \<Longrightarrow> batch_step d d'"
| advance: "advanceConfirmationBatchProgress k j d = Inr (d', b') \<Longrightarrow> batch_step d d'"
| cancel_rest: "cancelUndispatchedBatchItems E k j t d = Inr (d', n) \<Longrightarrow> batch_step d d'"
| recover_batch: "recoverConfirmationBatch E k t d = Inr d' \<Longrightarrow> batch_step d d'"

inductive ledger_step :: "db \<Rightarrow> db \<Rightarrow> bool" where
  record_key: "recordIdempotency key ws admin ref t d = Inr d' \<Longrightarrow> ledger_step d d'"
| claim_key: "ledger_step d (fst (claimIdempotency key ws admin t u v d))"
| fill: "fillIdempotency key ws admin ref t d = Inr d' \<Longrightarrow> ledger_step d d'"
| release: "ledger_step d (releaseIdempotency key ws admin d)"
| touch: "ledger_step d (touchIdempotencyClaim key ws admin t d)"

inductive store_step :: "db \<Rightarrow> db \<Rightarrow> bool" where
  of_confirmation: "confirmation_step d d' \<Longrightarrow> store_step d d'"
| of_journal: "journal_step d d' \<Longrightarrow> store_step d d'"
| of_batch: "batch_step d d' \<Longrightarrow> store_step d d'"
| of_ledger: "ledger_step d d' \<Longrightarrow> store_step d d'"
| recovery: "recoverOrphanedRuns E d = Inr (d', rep) \<Longrightarrow> store_step d d'"

inductive_cases confirmation_stepE: "confirmation_step d d'"
inductive_cases journal_stepE: "journal_step d d'"
inductive_cases batch_stepE: "batch_step d d'"
inductive_cases ledger_stepE: "ledger_step d d'"
inductive_cases store_stepE: "store_step d d'"

section \<open>Every step is good\<close>

lemma settleOperationRun_good:
  assumes ok: "store_ok d"
    and g: "\<forall>r\<in>set (runs d). o_id r = k \<longrightarrow> run_reach (o_status r) (run_status_of status)"
  shows "good_step d (settleOperationRun E k status aid d)"
  unfolding settleOperationRun_def
  by (rule update_run_status_good [OF ok]) (use g in \<open>auto simp: run_move_def\<close>)

lemma confirmation_step_good: "confirmation_step d d' \<Longrightarrow> store_ok d \<Longrightarrow> good_step d d'"
  by (erule confirmation_stepE) (auto intro: step_invariants)

lemma journal_step_good: "journal_step d d' \<Longrightarrow> store_ok d \<Longrightarrow> good_step d d'"
  by (erule journal_stepE) (auto intro: step_invariants settleOperationRun_good)

lemma batch_step_good: "batch_step d d' \<Longrightarrow> store_ok d \<Longrightarrow> good_step d d'"
  by (erule batch_stepE) (auto intro: step_invariants)

lemma ledger_step_core: "ledger_step d d' \<Longrightarrow> core_same d d'"
  by (erule ledger_stepE)
    (auto simp: recordIdempotency_def claimIdempotency_def fillIdempotency_def releaseIdempotency_def
      touchIdempotencyClaim_def delete_ledger_def core_same_def Let_def
      split: if_splits option.splits dest!: update_ledger_core)

lemma store_step_good: "store_step d d' \<Longrightarrow> store_ok d \<Longrightarrow> good_step d d'"
  by (erule store_stepE)
    (auto intro: confirmation_step_good journal_step_good batch_step_good core_same_good
      dest: ledger_step_core recoverOrphanedRuns_settles(1))

section \<open>Executions\<close>

definition fresh_store :: "db \<Rightarrow> bool" where
  "fresh_store d \<longleftrightarrow>
     confirmations d = [] \<and> runs d = [] \<and> steps d = [] \<and> results d = []"

lemma fresh_store_ok: "fresh_store d \<Longrightarrow> store_ok d"
  by (simp add: fresh_store_def store_ok_def owned_operations_def)

interpretation store: step_system fresh_store store_step store_ok
  by unfold_locales (auto intro: fresh_store_ok dest: store_step_good simp: good_step_def)

lemma execution_good:
  "store_step\<^sup>*\<^sup>* d d' \<Longrightarrow> store_ok d \<Longrightarrow> good_step\<^sup>*\<^sup>* d d'"
proof (induction rule: rtranclp_induct)
  case base
  then show ?case by simp
next
  case (step e f)
  have "store_ok e" by (rule store.steps_inv [OF step.hyps(1) step.prems])
  with step show ?case by (meson store_step_good rtranclp.rtrancl_into_rtrancl)
qed

lemma execution_follows:
  assumes "store_step\<^sup>*\<^sup>* d d'" "store_ok d"
  shows "good_step d d'"
  using execution_good [OF assms] assms(2)
proof (induction rule: rtranclp_induct)
  case base
  then show ?case by (rule good_step_refl)
next
  case (step e f)
  then show ?case by (meson good_step_trans)
qed

end
