(* ===== verification/Scenario.thy ===== *)
theory Scenario
  imports StoreSystem "HOL-Library.Code_Target_Nat"
begin

text \<open>
  One confirmed action followed through the store, evaluated by the kernel: the operation is
  prepared, its preview saved, claimed by a confirm, its single step prepared, queued and
  dispatched, and the process then restarts. The states serve as the concrete inputs at which
  the properties of the development are instantiated.
\<close>

section \<open>The states\<close>

definition scenario_env :: "int \<Rightarrow> env" where
  "scenario_env t = \<lparr>now = t, uuid = (\<lambda>n. replicate (Suc n) (CHR ''u''))\<rparr>"

definition blank_db :: db where
  "blank_db = \<lparr>sessions = [''s''], confirmations = [], runs = [], steps = [], results = [], ledger = [],
     batches = [], items = [], undos = [], turns = [], assistant_runs = [], run_events = [], entropy = 0\<rparr>"

definition scenario_plan :: jsv where
  "scenario_plan =
     JObj [(''mode'', JStr ''curated''), (''maxHostCalls'', JNum 3),
           (''steps'', JArr
              [JObj [(''id'', JStr ''create''), (''kind'', JStr ''primary''),
                     (''reconciliationStrategy'', JStr ''create'')],
               JObj [(''id'', JStr ''link''), (''kind'', JStr ''primary'')],
               JObj [(''id'', JStr ''remove''), (''kind'', JStr ''compensation'')]])]"

definition scenario_operation :: jsv where
  "scenario_operation =
     JObj [(''operationId'', JStr ''op''), (''actionName'', JStr ''create_tag''), (''mutationPlan'', scenario_plan)]"

definition scenario_run :: PrepareOperationRunInput where
  "scenario_run =
     \<lparr>pi_id = Some ''op'', pi_requestId = None, pi_confirmationId = Some ''c'', pi_sessionId = ''s'',
      pi_workspaceId = ''w'', pi_adminUserId = ''a'', pi_actionName = ''create_tag'',
      pi_actionFingerprint = ''f'', pi_catalogHash = ''h'', pi_operationHash = (case hashOperation (\<lambda>t. t) scenario_operation of Inr h \<Rightarrow> h | Inl e \<Rightarrow> []),
      pi_operation = scenario_operation, pi_mutationPlan = scenario_plan, pi_capabilityId = None,
      pi_capabilityHash = None, pi_discriminator = None\<rparr>"

definition after :: "(string, db \<times> 'a) result \<Rightarrow> db" where
  "after r = (case r of Inr (d, x) \<Rightarrow> d | Inl e \<Rightarrow> blank_db)"

definition settled :: "(string, db) result \<Rightarrow> db" where
  "settled r = (case r of Inr d \<Rightarrow> d | Inl e \<Rightarrow> blank_db)"

definition prepared_db :: db where
  "prepared_db = after (prepareOperationRun (scenario_env 100) scenario_run blank_db)"

definition scenario_preview :: CreateConfirmationInput where
  "scenario_preview =
     \<lparr>ci_sessionId = ''s'', ci_workspaceId = ''w'', ci_adminUserId = ''a'', ci_risk = JArr [JStr ''bulk''],
      ci_preview = JObj [(''targets'', JArr [])], ci_operation = scenario_operation,
      ci_installationGeneration = None, ci_sessionSecret = ''secret'', ci_now = 100, ci_ttlMs = Some 900,
      ci_id = Some ''c'', ci_nonce = Some ''n'', ci_agentState = JUndef, ci_actionFingerprint = Some ''f'',
      ci_catalogHash = Some ''h'', ci_capabilityId = None, ci_capabilityHash = None, ci_origin = None,
      ci_registryId = None, ci_authorityModel = None, ci_executorKind = None, ci_runId = None,
      ci_batchId = None, ci_operationBindingHash = None\<rparr>"

text \<open>The identity stands for the hash: nothing here needs more of it than being a function.\<close>

definition scenario_created :: CreatedConfirmation where
  "scenario_created = (case createPendingConfirmation (\<lambda>t. t) ''i'' ''r'' ''o'' scenario_preview of
     Inr cc \<Rightarrow> cc | Inl e \<Rightarrow> undefined)"

definition pending_db :: db where
  "pending_db = settled (savePendingConfirmation (\<lambda>t. t) (cc_record scenario_created) prepared_db)"

definition claimed_db :: db where
  "claimed_db = after (markConfirmationExecuting (scenario_env 200) ''c'' pending_db)"

definition scenario_step :: PrepareOperationStepInput where
  "scenario_step =
     \<lparr>ps_id = Some ''st'', ps_operationId = ''op'', ps_planStepId = ''create'', ps_index = 0, ps_name = ''create tag'',
      ps_kind = Primary, ps_targetFingerprint = None, ps_compensatesStepId = None, ps_preparedDetail = JUndef\<rparr>"

definition step_db :: db where
  "step_db = after (prepareOperationStep (scenario_env 300) scenario_step claimed_db)"

definition queued_db :: db where
  "queued_db = fst (markOperationStepExecuting (scenario_env 400) ''st'' (Some ''op'') step_db)"

definition dispatched_db :: db where
  "dispatched_db = fst (markOperationStepDispatched (scenario_env 500) ''st'' (Some ''op'') queued_db)"

definition recovered_db :: db where
  "recovered_db = after (recoverOrphanedRuns (scenario_env 600) dispatched_db)"

text \<open>The same preview cancelled instead, or its operation started by another path.\<close>

definition cancelled_db :: db where
  "cancelled_db = after (cancelConfirmation (scenario_env 150) ''c'' pending_db)"

definition started_db :: db where
  "started_db = fst (markOperationExecuting (scenario_env 150) ''op'' pending_db)"

text \<open>The dispatched step succeeds, the next one fails before its dispatch, and is compensated.\<close>

definition scenario_detail :: StepDetail where
  "scenario_detail = \<lparr>sd_externalId = Some ''x'', sd_effect = JUndef, sd_detail = JUndef\<rparr>"

definition succeeded_db :: db where
  "succeeded_db = settled (settleOperationStep (scenario_env 510) ''st'' Settle_succeeded scenario_detail (Some ''op'') dispatched_db)"

definition second_db :: db where
  "second_db = fst (markOperationStepExecuting (scenario_env 530) ''st2'' (Some ''op'')
     (after (prepareOperationStep (scenario_env 520)
        (scenario_step\<lparr>ps_id := Some ''st2'', ps_planStepId := ''link'', ps_index := 1\<rparr>) succeeded_db)))"

definition failed_db :: db where
  "failed_db = fst (cancelOperationStepBeforeDispatch (scenario_env 540) ''st2'' JNull (Some ''op'') second_db)"

definition scenario_compensation :: PrepareOperationStepInput where
  "scenario_compensation =
     scenario_step\<lparr>ps_id := Some ''cs'', ps_planStepId := ''remove'', ps_index := 2, ps_kind := Compensation,
       ps_compensatesStepId := Some ''st''\<rparr>"

definition compensated_db :: db where
  "compensated_db = after (prepareCompensationStep (scenario_env 550) scenario_compensation failed_db)"

text \<open>The ambiguous step of the recovered store is reconciled from authoritative evidence.\<close>

definition scenario_evidence :: jsv where
  "scenario_evidence =
     JObj [(''authoritative'', JBool True), (''reason'', JStr ''authoritative_match''),
           (''binding'', JObj [(''operationId'', JStr ''op''), (''stepId'', JStr ''st''), (''planStepId'', JStr ''create''),
              (''actionName'', JStr ''create_tag''), (''actionFingerprint'', JStr ''f''), (''catalogHash'', JStr ''h''),
              (''strategy'', JStr ''create'')])]"

definition reconciled_db :: db where
  "reconciled_db = after (settleStartupReconciliation (\<lambda>t. t) (scenario_env 700) ''op'' ''st'' scenario_evidence recovered_db)"

definition scenario_report :: recovery_report where
  "scenario_report =
     \<lparr>rep_turns = 0, rep_operations = 1, rep_confirmations = 1, rep_undos = 0, rep_assistantRuns = 0,
      rep_ambiguousSteps = 1, rep_ambiguousOperations = 1\<rparr>"

section \<open>The transitions\<close>

lemma after_eq: "(case r of Inr (d, x) \<Rightarrow> x = y | Inl e \<Rightarrow> False) \<Longrightarrow> r = Inr (after r, y)"
  by (auto simp: after_def split: sum.splits)

lemma settled_eq: "(case r of Inr d \<Rightarrow> True | Inl e \<Rightarrow> False) \<Longrightarrow> r = Inr (settled r)"
  by (auto simp: settled_def split: sum.splits)

lemma scenario_prepare: "prepareOperationRun (scenario_env 100) scenario_run blank_db = Inr (prepared_db, ''op'')"
  unfolding prepared_db_def by (rule after_eq) code_simp

lemma scenario_create:
  "createPendingConfirmation (\<lambda>t. t) ''i'' ''r'' ''o'' scenario_preview = Inr scenario_created"
proof -
  have "case createPendingConfirmation (\<lambda>t. t) ''i'' ''r'' ''o'' scenario_preview of
      Inr cc \<Rightarrow> True | Inl e \<Rightarrow> False" by code_simp
  then show ?thesis by (simp add: scenario_created_def split: sum.splits)
qed

lemma scenario_save:
  "savePendingConfirmation (\<lambda>t. t) (cc_record scenario_created) prepared_db = Inr pending_db"
  unfolding pending_db_def by (rule settled_eq) code_simp

lemma scenario_claim: "markConfirmationExecuting (scenario_env 200) ''c'' pending_db = Inr (claimed_db, True)"
  unfolding claimed_db_def by (rule after_eq) code_simp

lemma scenario_prepare_step:
  "prepareOperationStep (scenario_env 300) scenario_step claimed_db = Inr (step_db, ''st'')"
  unfolding step_db_def by (rule after_eq) code_simp

lemma scenario_queue:
  "markOperationStepExecuting (scenario_env 400) ''st'' (Some ''op'') step_db = (queued_db, True)"
  unfolding queued_db_def by (rule prod_eqI) (simp, code_simp)

lemma scenario_dispatch:
  "markOperationStepDispatched (scenario_env 500) ''st'' (Some ''op'') queued_db = (dispatched_db, True)"
  unfolding dispatched_db_def by (rule prod_eqI) (simp, code_simp)

lemma scenario_recover:
  "recoverOrphanedRuns (scenario_env 600) dispatched_db = Inr (recovered_db, scenario_report)"
  unfolding recovered_db_def by (rule after_eq) code_simp

lemma scenario_cancel: "cancelConfirmation (scenario_env 150) ''c'' pending_db = Inr (cancelled_db, True)"
  unfolding cancelled_db_def by (rule after_eq) code_simp

lemma scenario_start: "markOperationExecuting (scenario_env 150) ''op'' pending_db = (started_db, True)"
  unfolding started_db_def by (rule prod_eqI) (simp, code_simp)

lemma scenario_compensate:
  "prepareCompensationStep (scenario_env 550) scenario_compensation failed_db = Inr (compensated_db, ''cs'')"
  unfolding compensated_db_def by (rule after_eq) code_simp

lemma scenario_reconcile:
  "(case settleStartupReconciliation (\<lambda>t. t) (scenario_env 700) ''op'' ''st'' scenario_evidence recovered_db of
      Inr (d, ref) \<Rightarrow> ref_kind ref = R_partial | Inl e \<Rightarrow> False)"
  by code_simp

section \<open>The execution\<close>

lemma scenario_pending: "store_step\<^sup>*\<^sup>* blank_db pending_db"
proof -
  have "store_step blank_db prepared_db"
    by (intro store_step.of_journal journal_step.prepare) (rule scenario_prepare)
  moreover have "store_step prepared_db pending_db"
    by (intro store_step.of_confirmation confirmation_step.save) (rule scenario_save)
  ultimately show ?thesis by (blast intro: converse_rtranclp_into_rtranclp)
qed

lemma scenario_claimed: "store_step pending_db claimed_db"
  by (intro store_step.of_confirmation confirmation_step.claim) (rule scenario_claim)

lemma scenario_queued: "store_step\<^sup>*\<^sup>* claimed_db queued_db"
proof -
  have "store_step claimed_db step_db"
    by (intro store_step.of_journal journal_step.prepare_step) (rule scenario_prepare_step)
  moreover have "store_step step_db queued_db"
    using journal_step.execute_step [of step_db "scenario_env 400" "''st''" "Some ''op''"]
    by (intro store_step.of_journal) (simp add: scenario_queue)
  ultimately show ?thesis by (blast intro: converse_rtranclp_into_rtranclp)
qed

lemma scenario_dispatched: "store_step queued_db dispatched_db"
  using journal_step.dispatch [of queued_db "scenario_env 500" "''st''" "Some ''op''"]
  by (intro store_step.of_journal) (simp add: scenario_dispatch)

lemma scenario_run_to_dispatch: "store_step\<^sup>*\<^sup>* blank_db dispatched_db"
  using rtranclp_trans [OF scenario_pending converse_rtranclp_into_rtranclp
      [OF scenario_claimed rtranclp.rtrancl_into_rtrancl [OF scenario_queued scenario_dispatched]]] .

lemma blank_fresh: "fresh_store blank_db"
  by (simp add: fresh_store_def blank_db_def)

lemma pending_ok: "store_ok pending_db"
  by (rule store.reachable_inv [OF blank_fresh scenario_pending])

lemma claimed_ok: "store_ok claimed_db"
  by (rule store.step_inv [OF pending_ok scenario_claimed])

lemma queued_ok: "store_ok queued_db"
  by (rule store.steps_inv [OF scenario_queued claimed_ok])

lemma dispatched_ok: "store_ok dispatched_db"
  by (rule store.step_inv [OF queued_ok scenario_dispatched])

section \<open>Rows and records of the scenario\<close>

lemma sel_hd: "(case rows of [] \<Rightarrow> False | r # rs \<Rightarrow> key r = k) \<Longrightarrow> sel key k rows = Some (hd rows)"
  by (cases rows) (auto simp: sel_Cons)

lemma pending_row: "sel c_id ''c'' (confirmations pending_db) = Some (hd (confirmations pending_db))"
  by (rule sel_hd) code_simp

lemma pending_row_status: "c_status (hd (confirmations pending_db)) = C_pending"
  by code_simp

lemma pending_run:
  "sel o_id (c_operation_id (hd (confirmations pending_db))) (runs pending_db) = Some (hd (runs pending_db))"
  by (rule sel_hd) code_simp

lemma started_frame: "confirmations started_db = confirmations pending_db"
  by (simp add: started_db_def markOperationExecuting_def update_run_status_def)

lemma started_ok: "store_ok started_db"
  using markOperationExecuting_good [OF pending_ok, of "scenario_env 150" "''op''"]
  by (simp add: started_db_def good_step_def)

lemmas started_row = pending_row [folded started_frame]

lemmas started_row_status = pending_row_status [folded started_frame]

lemma started_run:
  "sel o_id (c_operation_id (hd (confirmations started_db))) (runs started_db) = Some (hd (runs started_db))"
  by (rule sel_hd) code_simp

lemma started_run_status: "o_status (hd (runs started_db)) = O_executing"
  by code_simp

definition read_db :: db where
  "read_db = after (getPendingConfirmation (scenario_env 200) ''c'' pending_db)"

definition read_record :: PendingConfirmationRecord where
  "read_record = (case getPendingConfirmation (scenario_env 200) ''c'' pending_db of
     Inr (d, Some r) \<Rightarrow> r | _ \<Rightarrow> cc_record scenario_created)"

lemma scenario_read: "getPendingConfirmation (scenario_env 200) ''c'' pending_db = Inr (read_db, Some read_record)"
proof -
  have "case getPendingConfirmation (scenario_env 200) ''c'' pending_db of Inr (d, Some r) \<Rightarrow> True | _ \<Rightarrow> False"
    by code_simp
  then show ?thesis by (auto simp: read_db_def read_record_def after_def split: sum.splits option.splits)
qed

lemma scenario_read_status: "p_status read_record = C_pending"
  by code_simp

definition scenario_gate :: ConfirmationGateInput where
  "scenario_gate =
     \<lparr>g_record = cc_record scenario_created, g_sessionId = ''s'', g_workspaceId = ''w'', g_adminUserId = ''a'',
      g_now = 200, g_expectedActionFingerprint = Some (p_actionFingerprint (cc_record scenario_created)),
      g_expectedCatalogHash = Some (p_catalogHash (cc_record scenario_created))\<rparr>"

lemma scenario_foreign: "\<not> bound_to (scenario_gate\<lparr>g_sessionId := ''other''\<rparr>)"
  by code_simp

lemma scenario_not_due: "200 < cc_expiresAt scenario_created"
  by code_simp

lemma scenario_gate_ok: "checkConfirmationGate (\<lambda>t. t) scenario_gate = Inr Gate_ok"
  by code_simp

definition rotated_record :: PendingConfirmationRecord where
  "rotated_record = (cc_record scenario_created)\<lparr>p_nonceHash :=
     hashNonce (\<lambda>t. t) ''m'' (p_id (cc_record scenario_created)) (p_operationHash (cc_record scenario_created)) ''secret''\<rparr>"

lemma scenario_rotate: "rotatePendingNonce (\<lambda>t. t) scenario_gate ''m'' ''secret'' = Inr (Allowed (rotated_record, ''m''))"
proof -
  have "checkConfirmationGate (\<lambda>t. t) (scenario_gate\<lparr>g_expectedActionFingerprint := None, g_expectedCatalogHash := None\<rparr>)
      = Inr Gate_ok" by code_simp
  then show ?thesis by (simp add: rotatePendingNonce_allowed_iff rotated_record_def scenario_gate_def)
qed

lemma scenario_no_collision:
  "hashNonce (\<lambda>t. t) ''n'' (p_id (g_record scenario_gate)) (p_operationHash (g_record scenario_gate)) ''secret''
   = hashNonce (\<lambda>t. t) ''m'' (p_id (g_record scenario_gate)) (p_operationHash (g_record scenario_gate)) ''secret''
   \<longrightarrow> ''n'' = ''m''"
  by (simp add: hashNonce_def)

section \<open>A ledger row and a batch\<close>

definition ledger_db :: db where
  "ledger_db = fst (claimIdempotency ''k'' ''w'' ''a'' 100 0 0 claimed_db)"

definition ledger_ref :: ActionResultRef where
  "ledger_ref = \<lparr>ref_id = a_id (hd (results ledger_db)), ref_kind = R_succeeded, ref_summary = JObj []\<rparr>"

lemma ledger_db_ok: "ledger_ok ledger_db"
  unfolding ledger_db_def by (rule claimIdempotency_ok) code_simp

lemma ledger_row: "find (is_ledger_key ''k'' ''w'' ''a'') (ledger ledger_db) = Some (hd (ledger ledger_db))"
  by code_simp

lemma ledger_row_open: "i_action_result_id (hd (ledger ledger_db)) = None"
  by code_simp

lemma ledger_fill:
  "fillIdempotency ''k'' ''w'' ''a'' ledger_ref 120 ledger_db
     = Inr (settled (fillIdempotency ''k'' ''w'' ''a'' ledger_ref 120 ledger_db))"
  by (rule settled_eq) code_simp

lemma ledger_result: "sel a_id (ref_id ledger_ref) (results ledger_db) = Some (hd (results ledger_db))"
  by (rule sel_hd) code_simp

text \<open>A batch of one item, claimed but not dispatched when the process died.\<close>

definition batch_item :: BatchItemRow where
  "batch_item =
     \<lparr>bi_batch_id = ''b'', bi_item_index = 0, bi_session_id = ''s'', bi_run_id = ''r'', bi_workspace_id = ''w'',
      bi_admin_user_id = ''a'', bi_confirmation_id = ''c'', bi_operation_id = ''op'', bi_status = I_executing,
      bi_action_result_id = None, bi_started_at = Some 200, bi_completed_at = None\<rparr>"

definition batch_db :: db where
  "batch_db = claimed_db\<lparr>
     batches := [\<lparr>b_id = ''b'', b_session_id = ''s'', b_run_id = ''r'', b_workspace_id = ''w'', b_admin_user_id = ''a'',
       b_ordered_tuple_hash = replicate 64 (CHR ''0''), b_status = B_executing, b_current_index = 0,
       b_action_result_id = None, b_expires_at = Some 1000, b_created_at = 100, b_started_at = Some 190,
       b_completed_at = None\<rparr>],
     items := [batch_item]\<rparr>"

definition scenario_row :: recovery_row where
  "scenario_row = \<lparr>rr_session_id = ''s'', rr_workspace_id = ''w'', rr_admin_user_id = ''a'', rr_action_name = ''create_tag''\<rparr>"

end
