(* ===== verification/UndoScenario.thy ===== *)
theory UndoScenario
  imports UndoService Scenario "HOL-Library.Code_Target_Nat"
begin

text \<open>The undo of a created tag, followed from its record to its settlement.\<close>

definition created_tag :: EntityRef where
  "created_tag = \<lparr>er_type = ''tag'', er_id = ''p'', er_name = None, er_projectId = None\<rparr>"

definition undo_env :: "int \<Rightarrow> env" where
  "undo_env t = \<lparr>now = t, uuid = (\<lambda>n. replicate (Suc n) (CHR ''u''))\<rparr>"

definition demo_undo_input :: UndoRecordInput where
  "demo_undo_input = \<lparr>ui_sessionId = ''s'', ui_workspaceId = ''w'', ui_adminUserId = ''a'', ui_actionName = ''create'',
     ui_installationGeneration = Some 3, ui_reversal = JArr (map entity_json [created_tag])\<rparr>"

definition undoable_db :: db where
  "undoable_db = after (recordUndoable (undo_env 100) demo_undo_input blank_db)"

definition demo_claims :: session_claims where
  "demo_claims = \<lparr>uk_workspaceId = ''w'', uk_adminUserId = ''a'', uk_sessionId = ''s''\<rparr>"

text \<open>A digest is a function to 64 hexadecimal digits; nothing here needs more of it.\<close>

definition demo_digest :: "string \<Rightarrow> string" where
  "demo_digest t = replicate 64 (CHR ''0'')"

definition demo_host :: "db \<Rightarrow> db \<times> (thrown, unit) result" where
  "demo_host d = (d, Inr ())"

definition demo_undo_call :: undo_call where
  "demo_undo_call = \<lparr>uc_before = undo_env 210, uc_after = undo_env 220, uc_faults = no_faults,
     uc_prepared = Some (JObj [(''archived'', JBool True)]), uc_host = demo_host\<rparr>"

definition demo_world :: commit_world where
  "demo_world = \<lparr>cw_start = undo_env 200, cw_policy = defaultAdminPolicy, cw_gate = \<lparr>ug_open = None, ug_close = None\<rparr>,
     cw_calls = (\<lambda>i. demo_undo_call), cw_settle1 = (undo_env 230, True), cw_settle2 = (undo_env 240, False)\<rparr>"

definition demo_undo_row :: UndoRow where
  "demo_undo_row = hd (undos undoable_db)"

definition undone_db :: db where
  "undone_db = fst (executeUndoCommit demo_digest ''h'' demo_claims demo_world demo_undo_row undoable_db)"

lemma undoable_record: "recordUndoable (undo_env 100) demo_undo_input blank_db = Inr (undoable_db, ''u'')"
  unfolding undoable_db_def by (rule after_eq) code_simp

lemma undoable_row: "sel u_id ''u'' (undos undoable_db) = Some demo_undo_row" "u_id demo_undo_row = ''u''"
  by code_simp+

lemma undoable_ok: "store_ok undoable_db" "undos_ok undoable_db"
proof -
  have "undos_ok blank_db" by (simp add: blank_db_def undos_ok_def)
  from recordUndoable_later [OF this undoable_record] show "undos_ok undoable_db" by (simp add: undos_later_def)
  have "core_same blank_db undoable_db" by (simp add: core_same_def) code_simp
  moreover have "store_ok blank_db" by (rule fresh_store_ok [OF blank_fresh])
  ultimately show "store_ok undoable_db" using core_same_ok by blast
qed

lemma demo_host_quiet: "quiet_call demo_host"
  by (simp add: quiet_call_def follows_store_def demo_host_def good_step_refl)

definition demo_start_input :: PrepareOperationRunInput where
  "demo_start_input = (case undo_operation_input demo_digest ''h'' demo_claims demo_undo_row of Inr i \<Rightarrow> i | Inl e \<Rightarrow> undefined)"

definition undo_started_db :: db where
  "undo_started_db = after (startUndoOperation (undo_env 200) ''u'' demo_start_input undoable_db)"

lemma undo_start_run: "startUndoOperation (undo_env 200) ''u'' demo_start_input undoable_db = Inr (undo_started_db, Some ''uu'')"
  unfolding undo_started_db_def by (rule after_eq) code_simp

definition demo_outcome :: UndoCommitOutcome where
  "demo_outcome = (case snd (executeUndoCommit demo_digest ''h'' demo_claims demo_world demo_undo_row undoable_db) of
     Inr out \<Rightarrow> out | Inl e \<Rightarrow> undefined)"

lemma undo_commit_run:
  "executeUndoCommit demo_digest ''h'' demo_claims demo_world demo_undo_row undoable_db = (undone_db, Inr demo_outcome)"
proof -
  have "case snd (executeUndoCommit demo_digest ''h'' demo_claims demo_world demo_undo_row undoable_db) of
      Inr out \<Rightarrow> True | Inl e \<Rightarrow> False" by code_simp
  then show ?thesis by (auto simp: demo_outcome_def undone_db_def intro: prod_eqI split: sum.splits)
qed

definition outcome_facts :: "UndoCommitOutcome \<Rightarrow> undo_settlement \<times> string \<times> ActionResultKind option \<times> EntityRef list" where
  "outcome_facts out = (uo_status out, uo_operationId out, map_option ref_kind (uo_resultRef out), uo_remaining out)"

lemma demo_outcome_facts: "outcome_facts demo_outcome = (Undo_undone, ''uu'', Some R_succeeded, [])"
  by code_simp

lemma demo_outcome_eval: "uo_status demo_outcome = Undo_undone" "uo_operationId demo_outcome = ''uu''"
  "map_option ref_kind (uo_resultRef demo_outcome) = Some R_succeeded" "uo_remaining demo_outcome = []"
  using demo_outcome_facts by (simp_all add: outcome_facts_def)

text \<open>The whole request.\<close>

definition demo_request :: request_world where
  "demo_request = \<lparr>rw_now = undo_env 150, rw_policy = defaultAdminPolicy,
     rw_installation = Some \<lparr>in_active = True, in_generation = 3\<rparr>, rw_authority = (\<lambda>c d. (c, d, None)), rw_aborted = False,
     rw_meanwhile = id\<rparr>"

lemma demo_request_record: "getUndoRecord (rw_now demo_request) ''u'' undoable_db = (undoable_db, Some demo_undo_row)"
proof -
  have "u_expires_at demo_undo_row = 1800100" "u_status demo_undo_row = U_available" by code_simp+
  then show ?thesis by (simp add: getUndoRecord_def undoable_row(1) demo_request_def undo_env_def)
qed

lemma demo_request_guards:
  "u_workspace_id demo_undo_row = ''w'' \<and> u_admin_user_id demo_undo_row = ''a'' \<and> u_status demo_undo_row = U_available
   \<and> firstDeniedGroup defaultAdminPolicy (entities_of (u_reversal demo_undo_row)) = None
   \<and> u_installation_generation demo_undo_row = Some 3"
  by code_simp

lemma demo_lease: "\<exists>c l. acquire ''w'' 3 new_coordinator = Inr (c, l) \<and> \<not> lease_aborted l False c"
  by (simp add: acquire_def seeded_def new_coordinator_def install_def activeState_def set_epoch_def Let_def lease_aborted_def)

lemma demo_request_run:
  "executeUndo demo_claims demo_request (executeUndoCommit demo_digest ''h'' demo_claims demo_world) ''u'' new_coordinator undoable_db
   = (fst (executeUndo demo_claims demo_request (executeUndoCommit demo_digest ''h'' demo_claims demo_world) ''u'' new_coordinator undoable_db),
      undone_db, Inr (Undo_committed 200 (uo_receipt demo_outcome) (uo_resultRef demo_outcome \<noteq> None)))"
proof -
  obtain c l where l: "acquire ''w'' 3 new_coordinator = Inr (c, l)" "\<not> lease_aborted l False c" using demo_lease by blast
  have ok: "getp ''ok'' (uo_receipt demo_outcome) = JBool True" by code_simp
  show ?thesis
    by (simp add: executeUndo_def demo_request_record demo_request_guards Let_def safe_generation_def)
      (simp add: demo_claims_def demo_request_def demo_request_guards safe_generation_def with_lease_def no_claim_def undo_answer_def l
        undo_commit_run [unfolded demo_claims_def] ok demo_outcome_eval)
qed

end
