(* ===== verification/ConfirmScenario.thy ===== *)
theory ConfirmScenario
  imports BatchConfirmation UndoScenario "HOL-Library.Code_Target_Nat"
begin

text \<open>The confirmation of previews the assistant wrote: one on its own, and two in a batch.\<close>

section \<open>The previews\<close>

definition asked_db :: db where
  "asked_db = blank_db\<lparr>assistant_runs := [\<lparr>r_session_id = ''s'', r_run_id = ''r'', r_workspace_id = ''w'', r_admin_user_id = ''a'',
     r_phase = P_awaiting_confirmation, r_updated_at = 100\<rparr>]\<rparr>"

text \<open>A digest of 64 characters that keeps the head of its text.\<close>

definition head_digest :: "string \<Rightarrow> string" where
  "head_digest t = take 64 (t @ replicate 64 (CHR ''0''))"

definition asked_operation :: "string \<Rightarrow> jsv" where
  "asked_operation k =
     JObj [(''operationId'', JStr k), (''actionName'', JStr ''create_tag''), (''featureGroup'', JStr ''work_structure''),
           (''risks'', JArr [JStr ''write'']), (''payload'', JObj [(''name'', JStr k)]), (''mutationPlan'', scenario_plan)]"

definition asked_preview :: "string \<Rightarrow> string \<Rightarrow> CreateConfirmationInput" where
  "asked_preview k oid =
     \<lparr>ci_sessionId = ''s'', ci_workspaceId = ''w'', ci_adminUserId = ''a'', ci_risk = JArr [JStr ''write''],
      ci_preview = JObj [(''targets'', JArr [])], ci_operation = asked_operation oid,
      ci_installationGeneration = Some 3, ci_sessionSecret = ''secret'', ci_now = 100, ci_ttlMs = Some 900,
      ci_id = Some k, ci_nonce = Some ''n'', ci_agentState = JUndef, ci_actionFingerprint = Some ''f'',
      ci_catalogHash = Some ''h'', ci_capabilityId = None, ci_capabilityHash = None, ci_origin = Some assistant,
      ci_registryId = Some v2_api, ci_authorityModel = Some preview_confirmation_v2, ci_executorKind = Some prepared_safe_write,
      ci_runId = Some ''r'', ci_batchId = None, ci_operationBindingHash = None\<rparr>"

definition asked_created :: "string \<Rightarrow> string \<Rightarrow> PendingConfirmationRecord" where
  "asked_created k oid = (case createPendingConfirmation head_digest ''i'' ''x'' ''o'' (asked_preview k oid) of
     Inr cc \<Rightarrow> cc_record cc | Inl e \<Rightarrow> undefined)"

definition asked_run :: "string \<Rightarrow> string \<Rightarrow> PrepareOperationRunInput" where
  "asked_run k oid =
     \<lparr>pi_id = Some oid, pi_requestId = None, pi_confirmationId = Some k, pi_sessionId = ''s'', pi_workspaceId = ''w'',
      pi_adminUserId = ''a'', pi_actionName = ''create_tag'', pi_actionFingerprint = ''f'', pi_catalogHash = ''h'',
      pi_operationHash = p_operationHash (asked_created k oid), pi_operation = JObj [(''name'', JStr oid)],
      pi_mutationPlan = scenario_plan, pi_capabilityId = None, pi_capabilityHash = None,
      pi_discriminator = Some \<lparr>d_origin = Some assistant, d_registryId = Some v2_api,
        d_authorityModel = Some preview_confirmation_v2, d_executorKind = Some prepared_safe_write, d_runId = Some ''r'',
        d_batchId = None, d_sourceUndoId = None, d_sourceUndoHash = None, d_fieldProvenanceJson = Some emptyObject,
        d_fieldProvenanceHash = Some (replicate 64 (CHR ''0''))\<rparr>\<rparr>"

definition ask_preview :: "string \<Rightarrow> string \<Rightarrow> db \<Rightarrow> db" where
  "ask_preview k oid d = settled (savePendingConfirmation head_digest (asked_created k oid) (after (prepareOperationRun (scenario_env 100) (asked_run k oid) d)))"

definition lone_db :: db where
  "lone_db = ask_preview ''p1'' ''op1'' asked_db"

lemma asked_ok: "store_ok asked_db"
proof -
  have "core_same blank_db asked_db" by (simp add: core_same_def asked_db_def)
  moreover have "store_ok blank_db" by (rule fresh_store_ok [OF blank_fresh])
  ultimately show ?thesis using core_same_ok by blast
qed

text \<open>Whether the two statements of \<open>ask_preview\<close> go through can be computed; then the store stays well formed.\<close>

definition asks_preview :: "string \<Rightarrow> string \<Rightarrow> db \<Rightarrow> bool" where
  "asks_preview k oid d =
     (case prepareOperationRun (scenario_env 100) (asked_run k oid) d of
        Inl e \<Rightarrow> False
      | Inr (d1, x) \<Rightarrow>
          (case savePendingConfirmation head_digest (asked_created k oid) d1 of
             Inl e \<Rightarrow> False
           | Inr d2 \<Rightarrow> True))"

lemma ask_preview_ok:
  assumes "asks_preview k oid d" "store_ok d"
  shows "store_ok (ask_preview k oid d)"
proof -
  from assms(1) obtain d1 x d2 where r: "prepareOperationRun (scenario_env 100) (asked_run k oid) d = Inr (d1, x)"
    "savePendingConfirmation head_digest (asked_created k oid) d1 = Inr d2"
    by (auto simp: asks_preview_def split: sum.splits)
  then have "ask_preview k oid d = d2" by (simp add: ask_preview_def after_def settled_def)
  with good_step_ok [OF savePendingConfirmation_good [OF good_step_ok [OF prepareOperationRun_good [OF assms(2) r(1)]] r(2)]]
  show ?thesis by simp
qed

lemma lone_ok: "store_ok lone_db"
  unfolding lone_db_def by (rule ask_preview_ok [OF _ asked_ok]) code_simp

section \<open>One confirmation\<close>

definition demo_deps :: service_deps where
  "demo_deps = \<lparr>dp_registry = (\<lambda>n. Some ''f''), dp_catalogHash = ''h'', dp_secret = ''secret''\<rparr>"

definition confirm_request :: request_world where
  "confirm_request = demo_request\<lparr>rw_now := scenario_env 200\<rparr>"

definition demo_write :: "PendingConfirmationRecord \<Rightarrow> db \<Rightarrow> db \<times> (string, jsv) result" where
  "demo_write r d = (d, Inr (JObj [(''ok'', JBool True), (''action'', JStr ''create_tag'')]))"

definition demo_call :: confirmed_call where
  "demo_call = \<lparr>cm_claim = scenario_env 210, cm_write = demo_write, cm_settle1 = (scenario_env 220, True),
     cm_settle2 = (scenario_env 230, False), cm_undo = scenario_env 240, cm_settleRun = (\<lambda>x d. Inr d)\<rparr>"

definition lone_record :: PendingConfirmationRecord where
  "lone_record = (case getPendingConfirmation (scenario_env 200) ''p1'' lone_db of Inr (d, Some r) \<Rightarrow> r | _ \<Rightarrow> undefined)"

definition confirmed_run :: "coordinator \<times> db \<times> (string, confirm_response) result" where
  "confirmed_run = confirmSingle head_digest demo_deps demo_claims confirm_request demo_call lone_record ''n'' new_coordinator lone_db"

lemma confirmed_run_eq:
  "case snd (snd confirmed_run) of Inr (Confirmed x) \<Rightarrow> dc_status x = R_succeeded \<and> map_option ref_kind (dc_resultRef x) = Some R_succeeded
   | _ \<Rightarrow> False"
  by code_simp

definition lone_outcome :: dispatched where
  "lone_outcome = (case snd (snd confirmed_run) of Inr (Confirmed x) \<Rightarrow> x | _ \<Rightarrow> undefined)"

definition confirmed_db :: db where
  "confirmed_db = fst (snd confirmed_run)"

lemma lone_confirmed:
  "confirmSingle head_digest demo_deps demo_claims confirm_request demo_call lone_record ''n'' new_coordinator lone_db
     = (fst confirmed_run, confirmed_db, Inr (Confirmed lone_outcome))"
  and lone_result: "\<exists>ref. dc_resultRef lone_outcome = Some ref" and lone_status: "dc_status lone_outcome = R_succeeded"
  using confirmed_run_eq
  by (auto simp: lone_outcome_def confirmed_db_def simp flip: confirmed_run_def intro!: prod_eqI
      split: sum.splits confirm_response.splits)

lemma demo_write_quiet: "follows_store (demo_write r)" "keeps_claim k (demo_write r)"
  by (simp_all add: follows_store_def keeps_claim_def demo_write_def good_step_refl)

lemma demo_world_ok: "confirm_world_ok confirm_request demo_call r"
  by (simp add: confirm_world_ok_def confirm_request_def demo_request_def demo_call_def demo_write_quiet good_step_refl
      run_settlement_ok_def core_same_def)

lemma lone_id: "p_id lone_record = ''p1''"
  by code_simp

text \<open>Another nonce is rejected.\<close>

lemma lone_gate: "validate_confirmation head_digest demo_deps demo_claims 200 lone_record ''m''
    = Inr (Refused ''invalid_confirmation'' ''Confirmation does not match this preview.'')"
  by code_simp

lemma lone_preview: "isV2AssistantPreviewConfirmation lone_record \<and> \<not> isBatchOwnedConfirmation lone_record"
  by code_simp

lemma lone_rejected:
  "confirmSingle head_digest demo_deps demo_claims confirm_request demo_call lone_record ''m'' new_coordinator lone_db
     = (new_coordinator, lone_db, Inr (Confirm_rejected 400 ''invalid_confirmation''))"
  by (simp add: confirmSingle_def lone_preview lone_gate [folded scenario_env_def] confirm_request_def scenario_env_def lone_gate)

section \<open>A batch whose first member ends unknown\<close>

definition batch_input :: CreateConfirmationBatchInput where
  "batch_input = \<lparr>cb_id = Some ''b'', cb_sessionId = ''s'', cb_runId = ''r'', cb_workspaceId = ''w'', cb_adminUserId = ''a'',
     cb_orderedTupleHash = computeOrderedTupleHash head_digest
       [\<lparr>ii_confirmationId = ''p1'', ii_operationId = ''op1''\<rparr>, \<lparr>ii_confirmationId = ''p2'', ii_operationId = ''op2''\<rparr>],
     cb_expiresAt = Some 1000,
     cb_items = [\<lparr>ii_confirmationId = ''p1'', ii_operationId = ''op1''\<rparr>, \<lparr>ii_confirmationId = ''p2'', ii_operationId = ''op2''\<rparr>]\<rparr>"

definition pair_db :: db where
  "pair_db = after (createConfirmationBatch head_digest (scenario_env 110) batch_input (ask_preview ''p2'' ''op2'' lone_db))"

definition unknown_write :: "PendingConfirmationRecord \<Rightarrow> db \<Rightarrow> db \<times> (string, jsv) result" where
  "unknown_write r d = (d, Inr (JObj [(''ok'', JBool False), (''code'', JStr ''commit_outcome_unknown''), (''action'', JStr ''create_tag'')]))"

definition demo_member :: "nat \<Rightarrow> member_call" where
  "demo_member n = \<lparr>mc_read = scenario_env 205, mc_now = scenario_env 206, mc_policy = defaultAdminPolicy,
     mc_call = demo_call\<lparr>cm_write := unknown_write\<rparr>, mc_after = scenario_env 250\<rparr>"

definition demo_batch_world :: batch_world where
  "demo_batch_world = \<lparr>bw_request = confirm_request, bw_member = demo_member, bw_settleRun = Inr\<rparr>"

definition demo_body :: "batch_item_input list" where
  "demo_body = [\<lparr>bn_confirmationId = ''p1'', bn_nonce = Some ''n''\<rparr>, \<lparr>bn_confirmationId = ''p2'', bn_nonce = Some ''n''\<rparr>]"

text \<open>The members behind the claim of the batch.\<close>

definition started_pair_db :: db where
  "started_pair_db = after (markConfirmationBatchExecuting (scenario_env 200) ''b'' pair_db)"

definition demo_context :: batch_context where
  "demo_context = \<lparr>bx_sha256 = head_digest, bx_deps = demo_deps, bx_claims = demo_claims,
     bx_installation = \<lparr>in_active = True, in_generation = 3\<rparr>, bx_batchId = ''b'', bx_now = 200\<rparr>"

definition demo_members :: "member list" where
  "demo_members = (case listConfirmationBatchItems ''b'' started_pair_db of
     [i1, i2] \<Rightarrow> [(i1, Some ''n'', demo_member 0), (i2, Some ''n'', demo_member 1)] | _ \<Rightarrow> [])"

definition stopped_run :: "db \<times> (string, batch_loop) result" where
  "stopped_run = confirm_members demo_context 0 demo_members [] False started_pair_db"

definition stopped_outcomes :: "item_outcome list" where
  "stopped_outcomes = (case snd stopped_run of Inr (Loop_stopped outs lost) \<Rightarrow> outs | _ \<Rightarrow> [])"

lemma stopped_run_eq:
  "case snd stopped_run of Inr (Loop_stopped outs lost) \<Rightarrow> \<not> lost \<and> map io_status outs = [R_outcome_unknown]
   | _ \<Rightarrow> False"
  by code_simp

lemma members_stopped:
  "confirm_members demo_context 0 demo_members [] False started_pair_db = (fst stopped_run, Inr (Loop_stopped stopped_outcomes False))"
  using stopped_run_eq
  by (auto simp: stopped_outcomes_def simp flip: stopped_run_def intro!: prod_eqI split: sum.splits batch_loop.splits)

lemma members_count: "length demo_members = 2" "map io_status stopped_outcomes = [R_outcome_unknown]"
  by code_simp (use stopped_run_eq in \<open>auto simp: stopped_outcomes_def split: sum.splits batch_loop.splits\<close>)

lemma first_member_done:
  obtains d' x lost where "confirm_member demo_context (demo_member 0) 0 (fst (hd demo_members)) (Some ''n'') started_pair_db
    = (d', Inr (Member_done x lost))"
proof -
  have "case snd (confirm_member demo_context (demo_member 0) 0 (fst (hd demo_members)) (Some ''n'') started_pair_db) of
      Inr (Member_done x lost) \<Rightarrow> True | _ \<Rightarrow> False"
    by code_simp
  then show thesis
    using that by (cases "confirm_member demo_context (demo_member 0) 0 (fst (hd demo_members)) (Some ''n'') started_pair_db")
      (auto split: sum.splits member_step.splits)
qed

section \<open>The whole request\<close>

definition batch_run :: "coordinator \<times> db \<times> (string, batch_response) result" where
  "batch_run = confirmBatch head_digest demo_deps demo_claims demo_batch_world ''b'' demo_body new_coordinator pair_db"

lemma stopped_batch:
  "case snd (snd batch_run) of Inr (Batch_confirmed x) \<Rightarrow> ba_status x = B_outcome_unknown \<and> length (ba_items x) = 1
   | _ \<Rightarrow> False"
  by code_simp

end
