(* ===== verification/PlanScope.thy ===== *)
theory PlanScope
  imports Database HostBudget
begin

text \<open>
  The exact-plan network gate (\<open>withMutationPlanScope\<close>, \<open>withMutationPlanStep\<close> and the two dispatch
  checks of \<open>src/src/clockify/rest/core.ts\<close>). A scope holds one descriptor per step of the persisted
  plan. A step is begun by the workflow, each of its HTTP mutations is first authorised (an
  asynchronous role check) and then committed, synchronously before the fetch, and the step ends
  with the value or the error of its run. Every synchronous segment between two awaits is one
  event; the callbacks of the caller are arguments that say how they answered.
\<close>

section \<open>State\<close>

datatype scope_error =
    Plan_violation string
  | Dispatch_denied jsv
  | Definitive_failure
  | Dispatch_cancelled
  | Other_failure

datatype descriptor_status = D_pending | D_dispatching | D_completed | D_failed

record descriptor =
  ds_id :: string
  ds_kind :: OperationStepKind
  ds_status :: descriptor_status
  ds_authorized :: bool
  ds_networkCalls :: nat
  ds_failure :: "scope_error option"

text \<open>\<open>network\<close> logs the descriptor of every fetch of a mutation; the code does not read it.\<close>

record plan_scope =
  descriptors :: "descriptor list"
  scope_active :: "nat option"
  primaryPoison :: "string option"
  network :: "nat list"

definition new_descriptor :: "string \<times> OperationStepKind \<Rightarrow> descriptor" where
  "new_descriptor p = \<lparr>ds_id = fst p, ds_kind = snd p, ds_status = D_pending, ds_authorized = False,
     ds_networkCalls = 0, ds_failure = None\<rparr>"

definition new_scope :: "(string \<times> OperationStepKind) list \<Rightarrow> plan_scope" where
  "new_scope ps = \<lparr>descriptors = map new_descriptor ps, scope_active = None, primaryPoison = None, network = []\<rparr>"

text \<open>
  Opening a scope checks the plan and reserves its host calls in the budget of the context, before
  anything runs. The reservation is refused with the error of the budget.
\<close>

datatype open_error = Scope_violation string | Scope_budget host_error

fun withMutationPlanScope ::
  "js_number \<Rightarrow> (string \<times> OperationStepKind) list \<Rightarrow> call_context \<Rightarrow> call_state
   \<Rightarrow> (open_error, plan_scope \<times> call_context \<times> call_state) result" where
  "withMutationPlanScope Other_number ps c st = Inl (Scope_violation ''mutation_plan_host_call_budget_required'')"
| "withMutationPlanScope (Safe_integer m) ps c st =
     (if m < 1 \<or> HOST_CALL_BUDGET_MAXIMUM < m
      then Inl (Scope_violation ''mutation_plan_host_call_budget_required'')
      else let ids = map fst ps in
           if ids = [] \<or> [] \<in> set ids \<or> \<not> distinct ids then Inl (Scope_violation ''invalid_mutation_plan_scope'')
           else case withReservedHostCallBudget m c st of
                  Inl e \<Rightarrow> Inl (Scope_budget e)
                | Inr (c', st') \<Rightarrow> Inr (new_scope ps, c', st'))"

definition ds :: "plan_scope \<Rightarrow> nat \<Rightarrow> descriptor" where
  "ds s i = descriptors s ! i"

definition set_ds :: "nat \<Rightarrow> descriptor \<Rightarrow> plan_scope \<Rightarrow> plan_scope" where
  "set_ds i d s = s\<lparr>descriptors := (descriptors s)[i := d]\<rparr>"

text \<open>\<open>scope.descriptors[index]\<close> is undefined outside the array.\<close>

definition descriptor_index :: "int \<Rightarrow> plan_scope \<Rightarrow> nat option" where
  "descriptor_index i s = (if 0 \<le> i \<and> nat i < length (descriptors s) then Some (nat i) else None)"

section \<open>Beginning a step\<close>

definition poison :: "OperationStepKind \<Rightarrow> string \<Rightarrow> plan_scope \<Rightarrow> plan_scope" where
  "poison k m s = (if k = Primary then s\<lparr>primaryPoison := Some m\<rparr> else s)"

definition earlier_primary_invalid :: "OperationStepKind \<Rightarrow> nat \<Rightarrow> plan_scope \<Rightarrow> bool" where
  "earlier_primary_invalid k i s =
     (let earlier = filter (\<lambda>d. ds_kind d = Primary) (take i (descriptors s)) in
      if k = Primary then list_ex (\<lambda>d. ds_status d \<noteq> D_completed) earlier
      else list_ex (\<lambda>d. ds_status d = D_pending \<or> ds_status d = D_dispatching) earlier)"

definition begin_step ::
  "string \<Rightarrow> int \<Rightarrow> OperationStepKind \<Rightarrow> bool \<Rightarrow> plan_scope \<Rightarrow> plan_scope \<times> (scope_error, nat) result" where
  "begin_step k index kind eligible s =
     (let refuse = (\<lambda>m. (poison kind m s, Inl (Plan_violation m))) in
      if kind = Primary \<and> primaryPoison s \<noteq> None
      then (s, Inl (Plan_violation (''mutation_scope_poisoned:'' @ the (primaryPoison s))))
      else case descriptor_index index s of
             None \<Rightarrow> refuse (''mutation_step_out_of_order:'' @ k)
           | Some i \<Rightarrow>
               if ds_id (ds s i) \<noteq> k \<or> ds_kind (ds s i) \<noteq> kind
               then refuse (''mutation_step_out_of_order:'' @ k)
               else if scope_active s \<noteq> None \<or> ds_status (ds s i) \<noteq> D_pending
               then refuse (''mutation_step_repeated:'' @ k)
               else if earlier_primary_invalid kind i s
               then refuse (''mutation_step_out_of_order:'' @ k)
               else if kind = Compensation \<and> \<not> eligible
               then (s, Inl (Plan_violation (''compensation_not_eligible:'' @ k)))
               else (s\<lparr>scope_active := Some i\<rparr>, Inr i))"

section \<open>Dispatching\<close>

text \<open>A refused dispatch fails the descriptor with the refusal and poisons the primaries.\<close>

definition refuse_dispatch :: "nat \<Rightarrow> scope_error \<Rightarrow> string \<Rightarrow> plan_scope \<Rightarrow> plan_scope" where
  "refuse_dispatch i e m s =
     poison (ds_kind (ds s i)) m (set_ds i ((ds s i)\<lparr>ds_status := D_failed, ds_failure := Some e\<rparr>) s)"

definition excess_dispatch :: "nat \<Rightarrow> plan_scope \<Rightarrow> plan_scope \<times> scope_error" where
  "excess_dispatch i s =
     (let m = ''mutation_step_excess_dispatch:'' @ ds_id (ds s i) in
      (refuse_dispatch i (Plan_violation m) m s, Plan_violation m))"

text \<open>The first segment of \<open>authorizeScopedMutationDispatch\<close>, up to the await of the caller's check.\<close>

definition authorize_call :: "plan_scope \<Rightarrow> plan_scope \<times> (scope_error, nat) result" where
  "authorize_call s =
     (case scope_active s of
        None \<Rightarrow> (s, Inl (Plan_violation ''mutation_scope_required''))
      | Some i \<Rightarrow>
          if ds_status (ds s i) \<noteq> D_pending \<or> ds_authorized (ds s i) \<or> 0 < ds_networkCalls (ds s i)
          then (case excess_dispatch i s of (s', e) \<Rightarrow> (s', Inl e))
          else (s, Inr i))"

datatype authorization = Auth_allows | Auth_denies jsv | Auth_throws

text \<open>The rest, with the descriptor the first segment captured, which need not be active any more.\<close>

definition authorize_answer ::
  "nat \<Rightarrow> authorization \<Rightarrow> bool \<Rightarrow> plan_scope \<Rightarrow> plan_scope \<times> (scope_error, unit) result" where
  "authorize_answer i answer aborted s =
     (case answer of
        Auth_throws \<Rightarrow> (s, Inl Other_failure)
      | Auth_denies v \<Rightarrow>
          (refuse_dispatch i (Dispatch_denied v) (''mutation_primary_denied:'' @ ds_id (ds s i)) s, Inl (Dispatch_denied v))
      | Auth_allows \<Rightarrow>
          if aborted then (s, Inl Dispatch_cancelled)
          else (set_ds i ((ds s i)\<lparr>ds_authorized := True\<rparr>) s, Inr ()))"

definition journal_unavailable :: jsv where
  "journal_unavailable = JObj [(''code'', JStr ''dispatch_journal_unavailable'')]"

text \<open>\<open>commitScopedMutationDispatch\<close>; \<open>Inr\<close> is followed by the fetch. The hook writes the journal.\<close>

definition commit_dispatch :: "bool \<Rightarrow> bool \<Rightarrow> plan_scope \<Rightarrow> plan_scope \<times> (scope_error, nat) result" where
  "commit_dispatch aborted hook_throws s =
     (case scope_active s of
        None \<Rightarrow> (s, Inl (Plan_violation ''mutation_scope_required''))
      | Some i \<Rightarrow>
          if ds_status (ds s i) \<noteq> D_pending \<or> \<not> ds_authorized (ds s i) \<or> 0 < ds_networkCalls (ds s i)
          then (case excess_dispatch i s of (s', e) \<Rightarrow> (s', Inl e))
          else if aborted then (s, Inl Dispatch_cancelled)
          else if hook_throws
          then (refuse_dispatch i (Dispatch_denied journal_unavailable) (''mutation_primary_denied:'' @ ds_id (ds s i)) s,
                Inl (Dispatch_denied journal_unavailable))
          else ((set_ds i ((ds s i)\<lparr>ds_status := D_dispatching, ds_authorized := False,
                   ds_networkCalls := ds_networkCalls (ds s i) + 1\<rparr>) s)\<lparr>network := network s @ [i]\<rparr>, Inr i))"

section \<open>Ending a step\<close>

datatype run_end = Run_returns | Run_throws scope_error

definition catch_step :: "nat \<Rightarrow> scope_error \<Rightarrow> plan_scope \<Rightarrow> plan_scope" where
  "catch_step i e s =
     (let d = ds s i;
          s1 = set_ds i (d\<lparr>ds_status := D_failed, ds_failure := (if ds_failure d = None then Some e else ds_failure d)\<rparr>) s in
      poison (ds_kind d)
        (case e of Plan_violation m \<Rightarrow> m | _ \<Rightarrow> ''mutation_primary_failed:'' @ ds_id d) s1)"

text \<open>A descriptor that fails holds its failure, so the default of the option is never used.\<close>

definition failure_of :: "descriptor \<Rightarrow> scope_error" where
  "failure_of d = (case ds_failure d of Some e \<Rightarrow> e | None \<Rightarrow> Other_failure)"

definition end_step :: "nat \<Rightarrow> run_end \<Rightarrow> plan_scope \<Rightarrow> plan_scope \<times> (scope_error, unit) result" where
  "end_step i r s =
     (let d = ds s i in
      case r of
        Run_throws e \<Rightarrow> ((catch_step i e s)\<lparr>scope_active := None\<rparr>, Inl e)
      | Run_returns \<Rightarrow>
          if ds_status d = D_failed
          then ((catch_step i (failure_of d) s)\<lparr>scope_active := None\<rparr>, Inl (failure_of d))
          else if ds_networkCalls d \<noteq> 1
          then let e = Plan_violation (''mutation_step_incomplete_dispatch:'' @ ds_id d);
                   s1 = set_ds i (d\<lparr>ds_status := D_failed, ds_failure := Some e\<rparr>) s in
               ((catch_step i e s1)\<lparr>scope_active := None\<rparr>, Inl e)
          else ((set_ds i (d\<lparr>ds_status := D_completed\<rparr>) s)\<lparr>scope_active := None\<rparr>, Inr ()))"

section \<open>Completeness\<close>

text \<open>\<open>reconciled\<close> is the caller's check of a step against authoritative evidence; it may be absent or throw.\<close>

definition reconciledAmbiguousDescriptor :: "(string \<Rightarrow> bool) \<Rightarrow> descriptor \<Rightarrow> bool" where
  "reconciledAmbiguousDescriptor reconciled d =
     (if ds_status d \<noteq> D_failed
       \<or> (case ds_failure d of
            Some (Plan_violation m) \<Rightarrow> True | Some (Dispatch_denied v) \<Rightarrow> True | Some Definitive_failure \<Rightarrow> True
          | _ \<Rightarrow> False)
      then False else reconciled (ds_id d))"

definition incomplete :: "(string \<Rightarrow> bool) \<Rightarrow> plan_scope \<Rightarrow> descriptor option" where
  "incomplete reconciled s =
     find (\<lambda>d. ds_kind d = Primary \<and> ds_status d \<noteq> D_completed \<and> \<not> reconciledAmbiguousDescriptor reconciled d)
       (descriptors s)"

text \<open>The end of \<open>withMutationPlanScope\<close>: a result that must be complete is returned only if it is.\<close>

definition close_scope :: "bool \<Rightarrow> (string \<Rightarrow> bool) \<Rightarrow> plan_scope \<Rightarrow> (scope_error, unit) result" where
  "close_scope requiresComplete reconciled s =
     (if \<not> requiresComplete then Inr ()
      else case incomplete reconciled s of
             None \<Rightarrow> Inr ()
           | Some d \<Rightarrow> Inl (Plan_violation (''mutation_plan_incomplete:'' @ ds_id d)))"

section \<open>The scope as a transition system\<close>

inductive scope_step :: "plan_scope \<Rightarrow> plan_scope \<Rightarrow> bool" where
  begins: "scope_step s (fst (begin_step k index kind eligible s))"
| authorizes: "scope_step s (fst (authorize_call s))"
| authorized: "i < length (descriptors s) \<Longrightarrow> scope_step s (fst (authorize_answer i answer aborted s))"
| commits: "scope_step s (fst (commit_dispatch aborted hook_throws s))"
| ends: "scope_active s = Some i \<Longrightarrow> scope_step s (fst (end_step i r s))"

section \<open>The invariant\<close>

definition is_primary :: "plan_scope \<Rightarrow> nat \<Rightarrow> bool" where
  "is_primary s i \<longleftrightarrow> i < length (descriptors s) \<and> ds_kind (ds s i) = Primary"

definition descriptor_ok :: "plan_scope \<Rightarrow> nat \<Rightarrow> bool" where
  "descriptor_ok s i \<longleftrightarrow> (if i \<in> set (network s) then ds_networkCalls (ds s i) = 1 \<and> ds_status (ds s i) \<noteq> D_pending
                     else ds_networkCalls (ds s i) = 0)
     \<and> (ds_status (ds s i) = D_completed \<longrightarrow> i \<in> set (network s))
     \<and> (ds_kind (ds s i) = Primary \<and> ds_status (ds s i) = D_failed \<longrightarrow> primaryPoison s \<noteq> None)"

text \<open>
  A dispatched primary, and the active one, have every earlier primary dispatched before them. Only the
  active step can be between its dispatch and its end.
\<close>

definition scope_ok :: "plan_scope \<Rightarrow> bool" where
  "scope_ok s \<longleftrightarrow> distinct (network s) \<and> set (network s) \<subseteq> {..<length (descriptors s)}
     \<and> (\<forall>i<length (descriptors s). descriptor_ok s i)
     \<and> (\<forall>i. (i \<in> set (network s) \<or> scope_active s = Some i) \<longrightarrow> is_primary s i \<longrightarrow>
          (\<forall>j<i. is_primary s j \<longrightarrow> j \<in> set (network s)))
     \<and> sorted_wrt (<) (filter (is_primary s) (network s))
     \<and> (\<forall>i. scope_active s = Some i \<longrightarrow> i < length (descriptors s))
     \<and> (\<forall>i<length (descriptors s). ds_status (ds s i) = D_dispatching \<longrightarrow> scope_active s = Some i)"

lemma scope_okI:
  assumes "distinct (network s)" "set (network s) \<subseteq> {..<length (descriptors s)}"
    "\<And>i. i < length (descriptors s) \<Longrightarrow> descriptor_ok s i"
    "\<And>i j. i \<in> set (network s) \<or> scope_active s = Some i \<Longrightarrow> is_primary s i \<Longrightarrow> j < i \<Longrightarrow> is_primary s j \<Longrightarrow> j \<in> set (network s)"
    "sorted_wrt (<) (filter (is_primary s) (network s))"
    "\<And>i. scope_active s = Some i \<Longrightarrow> i < length (descriptors s)"
    "\<And>i. i < length (descriptors s) \<Longrightarrow> ds_status (ds s i) = D_dispatching \<Longrightarrow> scope_active s = Some i"
  shows "scope_ok s"
  unfolding scope_ok_def using assms by blast

lemma scope_okD:
  assumes "scope_ok s"
  shows "distinct (network s)" "set (network s) \<subseteq> {..<length (descriptors s)}"
    "i < length (descriptors s) \<Longrightarrow> descriptor_ok s i"
    "i \<in> set (network s) \<or> scope_active s = Some i \<Longrightarrow> is_primary s i \<Longrightarrow> j < i \<Longrightarrow> is_primary s j \<Longrightarrow> j \<in> set (network s)"
    "sorted_wrt (<) (filter (is_primary s) (network s))"
    "scope_active s = Some i \<Longrightarrow> i < length (descriptors s)"
    "i < length (descriptors s) \<Longrightarrow> ds_status (ds s i) = D_dispatching \<Longrightarrow> scope_active s = Some i"
  using assms unfolding scope_ok_def by blast+

lemma ds_set_ds [simp]: "i < length (descriptors s) \<Longrightarrow> ds (set_ds i d s) j = (if j = i then d else ds s j)"
  by (simp add: ds_def set_ds_def nth_list_update)

lemma set_ds_simps [simp]:
  "length (descriptors (set_ds i d s)) = length (descriptors s)" "network (set_ds i d s) = network s"
  "scope_active (set_ds i d s) = scope_active s" "primaryPoison (set_ds i d s) = primaryPoison s"
  by (simp_all add: set_ds_def)

lemma poison_simps [simp]:
  "descriptors (poison k m s) = descriptors s" "network (poison k m s) = network s"
  "scope_active (poison k m s) = scope_active s" "ds (poison k m s) = ds s"
  by (simp_all add: poison_def ds_def fun_eq_iff)

lemma poisoned: "primaryPoison (poison k m s) \<noteq> None \<longleftrightarrow> k = Primary \<or> primaryPoison s \<noteq> None"
  by (simp add: poison_def)

lemma ds_updates [simp]:
  "ds (s\<lparr>scope_active := a\<rparr>) = ds s" "ds (s\<lparr>network := n\<rparr>) = ds s" "ds (s\<lparr>primaryPoison := p\<rparr>) = ds s"
  by (simp_all add: ds_def fun_eq_iff)

text \<open>Changes that keep the plan, the log and the active step: one descriptor moves, or poison spreads.\<close>

definition quiet_descriptor :: "plan_scope \<Rightarrow> plan_scope \<Rightarrow> nat \<Rightarrow> bool" where
  "quiet_descriptor s s' i \<longleftrightarrow> ds_kind (ds s' i) = ds_kind (ds s i) \<and> ds_networkCalls (ds s' i) = ds_networkCalls (ds s i)
     \<and> (ds_status (ds s' i) = ds_status (ds s i)
        \<or> ds_status (ds s' i) = D_failed \<and> (ds_kind (ds s i) = Primary \<longrightarrow> primaryPoison s' \<noteq> None)
        \<or> ds_status (ds s' i) = D_completed \<and> i \<in> set (network s))"

definition quiet :: "plan_scope \<Rightarrow> plan_scope \<Rightarrow> bool" where
  "quiet s s' \<longleftrightarrow> length (descriptors s') = length (descriptors s) \<and> network s' = network s
     \<and> (primaryPoison s \<noteq> None \<longrightarrow> primaryPoison s' \<noteq> None)
     \<and> (\<forall>i<length (descriptors s). quiet_descriptor s s' i)"

lemma quietD:
  assumes "quiet s s'"
  shows "length (descriptors s') = length (descriptors s)" "network s' = network s"
    "primaryPoison s \<noteq> None \<Longrightarrow> primaryPoison s' \<noteq> None"
    "i < length (descriptors s) \<Longrightarrow> quiet_descriptor s s' i"
  using assms unfolding quiet_def by blast+

lemma quiet_is_primary: "quiet s s' \<Longrightarrow> is_primary s' i = is_primary s i"
  using quietD(1) [of s s'] quietD(4) [of s s' i] by (auto simp: is_primary_def quiet_descriptor_def)

lemma quiet_calls:
  assumes q: "quiet s s'" and i: "i < length (descriptors s)" and c: "descriptor_ok s i"
  shows "descriptor_ok s' i"
  using quietD(3) [OF q] quietD(4) [OF q i] c
  unfolding descriptor_ok_def quiet_descriptor_def quietD(2) [OF q] by (cases "i \<in> set (network s)") auto

lemma quiet_status: "quiet s s' \<Longrightarrow> i < length (descriptors s) \<Longrightarrow> ds_status (ds s' i) = D_dispatching \<Longrightarrow>
  ds_status (ds s i) = D_dispatching"
  using quietD(4) [of s s' i] by (auto simp: quiet_descriptor_def)

lemma quiet_keep:
  assumes q: "quiet s s'" and ok: "scope_ok s" and a: "scope_active s' = scope_active s"
  shows "scope_ok s'"
proof (rule scope_okI)
  note same = quietD(1,2) [OF q] quiet_is_primary [OF q]
  show "distinct (network s')" "set (network s') \<subseteq> {..<length (descriptors s')}"
    using scope_okD(1,2) [OF ok] by (simp_all add: same)
  show "descriptor_ok s' i" if "i < length (descriptors s')" for i
    using quiet_calls [OF q] scope_okD(3) [OF ok] that by (simp add: same)
  show "j \<in> set (network s')" if "i \<in> set (network s') \<or> scope_active s' = Some i" "is_primary s' i" "j < i" "is_primary s' j" for i j
    using scope_okD(4) [OF ok, of i j] that by (simp add: same a)
  show "sorted_wrt (<) (filter (is_primary s') (network s'))"
    using scope_okD(5) [OF ok] same(3) by (simp add: same(2) cong: filter_cong)
  show "i < length (descriptors s')" if "scope_active s' = Some i" for i
    using scope_okD(6) [OF ok] that by (simp add: same a)
  show "scope_active s' = Some i" if "i < length (descriptors s')" "ds_status (ds s' i) = D_dispatching" for i
    using scope_okD(7) [OF ok] quiet_status [OF q] that by (simp add: same a)
qed

lemma inactive_ok:
  assumes ok: "scope_ok s" and a: "scope_active s = Some i" and st: "ds_status (ds s i) \<noteq> D_dispatching"
  shows "scope_ok (s\<lparr>scope_active := None\<rparr>)"
proof (rule scope_okI)
  have p: "is_primary (s\<lparr>scope_active := None\<rparr>) = is_primary s" by (simp add: is_primary_def fun_eq_iff)
  show "j \<in> set (network (s\<lparr>scope_active := None\<rparr>))"
    if "k \<in> set (network (s\<lparr>scope_active := None\<rparr>)) \<or> scope_active (s\<lparr>scope_active := None\<rparr>) = Some k"
      "is_primary (s\<lparr>scope_active := None\<rparr>) k" "j < k" "is_primary (s\<lparr>scope_active := None\<rparr>) j" for j k
    using scope_okD(4) [OF ok, of k j] that by (simp add: p)
  show "scope_active (s\<lparr>scope_active := None\<rparr>) = Some k"
    if "k < length (descriptors (s\<lparr>scope_active := None\<rparr>))" "ds_status (ds (s\<lparr>scope_active := None\<rparr>) k) = D_dispatching" for k
    using scope_okD(7) [OF ok, of k] that a st by auto
  show "descriptor_ok (s\<lparr>scope_active := None\<rparr>) k" if "k < length (descriptors (s\<lparr>scope_active := None\<rparr>))" for k
    using scope_okD(3) [OF ok, of k] that by (simp add: descriptor_ok_def)
qed (use scope_okD(1,2,5) [OF ok] in \<open>simp_all add: is_primary_def cong: filter_cong\<close>)

lemma quiet_end:
  assumes q: "quiet s s1" and ok: "scope_ok s" and a: "scope_active s = Some i" "scope_active s1 = Some i"
    and st: "ds_status (ds s1 i) \<noteq> D_dispatching"
  shows "scope_ok (s1\<lparr>scope_active := None\<rparr>)"
  by (rule inactive_ok [OF quiet_keep [OF q ok] a(2) st]) (simp add: a)

text \<open>Moving one descriptor, and spreading poison.\<close>

lemma quiet_move:
  assumes i: "i < length (descriptors s)" and d: "ds_kind d = ds_kind (ds s i)" "ds_networkCalls d = ds_networkCalls (ds s i)"
    and st: "ds_status d = ds_status (ds s i) \<or> ds_status d = D_failed \<or> ds_status d = D_completed \<and> i \<in> set (network s)"
    and m: "ds_status d = D_failed \<longrightarrow> ds_kind (ds s i) = Primary \<longrightarrow> ds_status (ds s i) = D_failed \<or> k = Primary"
  shows "quiet s (poison k m (set_ds i d s))"
  unfolding quiet_def quiet_descriptor_def using assms by (auto simp: poison_def)

lemma quiet_move_plain:
  assumes i: "i < length (descriptors s)" and d: "ds_kind d = ds_kind (ds s i)" "ds_networkCalls d = ds_networkCalls (ds s i)"
    and st: "ds_status d = ds_status (ds s i) \<or> ds_status d = D_completed \<and> i \<in> set (network s)"
  shows "quiet s (set_ds i d s)"
  unfolding quiet_def quiet_descriptor_def using assms by auto

lemma quiet_poison: "quiet s (poison k m s)"
  unfolding quiet_def quiet_descriptor_def by (simp add: poison_def)

lemma quiet_refuse: "i < length (descriptors s) \<Longrightarrow> quiet s (refuse_dispatch i e m s)"
  unfolding refuse_dispatch_def by (rule quiet_move) simp_all

lemma quiet_catch: "i < length (descriptors s) \<Longrightarrow> quiet s (catch_step i e s)"
  unfolding catch_step_def Let_def by (rule quiet_move) simp_all

text \<open>Each event keeps the invariant.\<close>

lemma refuse_dispatch_active [simp]: "scope_active (refuse_dispatch i e m s) = scope_active s"
  by (simp add: refuse_dispatch_def)

lemma catch_step_active [simp]: "scope_active (catch_step i e s) = scope_active s"
  by (simp add: catch_step_def Let_def)

lemma begin_step_ok:
  assumes ok: "scope_ok s" and b: "begin_step k index kind eligible s = (s', r)"
  shows "scope_ok s'"
proof (cases r)
  case (Inl e)
  with b have "s' = s \<or> (\<exists>m. s' = poison kind m s)"
    by (auto simp: begin_step_def Let_def split: option.splits if_splits)
  then show ?thesis
  proof
    assume "\<exists>m. s' = poison kind m s"
    then obtain m where s': "s' = poison kind m s" ..
    show ?thesis unfolding s' by (rule quiet_keep [OF quiet_poison ok]) simp
  qed (use ok in simp)
next
  case (Inr i)
  with b have i: "s' = s\<lparr>scope_active := Some i\<rparr>" "i < length (descriptors s)" "scope_active s = None"
    "ds_kind (ds s i) = kind" "\<not> earlier_primary_invalid kind i s"
    by (auto simp: begin_step_def Let_def descriptor_index_def split: option.splits if_splits)
  have earlier: "j \<in> set (network s)" if "is_primary s i" "is_primary s j" "j < i" for j
  proof -
    have j: "j < length (descriptors s)" using that(2) by (simp add: is_primary_def)
    have "ds s j \<in> set (filter (\<lambda>d. ds_kind d = Primary) (take i (descriptors s)))"
      using that i(2) by (auto simp: is_primary_def ds_def in_set_conv_nth intro!: exI [of _ j])
    with i(4,5) that(1) have "ds_status (ds s j) = D_completed"
      by (auto simp: earlier_primary_invalid_def is_primary_def list_ex_iff)
    with scope_okD(3) [OF ok j] show ?thesis by (simp add: descriptor_ok_def)
  qed
  have p: "is_primary s' j = is_primary s j" for j by (simp add: is_primary_def i(1))
  show ?thesis
  proof (rule scope_okI)
    show "distinct (network s')" "set (network s') \<subseteq> {..<length (descriptors s')}"
      using scope_okD(1,2) [OF ok] by (simp_all add: i(1))
    show "descriptor_ok s' j" if "j < length (descriptors s')" for j
      using scope_okD(3) [OF ok, of j] that by (simp add: descriptor_ok_def i(1))
    show "k \<in> set (network s')" if "j \<in> set (network s') \<or> scope_active s' = Some j" "is_primary s' j" "k < j" "is_primary s' k" for j k
      using that(1,3) that(2,4) [unfolded p] earlier [of k] scope_okD(4) [OF ok, of j k] by (auto simp: i(1))
    show "sorted_wrt (<) (filter (is_primary s') (network s'))"
      unfolding p using scope_okD(5) [OF ok] by (simp add: i(1))
    show "j < length (descriptors s')" if "scope_active s' = Some j" for j using that i(2) by (simp add: i(1))
    show "scope_active s' = Some j" if "j < length (descriptors s')" "ds_status (ds s' j) = D_dispatching" for j
      using scope_okD(7) [OF ok, of j] that i(3) by (simp add: i(1))
  qed
qed

lemma authorize_call_ok:
  assumes ok: "scope_ok s"
  shows "scope_ok (fst (authorize_call s))"
proof (cases "scope_active s")
  case (Some i)
  with ok have "i < length (descriptors s)" by (simp add: scope_ok_def)
  with quiet_keep [OF quiet_refuse ok] Some ok show ?thesis
    by (simp add: authorize_call_def excess_dispatch_def Let_def)
qed (use ok in \<open>simp add: authorize_call_def\<close>)

lemma authorize_answer_ok:
  assumes ok: "scope_ok s" and i: "i < length (descriptors s)"
  shows "scope_ok (fst (authorize_answer i answer aborted s))"
proof (cases answer)
  case Auth_allows
  have "quiet s (set_ds i ((ds s i)\<lparr>ds_authorized := True\<rparr>) s)" by (rule quiet_move_plain [OF i]) simp_all
  from quiet_keep [OF this ok] Auth_allows ok show ?thesis by (simp add: authorize_answer_def)
next
  case (Auth_denies v)
  with quiet_keep [OF quiet_refuse ok] i show ?thesis by (simp add: authorize_answer_def)
qed (use ok in \<open>simp add: authorize_answer_def\<close>)

lemma end_step_ok:
  assumes ok: "scope_ok s" and a: "scope_active s = Some i"
  shows "scope_ok (fst (end_step i r s))"
proof -
  have i: "i < length (descriptors s)" using ok a by (simp add: scope_ok_def)
  have st: "ds_status (ds (catch_step i e u) i) \<noteq> D_dispatching" if "length (descriptors u) = length (descriptors s)" for e u
    using that i by (simp add: catch_step_def Let_def)
  have caught: "scope_ok ((catch_step i e s)\<lparr>scope_active := None\<rparr>)" for e
    by (rule quiet_end [OF quiet_catch [OF i] ok a]) (simp_all add: a st)
  show ?thesis
  proof (cases r)
    case (Run_throws e)
    with caught show ?thesis by (simp add: end_step_def Let_def)
  next
    case Run_returns
    consider "ds_status (ds s i) = D_failed" | "ds_status (ds s i) \<noteq> D_failed" "ds_networkCalls (ds s i) \<noteq> 1"
      | "ds_status (ds s i) \<noteq> D_failed" "ds_networkCalls (ds s i) = 1" by blast
    then show ?thesis
    proof cases
      case 1
      with caught Run_returns show ?thesis by (simp add: end_step_def Let_def)
    next
      case 2
      define e where "e = Plan_violation (''mutation_step_incomplete_dispatch:'' @ ds_id (ds s i))"
      define s1 where "s1 = set_ds i ((ds s i)\<lparr>ds_status := D_failed, ds_failure := Some e\<rparr>) s"
      have eq: "fst (end_step i r s) = (catch_step i e s1)\<lparr>scope_active := None\<rparr>"
        using 2 Run_returns by (simp add: end_step_def Let_def s1_def e_def)
      have "set_ds i d (set_ds i d' u) = set_ds i d u" for d d' u by (simp add: set_ds_def)
      then have "quiet s (catch_step i e s1)"
        unfolding catch_step_def Let_def s1_def by (simp add: i) (rule quiet_move, simp_all add: i)
      then show ?thesis unfolding eq by (rule quiet_end [OF _ ok a]) (simp_all add: st s1_def a)
    next
      case 3
      have "i \<in> set (network s)" using scope_okD(3) [OF ok i] 3 by (auto simp: descriptor_ok_def split: if_splits)
      then have "quiet s (set_ds i ((ds s i)\<lparr>ds_status := D_completed\<rparr>) s)"
        by (intro quiet_move_plain [OF i]) simp_all
      then have "scope_ok ((set_ds i ((ds s i)\<lparr>ds_status := D_completed\<rparr>) s)\<lparr>scope_active := None\<rparr>)"
        by (rule quiet_end [OF _ ok a]) (simp_all add: a i)
      with 3 Run_returns show ?thesis by (simp add: end_step_def Let_def)
    qed
  qed
qed

lemma commit_dispatch_ok:
  assumes ok: "scope_ok s"
  shows "scope_ok (fst (commit_dispatch aborted hook_throws s))"
proof (cases "scope_active s")
  case (Some i)
  with ok have i: "i < length (descriptors s)" by (simp add: scope_ok_def)
  show ?thesis
  proof (cases "ds_status (ds s i) \<noteq> D_pending \<or> \<not> ds_authorized (ds s i) \<or> 0 < ds_networkCalls (ds s i) \<or> aborted \<or> hook_throws")
    case True
    then show ?thesis using quiet_keep [OF quiet_refuse [OF i] ok] Some ok
      by (auto simp: commit_dispatch_def excess_dispatch_def Let_def)
  next
    case False
    let ?d = "(ds s i)\<lparr>ds_status := D_dispatching, ds_authorized := False, ds_networkCalls := ds_networkCalls (ds s i) + 1\<rparr>"
    let ?s = "(set_ds i ?d s)\<lparr>network := network s @ [i]\<rparr>"
    have fst_eq: "fst (commit_dispatch aborted hook_throws s) = ?s"
      using False Some by (simp add: commit_dispatch_def)
    have new: "i \<notin> set (network s)" using scope_okD(3) [OF ok i] False by (auto simp: descriptor_ok_def split: if_splits)
    have prim: "is_primary ?s j = is_primary s j" for j using i by (simp add: is_primary_def)
    have before: "j < i" if "j \<in> set (network s)" "is_primary s j" "is_primary s i" for j
    proof (rule ccontr)
      assume "\<not> j < i"
      with that(1) new have "i < j" by (cases "i = j") auto
      from scope_okD(4) [OF ok _ that(2) this that(3)] that(1) new show False by simp
    qed
    show ?thesis
      unfolding fst_eq
    proof (rule scope_okI)
      show "distinct (network ?s)" "set (network ?s) \<subseteq> {..<length (descriptors ?s)}"
        using scope_okD(1,2) [OF ok] new i by simp_all
      show "descriptor_ok ?s j" if "j < length (descriptors ?s)" for j
        using scope_okD(3) [OF ok, of j] that False i new by (cases "j = i") (simp_all add: descriptor_ok_def)
      show "k \<in> set (network ?s)" if "j \<in> set (network ?s) \<or> scope_active ?s = Some j" "is_primary ?s j" "k < j" "is_primary ?s k" for j k
        using scope_okD(4) [OF ok, of j k] that(1,3) that(2,4) [unfolded prim] Some by auto
      show "sorted_wrt (<) (filter (is_primary ?s) (network ?s))"
        unfolding prim using scope_okD(5) [OF ok] before by (auto simp: sorted_wrt_append)
      show "j < length (descriptors ?s)" if "scope_active ?s = Some j" for j using that Some i by simp
      show "scope_active ?s = Some j" if "j < length (descriptors ?s)" "ds_status (ds ?s j) = D_dispatching" for j
        using scope_okD(7) [OF ok, of j] that Some i by (cases "j = i") simp_all
    qed
  qed
qed (use ok in \<open>simp add: commit_dispatch_def\<close>)

lemma new_scope_ok: "scope_ok (new_scope ps)"
  by (auto simp: scope_ok_def new_scope_def descriptor_ok_def ds_def new_descriptor_def)

interpretation plan_scope: step_system "\<lambda>s. \<exists>ps. s = new_scope ps" scope_step scope_ok
proof
  show "scope_ok s" if "\<exists>ps. s = new_scope ps" for s using that new_scope_ok by blast
  show "scope_ok s'" if "scope_ok s" "scope_step s s'" for s s'
    using that(2,1)
  proof (cases rule: scope_step.cases)
    case (begins k index kind eligible)
    with begin_step_ok [OF that(1)] show ?thesis by (metis prod.collapse)
  qed (use that(1) in \<open>simp_all add: authorize_call_ok authorize_answer_ok commit_dispatch_ok end_step_ok\<close>)
qed

definition scope_reachable :: "(string \<times> OperationStepKind) list \<Rightarrow> plan_scope \<Rightarrow> bool" where
  "scope_reachable ps s \<longleftrightarrow> scope_step\<^sup>*\<^sup>* (new_scope ps) s"

lemma scope_reachable_ok: "scope_reachable ps s \<Longrightarrow> scope_ok s"
  unfolding scope_reachable_def using plan_scope.reachable_inv by blast

section \<open>What the gate guarantees\<close>

text \<open>No step of the plan reaches the network twice, and primaries reach it in plan order without gaps.\<close>

lemma dispatch_order:
  assumes "scope_ok s"
  shows "distinct (network s) \<and> sorted_wrt (<) (filter (is_primary s) (network s))
    \<and> (\<forall>i\<in>set (network s). is_primary s i \<longrightarrow> (\<forall>j<i. is_primary s j \<longrightarrow> j \<in> set (network s)))"
  using scope_okD(1,5) [OF assms] scope_okD(4) [OF assms] by blast

text \<open>Poison is never taken back.\<close>

lemma poison_keeps: "primaryPoison s \<noteq> None \<Longrightarrow> primaryPoison (poison k m s) \<noteq> None"
  by (simp add: poison_def)

lemma scope_step_poison:
  assumes "scope_step s s'" "primaryPoison s \<noteq> None"
  shows "primaryPoison s' \<noteq> None"
  using assms(1)
proof (cases rule: scope_step.cases)
  case (begins k index kind eligible)
  with assms(2) show ?thesis by (auto simp: begin_step_def poison_def Let_def split: option.splits if_splits)
next
  case authorizes
  with assms(2) show ?thesis
    by (auto simp: authorize_call_def excess_dispatch_def refuse_dispatch_def poison_def Let_def split: option.splits)
next
  case (authorized i answer aborted)
  with assms(2) show ?thesis
    by (auto simp: authorize_answer_def refuse_dispatch_def poison_def split: authorization.splits)
next
  case (commits aborted hook_throws)
  with assms(2) show ?thesis
    by (auto simp: commit_dispatch_def excess_dispatch_def refuse_dispatch_def poison_def Let_def split: option.splits)
next
  case (ends i r)
  with assms(2) show ?thesis by (auto simp: end_step_def catch_step_def poison_def Let_def split: run_end.splits)
qed

lemma scope_steps_poison: "scope_step\<^sup>*\<^sup>* s s' \<Longrightarrow> primaryPoison s \<noteq> None \<Longrightarrow> primaryPoison s' \<noteq> None"
  by (induction rule: rtranclp_induct) (auto dest: scope_step_poison)

lemma poisoned_refuses:
  "primaryPoison s \<noteq> None \<Longrightarrow>
   begin_step k index Primary eligible s = (s, Inl (Plan_violation (''mutation_scope_poisoned:'' @ the (primaryPoison s))))"
  by (simp add: begin_step_def)

text \<open>After a primary has failed, none begins any more.\<close>

lemma failed_primary_stops_plan:
  assumes ok: "scope_ok s" and i: "is_primary s i" "ds_status (ds s i) = D_failed" and later: "scope_step\<^sup>*\<^sup>* s s'"
  shows "begin_step k index Primary eligible s' = (s', Inl (Plan_violation (''mutation_scope_poisoned:'' @ the (primaryPoison s'))))"
proof (rule poisoned_refuses)
  have "primaryPoison s \<noteq> None"
    using scope_okD(3) [OF ok, of i] i by (simp add: descriptor_ok_def is_primary_def)
  then show "primaryPoison s' \<noteq> None" by (rule scope_steps_poison [OF later])
qed

text \<open>A complete scope has sent every primary, or an authoritative read has settled it.\<close>

lemma closed_scope_complete:
  assumes ok: "scope_ok s" and c: "close_scope True reconciled s = Inr ()" and i: "is_primary s i"
  shows "ds_status (ds s i) = D_completed \<and> i \<in> set (network s) \<or> reconciled (ds_id (ds s i))"
proof -
  have l: "i < length (descriptors s)" "ds_kind (ds s i) = Primary" using i by (simp_all add: is_primary_def)
  have "incomplete reconciled s = None" using c by (auto simp: close_scope_def split: option.splits)
  then have "ds_status (ds s i) = D_completed \<or> reconciledAmbiguousDescriptor reconciled (ds s i)"
    using l by (auto simp: incomplete_def find_None_iff ds_def)
  with scope_okD(3) [OF ok l(1)] show ?thesis
    by (auto simp: descriptor_ok_def reconciledAmbiguousDescriptor_def split: if_splits)
qed

text \<open>An opened scope starts its plan, with every call reserved.\<close>

lemma withMutationPlanScope_reserves:
  assumes "withMutationPlanScope (Safe_integer m) ps c st = Inr (s, c', st')"
  shows "s = new_scope ps \<and> distinct (map fst ps) \<and> ps \<noteq> [] \<and> 1 \<le> m \<and> m \<le> HOST_CALL_BUDGET_MAXIMUM
    \<and> ctx_reservation c' = Some (length (reservations st')  - 1) \<and> last (reservations st') = m"
  using assms
  by (auto simp: withReservedHostCallBudget_def Let_def split: if_splits sum.splits)

end
