(* ===== verification/WorkflowScenario.thy ===== *)
theory WorkflowScenario
  imports Scenario MutationWorkflow PlanScope "HOL-Library.Code_Target_Nat"
begin

text \<open>Concrete runs of the write path above the store: a workflow of two steps and the gate of its plan.\<close>

section \<open>A workflow whose second step fails\<close>

definition demo_step :: "string \<Rightarrow> int \<Rightarrow> ExecutableStep" where
  "demo_step k index = \<lparr>es_id = k, es_index = index, es_name = k, es_kind = Primary, es_targetFingerprint = None,
     es_preparedDetail = JUndef, es_compensatesStepId = None\<rparr>"

text \<open>The host call of a step: its dispatch is recorded, then the host answers.\<close>

definition demo_dispatch :: "string \<Rightarrow> (thrown, StepDetail) result \<Rightarrow> db \<Rightarrow> db \<times> (thrown, StepDetail) result" where
  "demo_dispatch k answer d = (fst (markOperationStepDispatched (scenario_env 500) k (Some ''op'') d), answer)"

definition demo_planned :: "string \<Rightarrow> int \<Rightarrow> string \<Rightarrow> (thrown, StepDetail) result \<Rightarrow> planned" where
  "demo_planned k index row answer =
     \<lparr>pl_step = demo_step k index, pl_before = scenario_env 400, pl_after = scenario_env 600, pl_faults = no_faults,
      pl_dispatch = demo_dispatch row answer\<rparr>"

definition demo_callbacks :: callbacks where
  "demo_callbacks =
     \<lparr>onSuccess = (\<lambda>ss. JObj [(''ok'', JBool True)]),
      onPartial = (\<lambda>ss s. JObj [(''partial'', JNum (int (length ss)))]),
      onJournalDegraded = (\<lambda>ss s. JNull), onFailure = (\<lambda>s. JObj [(''ok'', JBool False)])\<rparr>"

definition create_planned :: planned where
  "create_planned = demo_planned ''create'' 0 ''uu'' (Inr scenario_detail)"

definition link_planned :: planned where
  "link_planned = demo_planned ''link'' 1 ''uuu'' (Inl (T_definitive ''POST'' ''/x'' (Some 400) ''no''))"

definition third_planned :: planned where
  "third_planned = demo_planned ''remove'' 2 ''uuuu'' (Inr scenario_detail)"

text \<open>The answer of a run that is known to succeed; one evaluation shows that it does and what it answers.\<close>

definition answered :: "db \<times> (string, 'a) result \<Rightarrow> 'a" where
  "answered r = (case snd r of Inr x \<Rightarrow> x | Inl e \<Rightarrow> undefined)"

lemma answered_eq: "(case snd r of Inr x \<Rightarrow> P x | Inl e \<Rightarrow> False) \<Longrightarrow> r = (fst r, Inr (answered r)) \<and> P (answered r)"
  by (cases r) (auto simp: answered_def split: sum.splits)

definition created_db :: db where
  "created_db = fst (execute_planned ''op'' ''op'' create_planned claimed_db)"

definition created_step :: OperationStepRow where
  "created_step = answered (execute_planned ''op'' ''op'' create_planned claimed_db)"

definition workflow_db :: db where
  "workflow_db = fst (execute_planned ''op'' ''op'' link_planned created_db)"

definition failed_step :: OperationStepRow where
  "failed_step = answered (execute_planned ''op'' ''op'' link_planned created_db)"

lemma create_run:
  "execute_planned ''op'' ''op'' create_planned claimed_db = (created_db, Inr created_step)
   \<and> s_status created_step = S_succeeded \<and> \<not> isJournalDegradedStep created_step"
  unfolding created_db_def created_step_def by (rule answered_eq) code_simp

lemma link_run:
  "execute_planned ''op'' ''op'' link_planned created_db = (workflow_db, Inr failed_step)
   \<and> s_status failed_step = S_definitive_failed"
  unfolding workflow_db_def failed_step_def by (rule answered_eq) code_simp

lemma workflow_started: "map_option ru_status (getOperationRun ''op'' claimed_db) = Some O_executing"
  by code_simp

lemma workflow_run:
  "executeMutationWorkflow demo_callbacks ''create_tag'' ''op'' ''op'' [create_planned, link_planned, third_planned] claimed_db
   = (workflow_db, Inr (JObj [(''partial'', JNum 1)]))"
proof -
  have k: "es_kind (pl_step create_planned) = Primary" "es_kind (pl_step link_planned) = Primary"
    by (simp_all add: create_planned_def link_planned_def demo_planned_def demo_step_def)
  note c = create_run [THEN conjunct1] create_run [THEN conjunct2, THEN conjunct1] create_run [THEN conjunct2, THEN conjunct2]
  from executed_step [OF k(1) c executed_none]
  have "executed_in_order ''op'' ''op'' [create_planned] claimed_db [created_step] created_db" .
  from executed_prefix [OF this, of _ _ _ "[]" "[link_planned, third_planned]"] k link_run
  show ?thesis
    by (simp add: executeMutationWorkflow_def workflow_started execute_planned_def stop_receipt_def demo_callbacks_def)
qed

lemma demo_dispatch_follows: "follows_store (demo_dispatch k answer)"
  by (simp add: follows_store_def demo_dispatch_def markOperationStepDispatched_good)

text \<open>The first of its steps, alone.\<close>

definition begun_db :: db where
  "begun_db = fst (before_dispatch (scenario_env 400) ''op'' ''op'' (demo_step ''create'' 0) claimed_db)"

definition begun_step :: OperationStepRow where
  "begun_step = fst (answered (before_dispatch (scenario_env 400) ''op'' ''op'' (demo_step ''create'' 0) claimed_db))"

lemma demo_begun:
  "before_dispatch (scenario_env 400) ''op'' ''op'' (demo_step ''create'' 0) claimed_db = (begun_db, Inr (begun_step, JUndef))"
proof -
  have "before_dispatch (scenario_env 400) ''op'' ''op'' (demo_step ''create'' 0) claimed_db
    = (begun_db, Inr (answered (before_dispatch (scenario_env 400) ''op'' ''op'' (demo_step ''create'' 0) claimed_db)))
    \<and> snd (answered (before_dispatch (scenario_env 400) ''op'' ''op'' (demo_step ''create'' 0) claimed_db)) = JUndef"
    unfolding begun_db_def by (rule answered_eq) code_simp
  then show ?thesis by (simp add: begun_step_def prod_eq_iff)
qed

section \<open>The gate of a plan of two primaries\<close>

definition open_plan :: plan_scope where
  "open_plan = new_scope [(''create'', Primary), (''link'', Primary)]"

definition sent_plan :: plan_scope where
  "sent_plan = fst (commit_dispatch False False (fst (authorize_answer 0 Auth_allows False
     (fst (authorize_call (fst (begin_step ''create'' 0 Primary False open_plan)))))))"

text \<open>The first step ends well; the second begins but its runner throws before any dispatch.\<close>

definition failed_plan :: plan_scope where
  "failed_plan = fst (end_step 1 (Run_throws Other_failure) (fst (begin_step ''link'' 1 Primary False
     (fst (end_step 0 Run_returns sent_plan)))))"

definition done_plan :: plan_scope where
  "done_plan = fst (end_step 1 Run_returns (fst (commit_dispatch False False (fst (authorize_answer 1 Auth_allows False
     (fst (authorize_call (fst (begin_step ''link'' 1 Primary False (fst (end_step 0 Run_returns sent_plan)))))))))))"

lemma scope_reachable_step: "scope_reachable ps s \<Longrightarrow> scope_step s s' \<Longrightarrow> scope_reachable ps s'"
  unfolding scope_reachable_def by (rule rtranclp.rtrancl_into_rtrancl)

lemma plan_start: "scope_reachable [(''create'', Primary), (''link'', Primary)] open_plan"
  by (simp add: scope_reachable_def open_plan_def)

lemma plan_sent: "scope_reachable [(''create'', Primary), (''link'', Primary)] sent_plan"
proof -
  have "0 < length (descriptors (fst (authorize_call (fst (begin_step ''create'' 0 Primary False open_plan)))))" by code_simp
  from scope_reachable_step [OF scope_reachable_step [OF scope_reachable_step [OF scope_reachable_step [OF plan_start
        scope_step.begins] scope_step.authorizes] scope_step.authorized [OF this]] scope_step.commits]
  show ?thesis unfolding sent_plan_def .
qed

lemma plan_second:
  "scope_reachable [(''create'', Primary), (''link'', Primary)]
     (fst (begin_step ''link'' 1 Primary False (fst (end_step 0 Run_returns sent_plan))))"
proof -
  have "scope_active sent_plan = Some 0" by code_simp
  from scope_reachable_step [OF scope_reachable_step [OF plan_sent scope_step.ends [OF this]] scope_step.begins] show ?thesis .
qed

lemma plan_failed: "scope_reachable [(''create'', Primary), (''link'', Primary)] failed_plan"
proof -
  have "scope_active (fst (begin_step ''link'' 1 Primary False (fst (end_step 0 Run_returns sent_plan)))) = Some 1"
    by code_simp
  from scope_reachable_step [OF plan_second scope_step.ends [OF this]] show ?thesis unfolding failed_plan_def .
qed

lemma plan_done: "scope_reachable [(''create'', Primary), (''link'', Primary)] done_plan"
proof -
  let ?s = "fst (begin_step ''link'' 1 Primary False (fst (end_step 0 Run_returns sent_plan)))"
  let ?t = "fst (authorize_answer 1 Auth_allows False (fst (authorize_call ?s)))"
  have l: "1 < length (descriptors (fst (authorize_call ?s)))" by code_simp
  have a: "scope_active (fst (commit_dispatch False False ?t)) = Some 1" by code_simp
  from scope_reachable_step [OF scope_reachable_step [OF scope_reachable_step [OF scope_reachable_step [OF plan_second
        scope_step.authorizes] scope_step.authorized [OF l]] scope_step.commits] scope_step.ends [OF a]]
  show ?thesis unfolding done_plan_def .
qed

lemma plan_eval:
  "network sent_plan = [0]" "network done_plan = [0, 1]" "close_scope True (\<lambda>k. False) done_plan = Inr ()"
  "is_primary done_plan 1" "network failed_plan = [0]" "is_primary failed_plan 1" "ds_status (ds failed_plan 1) = D_failed"
  by code_simp+

end
