(* ===== verification/CommitScenario.thy ===== *)
theory CommitScenario
  imports CommitPath ConfirmScenario WorkflowScenario "HOL-Library.Code_Target_Nat"
begin

text \<open>Two confirmations of one intent, and a workflow whose second step throws before it is dispatched.\<close>

section \<open>One key, two confirmations\<close>

definition keyed_db :: db where
  "keyed_db = after (markConfirmationExecuting (scenario_env 210) ''p1'' lone_db)"

definition first_call :: ledger_call where
  "first_call = \<lparr>lc_at = 210, lc_claimFault = False, lc_lookupFault = False, lc_releaseFault = False\<rparr>"

definition paid_db :: db where
  "paid_db = fst (ledger_claim demo_claims ''p1'' 210 ''key'' keyed_db)"

definition paid_receipt :: jsv where
  "paid_receipt = JObj [(''ok'', JBool True), (''action'', JStr ''create_tag'')]"

definition pay :: "db \<Rightarrow> db \<times> (thrown, jsv) result" where
  "pay d = (d, Inr paid_receipt)"

lemma paid_claim: "ledger_claim demo_claims ''p1'' (lc_at first_call) ''key'' keyed_db = (paid_db, Inr won)"
proof -
  have "snd (ledger_claim demo_claims ''p1'' 210 ''key'' keyed_db) = Inr won" by code_simp
  then show ?thesis by (simp add: paid_db_def first_call_def prod_eq_iff)
qed

lemma paid_keeps: "\<not> releases_claim (commit_receipt ''create_tag'' (Inr paid_receipt))"
  by code_simp

text \<open>The second confirmation of the intent, a minute later.\<close>

lemma second_answer:
  "snd (commitViaAtomicLedger demo_claims ''p2'' (first_call\<lparr>lc_at := 60210\<rparr>) ''create_tag'' ''key'' pay paid_db) = commitInProgress ''create_tag''"
  by code_simp

section \<open>A fault between two steps\<close>

text \<open>The second step cannot be prepared: its index is taken.\<close>

definition clashing_planned :: planned where
  "clashing_planned = demo_planned ''link'' 0 ''uuu'' (Inr scenario_detail)"

lemma clashing_run:
  "\<exists>d' e. execute_planned ''op'' ''op'' clashing_planned created_db = (d', Inl e)"
proof -
  have "case snd (execute_planned ''op'' ''op'' clashing_planned created_db) of Inl e \<Rightarrow> True | Inr s \<Rightarrow> False" by code_simp
  then show ?thesis by (cases "execute_planned ''op'' ''op'' clashing_planned created_db") (auto split: sum.splits)
qed

lemma created_in_order: "executed_in_order ''op'' ''op'' [create_planned] claimed_db [created_step] created_db"
proof -
  have k: "es_kind (pl_step create_planned) = Primary"
    by (simp add: create_planned_def demo_planned_def demo_step_def)
  note c = create_run [THEN conjunct1] create_run [THEN conjunct2, THEN conjunct1] create_run [THEN conjunct2, THEN conjunct2]
  show ?thesis using executed_step [OF k c executed_none] .
qed

lemma clashing_primary: "es_kind (pl_step clashing_planned) = Primary"
  by (simp add: clashing_planned_def demo_planned_def demo_step_def)

end
