(* ===== verification/Spec2Isabelle.thy ===== *)
theory Spec2Isabelle
  imports Policy GuardScenario CommitScenario
begin

text \<open>
  \<^bold>\<open>The durable write path of the Clockify AI assistant.\<close>

  \<^bold>\<open>The program.\<close> The add-on lets a workspace admin chat with a model that proposes changes to a
  Clockify workspace. A risky change is first \<^emph>\<open>previewed\<close>: the preview, the exact operation and a
  mutation plan are stored in SQLite, and a one-use nonce is handed to the browser. A
  confirm passes the \<^emph>\<open>gate\<close> (ownership, expiry, hashes, nonce), \<^emph>\<open>claims\<close> the preview, and
  executes the plan through a \<^emph>\<open>journal\<close> of steps whose dispatch is recorded before the HTTP
  request leaves. Whatever happens, the outcome of each write is one of succeeded, partial,
  definitive_failed or outcome_unknown; after a crash, \<^emph>\<open>recovery\<close> settles what was executing
  from the durable evidence, and \<^emph>\<open>reconciliation\<close> may later resolve an unknown outcome from
  authoritative reads. An \<^emph>\<open>idempotency ledger\<close> makes retries safe, and \<^emph>\<open>batches\<close> confirm several
  previews in order. Around this path stand the admin policy, the sanitizers that decide
  what may be stored or shown, and the process-wide guards that limit calls to the host.

  \<^bold>\<open>The theories\<close>, in the order of their imports; paths are below \<open>src/src/\<close>.

  \<^item> \<open>Prelude\<close>: errors as values (\<open>result\<close>, \<open>and_then\<close>, \<open>fold_result\<close>), tables as lists of rows
    (\<open>sel\<close> is a SELECT by key, \<open>upd_where\<close> an UPDATE), and the interfaces as locales:
    \<open>lifecycle\<close> (the moves a row may make), \<open>step_system\<close> (initial states, steps, invariant) and
    \<open>one_use\<close> (a claim that succeeds once).
  \<^item> \<open>JsValue\<close>: JavaScript values as the code sees them, property access and \<open>JSON.stringify\<close>.
  \<^item> \<open>Policy\<close>: \<open>harness/permissions.ts\<close>, \<open>harness/risk.ts\<close>.
  \<^item> \<open>SafeJson\<close>: \<open>harness/safe-json.ts\<close>, the sanitizers and the exact durable evidence.
  \<^item> \<open>ActionResults\<close>: \<open>db/action-results.ts\<close>, the bounded summary of a result.
  \<^item> \<open>Discriminators\<close>: \<open>harness/action-discriminators.ts\<close> and the two triggers that mirror it.
  \<^item> \<open>Database\<close>: the rows, constraints and triggers of \<open>db/schema.ts\<close> the store relies on; one
    definition per statement, which aborts where SQLite would. \<open>StoreInvariant\<close>: the
    invariant \<open>store_ok\<close>, the lifecycles of confirmations, runs and steps, and the rules that
    show that a statement keeps both (\<open>good_step\<close>).
  \<^item> \<open>ConfirmationGate\<close>: \<open>harness/confirmations.ts\<close>; \<open>Confirmations\<close>: \<open>db/store/confirmations.ts\<close>;
    \<open>Journal\<close>: \<open>db/store/operation-runs.ts\<close>; \<open>Idempotency\<close>: \<open>db/store/idempotency.ts\<close>;
    \<open>Batches\<close>: \<open>db/store/confirmation-batches.ts\<close>; \<open>Reconciliation\<close>: the startup reconciliation
    of \<open>db/store/operation-runs.ts\<close>; \<open>Recovery\<close>: \<open>recoverOrphanedRuns\<close> of \<open>db/store.ts\<close>.
  \<^item> \<open>StoreSystem\<close>: the store as a transition system whose steps are the committed operations,
    in any interleaving; the interpretation of \<open>step_system\<close> on it.
  \<^item> \<open>Scenario\<close>: one confirmed action evaluated through the store, the concrete inputs of the
    witnesses.

  The process-wide guards stand beside the store and share \<open>Prelude\<close> and the row type of assistant runs:

  \<^item> \<open>RateLimit\<close>: \<open>routes/rate-limit.ts\<close>, with a reference that forgets nothing.
  \<^item> \<open>RunLedger\<close>: \<open>assistant-v2/budgets.ts\<close> and the durable host-call ledger of \<open>db/store.ts\<close>
    (\<open>chargeRunHostCall\<close>, \<open>refundRunHostCall\<close>, \<open>convertReservedRunHostCall\<close>).
  \<^item> \<open>HostBudget\<close>, \<open>Governor\<close>, \<open>GovernorInvariant\<close>, \<open>GovernorDrain\<close>, \<open>GovernorSafety\<close>:
    \<open>clockify/request-governor.ts\<close>. A call of \<open>run\<close> is charged to a budget and to the ledger, queued,
    and dispatched by \<open>drain\<close>. Every entry of the event loop is one step of \<open>governor_step\<close>.
    The locale \<open>draining\<close> is what the closures of a request assume of \<open>drain\<close>.
  \<^item> \<open>Monitors\<close>: \<open>clockify/host-throttle-monitor.ts\<close>, \<open>clockify/token-rejection-monitor.ts\<close>.
  \<^item> \<open>Coordinator\<close>: \<open>clockify/workspace-mutation-coordinator.ts\<close>; \<open>KeyedFifo\<close>: its lifecycle queue and
    \<open>routes/fifo-lock.ts\<close>.
  \<^item> \<open>GuardScenario\<close>: concrete runs of the guards.

  The write path runs on the journal and behind the guards:

  \<^item> \<open>MutationWorkflow\<close>: \<open>harness/mutation-workflow.ts\<close>. A step is prepared and marked executing in the
    journal, its dispatch runs, and the answer is settled; a storage fault of the settlement and of its
    fallback are arguments.
  \<^item> \<open>PlanScope\<close>: the exact-plan gate of \<open>clockify/rest/core.ts\<close> between a step and the network.
  \<^item> \<open>WorkflowScenario\<close>: a workflow of three steps whose second fails, and two runs of the gate.

  The undo of a created entity uses all of these:

  \<^item> \<open>Receipts\<close>: \<open>harness/receipts.ts\<close>; \<open>SafetyLimits\<close>: \<open>harness/safety-limits.ts\<close>, the estimator of host calls
    and the batch ceilings derived from it.
  \<^item> \<open>UndoStore\<close>: \<open>db/store/undo.ts\<close>, the ledger of undo records and the life of a record, with
    interpretations of \<open>lifecycle\<close>, \<open>one_use\<close> and \<open>step_system\<close>.
  \<^item> \<open>UndoWorkflow\<close>: \<open>harness/undo.ts\<close>. The plan of an undo, its loop over \<open>executeStep\<close> and its report; the host
    calls and the gate are arguments.
  \<^item> \<open>UndoService\<close>: \<open>services/undo-service.ts\<close> and \<open>executeUndoCommit\<close> of \<open>services/confirmation-service.ts\<close>.
  \<^item> \<open>UndoScenario\<close>: a tag created, recorded and undone.

  The confirmation service puts the gate, the coordinator, the store and the write together:

  \<^item> \<open>RequestGuards\<close>: what the services share. \<open>with_lease\<close> acquires a lease, claims and runs a block whose
    end releases it; a request is a sequence of steps (\<open>perform\<close>, \<open>run_then\<close>), each a transaction of its own,
    so that a step that throws keeps what was committed before it; \<open>settle_twice\<close> is the settlement tried twice.
  \<^item> \<open>JournalFrame\<close>: what a workflow leaves alone, as the locale \<open>journal_property\<close>.
  \<^item> \<open>ConfirmationService\<close>: \<open>confirmSingle\<close> and \<open>dispatchConfirmedPreview\<close> of
    \<open>services/confirmation-service.ts\<close>. The write is an argument; \<open>workflow_write\<close> shows that a workflow of
    \<open>MutationWorkflow\<close> is such a write.
  \<^item> \<open>BatchConfirmation\<close>: \<open>confirmBatch\<close> and \<open>cancelBatch\<close>. \<open>members_done\<close> says how a stretch of the members ran.
  \<^item> \<open>CommitPath\<close>: \<open>executeStoredV2Write\<close> and \<open>commitConfirmedOperation\<close> of \<open>harness/actions.ts\<close> with
    \<open>harness/idempotency.ts\<close>. \<open>stored_write\<close> is the write of a confirmation; \<open>ledger_env\<close> is what other requests
    may do to the ledger while a key is claimed. \<open>CommitScenario\<close>: one intent confirmed twice, and a workflow
    that throws between two steps.
  \<^item> \<open>ConfirmScenario\<close>: a preview of the assistant confirmed on its own, and a batch that an unknown outcome stops.

  \<^bold>\<open>State and operations.\<close> The database is one record \<open>db\<close> with a list of rows per table and a
  counter of the random identifiers drawn; the clock and the source of identifiers are
  the record \<open>env\<close> passed to each call. An operation is a function
  \<open>db \<Rightarrow> (string, db \<times> 'a) result\<close>: \<open>Inl\<close> is a thrown error, upon which the transaction rolls
  back (the caller keeps the old \<open>db\<close>), \<open>Inr\<close> the committed state. Timestamps are
  integers (milliseconds); ISO strings compare like the instants they denote. SHA-256 is a
  parameter \<open>sha256\<close> of the definitions that use it; only the rotation of a nonce needs
  anything of it, that two given nonces do not collide, which is a named hypothesis.
  JSON columns hold the value, not the text, except where a trigger or a hash looks at the text.
  Instances of classes such as \<open>Date\<close> and \<open>Map\<close>, and the enumeration of index-like keys before the
  others, are outside the value model. Storage failures are explicit where the code catches or continues
  after them (the record \<open>faults\<close> of a step, the two settlements of a confirmation).

  \<^bold>\<open>What the lemmas show.\<close> Per theory: that sanitized values hold no secret and no
  serialised buffer, are a part of their input and keep their bounds; that a step of a plan ends with the
  status its answer stands for unless the cancellation or the read-back of its row fails; that the batch
  ceilings agree with the calls reserved for a plan; that an undo reports exactly what was confirmed; that the gate admits exactly the owner of a live preview with the right
  nonce; that each statement and each operation keeps \<open>store_ok\<close> and moves rows only
  along their lifecycles; that the claim of a preview and the dispatch of a step happen
  at most once; that a confirmation dispatches only behind every guard and is recorded as it is
  answered; that an idempotency key commits once per window; that compensation and reconciliation need persisted authority; what recovery
  leaves behind. The properties C1 to C40 below state these over the
  definitions, most important first, each with a witness where it has hypotheses.

  \<^bold>\<open>Bounds and termination.\<close> All definitions are total: loops over rows are folds that stop at
  the first error, and the binary search of the bounded preview ends because its interval
  shrinks. No definition uses fuel. The exception is \<open>drain\<close>, which calls itself through the
  closures of the requests it starts: its fuel is the length of the queue, and \<open>drain_fuel_enough\<close> shows that more
  fuel changes nothing, so that \<open>drain\<close> satisfies the recursion equation of the code.

  \<^bold>\<open>Not modelled.\<close> The routes, the model loop, the REST client and the generated API catalog are
  I/O around this path; the workflows under \<open>harness/workflows\<close> build operations and plans that the
  write path treats as opaque JSON; direct writes of trusted origins, which skip the preview, run
  the same executor; the settlement of the assistant run after a confirmation is an argument of the
  confirmation service; schema migrations run once at startup; the sanitized listing of
  operation runs is a read for display. SQLite itself, Node's crypto and zod are libraries.
\<close>

text \<open>
  \<^bold>\<open>C1.\<close> In every state an execution of the store operations can reach
  from an empty database, row keys are unique, no operation owns two results, every
  confirmation that left pending has lost its nonce, envelope and resume state, and the
  envelope of a settled confirmed operation is erased.
\<close>

theorem reachable_store_ok:
  assumes "fresh_store d0" and "store_step\<^sup>*\<^sup>* d0 d"
  shows "distinct (map c_id (confirmations d)) \<and> distinct (map o_id (runs d)) \<and> distinct (map s_id (steps d))
    \<and> distinct (map a_id (results d)) \<and> distinct (owned_operations (results d))
    \<and> (\<forall>c\<in>set (confirmations d). c_status c \<noteq> C_pending \<longrightarrow> dispatch_payload_scrubbed c)
    \<and> (\<forall>r\<in>set (runs d). envelope_erased r)"
  using store.reachable_inv [OF assms] by (auto simp: store_ok_def payload_ok_iff)

theorem reachable_store_ok_witness:
  "fresh_store blank_db \<and> store_step\<^sup>*\<^sup>* blank_db dispatched_db
   \<and> distinct (map c_id (confirmations dispatched_db)) \<and> distinct (owned_operations (results dispatched_db))"
  using reachable_store_ok [OF blank_fresh scenario_run_to_dispatch] blank_fresh scenario_run_to_dispatch by blast



text \<open>
  \<^bold>\<open>C3.\<close> The one-use claim: once a confirm has claimed a preview, no later
  claim of that preview succeeds, whatever operations other requests committed in between.
\<close>

theorem confirmation_claimed_at_most_once:
  assumes ok: "store_ok d" and claim: "markConfirmationExecuting E k d = Inr (d1, True)"
    and later: "store_step\<^sup>*\<^sup>* d1 d2"
  shows "markConfirmationExecuting E' k d2 \<noteq> Inr (d3, True)"
proof -
  have c: "claims_confirmation k d d1" using claim by (auto simp: claims_confirmation_def)
  have "store_ok d1" by (rule good_step_ok [OF markConfirmationExecuting_good [OF ok claim]])
  from confirmation_claim.at_most_once [OF ok c execution_good [OF later this]] show ?thesis
    by (auto simp: claims_confirmation_def)
qed

theorem confirmation_claimed_at_most_once_witness:
  "markConfirmationExecuting (scenario_env 200) ''c'' pending_db = Inr (claimed_db, True)
   \<and> markConfirmationExecuting (scenario_env 450) ''c'' queued_db \<noteq> Inr (claimed_db, True)"
  using confirmation_claimed_at_most_once [OF pending_ok scenario_claim scenario_queued] scenario_claim by blast

text \<open>
  \<^bold>\<open>C4.\<close> The dispatch point of a journal step is crossed at most once and
  excludes cancellation: after a dispatch or a pre-dispatch cancel has succeeded, every later
  dispatch or cancel of that step is refused and changes nothing, across any interleaving.
\<close>

theorem step_dispatched_or_cancelled_once:
  assumes ok: "store_ok d" and first: "dispatch_or_cancel k d d1" and later: "store_step\<^sup>*\<^sup>* d1 d2"
  shows "markOperationStepDispatched E k oid d2 = (d2, False)
    \<and> cancelOperationStepBeforeDispatch E k v oid d2 = (d2, False)"
proof -
  have "good_step d d1" by (rule dispatch_claim.claim_later [OF ok first])
  then have ok1: "store_ok d1" by (rule good_step_ok)
  have "store_ok d2 \<and> dispatch_spent k d2"
    by (rule dispatch_claim.spent_forever [OF execution_good [OF later ok1] ok1 dispatch_claim.claim_spends [OF ok first]])
  then show ?thesis by (simp add: dispatch_refused)
qed

theorem step_dispatched_or_cancelled_once_witness:
  "markOperationStepDispatched (scenario_env 500) ''st'' (Some ''op'') queued_db = (dispatched_db, True)
   \<and> cancelOperationStepBeforeDispatch (scenario_env 550) ''st'' JNull (Some ''op'') dispatched_db = (dispatched_db, False)"
proof -
  have "dispatch_or_cancel ''st'' queued_db dispatched_db"
    using scenario_dispatch by (auto simp: dispatch_or_cancel_def dispatches_step_def)
  from step_dispatched_or_cancelled_once [OF queued_ok this rtranclp.rtrancl_refl] scenario_dispatch
  show ?thesis by blast
qed

text \<open>
  \<^bold>\<open>C5.\<close> A startup recovery that commits leaves no executing confirmation,
  run or step and no run in an active phase: a step with durable dispatch evidence becomes
  outcome_unknown, an executing step without it definitive_failed, a compensating source stays
  succeeded, every other step is untouched, and the store keeps its invariant.
\<close>

theorem recovery_settles_by_dispatch_evidence:
  assumes "store_ok d" and "recoverOrphanedRuns E d = Inr (d', report)"
  shows "store_ok d'
    \<and> (\<forall>c\<in>set (confirmations d'). c_status c \<noteq> C_executing) \<and> (\<forall>r\<in>set (runs d'). o_status r \<noteq> O_executing)
    \<and> (\<forall>s\<in>set (steps d'). s_status s \<noteq> S_executing \<and> s_status s \<noteq> S_compensating)
    \<and> steps d' = map (settled_step (now E)) (steps d)
    \<and> \<not> list_ex (\<lambda>r. orphaned_phase (r_phase r)) (assistant_runs d')"
  using recoverOrphanedRuns_settles [OF assms]
  by (auto simp: good_step_def executing_ids_def executing_runs_def settled_step_def)

theorem recovery_settles_by_dispatch_evidence_witness:
  "recoverOrphanedRuns (scenario_env 600) dispatched_db = Inr (recovered_db, scenario_report)
   \<and> steps recovered_db = map (settled_step 600) (steps dispatched_db)"
  using recovery_settles_by_dispatch_evidence [OF dispatched_ok scenario_recover] scenario_recover
  by (simp add: scenario_env_def)

text \<open>
  \<^bold>\<open>C6.\<close> In every state the request governor can reach, the number of
  active requests is the number of started requests that have not given their slot back and
  never exceeds the concurrency limit, at most one of them is a mutation, and no window of a
  second holds more starts than the rate cap.
\<close>

theorem governor_limits_hold:
  assumes "governor_reachable opt (t, g)"
  shows "active g = int (count_rq holds_slot g) \<and> active g \<le> concurrency opt \<and> count_rq holds_mutation g \<le> 1
    \<and> spaced (nat (rateCap opt)) 1000 (start_log g)"
  using reachable_good [OF assms] by (simp add: governor_good_def governor_inv_def slots_ok_def rate_ok_def)

theorem governor_limits_hold_witness:
  "active busy_governor = 1 \<and> count_rq holds_mutation busy_governor \<le> 1
   \<and> spaced (nat (rateCap default_options)) 1000 [5]"
  using governor_limits_hold [OF busy_reachable] busy_governor_eval by simp

text \<open>
  \<^bold>\<open>C7.\<close> A mutation workflow either executes every primary step with
  success and reports success, or ends at the first step that throws, does not succeed, or
  succeeds with a degraded record; the result is then the report of that step, the database is
  as that step left it, and no later step is executed.
\<close>

theorem workflow_stops_at_first_failure:
  assumes "map_option ru_status (getOperationRun op d) = Some O_executing"
    and "executeMutationWorkflow cb a op op ps d = (d', r)"
  shows "(\<exists>ss. executed_in_order op op ps d ss d' \<and> r = Inr (onSuccess cb ss))
    \<or> (\<exists>ps1 p ps2 ss d1. ps = ps1 @ p # ps2 \<and> executed_in_order op op ps1 d ss d1 \<and> es_kind (pl_step p) = Primary
        \<and> ((\<exists>e. execute_planned op op p d1 = (d', Inl e) \<and> r = Inl e)
           \<or> (\<exists>s. execute_planned op op p d1 = (d', Inr s) \<and> ends_workflow s
                \<and> r = Inr (step_report cb a (length (filter (\<lambda>q. es_kind (pl_step q) = Primary) ps)) ss s))))"
  using run_primaries_cases [of cb a op op _ "[]" ps d d' r] assms by (simp add: executeMutationWorkflow_def)

theorem workflow_stops_at_first_failure_witness:
  "\<exists>ps1 p ps2 ss d1. [create_planned, link_planned, third_planned] = ps1 @ p # ps2 \<and> executed_in_order ''op'' ''op'' ps1 claimed_db ss d1
     \<and> (\<exists>s. execute_planned ''op'' ''op'' p d1 = (workflow_db, Inr s) \<and> ends_workflow s)"
proof -
  have "JObj [(''partial'', JNum 1)] \<noteq> onSuccess demo_callbacks ss" for ss by (simp add: demo_callbacks_def)
  with workflow_stops_at_first_failure [OF workflow_started workflow_run] show ?thesis by blast
qed

text \<open>
  \<^bold>\<open>C8.\<close> Once the host call of a step has started, provided it leaves a
  store that the operations of the store could have made, the executor returns a step whose
  status is the one the answer stands for, a success exactly when the host answered with
  success, even when the settlement and its degraded fallback both fail. It rejects in two
  cases only: with the error of the cancellation of an unsent step, which then changed
  nothing, and with the error of the read-back, the row being stored with that status. The
  store stays one that the operations could have made.
\<close>

theorem step_status_follows_the_answer:
  assumes "store_ok d" and "follows_store host_call"
    and "before_dispatch E jop op step d = (d1, Inr (executing, prepared))" and "host_call d1 = (d2, reply)"
    and "executeStep E E' F jop op step host_call d = (d', r)"
  shows "good_step d d'
    \<and> (case r of
         Inr s \<Rightarrow> s_id s = s_id executing \<and> s_status s = answer_status op (s_id executing) reply d2
           \<and> (s_status s = S_succeeded) = (\<exists>outcome. reply = Inr outcome)
           \<and> (reply = Inl T_request_cancelled \<longrightarrow> cancel_fault F = None)
       | Inl m \<Rightarrow> reply = Inl T_request_cancelled \<and> cancel_fault F = Some m \<and> d' = d2
           \<or> read_fault F = Some m
             \<and> (\<exists>row. sel s_id (s_id executing) (steps d') = Some row
                  \<and> s_status row = answer_status op (s_id executing) reply d2))"
proof -
  note out = executeStep_outcome [OF assms(1-4), where E' = E' and F = F]
  have g: "good_step d d'" using executeStep_good [OF assms(1,2), of E E' F jop op step] assms(5) by simp
  show ?thesis
  proof (cases "reply = Inl T_request_cancelled \<and> cancel_fault F \<noteq> None")
    case True
    with out(2) assms(5) g show ?thesis by auto
  next
    case False
    with out(3) assms(5) have "returned F (s_id executing) (answer_status op (s_id executing) reply d2) (d', r)" by auto
    with g False show ?thesis
      by (cases r) (auto simp: holds_status_def answer_status_def split: sum.splits if_splits)
  qed
qed

theorem step_status_follows_the_answer_witness:
  "(\<exists>d' s. executeStep (scenario_env 400) (scenario_env 600)
        (no_faults\<lparr>settle_fault := Some (T_error ''Error'' ''full''), fallback_fault := Some (T_error ''Error'' ''full'')\<rparr>)
        ''op'' ''op'' (demo_step ''create'' 0) (demo_dispatch ''uu'' (Inr scenario_detail)) claimed_db = (d', Inr s) \<and> s_status s = S_succeeded)
   \<and> (\<forall>d' s. executeStep (scenario_env 400) (scenario_env 600) (no_faults\<lparr>cancel_fault := Some ''full''\<rparr>)
        ''op'' ''op'' (demo_step ''create'' 0) (demo_dispatch ''uu'' (Inl T_request_cancelled)) claimed_db \<noteq> (d', Inr s))"
proof -
  have call: "demo_dispatch ''uu'' reply begun_db = (fst (demo_dispatch ''uu'' reply begun_db), reply)" for reply
    by (simp add: demo_dispatch_def)
  have step: "executeStep (scenario_env 400) E' F ''op'' ''op'' (demo_step ''create'' 0) (demo_dispatch ''uu'' reply) claimed_db = (d', r)
      \<Longrightarrow> (case r of Inr s \<Rightarrow> (s_status s = S_succeeded) = (\<exists>outcome. reply = Inr outcome)
                     \<and> (reply = Inl T_request_cancelled \<longrightarrow> cancel_fault F = None)
                 | Inl m \<Rightarrow> reply = Inl T_request_cancelled \<and> cancel_fault F = Some m \<or> read_fault F = Some m)" for E' F reply d' r
    using step_status_follows_the_answer [OF claimed_ok demo_dispatch_follows demo_begun call, of E' F reply d' r] by (cases r) auto
  let ?run = "\<lambda>F reply. executeStep (scenario_env 400) (scenario_env 600) F ''op'' ''op'' (demo_step ''create'' 0) (demo_dispatch ''uu'' reply) claimed_db"
  let ?F = "no_faults\<lparr>settle_fault := Some (T_error ''Error'' ''full''), fallback_fault := Some (T_error ''Error'' ''full'')\<rparr>"
  obtain da ra where a: "?run ?F (Inr scenario_detail) = (da, ra)" by fastforce
  from step [OF a] obtain s where "ra = Inr s" "s_status s = S_succeeded"
    by (cases ra) (auto simp: no_faults_def)
  moreover have "?run (no_faults\<lparr>cancel_fault := Some ''full''\<rparr>) (Inl T_request_cancelled) \<noteq> (db, Inr t)" for db t
    using step [of _ "no_faults\<lparr>cancel_fault := Some ''full''\<rparr>" "Inl T_request_cancelled" db "Inr t"] by auto
  ultimately show ?thesis using a by blast
qed

text \<open>
  \<^bold>\<open>C9.\<close> Behind the gate of an exact plan no step sends its mutation
  twice, primaries are sent in plan order without gaps, and a scope that closes as complete
  has sent every primary that no authoritative read has settled.
\<close>

theorem plan_steps_reach_the_network_once_in_order:
  assumes "scope_reachable ps s"
  shows "distinct (network s) \<and> sorted_wrt (<) (filter (is_primary s) (network s))
    \<and> (\<forall>i\<in>set (network s). is_primary s i \<longrightarrow> (\<forall>j<i. is_primary s j \<longrightarrow> j \<in> set (network s)))
    \<and> (close_scope True reconciled s = Inr () \<longrightarrow>
         (\<forall>i. is_primary s i \<longrightarrow> ds_status (ds s i) = D_completed \<and> i \<in> set (network s) \<or> reconciled (ds_id (ds s i))))"
  using dispatch_order [OF scope_reachable_ok [OF assms]] closed_scope_complete [OF scope_reachable_ok [OF assms]] by blast

theorem plan_steps_reach_the_network_once_in_order_witness:
  "network done_plan = [0, 1] \<and> distinct (network done_plan) \<and> ds_status (ds done_plan 1) = D_completed"
  using plan_steps_reach_the_network_once_in_order [OF plan_done, of "\<lambda>k. False"] plan_eval(2,3,4) by blast



text \<open>
  \<^bold>\<open>C11.\<close> When a confirmation answers with the outcome of its write, the
  store agrees with the answer: with a result reference the preview, its operation and the
  result all carry the reported status and point to that result; without one (both settlements
  failed) the preview is still claimed and its result is the unknown outcome written before
  the dispatch. The store is well formed.
\<close>

theorem confirm_is_recorded:
  assumes "store_ok d" and "confirm_world_ok w m r"
    and "confirmSingle sha256 deps claims w m r nonce c d = (c', d', Inr (Confirmed x))"
  shows "store_ok d' \<and> (case dc_resultRef x of
      Some ref \<Rightarrow> settled_as (p_id r) (dc_status x) ref d' | None \<Rightarrow> claim_open (p_id r) d')"
  by (rule confirmSingle_records [OF assms])

theorem confirm_is_recorded_witness:
  "\<exists>ref. dc_resultRef lone_outcome = Some ref \<and> settled_as ''p1'' R_succeeded ref confirmed_db"
  using confirm_is_recorded [OF lone_ok demo_world_ok lone_confirmed] lone_result lone_status lone_id by auto

text \<open>
  \<^bold>\<open>C12.\<close> A confirmation that is rejected has not run its write: with any
  other write in its place the answer, the store and the coordinator are the same. In
  particular a wrong nonce, a foreign session, a stale operation, a denied group, missing
  authority, a revoked lease and a lost claim never reach the host.
\<close>

theorem rejected_confirm_never_writes:
  assumes "confirmSingle sha256 deps claims w m r nonce c d = (c', d', Inr (Confirm_rejected status code))"
  shows "confirmSingle sha256 deps claims w (m\<lparr>cm_write := other\<rparr>) r nonce c d = (c', d', Inr (Confirm_rejected status code))"
  by (rule confirmSingle_rejected [OF assms])

theorem rejected_confirm_never_writes_witness:
  "confirmSingle head_digest demo_deps demo_claims confirm_request (demo_call\<lparr>cm_write := unknown_write\<rparr>) lone_record ''m'' new_coordinator lone_db
     = (new_coordinator, lone_db, Inr (Confirm_rejected 400 ''invalid_confirmation''))"
  by (rule rejected_confirm_never_writes [OF lone_rejected])

text \<open>
  \<^bold>\<open>C13.\<close> When the loop of a confirmed batch stops early, every member
  before the last reported one was replayed or ended with a known outcome, the last one ended
  unknown, no member after it is pending any more, so none can be dispatched, and the batch is
  recorded as outcome_unknown.
\<close>

theorem confirm_all_stops_at_unknown:
  assumes "confirm_members X n ms [] False d = (d', Inr (Loop_stopped outs lost))"
  shows "\<exists>ms1 item nonce m ms2 outs1 d1 x l. ms = ms1 @ (item, nonce, m) # ms2 \<and> outs = outs1 @ [x]
    \<and> members_done X n ms1 d outs1 d1 \<and> confirm_member X m (n + int (length ms1)) item nonce d1 = (d', Inr (Member_done x l))
    \<and> io_status x = R_outcome_unknown
    \<and> (\<forall>i\<in>set (items d'). bi_batch_id i = bx_batchId X \<and> n + int (length ms1) < bi_item_index i \<longrightarrow> bi_status i \<noteq> I_pending)
    \<and> (\<forall>b. sel b_id (bx_batchId X) (batches d') = Some b \<longrightarrow> b_status b = B_outcome_unknown)"
proof -
  from confirm_members_cases [OF assms] obtain ms1 item nonce m ms2 outs1 d1 x l where r: "ms = ms1 @ (item, nonce, m) # ms2"
    "outs = outs1 @ [x]" "members_done X n ms1 d outs1 d1"
    "confirm_member X m (n + int (length ms1)) item nonce d1 = (d', Inr (Member_done x l))" "io_status x = R_outcome_unknown" by auto
  from member_unknown_effect [OF r(4,5)] have e: "\<forall>i\<in>set (items d'). bi_batch_id i = bx_batchId X \<and> n + int (length ms1) < bi_item_index i
      \<longrightarrow> bi_status i \<noteq> I_pending" "\<forall>b. sel b_id (bx_batchId X) (batches d') = Some b \<longrightarrow> b_status b = B_outcome_unknown"
    by (auto simp: live_member_def)
  with r show ?thesis by blast
qed

theorem confirm_all_stops_at_unknown_witness:
  "\<exists>d' x. confirm_members demo_context 0 demo_members [] False started_pair_db = (d', Inr (Loop_stopped [x] False))
     \<and> io_status x = R_outcome_unknown \<and> (\<forall>b. sel b_id ''b'' (batches d') = Some b \<longrightarrow> b_status b = B_outcome_unknown)"
proof -
  from members_count(2) obtain x where x: "stopped_outcomes = [x]" by (cases stopped_outcomes) auto
  have "io_status x = R_outcome_unknown" using members_count(2) unfolding x by simp
  moreover have "bx_batchId demo_context = ''b''" by (simp add: demo_context_def)
  then have "\<forall>b. sel b_id ''b'' (batches (fst stopped_run)) = Some b \<longrightarrow> b_status b = B_outcome_unknown"
    using confirm_all_stops_at_unknown [OF members_stopped] by auto
  ultimately show ?thesis using members_stopped [unfolded x] by blast
qed

text \<open>
  \<^bold>\<open>C14.\<close> Confirming a batch never waives a check: a member is dispatched
  only when its item is pending, its own preview is a batch preview the gate allows with the
  nonce of that member, the stored operation carries a plan, the preview and the operation it
  binds are of the current generation of the installation, the run of its operation is still
  prepared and has the run, executor, action fingerprint, catalog hash and operation hash of
  the preview, the operation is a permission change or the policy lets its feature group
  write, and its own claim was won.
\<close>

theorem batch_member_passes_its_own_gate:
  assumes "confirm_member X m n item nonce d = (d', Inr (Member_done x lost))"
  shows "bi_status item = I_pending
    \<and> (\<exists>r d1 r' run d2. getPendingConfirmation (mc_read m) (bi_confirmation_id item) d = Inr (d1, Some r)
         \<and> isV2AssistantBatchConfirmation r
         \<and> validate_confirmation (bx_sha256 X) (bx_deps X) (bx_claims X) (now (mc_now m)) r
             (case nonce of None \<Rightarrow> ''undefined'' | Some k \<Rightarrow> k) = Inr (Allowed r')
         \<and> js_truthy (getp ''mutationPlan'' (p_operation r))
         \<and> p_installationGeneration r = Some (in_generation (bx_installation X))
         \<and> getp ''installationGeneration'' (p_operation r) = JNum (in_generation (bx_installation X))
         \<and> getOperationRun (p_operationId r) d1 = Some run \<and> ru_status run = O_prepared
         \<and> d_runId (ru_disc run) = p_runId r \<and> d_executorKind (ru_disc run) = p_executorKind r
         \<and> ru_actionFingerprint run = p_actionFingerprint r \<and> ru_catalogHash run = p_catalogHash r
         \<and> ru_operationHash run = p_operationHash r
         \<and> (json_includes ''permission_change'' (getp ''risks'' (p_operation r)) = Inr True
            \<or> canWrite (mc_policy m) (string_or [] (getp ''featureGroup'' (p_operation r))))
         \<and> markConfirmationExecuting (cm_claim (mc_call m)) (p_id r) d1 = Inr (d2, True))"
proof -
  obtain r d1 r' where r: "getPendingConfirmation (mc_read m) (bi_confirmation_id item) d = Inr (d1, Some r)" "bi_status item = I_pending"
    "isV2AssistantBatchConfirmation r"
    "validate_confirmation (bx_sha256 X) (bx_deps X) (bx_claims X) (now (mc_now m)) r
       (case nonce of None \<Rightarrow> ''undefined'' | Some k \<Rightarrow> k) = Inr (Allowed r')"
    and passed: "member_refusal (bx_installation X) (mc_policy m) r d1 = Inr None"
    and dm: "dispatch_member X m n r d1 = (d', Inr (Member_done x lost))"
    by (rule confirm_member_done [OF assms])
  obtain d2 where claim: "markConfirmationExecuting (cm_claim (mc_call m)) (p_id r) d1 = Inr (d2, True)"
    by (rule dispatch_member_done [OF dm])
  from passed obtain run b where run: "getOperationRun (p_operationId r) d1 = Some run" "preparedAssistantPreviewMatchesConfirmation run r"
    and p: "storedPlannedOperation (p_operation r)" "current_generation (bx_installation X) r"
    and w: "json_includes ''permission_change'' (getp ''risks'' (p_operation r)) = Inr b"
      "b \<or> canWrite (mc_policy m) (string_or [] (getp ''featureGroup'' (p_operation r)))"
    unfolding member_refusal_None by blast
  have "ru_status run = O_prepared \<and> d_runId (ru_disc run) = p_runId r \<and> d_executorKind (ru_disc run) = p_executorKind r
      \<and> ru_actionFingerprint run = p_actionFingerprint r \<and> ru_catalogHash run = p_catalogHash r \<and> ru_operationHash run = p_operationHash r"
    using run(2) by (simp add: preparedAssistantPreviewMatchesConfirmation_def)
  moreover have "js_truthy (getp ''mutationPlan'' (p_operation r))" "p_installationGeneration r = Some (in_generation (bx_installation X))"
    "getp ''installationGeneration'' (p_operation r) = JNum (in_generation (bx_installation X))"
    using p by (simp_all add: storedPlannedOperation_def current_generation_def)
  moreover have "json_includes ''permission_change'' (getp ''risks'' (p_operation r)) = Inr True
      \<or> canWrite (mc_policy m) (string_or [] (getp ''featureGroup'' (p_operation r)))"
    using w by auto
  ultimately show ?thesis using r run(1) claim by blast
qed

theorem batch_member_passes_its_own_gate_witness:
  "\<exists>r d1 run d2. getPendingConfirmation (mc_read (demo_member 0)) (bi_confirmation_id (fst (hd demo_members))) started_pair_db = Inr (d1, Some r)
     \<and> getOperationRun (p_operationId r) d1 = Some run \<and> ru_operationHash run = p_operationHash r
     \<and> markConfirmationExecuting (cm_claim (mc_call (demo_member 0))) (p_id r) d1 = Inr (d2, True)"
proof -
  obtain d' x lost where "confirm_member demo_context (demo_member 0) 0 (fst (hd demo_members)) (Some ''n'') started_pair_db
      = (d', Inr (Member_done x lost))"
    by (rule first_member_done)
  from batch_member_passes_its_own_gate [OF this] show ?thesis by blast
qed

text \<open>
  \<^bold>\<open>C15.\<close> An intent is committed once per window: after a commit that won
  the claim of its key and ended in anything but a definitive failure, a later commit of the
  same key by the same admin, of any preview and within ten minutes of the claim, answers
  without running its write, whatever other requests claim, refresh, fill and delete
  meanwhile; a crash in the middle and an unknown outcome guard the key like a success.
\<close>

theorem idempotent_commit_runs_once:
  assumes "ledger_claim claims k (lc_at L) key d = (d0, Inr won)" and "\<not> lc_claimFault L" and "act d0 = (d1, r)"
    and "\<not> releases_claim (commit_receipt a r)"
    and "(ledger_env (lc_at L) key (uk_workspaceId claims) (uk_adminUserId claims))\<^sup>*\<^sup>* d0 d1"
    and "(ledger_env (lc_at L) key (uk_workspaceId claims) (uk_adminUserId claims))\<^sup>*\<^sup>* d1 d2"
    and "lc_at L' \<le> lc_at L + IDEMPOTENCY_WINDOW_MS" and "uk_workspaceId claims' = uk_workspaceId claims"
    and "uk_adminUserId claims' = uk_adminUserId claims"
  shows "commitViaAtomicLedger claims k L a key act d = (d1, commit_receipt a r)
    \<and> commitViaAtomicLedger claims' k' L' a' key act' d2 = commitViaAtomicLedger claims' k' L' a' key other d2"
  using assms by (rule key_commits_once)

theorem idempotent_commit_runs_once_witness:
  "\<forall>other. snd (commitViaAtomicLedger demo_claims ''p2'' (first_call\<lparr>lc_at := 60210\<rparr>) ''create_tag'' ''key'' other paid_db)
     = commitInProgress ''create_tag''"
proof
  fix other
  have p: "pay paid_db = (paid_db, Inr paid_receipt)" by (simp add: pay_def)
  have f: "\<not> lc_claimFault first_call" and w: "lc_at (first_call\<lparr>lc_at := 60210\<rparr>) \<le> lc_at first_call + IDEMPOTENCY_WINDOW_MS"
    by (simp_all add: first_call_def IDEMPOTENCY_WINDOW_MS_def)
  from idempotent_commit_runs_once [where act = pay, OF paid_claim f p paid_keeps rtranclp.rtrancl_refl rtranclp.rtrancl_refl w refl refl,
      of "''p2''" "''create_tag''" pay other] second_answer
  show "snd (commitViaAtomicLedger demo_claims ''p2'' (first_call\<lparr>lc_at := 60210\<rparr>) ''create_tag'' ''key'' other paid_db)
      = commitInProgress ''create_tag''" by simp
qed

text \<open>
  \<^bold>\<open>C16.\<close> An undo record is claimed at most once: after one request has
  started its operation, no later request starts another, whatever the operations on the
  ledger, the recovery at startup and the rest of the store do in between; a record that is
  due is never claimed.
\<close>

theorem undo_record_claimed_once:
  assumes "undos_ok d" and "startUndoOperation E k input d = Inr (d1, Some oid)" and "undo_step\<^sup>*\<^sup>* d1 d2"
    and "startUndoOperation E' k input' d2 = Inr (d3, oid')"
  shows "oid' = None \<and> (\<exists>u. sel UndoRow.u_id k (undos d) = Some u \<and> u_status u = U_available \<and> now E < u_expires_at u)"
proof -
  from assms(2) obtain d0 where "markUndoExecuting E k d = (d0, True)" by (cases rule: startUndoOperation_cases) auto
  from markUndoExecuting_effect [OF assms(1) this] undo_claimed_once [OF assms] show ?thesis by blast
qed

theorem undo_record_claimed_once_witness:
  "startUndoOperation (undo_env 200) ''u'' demo_start_input undoable_db = Inr (undo_started_db, Some ''uu'')
   \<and> startUndoOperation (undo_env 300) ''u'' demo_start_input undo_started_db = Inr (undo_started_db, None)"
proof -
  have "case startUndoOperation (undo_env 300) ''u'' demo_start_input undo_started_db of Inr (d, x) \<Rightarrow> d = undo_started_db | Inl e \<Rightarrow> False"
    by code_simp
  then obtain x where x: "startUndoOperation (undo_env 300) ''u'' demo_start_input undo_started_db = Inr (undo_started_db, x)"
    by (auto split: sum.splits)
  with undo_record_claimed_once [OF undoable_ok(2) undo_start_run rtranclp.rtrancl_refl x] undo_start_run show ?thesis by simp
qed

text \<open>
  \<^bold>\<open>C17.\<close> When the commit of an undo returns a result, after one or two
  attempts to settle, the undo record, its durable operation and the result agree: the record
  has the status and the remaining entities of the outcome, the operation the status of the
  result kind, and both point to the same result; the store is well formed.
\<close>

theorem undo_commit_settles_together:
  assumes "store_ok d" and "undos_ok d" and "\<And>i. quiet_call (uc_host (cw_calls w i))"
    and "executeUndoCommit sha256 ch claims w u d = (d', Inr out)" and "uo_resultRef out = Some ref"
  shows "store_ok d' \<and> undos_ok d' \<and> ref_kind ref = undo_kind (uo_status out)
    \<and> (\<exists>v. sel UndoRow.u_id (UndoRow.u_id u) (undos d') = Some v \<and> u_status v = undo_status (uo_status out)
         \<and> entities_of (u_remaining v) = uo_remaining out \<and> u_action_result_id v = Some (ref_id ref))
    \<and> (\<exists>r. sel o_id (uo_operationId out) (runs d') = Some r \<and> o_status r = run_status_of (undo_kind (uo_status out))
         \<and> o_action_result_id r = Some (ref_id ref))"
  by (rule executeUndoCommit_settles [OF assms])

theorem undo_commit_settles_together_witness:
  "\<exists>v. sel UndoRow.u_id ''u'' (undos undone_db) = Some v \<and> u_status v = U_undone \<and> u_action_result_id v = map_option ref_id (uo_resultRef demo_outcome)"
proof -
  obtain ref where r: "uo_resultRef demo_outcome = Some ref" using demo_outcome_eval(3) by auto
  have q: "quiet_call (uc_host (cw_calls demo_world i))" for i
    by (simp add: demo_world_def demo_undo_call_def demo_host_quiet)
  from undo_commit_settles_together [OF undoable_ok q undo_commit_run r] r demo_outcome_eval(1) undoable_row(2)
  show ?thesis by auto
qed

text \<open>
  \<^bold>\<open>C18.\<close> The report of an undo of at least one entity, none of them in a
  denied feature group, is exact. The steps Clockify confirmed, in order from the initial
  store, are the longest such prefix of the plan: the run ended there because the record of
  the last one degraded, the plan was done, the next step could not be prepared, or it was
  executed and not confirmed, and the final store is the one left by that. The receipt names
  as deleted exactly the entities with a confirmed deletion, the others remain, and the undo
  is claimed as complete only when nothing remains.
\<close>

theorem undo_reports_confirmed_deletions:
  assumes "reverseCreationDurably ws policy journal gate ask refs op plan d = (d', Inr res)"
    and "refs \<noteq> []" and "firstDeniedGroup policy refs = None"
  shows "\<exists>confirmed rest degraded d1. undoPlanSteps refs = confirmed @ rest \<and> undo_confirmed op op ask confirmed d degraded d1
    \<and> (degraded \<and> d' = d1 \<or> \<not> degraded \<and> rest = [] \<and> d' = d1
       \<or> \<not> degraded \<and> (\<exists>spec later. rest = spec # later
            \<and> (up_operation spec = Transition \<and> uc_prepared (ask (up_index spec)) = None \<and> d' = d1
               \<or> (\<exists>t. execute_undo_step op op spec (ask (up_index spec)) d1 = (d', Inr t) \<and> s_status t \<noteq> S_succeeded))))
    \<and> ur_remaining res = remainingAfter refs (deleted_by confirmed)
    \<and> (deleted_by confirmed \<noteq> [] \<longrightarrow>
         getp ''deleted'' (getp ''changed'' (ur_receipt res)) = JArr (map entity_json (deleted_by confirmed)))
    \<and> (ur_status res = Undo_undone \<longrightarrow> ur_remaining res = [])"
proof -
  obtain confirmed rest degraded d1 where c: "undoPlanSteps refs = confirmed @ rest" "undo_confirmed op op ask confirmed d degraded d1"
    and fin: "undo_ended op op ask rest degraded d1 d'"
    and res: "ur_remaining res = remainingAfter refs (deleted_by confirmed)"
      "deleted_by confirmed \<noteq> [] \<longrightarrow>
         getp ''deleted'' (getp ''changed'' (ur_receipt res)) = JArr (map entity_json (deleted_by confirmed))"
      "ur_status res = Undo_undone \<longrightarrow> ur_remaining res = []"
    using reverseCreationDurably_report [OF assms] by (elim exE conjE) (rule that)
  have "degraded \<and> d' = d1 \<or> \<not> degraded \<and> rest = [] \<and> d' = d1
       \<or> \<not> degraded \<and> (\<exists>spec later. rest = spec # later
            \<and> (up_operation spec = Transition \<and> uc_prepared (ask (up_index spec)) = None \<and> d' = d1
               \<or> (\<exists>t. execute_undo_step op op spec (ask (up_index spec)) d1 = (d', Inr t) \<and> s_status t \<noteq> S_succeeded)))"
    using fin by (cases rest) (auto simp: undo_ended_def undo_ready_def intro: undo_operation.exhaust split: if_splits)
  with c res show ?thesis by (intro exI [of _ confirmed] exI [of _ rest] exI [of _ degraded] exI [of _ d1] conjI)
qed

theorem undo_reports_confirmed_deletions_witness:
  "\<exists>d' res confirmed rest. reverseCreationDurably ''w'' defaultAdminPolicy (Some ''uu'') (cw_gate demo_world) (cw_calls demo_world)
       [created_tag] ''uu'' (undoMutationPlan [created_tag]) undo_started_db = (d', Inr res)
     \<and> undoPlanSteps [created_tag] = confirmed @ rest \<and> ur_remaining res = remainingAfter [created_tag] (deleted_by confirmed)
     \<and> (deleted_by confirmed \<noteq> [] \<longrightarrow>
          getp ''deleted'' (getp ''changed'' (ur_receipt res)) = JArr (map entity_json (deleted_by confirmed)))"
proof -
  obtain d' x where x: "reverseCreationDurably ''w'' defaultAdminPolicy (Some ''uu'') (cw_gate demo_world) (cw_calls demo_world)
       [created_tag] ''uu'' (undoMutationPlan [created_tag]) undo_started_db = (d', x)" by fastforce
  have "case snd (reverseCreationDurably ''w'' defaultAdminPolicy (Some ''uu'') (cw_gate demo_world) (cw_calls demo_world)
       [created_tag] ''uu'' (undoMutationPlan [created_tag]) undo_started_db) of Inr res \<Rightarrow> True | Inl e \<Rightarrow> False"
    by code_simp
  with x obtain res where r: "x = Inr res" by (auto split: sum.splits)
  have "firstDeniedGroup defaultAdminPolicy [created_tag] = None" by code_simp
  from undo_reports_confirmed_deletions [OF x [unfolded r] _ this] x r show ?thesis by blast
qed

text \<open>
  \<^bold>\<open>C19.\<close> An undo is committed only when its record exists, is available
  and not due, belongs to the workspace and admin of the caller, every affected feature group
  is writable, the installation is active with the generation of the record, the authority
  check passed and a lease of that generation was acquired and not aborted; the lease is
  released afterwards.
\<close>

theorem undo_needs_every_guard:
  assumes "executeUndo claims w commit k c d = (c', d', Inr (Undo_committed status receipt persisted))"
  shows "\<exists>u i c1 d1 c2 l out. sel UndoRow.u_id k (undos d) = Some u \<and> u_status u = U_available \<and> now (rw_now w) < u_expires_at u
    \<and> u_workspace_id u = uk_workspaceId claims \<and> u_admin_user_id u = uk_adminUserId claims
    \<and> firstDeniedGroup (rw_policy w) (entities_of (u_reversal u)) = None
    \<and> rw_installation w = Some i \<and> in_active i \<and> u_installation_generation u = Some (in_generation i)
    \<and> rw_authority w c d = (c1, d1, None) \<and> acquire (uk_workspaceId claims) (in_generation i) c1 = Inr (c2, l)
    \<and> \<not> lease_aborted l (rw_aborted w) c2 \<and> c' = release l (rw_meanwhile w c2) \<and> commit u d1 = (d', Inr out)
    \<and> receipt = uo_receipt out \<and> persisted = (uo_resultRef out \<noteq> None)"
  by (rule executeUndo_guards [OF assms])

theorem undo_needs_every_guard_witness:
  "\<exists>c' persisted receipt. executeUndo demo_claims demo_request (executeUndoCommit demo_digest ''h'' demo_claims demo_world) ''u''
       new_coordinator undoable_db = (c', undone_db, Inr (Undo_committed 200 receipt persisted)) \<and> persisted"
proof -
  let ?r = "executeUndo demo_claims demo_request (executeUndoCommit demo_digest ''h'' demo_claims demo_world) ''u'' new_coordinator undoable_db"
  have e: "?r = (fst ?r, undone_db, Inr (Undo_committed 200 (uo_receipt demo_outcome) (uo_resultRef demo_outcome \<noteq> None)))"
    by (rule demo_request_run)
  from undo_needs_every_guard [OF e] have "uo_resultRef demo_outcome \<noteq> None" using demo_outcome_eval(3) by auto
  with e show ?thesis by blast
qed

text \<open>
  \<^bold>\<open>C20.\<close> Every request of a reachable governor invokes its operation at
  most once, and never both invokes it and takes its charge back: a cancelled request is
  refunded and was never dispatched, a dispatched one keeps its charge.
\<close>

theorem governor_charges_only_dispatched_calls:
  assumes "governor_reachable opt (t, g)" and "j < length (requests g)"
  shows "q_calls (rq g j) \<le> 1 \<and> \<not> (q_calls (rq g j) = 1 \<and> q_budgetRefunded (rq g j))
    \<and> (q_state (rq g j) = Rq_cancelled \<longrightarrow> q_calls (rq g j) = 0 \<and> q_budgetRefunded (rq g j))
    \<and> (q_state (rq g j) = Rq_dispatched \<longrightarrow> q_calls (rq g j) = 1 \<and> \<not> q_budgetRefunded (rq g j))"
proof -
  have "governor_inv None opt t g" using reachable_good [OF assms(1)] by (simp add: governor_good_def)
  from inv_request [OF this assms(2)] show ?thesis
    by (auto simp: request_ok_def untouched_def split: request_state.splits if_splits)
qed

theorem governor_charges_only_dispatched_calls_witness:
  "q_calls (rq busy_governor 0) = 1 \<and> \<not> q_budgetRefunded (rq busy_governor 0)"
  using governor_charges_only_dispatched_calls [OF busy_reachable, of 0] busy_governor_eval by simp

text \<open>
  \<^bold>\<open>C21.\<close> However many requests of a run pass through the governor, in any
  interleaving with cancellations and refunds, at most 60 operations charged to that run are
  ever invoked: the durable ledger refuses the others.
\<close>

theorem host_calls_of_a_run_are_bounded:
  assumes "governor_reachable opt (t, g)" and "run_row sc (run_rows (calls g)) = Some row"
  shows "calls_charged_to_run sc g \<le> 60"
proof -
  have "governor_inv None opt t g" using reachable_good [OF assms(1)] by (simp add: governor_good_def)
  then show ?thesis using assms(2) by (rule run_calls_bounded)
qed

theorem host_calls_of_a_run_are_bounded_witness:
  "\<exists>row. run_row demo_scope (run_rows (calls busy_governor)) = Some row \<and> hostCallsUsed (ar_budget row) = 2
     \<and> calls_charged_to_run demo_scope busy_governor \<le> 60"
proof -
  obtain row where row: "run_row demo_scope (run_rows (calls busy_governor)) = Some row" "hostCallsUsed (ar_budget row) = 2"
    using busy_governor_eval(7) by auto
  from host_calls_of_a_run_are_bounded [OF busy_reachable row(1)] row show ?thesis by blast
qed

text \<open>
  \<^bold>\<open>C22.\<close> Once the drain of a registered workspace deletion is resolved,
  no lease of that workspace is live in any generation, and none can be acquired while the
  deletion is registered: erasure never overlaps with an action that may still be writing.
\<close>

theorem deletion_waits_for_every_lease:
  assumes "coordinator_reachable s" and "deletions s ws = Some d"
    and "drain_resolved (dl_drain (deletion_log s ! d)) s"
  shows "\<not> live_lease ws l s \<and> acquire ws g s = Inl (Revoked ws g)"
  using drained_deletion_exclusive [OF coordinator_reachable_ok [OF assms(1)] assms(2,3)] by blast

theorem deletion_waits_for_every_lease_witness:
  "deletions drained_coordinator ''w'' = Some 0 \<and> \<not> live_lease ''w'' 0 drained_coordinator
   \<and> acquire ''w'' 3 drained_coordinator = Inl (Revoked ''w'' 3)"
  using deletion_waits_for_every_lease [OF coordinator_path(3) drained_coordinator_eval(1,2)] drained_coordinator_eval(1) by simp

text \<open>
  \<^bold>\<open>C23.\<close> A successful claim moves the preview from pending to executing
  and its prepared operation to executing in one transaction that also writes an
  outcome_unknown result, so the ambiguity is durable before anything is dispatched.
\<close>

theorem claim_records_unknown_first:
  assumes "store_ok d" and "markConfirmationExecuting E k d = Inr (d', True)"
  shows "\<exists>c c' r r' a. sel c_id k (confirmations d) = Some c \<and> c_status c = C_pending
    \<and> sel c_id k (confirmations d') = Some c' \<and> c_status c' = C_executing \<and> dispatch_payload_scrubbed c'
    \<and> sel o_id (c_operation_id c) (runs d) = Some r \<and> o_status r = O_prepared
    \<and> sel o_id (c_operation_id c) (runs d') = Some r' \<and> o_status r' = O_executing
    \<and> results d' = results d @ [a] \<and> a_kind a = R_outcome_unknown
    \<and> a_operation_id a = Some (c_operation_id c) \<and> o_action_result_id r' = Some (a_id a)
    \<and> c_action_result_id c' = Some (a_id a) \<and> steps d' = steps d"
proof -
  obtain c summary r a where
    "sel c_id k (confirmations d) = Some c" "c_status c = C_pending"
    "sel c_id k (confirmations d') = Some (claim_update (now E) (uuid E (entropy d)) summary c)"
    "sel o_id (c_operation_id c) (runs d) = Some r" "o_status r = O_prepared"
    "sel o_id (c_operation_id c) (runs d')
       = Some (r\<lparr>o_status := O_executing, o_action_result_id := Some (uuid E (entropy d)), o_updated_at := now E\<rparr>)"
    "results d' = results d @ [a]" "a_id a = uuid E (entropy d)" "a_kind a = R_outcome_unknown"
    "a_operation_id a = Some (c_operation_id c)" "steps d' = steps d"
    by (rule markConfirmationExecuting_effect [OF assms])
  then show ?thesis
    by (intro exI [of _ c] exI [of _ "claim_update (now E) (uuid E (entropy d)) summary c"] exI [of _ r]
        exI [of _ "r\<lparr>o_status := O_executing, o_action_result_id := Some (uuid E (entropy d)), o_updated_at := now E\<rparr>"]
        exI [of _ a]) (simp add: claim_update_def dispatch_payload_scrubbed_def)
qed

theorem claim_records_unknown_first_witness:
  "markConfirmationExecuting (scenario_env 200) ''c'' pending_db = Inr (claimed_db, True)
   \<and> (\<exists>a. results claimed_db = results pending_db @ [a] \<and> a_kind a = R_outcome_unknown)"
  using claim_records_unknown_first [OF pending_ok scenario_claim] scenario_claim by blast

text \<open>
  \<^bold>\<open>C24.\<close> Once a primary step of a plan has failed, whatever happens
  afterwards every attempt to begin a primary is refused with the poison of the scope and
  changes nothing.
\<close>

theorem failed_step_poisons_the_plan:
  assumes "scope_reachable ps s" and "is_primary s i" and "ds_status (ds s i) = D_failed" and "scope_step\<^sup>*\<^sup>* s s'"
  shows "begin_step k index Primary eligible s'
    = (s', Inl (Plan_violation (''mutation_scope_poisoned:'' @ the (primaryPoison s')))) \<and> primaryPoison s' \<noteq> None"
proof -
  note ok = scope_reachable_ok [OF assms(1)]
  have "i < length (descriptors s)" "ds_kind (ds s i) = Primary" using assms(2) by (simp_all add: is_primary_def)
  with scope_okD(3) [OF ok, of i] assms(3) have "primaryPoison s \<noteq> None" by (simp add: descriptor_ok_def)
  with failed_primary_stops_plan [OF ok assms(2,3,4)] scope_steps_poison [OF assms(4)] show ?thesis by simp
qed

theorem failed_step_poisons_the_plan_witness:
  "fst (begin_step ''link'' 1 Primary False failed_plan) = failed_plan \<and> primaryPoison failed_plan = Some (the (primaryPoison failed_plan))"
  using failed_step_poisons_the_plan [OF plan_failed plan_eval(6,7) rtranclp.rtrancl_refl, of "''link''" 1 False] by auto

text \<open>
  \<^bold>\<open>C25.\<close> A reachable governor with a queued request always has something
  that will run the queue again: an active request, whose release drains the queue, or an
  armed timer.
\<close>

theorem governor_never_strands_a_request:
  assumes "governor_reachable opt (t, g)"
  shows "queue g = [] \<or> 0 < active g \<or> timer g \<noteq> None"
  using reachable_good [OF assms] by (simp add: governor_good_def not_stuck_def)

theorem governor_never_strands_a_request_witness:
  "queue busy_governor = [1] \<and> timer busy_governor = None \<and> 0 < active busy_governor"
proof -
  have "timer busy_governor = None" by code_simp
  with governor_never_strands_a_request [OF busy_reachable] busy_governor_eval show ?thesis by auto
qed

text \<open>
  \<^bold>\<open>C26.\<close> Tasks of one key never overlap and start in the order they were
  asked for, however calls, completions and the removal of tails interleave; the lifecycle
  operations that run have non-decreasing request sequences.
\<close>

theorem keyed_tasks_run_alone_and_in_order:
  assumes "chain_reachable s" and "i < length (chain_calls s)" and "j < length (chain_calls s)"
    and "cc_phase (call_at s i) = Running" and "cc_key (call_at s i) = cc_key (call_at s j)"
  shows "(cc_phase (call_at s j) = Running \<longrightarrow> i = j) \<and> sorted_wrt (<) (executions s k) \<and> sorted (sequences s k)"
  using one_running_per_key [OF chain_reachable_ok [OF assms(1)] assms(2,3,4)] assms(5)
    executions_in_order [OF chain_reachable_ok [OF assms(1)]] by blast

theorem keyed_tasks_run_alone_and_in_order_witness:
  "cc_phase (call_at two_calls 0) = Running \<and> cc_phase (call_at two_calls 1) = Waiting \<and> sorted_wrt (<) (executions two_calls ''k'')"
  using keyed_tasks_run_alone_and_in_order [OF two_calls_reachable, of 0 0] two_calls_eval by simp

text \<open>
  \<^bold>\<open>C27.\<close> The sliding-window limiter, which forgets stamps and sweeps dead
  keys, answers every sequence of checks with non-decreasing times exactly as the reference
  limiter that remembers every allowed hit of every key for ever.
\<close>

theorem rate_limiter_is_exact:
  assumes "sorted (map snd cs)"
  shows "run_checks limit w cs new_limiter = run_reference limit w cs (\<lambda>k. [])"
proof (cases cs)
  case (Cons c cs')
  show ?thesis by (rule run_simulates [OF new_limiter_simulates [where t = "snd c"]]) (use assms Cons in auto)
qed simp

theorem rate_limiter_is_exact_witness:
  "run_checks 1 100 [(''k'', 0), (''k'', 50), (''k'', 100)] new_limiter = [Hit_allowed, Hit_denied 50, Hit_allowed]"
  by (subst rate_limiter_is_exact) (simp_all add: reference_check_def in_window_def)

text \<open>
  \<^bold>\<open>C28.\<close> The recursion of drain ends: with the length of the queue as
  fuel it satisfies, in every reachable state, the recursion equation of the code, in which
  dispatch calls drain again from its closures and drain then calls itself.
\<close>

theorem drain_terminates:
  assumes "governor_reachable opt (t, g)"
  shows "drain opt t g =
     (if queue g = [] \<or> concurrency opt \<le> active g then g
      else if t < cooldownUntil g then schedule t (cooldownUntil g - t) g
      else let g1 = pruneStarts t g in
           if rateCap opt \<le> int (length (starts g1)) then schedule t (hd (starts g1) + 1000 - t) g1
           else let i = hd (queue g1) in
                if q_kind (rq g1 i) = Mutation_request \<and> mutationActive g1 then g1
                else drain opt t (dispatch (drain opt t) t i (take_next t i g1)))"
  using reachable_good [OF assms] by (intro drain_unfold) (simp add: governor_good_def)

theorem drain_terminates_witness: "drain default_options 5 busy_governor = pruneStarts 5 busy_governor"
  by (subst drain_terminates [OF busy_reachable]) code_simp

text \<open>
  \<^bold>\<open>C29.\<close> The undo ledger keeps its type: in every execution that starts
  from an empty table the record ids are distinct, an expired record holds no entity any more,
  and a record has a result exactly when it is settled; a settled record never changes again.
\<close>

theorem undo_rows_well_formed:
  assumes "undos d = []" and "undo_step\<^sup>*\<^sup>* d d1" and "undo_step\<^sup>*\<^sup>* d1 d2"
    and "sel UndoRow.u_id k (undos d1) = Some u"
  shows "distinct (map UndoRow.u_id (undos d1))
    \<and> (u_status u = U_expired \<longrightarrow> u_reversal u = JArr [] \<and> u_remaining u = JArr [])
    \<and> (undo_settled (u_status u) = (u_action_result_id u \<noteq> None))
    \<and> (undo_settled (u_status u) \<longrightarrow> sel UndoRow.u_id k (undos d2) = Some u)"
proof -
  have ok: "undos_ok d1" by (rule undo_system.reachable_inv [OF assms(1,2)])
  then have "undo_row_ok u" using sel_SomeD [OF assms(4)] by (simp add: undos_ok_def list_all_iff)
  with ok settled_undo_final [OF assms(3) ok assms(4)] show ?thesis
    by (simp add: undos_ok_def undo_row_ok_def expired_scrubbed_def)
qed

theorem undo_rows_well_formed_witness:
  "\<exists>u. sel UndoRow.u_id ''u'' (undos (fst (getUndoRecord (undo_env 100000000) ''u'' undoable_db))) = Some u
     \<and> u_status u = U_expired \<and> u_reversal u = JArr [] \<and> u_remaining u = JArr []"
proof -
  let ?d = "fst (getUndoRecord (undo_env 100000000) ''u'' undoable_db)"
  have e: "undos blank_db = []" by (simp add: blank_db_def)
  have "undo_step blank_db undoable_db" "undo_step undoable_db ?d"
    using undo_step.records [OF undoable_record] undo_step.reads by blast+
  then have s: "undo_step\<^sup>*\<^sup>* blank_db ?d" by (meson converse_rtranclp_into_rtranclp rtranclp.rtrancl_refl)
  have "map_option u_status (sel UndoRow.u_id ''u'' (undos ?d)) = Some U_expired" by code_simp
  then obtain u where u: "sel UndoRow.u_id ''u'' (undos ?d) = Some u" "u_status u = U_expired" by auto
  with undo_rows_well_formed [OF e s rtranclp.rtrancl_refl u(1)] show ?thesis by blast
qed

text \<open>
  \<^bold>\<open>C30.\<close> The batch ceilings shown to the model are exact against the
  bound that is reserved for the plan, with the three calls before the reservation and the
  sixty of a turn. Group members, pending approvals, onboarding groups, items of an enriched
  invoice and assignees of a task with a rate fit exactly up to their derived ceiling; marked
  entries, balance users and imported projects fit up to their capped ceiling. A project setup
  with a client fits exactly up to the member ceiling without rates and exactly up to the rate
  ceiling with a rate for each member; the two ceilings together overrun the turn, and what
  the schema check of the combination admits fits.
\<close>

theorem shown_ceilings_are_exact:
  "(\<exists>n. GROUP_MEMBER_BATCH_MAX = Inr n \<and> (\<forall>operation ids.
       turn_cost ''clockify_groups_add_user'' operation ids \<le> TURN_HOST_CALL_LIMIT \<longleftrightarrow> int (length ids) \<le> n))
   \<and> (\<exists>n. APPROVAL_PENDING_BATCH_MAX = Inr n \<and> (\<forall>operation ids.
       turn_cost ''clockify_approvals_approve_pending'' operation ids \<le> TURN_HOST_CALL_LIMIT \<longleftrightarrow> int (length ids) \<le> n))
   \<and> (\<exists>n. ONBOARD_GROUP_BATCH_MAX = Inr n \<and> (\<forall>operation ids.
       turn_cost ''clockify_onboard_user'' operation ids \<le> TURN_HOST_CALL_LIMIT \<longleftrightarrow> countSteps ids ''add-user-to-group-'' \<le> n))
   \<and> (\<exists>n. INVOICE_ITEM_BATCH_MAX = Inr n \<and> (\<forall>operation ids. ''enrich-invoice'' \<in> set ids \<longrightarrow>
       (turn_cost ''clockify_invoices_create'' operation ids \<le> TURN_HOST_CALL_LIMIT \<longleftrightarrow> countSteps ids ''add-invoice-item-'' \<le> n)))
   \<and> (\<exists>n. SETUP_TASK_ASSIGNEE_BATCH_MAX = Inr n \<and> (\<forall>operation ids. getp ''rate'' (payload_of operation) \<noteq> JUndef \<longrightarrow>
       (turn_cost ''clockify_setup_task'' operation ids \<le> TURN_HOST_CALL_LIMIT
          \<longleftrightarrow> array_length (getp ''assigneeIds'' (payload_of operation)) \<le> n)))
   \<and> (\<exists>n. MARK_INVOICED_ENTRY_BATCH_MAX = Inr n \<and> (\<forall>operation ids. array_length (getp ''ids'' (payload_of operation)) \<le> n
       \<longrightarrow> turn_cost ''clockify_entries_mark_invoiced'' operation ids \<le> TURN_HOST_CALL_LIMIT))
   \<and> (\<exists>n. TIME_OFF_BALANCE_USER_BATCH_MAX = Inr n \<and> (\<forall>operation ids. array_length (getp ''userIds'' (payload_of operation)) \<le> n
       \<longrightarrow> turn_cost ''clockify_time_off_balance_update'' operation ids \<le> TURN_HOST_CALL_LIMIT))
   \<and> (\<forall>operation ids. distinct_strings (getp ''projectIds'' (payload_of (getp ''range'' (payload_of operation)))) \<le> INVOICE_IMPORT_PROJECT_BATCH_MAX
       \<longrightarrow> turn_cost ''clockify_invoices_import_time'' operation ids \<le> TURN_HOST_CALL_LIMIT)
   \<and> (\<exists>mm rr. SETUP_PROJECT_MEMBER_BATCH_MAX = Inr mm \<and> SETUP_PROJECT_RATE_BATCH_MAX = Inr rr
       \<and> (\<forall>n\<ge>0. CONFIRMED_REQUEST_PRE_RESERVATION_HOST_CALLS + estimateSetupProjectHostCalls n 0 True \<le> TURN_HOST_CALL_LIMIT \<longleftrightarrow> n \<le> mm)
       \<and> (\<forall>n\<ge>0. CONFIRMED_REQUEST_PRE_RESERVATION_HOST_CALLS + estimateSetupProjectHostCalls n n True \<le> TURN_HOST_CALL_LIMIT \<longleftrightarrow> n \<le> rr)
       \<and> TURN_HOST_CALL_LIMIT < CONFIRMED_REQUEST_PRE_RESERVATION_HOST_CALLS + estimateSetupProjectHostCalls mm rr True)
   \<and> (\<forall>members rates hasClient operation ids. setup_admitted members rates hasClient \<and> 0 \<le> members \<and> 0 \<le> rates
       \<and> array_length (getp ''addUserIds'' (payload_of operation)) \<le> members + rates
       \<and> array_length (getp ''memberRates'' (payload_of operation)) \<le> rates
       \<and> (is_string (getp ''clientId'' (payload_of operation)) \<longrightarrow> hasClient)
       \<longrightarrow> turn_cost ''clockify_setup_project'' operation ids \<le> TURN_HOST_CALL_LIMIT)"
  unfolding ceilings_eval INVOICE_IMPORT_PROJECT_BATCH_MAX_def
  by (intro conjI exI, (rule refl setup_ceilings(3)
      | (intro allI impI, (rule derived_ceilings_exact(1-3) | rule derived_ceilings_exact(4,5) capped_ceilings_fit setup_ceilings(1,2), assumption))
      | (intro allI impI, elim conjE, rule admitted_setup_fits, assumption+))+)

theorem shown_ceilings_are_exact_witness:
  "turn_cost ''clockify_invoices_create'' JNull (''enrich-invoice'' # replicate 25 ''add-invoice-item-x'') \<le> TURN_HOST_CALL_LIMIT
   \<and> \<not> turn_cost ''clockify_invoices_create'' JNull (''enrich-invoice'' # replicate 26 ''add-invoice-item-x'') \<le> TURN_HOST_CALL_LIMIT"
proof -
  obtain n where n: "INVOICE_ITEM_BATCH_MAX = Inr n" and fits: "\<And>operation ids. ''enrich-invoice'' \<in> set ids \<Longrightarrow>
      turn_cost ''clockify_invoices_create'' operation ids \<le> TURN_HOST_CALL_LIMIT \<longleftrightarrow> countSteps ids ''add-invoice-item-'' \<le> n"
    using shown_ceilings_are_exact [THEN conjunct2, THEN conjunct2, THEN conjunct2, THEN conjunct1] by blast
  have "n = 25" using n unfolding ceilings_eval by simp
  moreover have "countSteps (''enrich-invoice'' # replicate 25 ''add-invoice-item-x'') ''add-invoice-item-'' = 25"
    "countSteps (''enrich-invoice'' # replicate 26 ''add-invoice-item-x'') ''add-invoice-item-'' = 26"
    by code_simp+
  ultimately show ?thesis using fits by simp
qed

text \<open>
  \<^bold>\<open>C31.\<close> The gap between two steps: when the journal refuses a later step
  of a workflow (its row cannot be prepared or queued) after earlier steps succeeded at the
  host, the commit answers with execution_error, which settles the preview as
  definitive_failed and gives the idempotency key back, although every earlier step has been
  applied.
\<close>

theorem midway_fault_is_reported_definitive:
  assumes "map_option ru_status (getOperationRun op d) = Some O_executing" and "executed_in_order op op ps1 d ss d1"
    and "es_kind (pl_step p) = Primary" and "execute_planned op op p d1 = (d', Inl e)"
  shows "list_all (\<lambda>s. s_status s = S_succeeded) ss
    \<and> (\<exists>receipt. runCommit a (workflow_commit cb a op op (ps1 @ p # ps2)) d = (d', receipt)
         \<and> getp ''code'' receipt = JStr ''execution_error'' \<and> terminal_status receipt = R_definitive_failed
         \<and> releases_claim receipt)"
  using midway_fault_receipt [OF assms] executed_succeeded [OF assms(2)] by blast

theorem midway_fault_is_reported_definitive_witness:
  "s_status created_step = S_succeeded
   \<and> (\<exists>d' receipt. runCommit ''create_tag'' (workflow_commit demo_callbacks ''create_tag'' ''op'' ''op'' [create_planned, clashing_planned])
        claimed_db = (d', receipt) \<and> terminal_status receipt = R_definitive_failed)"
proof -
  obtain d' e where e: "execute_planned ''op'' ''op'' clashing_planned created_db = (d', Inl e)" using clashing_run by blast
  from midway_fault_is_reported_definitive [OF workflow_started created_in_order clashing_primary e, of "''create_tag''" demo_callbacks "[]"]
  show ?thesis by auto
qed

text \<open>
  \<^bold>\<open>C32.\<close> confirmPending lets a confirm through exactly when the caller is
  the session, workspace and admin of the preview, the preview is pending and unexpired, its
  stored operation still hashes to the recorded hash, the expected action fingerprint and
  catalog hash, where given, are those of the preview, and the nonce hashes to the stored one;
  the record it returns differs only in status and usedAt.
\<close>

theorem confirm_allowed_exactly_when:
  "confirmPending sha256 g nonce secret = Inr (Allowed r') \<longleftrightarrow>
     p_sessionId (g_record g) = g_sessionId g \<and> p_workspaceId (g_record g) = g_workspaceId g
     \<and> p_adminUserId (g_record g) = g_adminUserId g
     \<and> p_status (g_record g) = C_pending \<and> (\<exists>e. p_expiresAt (g_record g) = Some e \<and> g_now g < e)
     \<and> confirmationOperationBindingHash sha256 (g_record g) = Inr (p_operationHash (g_record g))
     \<and> g_expectedActionFingerprint g \<in> {None, Some [], Some (p_actionFingerprint (g_record g))}
     \<and> g_expectedCatalogHash g \<in> {None, Some [], Some (p_catalogHash (g_record g))}
     \<and> hashNonce sha256 nonce (p_id (g_record g)) (p_operationHash (g_record g)) secret = p_nonceHash (g_record g)
     \<and> r' = (g_record g)\<lparr>p_status := C_executing, p_usedAt := Some (g_now g)\<rparr>"
  unfolding confirmPending_allowed_iff checkConfirmationGate_ok_iff bound_to_def live_at_def fingerprint_ok_iff
  by (auto split: option.splits)

text \<open>
  \<^bold>\<open>C33.\<close> Before its expiry a preview built by createPendingConfirmation
  is confirmable by its own session, with the nonce that was handed out and its own
  fingerprints, exactly when its record still hashes to the operation hash it carries. That
  holds whenever it was built without a capability and without an operation hash supplied by
  the caller; a supplied hash is the one the record carries, so one that is not the hash of
  the record makes a preview that nobody can confirm.
\<close>

theorem fresh_preview_confirms:
  assumes "createPendingConfirmation sha256 i0 n0 o0 input = Inr cc" and "t < cc_expiresAt cc"
  shows "(confirmPending sha256
        \<lparr>g_record = cc_record cc, g_sessionId = ci_sessionId input, g_workspaceId = ci_workspaceId input,
         g_adminUserId = ci_adminUserId input, g_now = t,
         g_expectedActionFingerprint = Some (p_actionFingerprint (cc_record cc)),
         g_expectedCatalogHash = Some (p_catalogHash (cc_record cc))\<rparr> (cc_nonce cc) (ci_sessionSecret input)
      = Inr (Allowed ((cc_record cc)\<lparr>p_status := C_executing, p_usedAt := Some t\<rparr>))
      \<longleftrightarrow> confirmationOperationBindingHash sha256 (cc_record cc) = Inr (p_operationHash (cc_record cc)))
    \<and> (\<not> truthy (ci_capabilityId input) \<and> ci_operationBindingHash input = None
       \<longrightarrow> confirmationOperationBindingHash sha256 (cc_record cc) = Inr (p_operationHash (cc_record cc)))
    \<and> (\<forall>h. ci_operationBindingHash input = Some h \<longrightarrow> p_operationHash (cc_record cc) = h)"
  using fresh_confirmation_confirms [OF assms] fresh_binding_hash [OF assms(1)] createPendingConfirmation_facts(8) [OF assms(1)]
  unfolding own_gate_def by blast

theorem fresh_preview_confirms_witness:
  "createPendingConfirmation (\<lambda>t. t) ''i'' ''r'' ''o'' scenario_preview = Inr scenario_created
   \<and> confirmPending (\<lambda>t. t) scenario_gate (cc_nonce scenario_created) ''secret''
     = Inr (Allowed ((cc_record scenario_created)\<lparr>p_status := C_executing, p_usedAt := Some 200\<rparr>))"
  using fresh_preview_confirms [OF scenario_create scenario_not_due] scenario_create
  by (simp add: scenario_gate_def scenario_preview_def)

text \<open>
  \<^bold>\<open>C34.\<close> exactNonsecretJson loses nothing and lets nothing through: among
  the values of the model, which has no instances of classes such as Date and Map, it accepts
  a value exactly when it is plain JSON with no sensitive key, buffer or non-finite number at
  any depth whose text fits the byte bound, and then returns it with the object keys sorted
  and nothing else changed.
\<close>

theorem durable_evidence_is_exact:
  "exactNonsecretJson v maxBytes = Inr w
     \<longleftrightarrow> evidence_ok v \<and> w = canonical v \<and> jsonByteLength (canonical v) \<le> maxBytes"
  by (rule exactNonsecretJson_iff)

text \<open>
  \<^bold>\<open>C35.\<close> For every value whose objects have each key once, the output of
  both sanitizers has no sensitive key, no binary value and no serialised buffer at any depth.
  It is null or a part of the input in which every object stands for an object of the input at
  the same place that is neither a serialised buffer nor a map of bytes; the complete
  sanitizer neither shortens a string nor replaces anything. A bounded output is that value,
  its truncation marker, null, or a preview of a prefix of its text, so nothing that was
  redacted shows in a preview.
\<close>

theorem sanitized_json_is_secret_free:
  assumes "keyed v"
  shows "secret_free (sanitizeJson v) \<and> secret_free (sanitizeCompleteJson v)
    \<and> (sanitizeJson v = JNull \<or> redacts True v (sanitizeJson v))
    \<and> (sanitizeCompleteJson v = JNull \<or> redacts False v (sanitizeCompleteJson v))
    \<and> preview_of (sanitizeJson v) (boundedSanitizedJson v m)
    \<and> preview_of (sanitizeCompleteJson v) (boundedCompleteSanitizedJson v m)"
  using sanitizeJson_secret_free [OF assms] sanitizeCompleteJson_secret_free [OF assms] sanitized_redacts [of v]
    bounded_sanitized_previews [of v m] by blast

theorem sanitized_json_is_secret_free_witness:
  "let v = JObj [(''accessToken'', JStr ''x''), (''data'', JObj [(''type'', JStr ''Buffer''), (''data'', JArr [JNum 72])]), (''name'', JStr ''Tag'')]
   in sanitizeCompleteJson v = JObj [(''name'', JStr ''Tag'')] \<and> secret_free (sanitizeCompleteJson v) \<and> redacts False v (sanitizeCompleteJson v)"
proof -
  let ?v = "JObj [(''accessToken'', JStr ''x''), (''data'', JObj [(''type'', JStr ''Buffer''), (''data'', JArr [JNum 72])]), (''name'', JStr ''Tag'')]"
  have "keyed ?v" by code_simp
  moreover have "sanitizeCompleteJson ?v = JObj [(''name'', JStr ''Tag'')]" by code_simp
  ultimately show ?thesis using sanitized_json_is_secret_free [of ?v 0] unfolding Let_def by auto
qed

text \<open>
  \<^bold>\<open>C36.\<close> A compensation step can be prepared only when the plan persisted
  with its own operation names it as a compensation at that index, its source is a succeeded
  primary step of that same operation bound to the same plan, and no row of the operation uses
  that index, plan step or source already.
\<close>

theorem compensation_needs_persisted_authority:
  assumes "prepareCompensationStep E input d = Inr (d', k)"
  shows "\<exists>source r ds p. source \<in> set (steps d) \<and> s_kind source = Primary \<and> s_status source = S_succeeded
    \<and> Some (s_id source) = ps_compensatesStepId input \<and> s_operation_id source = ps_operationId input
    \<and> sel o_id (ps_operationId input) (runs d) = Some r
    \<and> persistedPlanDescriptors (o_operation r) = Some ds \<and> descriptor_at ds (ps_index input) = Some p
    \<and> pd_id p = ps_planStepId input \<and> pd_kind p = Compensation
    \<and> matchesPersistedDescriptor ds source Primary
    \<and> list_all (\<lambda>s. s_operation_id s = ps_operationId input \<longrightarrow>
         s_step_index s \<noteq> ps_index input \<and> s_plan_step_id s \<noteq> ps_planStepId input
         \<and> (s_kind s = Compensation \<longrightarrow> s_compensates_step_id s \<noteq> ps_compensatesStepId input)) (steps d)"
proof -
  obtain source r ds p where c: "source \<in> set (steps d)" "s_kind source = Primary" "s_status source = S_succeeded"
    "Some (s_id source) = ps_compensatesStepId input" "s_operation_id source = ps_operationId input"
    "sel o_id (ps_operationId input) (runs d) = Some r" "persistedPlanDescriptors (o_operation r) = Some ds"
    "descriptor_at ds (ps_index input) = Some p" "pd_id p = ps_planStepId input" "pd_kind p = Compensation"
    "matchesPersistedDescriptor ds source Primary" and unused: "\<not> compensation_used input d"
    by (rule prepareCompensationStep_authorised [OF assms])
  have "list_all (\<lambda>s. s_operation_id s = ps_operationId input \<longrightarrow>
         s_step_index s \<noteq> ps_index input \<and> s_plan_step_id s \<noteq> ps_planStepId input
         \<and> (s_kind s = Compensation \<longrightarrow> s_compensates_step_id s \<noteq> ps_compensatesStepId input)) (steps d)"
    using unused by (auto simp: compensation_used_def list_all_iff list_ex_iff)
  with c show ?thesis by blast
qed

theorem compensation_needs_persisted_authority_witness:
  "prepareCompensationStep (scenario_env 550) scenario_compensation failed_db = Inr (compensated_db, ''cs'')
   \<and> (\<exists>source. source \<in> set (steps failed_db) \<and> s_status source = S_succeeded
        \<and> s_operation_id source = ps_operationId scenario_compensation)"
  using compensation_needs_persisted_authority [OF scenario_compensate] scenario_compensate by blast

text \<open>
  \<^bold>\<open>C37.\<close> An ambiguous operation is settled at startup only from an
  authoritative match whose binding names the very operation, step, plan step, action, action
  fingerprint and catalog hash of the stored row, and the strategy of the primary plan step
  the row was written for; the step is outcome_unknown and the operation still hashes to its
  recorded hash.
\<close>

theorem reconciliation_needs_authoritative_binding:
  assumes "settleStartupReconciliation sha256 E k stepId result d = Inr (d', ref)"
  shows "\<exists>row s v. sel o_id k (runs d) = Some row \<and> o_status row = O_outcome_unknown
    \<and> hasValidPersistedOperationHash sha256 (toRun row) = Inr True
    \<and> s \<in> set (steps d) \<and> s_id s = stepId \<and> s_operation_id s = k \<and> s_kind s = Primary \<and> s_status s = S_outcome_unknown
    \<and> getp ''authoritative'' result = JBool True \<and> getp ''reason'' result = JStr ''authoritative_match''
    \<and> getp ''operationId'' (getp ''binding'' result) = JStr k
    \<and> getp ''stepId'' (getp ''binding'' result) = JStr stepId
    \<and> getp ''planStepId'' (getp ''binding'' result) = JStr (s_plan_step_id s)
    \<and> getp ''actionName'' (getp ''binding'' result) = JStr (o_action_name row)
    \<and> getp ''actionFingerprint'' (getp ''binding'' result) = JStr (o_action_fingerprint row)
    \<and> getp ''catalogHash'' (getp ''binding'' result) = JStr (o_catalog_hash row)
    \<and> descriptor_at (Reconciliation.plan_steps (ru_mutationPlan (toRun row))) (s_step_index s) = Some v
    \<and> getp ''id'' v = JStr (s_plan_step_id s) \<and> getp ''kind'' v = JStr ''primary''
    \<and> getp ''reconciliationStrategy'' v = getp ''strategy'' (getp ''binding'' result)"
  by (rule settleStartupReconciliation_binding [OF assms]) blast

theorem reconciliation_needs_authoritative_binding_witness:
  "\<exists>d' ref row. settleStartupReconciliation (\<lambda>t. t) (scenario_env 700) ''op'' ''st'' scenario_evidence recovered_db = Inr (d', ref)
     \<and> sel o_id ''op'' (runs recovered_db) = Some row \<and> o_status row = O_outcome_unknown
     \<and> getp ''catalogHash'' (getp ''binding'' scenario_evidence) = JStr (o_catalog_hash row)"
proof -
  from scenario_reconcile obtain d' ref where
    s: "settleStartupReconciliation (\<lambda>t. t) (scenario_env 700) ''op'' ''st'' scenario_evidence recovered_db = Inr (d', ref)"
    by (auto split: sum.splits)
  from reconciliation_needs_authoritative_binding [OF s] s show ?thesis by blast
qed

text \<open>
  \<^bold>\<open>C38.\<close> Recovery of an executing batch whose first executing item was
  claimed but never dispatched fails: the claim already wrote the result of the operation, the
  recovery inserts a second one, and the unique index on the operation of a result aborts the
  transaction.
\<close>

theorem batch_recovery_aborts_on_claimed_item:
  assumes "sel b_id k (batches d) = Some b" and "b_status b = B_executing"
    and "filter (\<lambda>i. bi_status i = I_executing) (listConfirmationBatchItems k d) = item # rest"
    and "\<not> operationWasDispatched (bi_operation_id item) d"
    and "Some (bi_operation_id item) \<in> a_operation_id ` set (results d)"
  shows "\<exists>e. recoverConfirmationBatch E k t d = Inl e"
  by (rule recoverConfirmationBatch_claimed_aborts [OF assms])

theorem batch_recovery_aborts_on_claimed_item_witness:
  "\<exists>e. recoverConfirmationBatch (scenario_env 600) ''b'' 600 batch_db = Inl e"
proof -
  have b: "sel b_id ''b'' (batches batch_db) = Some (hd (batches batch_db))" by (rule sel_hd) code_simp+
  have s: "b_status (hd (batches batch_db)) = B_executing" by code_simp
  have i: "filter (\<lambda>i. bi_status i = I_executing) (listConfirmationBatchItems ''b'' batch_db) = batch_item # []"
    by code_simp
  have u: "\<not> operationWasDispatched (bi_operation_id batch_item) batch_db" by code_simp
  have o: "Some (bi_operation_id batch_item) \<in> a_operation_id ` set (results batch_db)" by code_simp
  show ?thesis by (rule batch_recovery_aborts_on_claimed_item [OF b s i u o])
qed

text \<open>
  \<^bold>\<open>C39.\<close> Recovery settles an executing confirmation with the result
  already recorded for its operation: a confirmation that was claimed but whose step was never
  dispatched therefore becomes outcome_unknown, because the claim recorded that kind.
\<close>

theorem recovery_keeps_recorded_ambiguity:
  assumes "store_ok d" and "sel c_id k (confirmations d) = Some c" and "c_status c = C_executing"
    and "result_of_operation (c_operation_id c) d = Some a"
    and "recover_confirmation E t (c, row) (d, n) = Inr (d', n')"
  shows "\<exists>c'. sel c_id k (confirmations d') = Some c' \<and> c_status c' = confirmation_status_of (a_kind a)
    \<and> c_action_result_id c' = Some (a_id a)"
  by (rule recover_confirmation_recorded [OF assms])

theorem recovery_keeps_recorded_ambiguity_witness:
  "\<not> operationWasDispatched ''op'' claimed_db
   \<and> (\<exists>d' n' c'. recover_confirmation (scenario_env 600) 600 (hd (confirmations claimed_db), scenario_row)
           (claimed_db, \<lparr>n_operations = 0, n_ambiguous = 0, n_undos = 0\<rparr>) = Inr (d', n')
         \<and> sel c_id ''c'' (confirmations d') = Some c' \<and> c_status c' = C_outcome_unknown)"
proof -
  have c: "sel c_id ''c'' (confirmations claimed_db) = Some (hd (confirmations claimed_db))" by (rule sel_hd) code_simp+
  have s: "c_status (hd (confirmations claimed_db)) = C_executing" by code_simp
  have u: "\<not> operationWasDispatched ''op'' claimed_db" by code_simp
  have "case result_of_operation (c_operation_id (hd (confirmations claimed_db))) claimed_db of
      None \<Rightarrow> False | Some a \<Rightarrow> a_kind a = R_outcome_unknown" by code_simp
  then obtain a where a: "result_of_operation (c_operation_id (hd (confirmations claimed_db))) claimed_db = Some a"
    "a_kind a = R_outcome_unknown" by (auto split: option.splits)
  have "case recover_confirmation (scenario_env 600) 600 (hd (confirmations claimed_db), scenario_row)
      (claimed_db, \<lparr>n_operations = 0, n_ambiguous = 0, n_undos = 0\<rparr>) of Inr x \<Rightarrow> True | Inl e \<Rightarrow> False" by code_simp
  then obtain d' n' where r: "recover_confirmation (scenario_env 600) 600 (hd (confirmations claimed_db), scenario_row)
      (claimed_db, \<lparr>n_operations = 0, n_ambiguous = 0, n_undos = 0\<rparr>) = Inr (d', n')" by (auto split: sum.splits)
  from recovery_keeps_recorded_ambiguity [OF claimed_ok c s a(1) r] a(2) u r show ?thesis by auto
qed

text \<open>
  \<^bold>\<open>C40.\<close> The window alert of the host throttle monitor re-arms at every
  good answer while failures are still in the window: in an outage with a failure every 5.2
  seconds and a good answer just before each, n further failures log n further alerts,
  although at every good answer eleven failures remain in the window.
\<close>

theorem throttle_alert_floods:
  "snd (throttle_run throttle_defaults (outage ws n) (\<lambda>w. None)) = Consecutive_alert 4 # replicate (n + 1) (Window_alert 12)
   \<and> length (window_of (fst (throttle_run throttle_defaults (outage ws n @ [good_answer ws n]) (\<lambda>w. None))) ws) = 11"
  using outage_run [of ws n] window_never_drains [of ws n] by auto

end
